(* ===== verification/Prelude.thy ===== *)
theory Prelude
  imports Complex_Main "HOL-Library.Word" "HOL-Library.Sublist"
begin

text \<open>
  What every component shares: bytes and byte buffers, C's truncating conversions, the
  outcome of a C function that may return, call \<open>exit\<close> or run into undefined behaviour,
  and the generic facts about lists and buffers that the component proofs use.
\<close>

section \<open>Collections of facts\<close>

named_theorems buf_simps
  \<open>reading and writing byte buffers\<close>
named_theorems outcome_intros
  \<open>case rules for outcomes\<close>

section \<open>Bytes and buffers\<close>

type_synonym byte = "8 word"

abbreviation NUL :: byte where "NUL \<equiv> 0"
abbreviation LF :: byte where "LF \<equiv> 10"
abbreviation CR :: byte where "CR \<equiv> 13"

lemma unat_byte: "unat (b :: byte) < 256"
  using unsigned_less [of b] by simp

text \<open>A string literal as bytes, without its terminating NUL.\<close>

definition bytes :: "string \<Rightarrow> byte list" where
  "bytes cs = map of_char cs"

lemma length_bytes [simp]: "length (bytes cs) = length cs"
  by (simp add: bytes_def)

text \<open>
  \<open>buf_put off bs buf\<close> is the array \<open>buf\<close> after the bytes \<open>bs\<close> have been stored from index
  \<open>off\<close> on (a \<open>memcpy\<close>). The callers establish that the store is inside the array.
\<close>

definition buf_put :: "nat \<Rightarrow> 'a list \<Rightarrow> 'a list \<Rightarrow> 'a list" where
  "buf_put off bs buf = take off buf @ bs @ drop (off + length bs) buf"

lemma length_buf_put [buf_simps]:
  "off + length bs \<le> length buf \<Longrightarrow> length (buf_put off bs buf) = length buf"
  by (simp add: buf_put_def)

lemma take_buf_put_0 [buf_simps]: "take (length bs) (buf_put 0 bs buf) = bs"
  by (simp add: buf_put_def)

lemma take_buf_put_take [buf_simps]:
  "take (min (length d) n) (buf_put 0 (take n d) buf) = take n d"
  using take_buf_put_0 [of "take n d" buf] by simp

lemma buf_put_nil [buf_simps]: "buf_put off [] buf = buf"
  by (simp add: buf_put_def)

text \<open>A header stored in front of a payload, as the packet builders do.\<close>

lemma take_header_payload [buf_simps]:
  assumes "length h = n" and "n + length bs \<le> length buf"
  shows "take (n + length bs) (buf_put 0 h (buf_put n bs buf)) = h @ bs"
proof -
  have "length (take n buf) = n" using assms by simp
  then show ?thesis using assms by (simp add: buf_put_def)
qed

lemma take_put_put [buf_simps]:
  "length h = 2 \<Longrightarrow> length h2 = 2 \<Longrightarrow> 4 + n \<le> length buf \<Longrightarrow>
   take (4 + n) (buf_put 2 h2 (buf_put 0 h buf)) = h @ h2 @ take n (drop 4 buf)"
  by (simp add: buf_put_def take_drop add.commute eval_nat_numeral)

section \<open>C conversions\<close>

text \<open>An \<open>int\<close> stored into a \<open>short\<close>, and an \<open>int\<close> kept to its 32 bits.\<close>

definition to_short :: "int \<Rightarrow> int" where
  "to_short i = signed_take_bit 15 i"

lemma to_short_id: "- 32768 \<le> i \<Longrightarrow> i < 32768 \<Longrightarrow> to_short i = i"
  by (simp add: to_short_def signed_take_bit_int_eq_self_iff)

lemma to_short_range: "- 32768 \<le> to_short i \<and> to_short i < 32768"
  unfolding to_short_def
  using signed_take_bit_int_greater_eq_minus_exp [of 15 i] signed_take_bit_int_less_exp [of 15 i]
  by simp

section \<open>Outcomes of C functions\<close>

text \<open>
  A function returns a value, ends the process by \<open>exit\<close>, or does something the C standard
  leaves undefined (a store outside an array). The state at that moment is kept in every
  case: the packets sent and the bytes written before an \<open>exit\<close> remain.
\<close>

datatype ('a, 's) outcome = Ret 'a 's | Exit int 's | Fault 's

fun obind :: "('a, 's) outcome \<Rightarrow> ('a \<Rightarrow> 's \<Rightarrow> ('b, 's) outcome) \<Rightarrow> ('b, 's) outcome" where
  "obind (Ret x s) f = f x s"
| "obind (Exit c s) f = Exit c s"
| "obind (Fault s) f = Fault s"

fun ostate :: "('a, 's) outcome \<Rightarrow> 's" where
  "ostate (Ret x s) = s"
| "ostate (Exit c s) = s"
| "ostate (Fault s) = s"

lemma obind_Ret_iff:
  "obind m f = Ret y t \<longleftrightarrow> (\<exists>x s. m = Ret x s \<and> f x s = Ret y t)"
  by (cases m) auto

lemma obind_RetE [elim!]:
  assumes "obind m f = Ret y t"
  obtains x s where "m = Ret x s" "f x s = Ret y t"
  using assms by (auto simp: obind_Ret_iff)

lemma obind_assoc: "obind (obind m f) g = obind m (\<lambda>x s. obind (f x s) g)"
  by (cases m) auto

lemma obind_cong: "m = m' \<Longrightarrow> (\<And>x s. m' = Ret x s \<Longrightarrow> f x s = g x s) \<Longrightarrow> obind m f = obind m' g"
  by (cases m') auto

text \<open>
  A predicate on final states, whichever way the function ends; it distributes over
  sequencing, which is how the frame and safety lemmas of the components are put together.
\<close>

definition ends :: "('s \<Rightarrow> bool) \<Rightarrow> ('a, 's) outcome \<Rightarrow> bool" where
  "ends P m = P (ostate m)"

lemma ends_simps [simp]:
  "ends P (Ret x s) = P s" "ends P (Exit c s) = P s" "ends P (Fault s) = P s"
  by (simp_all add: ends_def)

lemma ends_obind [outcome_intros]:
  "ends P m \<Longrightarrow> (\<And>x s. m = Ret x s \<Longrightarrow> ends P (f x s)) \<Longrightarrow> ends P (obind m f)"
  by (cases m) auto

lemma ends_if [outcome_intros]:
  "(b \<Longrightarrow> ends P x) \<Longrightarrow> (\<not> b \<Longrightarrow> ends P y) \<Longrightarrow> ends P (if b then x else y)"
  by simp

section \<open>Lists\<close>

lemma drop_take_snoc:
  "take (n + m) xs = take n xs @ take m (drop n xs)"
  by (rule take_add)

lemma prefix_take: "prefix (take n xs) xs"
  by (metis append_take_drop_id prefixI)

text \<open>A fact checked for a range of numbers, one by one.\<close>

lemma list_all_upt: "list_all P [a..<b] \<Longrightarrow> a \<le> n \<Longrightarrow> n < b \<Longrightarrow> P n"
  by (simp add: list_all_iff)

end
