(* ===== verification/CFloat.thy ===== *)
theory CFloat
  imports Prelude "HOL-Library.Log_Nat"
begin

text \<open>
  The part of C's \<open>float\<close> and \<open>double\<close> arithmetic the modelled code uses. A finite
  floating-point value is the rational it denotes; every operation is the exact one
  followed by rounding to the format's precision (24 bits for \<open>float\<close>, 53 for \<open>double\<close>),
  ties to even, as IEEE 754 prescribes for the default rounding mode. Overflow to infinity
  and subnormal results are outside this model: the values the code computes with
  (seconds, table sizes and ratios) stay far away from both ends of the exponent range.
\<close>

section \<open>Rounding\<close>

definition round_half_even :: "rat \<Rightarrow> int" where
  "round_half_even x =
     (let f = \<lfloor>x\<rfloor>; d = x - of_int f
      in if d < 1/2 then f else if 1/2 < d then f + 1 else if even f then f else f + 1)"

lemma round_half_even_int [simp]: "round_half_even (of_int i) = i"
  by (simp add: round_half_even_def Let_def)

lemma round_half_even_error: "\<bar>of_int (round_half_even x) - x\<bar> \<le> 1/2"
  unfolding round_half_even_def Let_def
  using of_int_floor_le [of x] floor_correct [of x]
  by (auto simp: abs_if) (linarith+)

lemma round_half_even_mono: "x \<le> y \<Longrightarrow> round_half_even x \<le> round_half_even y"
proof -
  assume "x \<le> y"
  then consider "\<lfloor>x\<rfloor> = \<lfloor>y\<rfloor>" | "\<lfloor>x\<rfloor> < \<lfloor>y\<rfloor>"
    using floor_mono [of x y] by linarith
  then show ?thesis
  proof cases
    case 1
    then show ?thesis using \<open>x \<le> y\<close> by (auto simp: round_half_even_def Let_def)
  next
    case 2
    then have "\<lfloor>x\<rfloor> + 1 \<le> \<lfloor>y\<rfloor>" by simp
    moreover have "round_half_even x \<le> \<lfloor>x\<rfloor> + 1" "\<lfloor>y\<rfloor> \<le> round_half_even y"
      by (auto simp: round_half_even_def Let_def)
    ultimately show ?thesis by linarith
  qed
qed

lemma round_half_even_nonneg: "0 \<le> x \<Longrightarrow> 0 \<le> round_half_even x"
  using round_half_even_mono [of 0 x] round_half_even_int [of 0] by simp

text \<open>
  \<open>fl_log x\<close> is the exponent of the leading bit of a nonzero rational: the largest \<open>k\<close> with
  \<open>2 powi k \<le> \<bar>x\<bar>\<close>; \<open>fl p x\<close> keeps \<open>p\<close> bits from there.
\<close>

definition fl_log :: "rat \<Rightarrow> int" where
  "fl_log x = (case quotient_of \<bar>x\<bar> of (n, d) \<Rightarrow>
     let k = bitlen n - bitlen d in if (2::rat) powi k \<le> \<bar>x\<bar> then k else k - 1)"

definition fl :: "nat \<Rightarrow> rat \<Rightarrow> rat" where
  "fl p x = (if x = 0 then 0
     else let u = (2::rat) powi (fl_log x - int p + 1)
          in of_int (round_half_even (x / u)) * u)"

abbreviation flt :: "rat \<Rightarrow> rat" where "flt \<equiv> fl 24"
abbreviation dbl :: "rat \<Rightarrow> rat" where "dbl \<equiv> fl 53"

lemma fl_0 [simp]: "fl p 0 = 0"
  by (simp add: fl_def)

lemma fl_nonneg: "0 \<le> x \<Longrightarrow> 0 \<le> fl p x"
  by (auto simp: fl_def Let_def intro!: mult_nonneg_nonneg round_half_even_nonneg divide_nonneg_nonneg)

text \<open>The conversion \<open>(int) x\<close>: towards zero, undefined outside the range of \<open>int\<close>.\<close>

definition trunc_int :: "rat \<Rightarrow> int option" where
  "trunc_int x = (let i = (if x < 0 then \<lceil>x\<rceil> else \<lfloor>x\<rfloor>)
     in if - (2 ^ 31) \<le> i \<and> i < 2 ^ 31 then Some i else None)"

text \<open>Integers of at most \<open>p\<close> bits are represented exactly.\<close>

lemma fl_log_of_int: "n \<noteq> 0 \<Longrightarrow> fl_log (of_int n) = bitlen \<bar>n\<bar> - 1"
proof -
  assume "n \<noteq> 0"
  have q: "quotient_of \<bar>of_int n\<bar> = (\<bar>n\<bar>, 1)"
    using quotient_of_rat_of_int [of "\<bar>n\<bar>"] by simp
  have "1 \<le> bitlen \<bar>n\<bar>"
    using \<open>n \<noteq> 0\<close> bitlen_eq_zero_iff [of "\<bar>n\<bar>"] bitlen_nonneg [of "\<bar>n\<bar>"] by linarith
  then have e: "bitlen \<bar>n\<bar> - 1 = int (nat (bitlen \<bar>n\<bar> - 1))"
    by simp
  have "(2::int) ^ nat (bitlen \<bar>n\<bar> - 1) \<le> \<bar>n\<bar>"
    using bitlen_bounds [of "\<bar>n\<bar>"] \<open>n \<noteq> 0\<close> by simp
  then have "(2::rat) ^ nat (bitlen \<bar>n\<bar> - 1) \<le> \<bar>of_int n\<bar>"
    by (metis of_int_abs of_int_le_iff of_int_numeral of_int_power)
  then have "(2::rat) powi (bitlen \<bar>n\<bar> - 1) \<le> \<bar>of_int n\<bar>"
    by (subst e) (simp only: power_int_of_nat)
  moreover have "bitlen 1 = 1" by (simp add: bitlen_def floorlog_def)
  ultimately show ?thesis using q by (simp add: fl_log_def Let_def)
qed

lemma fl_of_int:
  assumes "\<bar>n\<bar> < 2 ^ p"
  shows "fl p (of_int n) = of_int n"
proof (cases "n = 0")
  case False
  let ?b = "bitlen \<bar>n\<bar>"
  have "?b \<le> int p"
    using assms False bitlen_le_iff_power [of "\<bar>n\<bar>" p] by simp
  then obtain j where j: "?b = int p - int j"
    by (metis diff_diff_eq2 diff_add_cancel zle_iff_zadd add_diff_cancel_left')
  have u: "(2::rat) powi (fl_log (of_int n) - int p + 1) = 1 / 2 ^ j"
    using False by (simp add: fl_log_of_int j power_int_minus divide_inverse)
  have "round_half_even (of_int n / (1 / 2 ^ j)) = n * 2 ^ j"
    using round_half_even_int [of "n * 2 ^ j"] by simp
  then show ?thesis using False u by (simp add: fl_def Let_def)
qed simp

corollary fl_of_nat:
  assumes "n < 2 ^ p"
  shows "fl p (of_nat n) = of_nat n"
proof -
  have "\<bar>int n\<bar> < 2 ^ p" using assms by (metis abs_of_nat of_nat_less_iff of_nat_numeral of_nat_power)
  from fl_of_int [OF this] show ?thesis by simp
qed

text \<open>The leading bit is where \<open>fl_log\<close> says, so rounding is a small relative error.\<close>

lemma fl_log_le:
  assumes "x \<noteq> 0"
  shows "(2::rat) powi fl_log x \<le> \<bar>x\<bar>"
proof -
  obtain n d where q: "quotient_of \<bar>x\<bar> = (n, d)" by fastforce
  have d: "0 < d" and x: "\<bar>x\<bar> = of_int n / of_int d"
    using quotient_of_denom_pos [OF q] quotient_of_div [OF q] by simp_all
  have "0 < (of_int n :: rat)"
    using assms x d by (metis abs_of_pos of_int_0_less_iff zero_less_abs_iff zero_less_divide_iff order.asym)
  then have n: "0 < n" by simp
  let ?k = "bitlen n - bitlen d"
  show ?thesis
  proof (cases "(2::rat) powi ?k \<le> \<bar>x\<bar>")
    case True
    then show ?thesis by (simp add: fl_log_def q Let_def)
  next
    case False
    have "(2::int) ^ nat (bitlen n - 1) \<le> n" "d < 2 ^ nat (bitlen d)"
      using bitlen_bounds [OF n] bitlen_bounds [OF d] by simp_all
    then have "(of_int (2 ^ nat (bitlen n - 1)) :: rat) \<le> of_int n"
      "(of_int d :: rat) \<le> of_int (2 ^ nat (bitlen d))"
      by (simp_all only: of_int_le_iff)
    then have b: "(2::rat) ^ nat (bitlen n - 1) \<le> of_int n" "of_int d \<le> (2::rat) ^ nat (bitlen d)"
      by simp_all
    have p: "1 \<le> bitlen n" "1 \<le> bitlen d"
      using n d bitlen_eq_zero_iff bitlen_nonneg by (metis int_one_le_iff_zero_less less_le not_less order_refl)+
    have "(2::rat) powi (?k - 1) = 2 powi (bitlen n - 1) / 2 powi bitlen d"
      by (simp add: power_int_diff)
    also have "\<dots> = 2 ^ nat (bitlen n - 1) / 2 ^ nat (bitlen d)"
      using p by (simp add: power_int_def)
    also have "\<dots> \<le> of_int n / of_int d"
      using b d n by (intro frac_le) simp_all
    also have "\<dots> = \<bar>x\<bar>" using x by simp
    finally show ?thesis using False by (simp add: fl_log_def q Let_def)
  qed
qed

lemma fl_error:
  assumes "10 \<le> p"
  shows "\<bar>fl p x - x\<bar> \<le> \<bar>x\<bar> / 1000"
proof (cases "x = 0")
  case False
  define u where "u = (2::rat) powi (fl_log x - int p + 1)"
  have u: "0 < u" by (simp add: u_def)
  have "fl p x - x = (of_int (round_half_even (x / u)) - x / u) * u"
    using False u by (simp add: fl_def Let_def u_def algebra_simps)
  then have "\<bar>fl p x - x\<bar> = \<bar>of_int (round_half_even (x / u)) - x / u\<bar> * u"
    using u by (simp add: abs_mult)
  also have "\<dots> \<le> 1/2 * u"
    using u round_half_even_error by (intro mult_right_mono) simp_all
  also have "\<dots> = 2 powi fl_log x * 2 powi (- int p)"
    by (simp add: u_def power_int_add power_int_diff power_int_minus divide_simps)
  also have "\<dots> \<le> \<bar>x\<bar> * (1 / 1000)"
  proof (rule mult_mono)
    have "(1000::rat) \<le> 2 ^ 10" by simp
    also have "\<dots> \<le> 2 ^ p" using assms by (rule power_increasing) simp
    finally show "(2::rat) powi (- int p) \<le> 1 / 1000"
      by (simp add: power_int_minus divide_simps)
  qed (use fl_log_le [OF False] in simp_all)
  finally show ?thesis by simp
qed simp

end
