(* ===== verification/TftpRtt.thy ===== *)
theory TftpRtt
  imports CFloat
begin

text \<open>
  The round-trip timer of the TFTP programs: \<open>server/rtt.c\<close> with \<open>rtt.h\<close>, and the client's
  copy \<open>client/rtt_cli.c\<close> with \<open>rtt_cli.h\<close>. The estimators are \<open>float\<close>s, the
  retransmission counters and timeouts C \<open>short\<close>s. A \<open>gettimeofday\<close> result is an argument,
  \<open>None\<close> when the call fails.
\<close>

section \<open>State\<close>

type_synonym timeval = "int \<times> int"  \<comment> \<open>\<open>tv_sec\<close>, \<open>tv_usec\<close>\<close>

record rtt_struct =
  rtt_rtt :: rat
  rtt_srtt :: rat
  rtt_rttdev :: rat
  rtt_nrexmt :: int
  rtt_currto :: int
  rtt_nxtrto :: int
  time_start :: timeval
  time_stop :: timeval

abbreviation (input) RTT_RXTMIN :: int where "RTT_RXTMIN \<equiv> 2"
abbreviation (input) RTT_RXTMAX :: int where "RTT_RXTMAX \<equiv> 120"
abbreviation (input) RTT_MAXNREXMT :: int where "RTT_MAXNREXMT \<equiv> 4"

definition exp_backoff :: "int list" where
  "exp_backoff = [1, 2, 4, 8, 16]"

section \<open>Operations\<close>

definition rtt_init :: "rtt_struct \<Rightarrow> rtt_struct" where
  "rtt_init ptr = ptr\<lparr>rtt_rtt := 0, rtt_srtt := 0, rtt_rttdev := 3/2, rtt_nxtrto := 0\<rparr>"

definition rtt_newpack :: "rtt_struct \<Rightarrow> rtt_struct" where
  "rtt_newpack ptr = ptr\<lparr>rtt_nrexmt := 0\<rparr>"

text \<open>
  \<open>rtt_start\<close>: a retransmission multiplies the current timeout by the back-off of the
  retransmission count (an index outside the table is undefined behaviour); otherwise the
  timeout saved from a retransmitted packet is used once, or one is computed from the
  estimators and clamped.
\<close>

definition rtt_start :: "timeval option \<Rightarrow> rtt_struct \<Rightarrow> (int, rtt_struct) outcome" where
  "rtt_start now ptr =
     (if rtt_nrexmt ptr > 0 then
        (if rtt_nrexmt ptr \<le> RTT_MAXNREXMT then
           let ptr = ptr\<lparr>rtt_currto := to_short (rtt_currto ptr * exp_backoff ! nat (rtt_nrexmt ptr))\<rparr>
           in Ret (rtt_currto ptr) ptr
         else Fault ptr)
      else case now of
        None \<Rightarrow> Exit 1 ptr
      | Some tv \<Rightarrow>
          let ptr = ptr\<lparr>time_start := tv\<rparr> in
          if rtt_nxtrto ptr > 0 then
            let ptr = ptr\<lparr>rtt_currto := rtt_nxtrto ptr, rtt_nxtrto := 0\<rparr>
            in Ret (rtt_currto ptr) ptr
          else (case trunc_int (dbl (dbl (rtt_srtt ptr + 2 * rtt_rttdev ptr) + 1/2)) of
              None \<Rightarrow> Fault ptr
            | Some rexmt \<Rightarrow>
                let rexmt = (if rexmt < RTT_RXTMIN then RTT_RXTMIN
                             else if rexmt > RTT_RXTMAX then RTT_RXTMAX else rexmt);
                    ptr = ptr\<lparr>rtt_currto := rexmt\<rparr>
                in Ret (rtt_currto ptr) ptr))"

text \<open>The microseconds of a \<open>timeval\<close>, computed in \<open>double\<close>.\<close>

definition usecs :: "timeval \<Rightarrow> rat" where
  "usecs tv = dbl (dbl (of_int (fst tv) * 1000000) + of_int (snd tv))"

definition rtt_stop :: "timeval option \<Rightarrow> rtt_struct \<Rightarrow> (unit, rtt_struct) outcome" where
  "rtt_stop now ptr =
     (if rtt_nrexmt ptr > 0 then Ret () (ptr\<lparr>rtt_nxtrto := rtt_currto ptr\<rparr>)
      else let ptr = ptr\<lparr>rtt_nxtrto := 0\<rparr> in
        case now of
          None \<Rightarrow> Exit 1 ptr
        | Some tv \<Rightarrow>
            let ptr = ptr\<lparr>time_stop := tv\<rparr>;
                ptr = ptr\<lparr>rtt_rtt := flt (dbl (dbl (usecs (time_stop ptr) - usecs (time_start ptr))
                                               / 1000000))\<rparr>;
                err = flt (rtt_rtt ptr - rtt_srtt ptr);
                ptr = ptr\<lparr>rtt_srtt := flt (dbl (rtt_srtt ptr + err / 8))\<rparr>;
                err = (if err < 0 then - err else err);
                ptr = ptr\<lparr>rtt_rttdev := flt (dbl (rtt_rttdev ptr + dbl (err - rtt_rttdev ptr) / 4))\<rparr>
            in Ret () ptr)"

definition rtt_timeout :: "timeval option \<Rightarrow> rtt_struct \<Rightarrow> (int, rtt_struct) outcome" where
  "rtt_timeout now ptr =
     obind (rtt_stop now ptr) (\<lambda>_ ptr.
       let ptr = ptr\<lparr>rtt_nrexmt := to_short (rtt_nrexmt ptr + 1)\<rparr>
       in if rtt_nrexmt ptr > RTT_MAXNREXMT then Ret (- 1) ptr else Ret 0 ptr)"

section \<open>The client's copy\<close>

text \<open>
  \<open>rtt_cli.c\<close> is the same code with \<open>err_sys\<close> (print and \<open>exit(1)\<close>) where the server prints
  and exits itself; it is translated on its own, and shown equal to the server's.
\<close>

definition rtt_init_cli :: "rtt_struct \<Rightarrow> rtt_struct" where
  "rtt_init_cli ptr = ptr\<lparr>rtt_rtt := 0, rtt_srtt := 0, rtt_rttdev := 3/2, rtt_nxtrto := 0\<rparr>"

definition rtt_newpack_cli :: "rtt_struct \<Rightarrow> rtt_struct" where
  "rtt_newpack_cli ptr = ptr\<lparr>rtt_nrexmt := 0\<rparr>"

definition rtt_start_cli :: "timeval option \<Rightarrow> rtt_struct \<Rightarrow> (int, rtt_struct) outcome" where
  "rtt_start_cli now ptr =
     (if rtt_nrexmt ptr > 0 then
        (if rtt_nrexmt ptr \<le> RTT_MAXNREXMT then
           let ptr = ptr\<lparr>rtt_currto := to_short (rtt_currto ptr * exp_backoff ! nat (rtt_nrexmt ptr))\<rparr>
           in Ret (rtt_currto ptr) ptr
         else Fault ptr)
      else case now of
        None \<Rightarrow> Exit 1 ptr
      | Some tv \<Rightarrow>
          let ptr = ptr\<lparr>time_start := tv\<rparr> in
          if rtt_nxtrto ptr > 0 then
            let ptr = ptr\<lparr>rtt_currto := rtt_nxtrto ptr, rtt_nxtrto := 0\<rparr>
            in Ret (rtt_currto ptr) ptr
          else (case trunc_int (dbl (dbl (rtt_srtt ptr + 2 * rtt_rttdev ptr) + 1/2)) of
              None \<Rightarrow> Fault ptr
            | Some rexmt \<Rightarrow>
                let rexmt = (if rexmt < RTT_RXTMIN then RTT_RXTMIN
                             else if rexmt > RTT_RXTMAX then RTT_RXTMAX else rexmt);
                    ptr = ptr\<lparr>rtt_currto := rexmt\<rparr>
                in Ret (rtt_currto ptr) ptr))"

definition rtt_stop_cli :: "timeval option \<Rightarrow> rtt_struct \<Rightarrow> (unit, rtt_struct) outcome" where
  "rtt_stop_cli now ptr =
     (if rtt_nrexmt ptr > 0 then Ret () (ptr\<lparr>rtt_nxtrto := rtt_currto ptr\<rparr>)
      else let ptr = ptr\<lparr>rtt_nxtrto := 0\<rparr> in
        case now of
          None \<Rightarrow> Exit 1 ptr
        | Some tv \<Rightarrow>
            let ptr = ptr\<lparr>time_stop := tv\<rparr>;
                ptr = ptr\<lparr>rtt_rtt := flt (dbl (dbl (usecs (time_stop ptr) - usecs (time_start ptr))
                                               / 1000000))\<rparr>;
                err = flt (rtt_rtt ptr - rtt_srtt ptr);
                ptr = ptr\<lparr>rtt_srtt := flt (dbl (rtt_srtt ptr + err / 8))\<rparr>;
                err = (if err < 0 then - err else err);
                ptr = ptr\<lparr>rtt_rttdev := flt (dbl (rtt_rttdev ptr + dbl (err - rtt_rttdev ptr) / 4))\<rparr>
            in Ret () ptr)"

definition rtt_timeout_cli :: "timeval option \<Rightarrow> rtt_struct \<Rightarrow> (int, rtt_struct) outcome" where
  "rtt_timeout_cli now ptr =
     obind (rtt_stop_cli now ptr) (\<lambda>_ ptr.
       let ptr = ptr\<lparr>rtt_nrexmt := to_short (rtt_nrexmt ptr + 1)\<rparr>
       in if rtt_nrexmt ptr > RTT_MAXNREXMT then Ret (- 1) ptr else Ret 0 ptr)"

lemma rtt_cli_eq:
  "rtt_init_cli = rtt_init" "rtt_newpack_cli = rtt_newpack"
  "rtt_start_cli = rtt_start" "rtt_stop_cli = rtt_stop" "rtt_timeout_cli = rtt_timeout"
proof -
  show "rtt_init_cli = rtt_init" "rtt_newpack_cli = rtt_newpack"
    by (intro ext, simp add: rtt_init_def rtt_init_cli_def rtt_newpack_def rtt_newpack_cli_def)+
  show "rtt_start_cli = rtt_start"
    by (intro ext) (simp only: rtt_start_def rtt_start_cli_def)
  show stop: "rtt_stop_cli = rtt_stop"
    by (intro ext) (simp only: rtt_stop_def rtt_stop_cli_def)
  show "rtt_timeout_cli = rtt_timeout"
    by (intro ext) (simp only: rtt_timeout_def rtt_timeout_cli_def stop)
qed

section \<open>Facts\<close>

text \<open>A fresh packet's timeout is clamped, whatever the estimators hold.\<close>

lemma rtt_start_fresh_bounds:
  assumes "rtt_nrexmt p \<le> 0" "rtt_nxtrto p \<le> 0" "rtt_start now p = Ret t q"
  shows "RTT_RXTMIN \<le> t \<and> t \<le> RTT_RXTMAX \<and> rtt_currto q = t"
  using assms
  by (auto simp: rtt_start_def Let_def split: option.splits if_splits)

text \<open>A retransmission multiplies the stored timeout; nothing else is touched.\<close>

lemma rtt_start_retransmit:
  assumes "1 \<le> rtt_nrexmt p" "rtt_nrexmt p \<le> RTT_MAXNREXMT"
  shows "rtt_start now p =
    Ret (to_short (rtt_currto p * 2 ^ nat (rtt_nrexmt p)))
        (p\<lparr>rtt_currto := to_short (rtt_currto p * 2 ^ nat (rtt_nrexmt p))\<rparr>)"
proof -
  have "rtt_nrexmt p = 1 \<or> rtt_nrexmt p = 2 \<or> rtt_nrexmt p = 3 \<or> rtt_nrexmt p = 4"
    using assms by linarith
  then show ?thesis
    by (auto simp: rtt_start_def exp_backoff_def Let_def eval_nat_numeral)
qed

text \<open>
  Karn's rule: a reply to a retransmitted packet leaves the estimators alone and saves the
  timeout in use.
\<close>

lemma rtt_stop_retransmitted:
  "0 < rtt_nrexmt p \<Longrightarrow> rtt_stop now p = Ret () (p\<lparr>rtt_nxtrto := rtt_currto p\<rparr>)"
  by (simp add: rtt_stop_def)

lemma rtt_stop_frame:
  "rtt_nrexmt (ostate (rtt_stop now p)) = rtt_nrexmt p"
  "rtt_currto (ostate (rtt_stop now p)) = rtt_currto p"
  by (auto simp: rtt_stop_def Let_def split: option.splits)

lemma rtt_start_frame: "rtt_nrexmt (ostate (rtt_start now p)) = rtt_nrexmt p"
  by (auto simp: rtt_start_def Let_def split: option.splits)

end
