(* ===== verification/TftpDefs.thy ===== *)
theory TftpDefs
  imports TftpRtt
begin

text \<open>
  What both TFTP programs share: the constants and the 2-byte macros of \<open>defs.h\<close> (the
  client's \<open>defs_cli.h\<close> is the same list), the globals of \<open>initvars.c\<close> with the file-local
  variables of \<open>file.c\<close>, \<open>net_udp.c\<close> and \<open>fsm.c\<close> as one record, and the operating system as
  the code sees it: a file system, an open file, a clock, and the datagrams a socket sent.
\<close>

section \<open>Constants\<close>

abbreviation (input) MAXBUFF :: nat where "MAXBUFF \<equiv> 2048"
abbreviation (input) MAXDATA :: nat where "MAXDATA \<equiv> 512"
abbreviation (input) MAXFILENAME :: nat where "MAXFILENAME \<equiv> 128"

abbreviation (input) MODE_ASCII :: int where "MODE_ASCII \<equiv> 0"
abbreviation (input) MODE_BINARY :: int where "MODE_BINARY \<equiv> 1"

abbreviation (input) OP_RRQ :: int where "OP_RRQ \<equiv> 1"
abbreviation (input) OP_WRQ :: int where "OP_WRQ \<equiv> 2"
abbreviation (input) OP_DATA :: int where "OP_DATA \<equiv> 3"
abbreviation (input) OP_ACK :: int where "OP_ACK \<equiv> 4"
abbreviation (input) OP_ERROR :: int where "OP_ERROR \<equiv> 5"
abbreviation (input) OP_MIN :: int where "OP_MIN \<equiv> 1"
abbreviation (input) OP_MAX :: int where "OP_MAX \<equiv> 5"

abbreviation (input) ERR_NOFILE :: int where "ERR_NOFILE \<equiv> 1"
abbreviation (input) ERR_ACCESS :: int where "ERR_ACCESS \<equiv> 2"
abbreviation (input) ERR_BADOP :: int where "ERR_BADOP \<equiv> 4"

section \<open>Two-byte integers\<close>

text \<open>
  \<open>stshort\<close> stores the low 16 bits of an \<open>int\<close> in network order, \<open>ldshort\<close> reads two
  bytes back as an unsigned number.
\<close>

definition stshort :: "int \<Rightarrow> byte list" where
  "stshort sval = [word_of_int (sval div 256), word_of_int sval]"

definition ldshort :: "byte list \<Rightarrow> int" where
  "ldshort addr = uint (addr ! 0) * 256 + uint (addr ! 1)"

lemma length_stshort [simp]: "length (stshort v) = 2"
  by (simp add: stshort_def)

lemma ldshort_stshort [simp]: "ldshort (stshort v @ rest) = v mod 65536"
proof -
  have "v mod 65536 = (v div 256) mod 256 * 256 + v mod 256"
    using zmod_zmult2_eq [of 256 v 256] by simp
  then show ?thesis
    by (simp add: ldshort_def stshort_def uint_word_of_int)
qed

lemma ldshort_stshort_nil [simp]: "ldshort (stshort v) = v mod 65536"
  using ldshort_stshort [of v "[]"] by simp

lemma ldshort_bounds: "0 \<le> ldshort a \<and> ldshort a < 65536"
proof -
  have "uint (a ! 0) < 256" "uint (a ! 1) < 256"
    using uint_lt2p [of "a ! 0"] uint_lt2p [of "a ! 1"] by simp_all
  then show ?thesis by (simp add: ldshort_def)
qed

section \<open>Files\<close>

text \<open>
  An open file: the bytes not read yet, whether the device fails where they end, the bytes
  written so far, how many more it takes (\<open>None\<close>: no limit), whether closing fails, whether
  it has been closed, and whether it is standard output. Standard i/o is seen through its contents: its buffering
  only decides when a failing device is noticed.
\<close>

record lfile =
  f_in :: "byte list"
  f_rderr :: bool
  f_out :: "byte list"
  f_room :: "nat option"
  f_clserr :: bool
  f_closed :: bool
  f_std :: bool

text \<open>
  The file system: \<open>stat\<close> (the mode bits, \<open>None\<close> when it fails) and \<open>fopen\<close> for reading
  and for writing (\<open>None\<close> is \<open>NULL\<close>).
\<close>

record fsys =
  fs_stat :: "byte list \<Rightarrow> nat option"
  fs_read :: "byte list \<Rightarrow> lfile option"
  fs_write :: "byte list \<Rightarrow> lfile option"
  fs_stdout :: lfile

section \<open>The state of a program\<close>

type_synonym sockaddr = "int \<times> int"  \<comment> \<open>address and port\<close>

record tftp =
  modetype :: int
  nextblknum :: int
  lastsend :: int
  totnbytes :: int
  op_sent :: int
  op_recv :: int
  recvbuff :: "byte list"
  sendbuff :: "byte list"
  sendlen :: nat
  localfp :: "lfile option"
  lastcr :: bool
  nextchar :: int
  rttinfo :: rtt_struct
  rttfirst :: bool
  tout_flag :: bool
  alarm_secs :: int
  sockfd :: int
  net_up :: bool
  peer :: sockaddr
  recv_first :: bool
  recv_nbytes :: int
  fs :: fsys
  clock :: "nat \<Rightarrow> timeval option"
  ticks :: nat
  st_start :: timeval
  st_stop :: timeval
  sent :: "(sockaddr \<times> byte list) list"
  message :: "byte list"

text \<open>
  \<open>net_up\<close> says whether \<open>sendto\<close> succeeds; \<open>peer\<close> is \<open>udp_cli_addr\<close> in the server and \<open>udp_srv_addr\<close> in the client; \<open>sent\<close> is the
  log of datagrams handed to \<open>sendto\<close>, oldest first; \<open>message\<close> is what the client printed of
  an error packet; \<open>st_start\<close> and \<open>st_stop\<close> are the client's times for its statistics;
  \<open>clock n\<close> is the result of the \<open>n\<close>-th reading of \<open>gettimeofday\<close>.
\<close>

type_synonym 'a prog = "tftp \<Rightarrow> ('a, tftp) outcome"

text \<open>What one \<open>recvfrom\<close> returns: a datagram and its sender, an interrupt (by the alarm, or
  by \<open>SIGCLD\<close>), or another error.\<close>

datatype rcv = Dgram sockaddr "byte list" | Intr bool | RecvErr

text \<open>The globals before \<open>main\<close>, around the given environment.\<close>

definition zero_rtt :: rtt_struct where
  "zero_rtt = \<lparr>rtt_rtt = 0, rtt_srtt = 0, rtt_rttdev = 0, rtt_nrexmt = 0, rtt_currto = 0,
     rtt_nxtrto = 0, time_start = (0, 0), time_stop = (0, 0)\<rparr>"

definition initvars :: "fsys \<Rightarrow> (nat \<Rightarrow> timeval option) \<Rightarrow> tftp" where
  "initvars env clk = \<lparr>modetype = MODE_ASCII, nextblknum = 0, lastsend = 0, totnbytes = 0,
     op_sent = 0, op_recv = 0, recvbuff = replicate MAXBUFF 0, sendbuff = replicate MAXBUFF 0,
     sendlen = 0, localfp = None, lastcr = False, nextchar = 0, rttinfo = zero_rtt,
     rttfirst = True, tout_flag = False, alarm_secs = 0, sockfd = - 1, net_up = True, peer = (0, 0),
     recv_first = False, recv_nbytes = - 1, fs = env, clock = clk, ticks = 0,
     st_start = (0, 0), st_stop = (0, 0), sent = [],
     message = []\<rparr>"

text \<open>Reading the clock.\<close>

definition gettimeofday :: "tftp \<Rightarrow> timeval option \<times> tftp" where
  "gettimeofday s = (clock s (ticks s), s\<lparr>ticks := ticks s + 1\<rparr>)"

text \<open>An operation on the timer, run inside the program's state.\<close>

definition on_rtt :: "(timeval option \<Rightarrow> rtt_struct \<Rightarrow> ('a, rtt_struct) outcome) \<Rightarrow> 'a prog" where
  "on_rtt f s = (case gettimeofday s of (now, s) \<Rightarrow>
     (case f now (rttinfo s) of
        Ret x p \<Rightarrow> Ret x (s\<lparr>rttinfo := p\<rparr>)
      | Exit c p \<Rightarrow> Exit c (s\<lparr>rttinfo := p\<rparr>)
      | Fault p \<Rightarrow> Fault (s\<lparr>rttinfo := p\<rparr>)))"

section \<open>Strings\<close>

text \<open>
  A loop of at most \<open>n\<close> steps looking for a NUL from the head of \<open>bs\<close>: the index found, if
  any; \<open>None\<close> when the loop leaves the array.
\<close>

fun scan_nul :: "nat \<Rightarrow> byte list \<Rightarrow> nat option option" where
  "scan_nul 0 bs = Some None"
| "scan_nul (Suc n) [] = None"
| "scan_nul (Suc n) (b # bs) =
     (if b = NUL then Some (Some 0) else map_option (map_option Suc) (scan_nul n bs))"

lemma scan_nul_found:
  "scan_nul n bs = Some (Some i) \<Longrightarrow>
   i < n \<and> i < length bs \<and> bs ! i = NUL \<and> NUL \<notin> set (take i bs)"
  by (induction n bs arbitrary: i rule: scan_nul.induct) (auto split: if_splits)

lemma scan_nul_at:
  "NUL \<notin> set xs \<Longrightarrow> length xs < n \<Longrightarrow> scan_nul n (xs @ NUL # ys) = Some (Some (length xs))"
proof (induction xs arbitrary: n)
  case Nil
  then show ?case by (cases n) auto
next
  case (Cons x xs)
  then show ?case by (cases n) auto
qed

text \<open>\<open>strlccpy\<close>: upper-case letters become lower case (the "C" locale).\<close>

definition tolower :: "byte \<Rightarrow> byte" where
  "tolower c = (if 65 \<le> c \<and> c \<le> 90 then c + 32 else c)"

definition strlccpy :: "byte list \<Rightarrow> byte list" where
  "strlccpy src = map tolower src"

end
