(* ===== verification/TftpFile.thy ===== *)
theory TftpFile
  imports TftpDefs
begin

text \<open>
  The local file of a transfer: \<open>server/file.c\<close> and the client's \<open>client/file_cli.c\<close>. Octet
  transfers go through \<open>read\<close> and \<open>write\<close>; netascii transfers convert newlines and carriage
  returns on the way, one character at a time, and carry half a conversion from one call
  to the next in the file-local variables \<open>nextchar\<close> (reading) and \<open>lastcr\<close> (writing).
  The specification of the conversion is \<open>nvt_encode\<close> and \<open>nvt_decode\<close>.
\<close>

section \<open>System calls on an open file\<close>

text \<open>\<open>getc\<close>: the next byte; \<open>None\<close> is \<open>EOF\<close>, and then \<open>ferror\<close> is \<open>f_rderr\<close>.\<close>

definition f_getc :: "lfile \<Rightarrow> byte option \<times> lfile" where
  "f_getc f = (case f_in f of [] \<Rightarrow> (None, f) | c # cs \<Rightarrow> (Some c, f\<lparr>f_in := cs\<rparr>))"

text \<open>\<open>read\<close>: up to \<open>n\<close> bytes, none at the end of the file, \<open>None\<close> for the result \<open>-1\<close>.\<close>

definition f_readn :: "nat \<Rightarrow> lfile \<Rightarrow> byte list option \<times> lfile" where
  "f_readn n f = (if f_in f = [] \<and> f_rderr f then (None, f)
     else (Some (take n (f_in f)), f\<lparr>f_in := drop n (f_in f)\<rparr>))"

text \<open>\<open>write\<close>: the number of bytes the device took.\<close>

definition f_writen :: "byte list \<Rightarrow> lfile \<Rightarrow> nat \<times> lfile" where
  "f_writen bs f =
     (let n = (case f_room f of None \<Rightarrow> length bs | Some r \<Rightarrow> min r (length bs))
      in (n, f\<lparr>f_out := f_out f @ take n bs, f_room := map_option (\<lambda>r. r - n) (f_room f)\<rparr>))"

text \<open>Using \<open>localfp\<close> while it is \<open>NULL\<close> or closed is undefined.\<close>

definition with_file :: "(lfile \<Rightarrow> 'a prog) \<Rightarrow> 'a prog" where
  "with_file g s = (case localfp s of None \<Rightarrow> Fault s
     | Some f \<Rightarrow> if f_closed f then Fault s else g f s)"

section \<open>The server's file routines\<close>

definition file_open :: "byte list \<Rightarrow> bool \<Rightarrow> int \<Rightarrow> lfile option prog" where
  "file_open filename write initblknum s =
     (case (if filename = [45] then Some (fs_stdout (fs s))
            else if write then fs_write (fs s) filename else fs_read (fs s) filename) of
        None \<Rightarrow> Ret None s
      | Some fp \<Rightarrow> Ret (Some fp) (s\<lparr>nextblknum := initblknum, lastcr := False, nextchar := - 1\<rparr>))"

definition file_close :: "unit prog" where
  "file_close = with_file (\<lambda>fp s.
     if lastcr s then Exit (- 1) s
     else if nextchar s \<ge> 0 then Exit (- 1) s
     else if f_std fp then Ret () s
     else let s' = s\<lparr>localfp := Some (fp\<lparr>f_closed := True\<rparr>)\<rparr> in
       if f_clserr fp then Exit (- 1) s' else Ret () s')"

text \<open>
  The netascii loops of \<open>file_read\<close> and \<open>file_write\<close>; the two programs differ in how they
  stop on an error, which is the argument \<open>ec\<close> (the server calls \<open>exit(-1)\<close>, the client's
  \<open>err_quit\<close> and \<open>err_sys\<close> call \<open>exit(1)\<close>).
\<close>

fun file_read_ascii :: "int \<Rightarrow> nat \<Rightarrow> lfile \<Rightarrow> byte list prog" where
  "file_read_ascii ec 0 fp s = Ret [] (s\<lparr>localfp := Some fp\<rparr>)"
| "file_read_ascii ec (Suc n) fp s =
     (if nextchar s \<ge> 0 then
        obind (file_read_ascii ec n fp (s\<lparr>nextchar := - 1\<rparr>)) (\<lambda>bs.
          Ret (word_of_int (nextchar s) # bs))
      else (case f_getc fp of
        (None, fp) \<Rightarrow> if f_rderr fp then Exit ec (s\<lparr>localfp := Some fp\<rparr>)
                      else Ret [] (s\<lparr>localfp := Some fp\<rparr>)
      | (Some c, fp) \<Rightarrow>
          if c = LF then
            obind (file_read_ascii ec n fp (s\<lparr>nextchar := uint LF\<rparr>)) (\<lambda>bs. Ret (CR # bs))
          else if c = CR then
            obind (file_read_ascii ec n fp (s\<lparr>nextchar := uint NUL\<rparr>)) (\<lambda>bs. Ret (CR # bs))
          else
            obind (file_read_ascii ec n fp (s\<lparr>nextchar := - 1\<rparr>)) (\<lambda>bs. Ret (c # bs))))"

definition file_read :: "nat \<Rightarrow> int \<Rightarrow> byte list prog" where
  "file_read maxnbytes mode = with_file (\<lambda>fp s.
     if mode = MODE_BINARY then
       (case f_readn maxnbytes fp of
          (None, fp) \<Rightarrow> Exit (- 1) (s\<lparr>localfp := Some fp\<rparr>)
        | (Some bs, fp) \<Rightarrow> Ret bs (s\<lparr>localfp := Some fp\<rparr>))
     else if mode = MODE_ASCII then file_read_ascii (- 1) maxnbytes fp s
     else Exit (- 1) s)"

fun file_write_ascii :: "int \<Rightarrow> byte list \<Rightarrow> lfile \<Rightarrow> unit prog" where
  "file_write_ascii ec [] fp s = Ret () (s\<lparr>localfp := Some fp\<rparr>)"
| "file_write_ascii ec (c # cs) fp s =
     (if lastcr s \<and> c \<noteq> LF \<and> c \<noteq> NUL then Exit ec (s\<lparr>localfp := Some fp\<rparr>)
      else if \<not> lastcr s \<and> c = CR then file_write_ascii ec cs fp (s\<lparr>lastcr := True\<rparr>)
      else let c' = (if lastcr s then (if c = LF then LF else CR) else c);
               (n, fp) = f_writen [c'] fp;
               s = s\<lparr>lastcr := False\<rparr>
           in if n = 0 then Exit ec (s\<lparr>localfp := Some fp\<rparr>)
              else file_write_ascii ec cs fp s)"

definition file_write :: "byte list \<Rightarrow> int \<Rightarrow> unit prog" where
  "file_write bs mode = with_file (\<lambda>fp s.
     if mode = MODE_BINARY then
       (case f_writen bs fp of (i, fp) \<Rightarrow>
          if i \<noteq> length bs then Exit (- 1) (s\<lparr>localfp := Some fp\<rparr>)
          else Ret () (s\<lparr>localfp := Some fp\<rparr>))
     else if mode = MODE_ASCII then file_write_ascii (- 1) bs fp s
     else Exit (- 1) s)"

section \<open>The client's file routines\<close>

text \<open>
  \<open>file_open\<close> of the client leaves \<open>lastcr\<close> and \<open>nextchar\<close> as they are, and its
  \<open>file_close\<close> goes on where the server's exits.
\<close>

definition file_open_cli :: "byte list \<Rightarrow> bool \<Rightarrow> int \<Rightarrow> lfile option prog" where
  "file_open_cli fname write initblknum s =
     (case (if fname = [45] then Some (fs_stdout (fs s))
            else if write then fs_write (fs s) fname else fs_read (fs s) fname) of
        None \<Rightarrow> Ret None s
      | Some fp \<Rightarrow> Ret (Some fp) (s\<lparr>nextblknum := initblknum\<rparr>))"

definition file_close_cli :: "unit prog" where
  "file_close_cli = with_file (\<lambda>fp s.
     if f_std fp then Ret () s
     else Ret () (s\<lparr>localfp := Some (fp\<lparr>f_closed := True\<rparr>)\<rparr>))"

definition file_read_cli :: "nat \<Rightarrow> int \<Rightarrow> byte list prog" where
  "file_read_cli maxnbytes mode = with_file (\<lambda>fp s.
     if mode = MODE_BINARY then
       (case f_readn maxnbytes fp of
          (None, fp) \<Rightarrow> Exit 1 (s\<lparr>localfp := Some fp\<rparr>)
        | (Some bs, fp) \<Rightarrow> Ret bs (s\<lparr>localfp := Some fp\<rparr>))
     else if mode = MODE_ASCII then file_read_ascii 1 maxnbytes fp s
     else Exit 1 s)"

definition file_write_cli :: "byte list \<Rightarrow> int \<Rightarrow> unit prog" where
  "file_write_cli bs mode = with_file (\<lambda>fp s.
     if mode = MODE_BINARY then
       (case f_writen bs fp of (i, fp) \<Rightarrow>
          if i \<noteq> length bs then Exit 1 (s\<lparr>localfp := Some fp\<rparr>)
          else Ret () (s\<lparr>localfp := Some fp\<rparr>))
     else if mode = MODE_ASCII then file_write_ascii 1 bs fp s
     else Exit 1 s)"

section \<open>The netascii conversion as a specification\<close>

text \<open>
  RFC 764's network line ends: a newline travels as CR LF and a carriage return as CR NUL.
  Decoding runs over the stream with one bit of memory, whether the last byte was a CR; a CR
  followed by anything else is an error.
\<close>

fun nvt_encode :: "byte list \<Rightarrow> byte list" where
  "nvt_encode [] = []"
| "nvt_encode (c # cs) =
     (if c = LF then CR # LF # nvt_encode cs
      else if c = CR then CR # NUL # nvt_encode cs
      else c # nvt_encode cs)"

fun nvt_decode :: "bool \<Rightarrow> byte list \<Rightarrow> (byte list \<times> bool) option" where
  "nvt_decode cr [] = Some ([], cr)"
| "nvt_decode cr (c # cs) =
     (if cr \<and> c \<noteq> LF \<and> c \<noteq> NUL then None
      else if \<not> cr \<and> c = CR then nvt_decode True cs
      else map_option (apfst (Cons (if cr \<and> c = NUL then CR else c))) (nvt_decode False cs))"

theorem nvt_decode_encode: "nvt_decode False (nvt_encode cs) = Some (cs, False)"
  by (induction cs) auto

lemma nvt_encode_append: "nvt_encode (xs @ ys) = nvt_encode xs @ nvt_encode ys"
  by (induction xs) auto

lemma nvt_decode_append:
  "nvt_decode cr (xs @ ys) =
     (case nvt_decode cr xs of None \<Rightarrow> None
      | Some (out, cr') \<Rightarrow> map_option (apfst ((@) out)) (nvt_decode cr' ys))"
  by (induction xs arbitrary: cr)
     (auto split: option.splits simp: option.map_comp comp_def apfst_def map_prod_def
       split_def option.map_ident)

lemma length_nvt_encode: "length cs \<le> length (nvt_encode cs) \<and> length (nvt_encode cs) \<le> 2 * length cs"
  by (induction cs) auto

section \<open>The routines against the specification\<close>

text \<open>
  What \<open>file_read\<close> still has to deliver: in netascii, the second half of a conversion and
  then the encoding of the rest of the file.
\<close>

definition pending :: "tftp \<Rightarrow> byte list" where
  "pending s = (case localfp s of None \<Rightarrow> []
     | Some f \<Rightarrow> if modetype s = MODE_BINARY then f_in f
               else (if nextchar s \<ge> 0 then [word_of_int (nextchar s)] else []) @ nvt_encode (f_in f))"

lemma pending_cong:
  "localfp t = localfp s \<Longrightarrow> modetype t = modetype s \<Longrightarrow> nextchar t = nextchar s \<Longrightarrow>
   pending t = pending s"
  by (cases "localfp s") (simp_all add: pending_def)

text \<open>
  The result of reading: everything but the file and \<open>nextchar\<close> is as before.
\<close>

definition read_result :: "tftp \<Rightarrow> nat \<Rightarrow> byte list \<Rightarrow> tftp \<Rightarrow> bool" where
  "read_result s n bs t \<longleftrightarrow> bs = take n (pending s) \<and> pending t = drop n (pending s) \<and>
     (\<exists>f g. localfp s = Some f \<and> localfp t = Some g \<and> f_closed g = f_closed f \<and>
        f_rderr g = f_rderr f \<and> f_out g = f_out f) \<and>
     t = s\<lparr>localfp := localfp t, nextchar := nextchar t\<rparr>"

lemma file_read_ascii_spec:
  assumes "file_read_ascii ec n fp s = Ret bs t" "modetype s \<noteq> MODE_BINARY"
  shows "read_result (s\<lparr>localfp := Some fp\<rparr>) n bs t"
  using assms
proof (induction ec n fp s arbitrary: bs t rule: file_read_ascii.induct)
  case (1 ec fp s)
  then show ?case by (auto simp: read_result_def)
next
  case (2 ec n fp s)
  show ?case
  proof (cases "0 \<le> nextchar s")
    case True
    with 2 show ?thesis by (fastforce simp: read_result_def pending_def)
  next
    case no: False
    show ?thesis
    proof (cases "f_in fp")
      case Nil
      with 2 no show ?thesis by (auto simp: read_result_def pending_def f_getc_def split: if_splits)
    next
      case (Cons c cs)
      let ?fp = "fp\<lparr>f_in := cs\<rparr>"
      from Cons have g: "f_getc fp = (Some c, ?fp)" by (simp add: f_getc_def)
      consider "c = LF" | "c = CR" | "c \<noteq> LF" "c \<noteq> CR" by blast
      then show ?thesis
      proof cases
        case 1
        with 2 no g Cons show ?thesis by (fastforce simp: read_result_def pending_def)
      next
        case 2
        with "2.IH" "2.prems" no g Cons show ?thesis by (fastforce simp: read_result_def pending_def)
      next
        case 3
        with 2 no g Cons show ?thesis by (fastforce simp: read_result_def pending_def)
      qed
    qed
  qed
qed

text \<open>Reading never fails on a device without errors.\<close>

lemma file_read_ascii_returns:
  "\<not> f_rderr fp \<Longrightarrow> \<exists>bs t. file_read_ascii ec n fp s = Ret bs t"
proof (induction ec n fp s rule: file_read_ascii.induct)
  case (2 ec n fp s)
  show ?case
  proof (cases "0 \<le> nextchar s")
    case True
    with 2 show ?thesis by fastforce
  next
    case no: False
    show ?thesis
    proof (cases "f_in fp")
      case Nil
      with 2 no show ?thesis by (auto simp: f_getc_def)
    next
      case (Cons c cs)
      then have g: "f_getc fp = (Some c, fp\<lparr>f_in := cs\<rparr>)" by (simp add: f_getc_def)
      consider "c = LF" | "c = CR" | "c \<noteq> LF" "c \<noteq> CR" by blast
      then show ?thesis using "2.IH" "2.prems" no g by cases fastforce+
    qed
  qed
qed auto

text \<open>
  \<open>accepted s xs\<close>: the open file holds what the network stream \<open>xs\<close> decodes to, and
  \<open>lastcr\<close> is the decoder's memory.
\<close>

definition accepted :: "tftp \<Rightarrow> byte list \<Rightarrow> bool" where
  "accepted s xs \<longleftrightarrow> (\<exists>f. localfp s = Some f \<and>
     (if modetype s = MODE_BINARY then f_out f = xs
      else nvt_decode False xs = Some (f_out f, lastcr s)))"

lemma accepted_cong:
  "localfp t = localfp s \<Longrightarrow> modetype t = modetype s \<Longrightarrow> lastcr t = lastcr s \<Longrightarrow>
   accepted t xs = accepted s xs"
  by (simp add: accepted_def)

lemma f_writen_1:
  "f_writen [c] fp = (n, g) \<Longrightarrow> n \<noteq> 0 \<Longrightarrow>
   f_out g = f_out fp @ [c] \<and> f_in g = f_in fp \<and> f_closed g = f_closed fp"
  by (auto simp: f_writen_def Let_def split: option.splits)

lemma file_write_ascii_spec:
  assumes "file_write_ascii ec bs fp s = Ret () t"
  shows "\<exists>out g. nvt_decode (lastcr s) bs = Some (out, lastcr t) \<and> localfp t = Some g \<and>
    f_out g = f_out fp @ out \<and> f_closed g = f_closed fp \<and>
    t = s\<lparr>localfp := localfp t, lastcr := lastcr t\<rparr>"
  using assms
proof (induction ec bs fp s rule: file_write_ascii.induct)
  case (1 ec fp s)
  then show ?case by auto
next
  case (2 ec c cs fp s)
  consider "lastcr s \<and> c \<noteq> LF \<and> c \<noteq> NUL" | "\<not> lastcr s \<and> c = CR"
    | "\<not> (lastcr s \<and> c \<noteq> LF \<and> c \<noteq> NUL)" "\<not> (\<not> lastcr s \<and> c = CR)" by blast
  then show ?case
  proof cases
    case 1
    with "2.prems" show ?thesis by simp
  next
    case 2
    with "2.IH"(1) "2.prems" show ?thesis by fastforce
  next
    case 3
    let ?c = "if lastcr s then (if c = LF then LF else CR) else c"
    obtain n g where w: "f_writen [?c] fp = (n, g)" by fastforce
    with "2.prems" 3 have n: "n \<noteq> 0"
      and r: "file_write_ascii ec cs g (s\<lparr>lastcr := False\<rparr>) = Ret () t"
      by (auto simp: Let_def split: if_splits)
    from "2.IH"(2) [OF 3 refl w [symmetric] refl refl n r]
    obtain out h where h: "nvt_decode False cs = Some (out, lastcr t)" "localfp t = Some h"
      "f_out h = f_out g @ out" "f_closed h = f_closed g"
      "t = s\<lparr>lastcr := False\<rparr>\<lparr>localfp := localfp t, lastcr := lastcr t\<rparr>"
      by auto
    have "nvt_decode (lastcr s) (c # cs) = Some (?c # out, lastcr t)"
      using 3 h(1) by auto
    with h f_writen_1 [OF w n] show ?thesis by auto
  qed
qed

lemma file_write_ascii_returns:
  "nvt_decode (lastcr s) bs \<noteq> None \<Longrightarrow> f_room fp = None \<Longrightarrow>
   \<exists>t. file_write_ascii ec bs fp s = Ret () t"
proof (induction ec bs fp s rule: file_write_ascii.induct)
  case (2 ec c cs fp s)
  consider "lastcr s \<and> c \<noteq> LF \<and> c \<noteq> NUL" | "\<not> lastcr s \<and> c = CR"
    | "\<not> (lastcr s \<and> c \<noteq> LF \<and> c \<noteq> NUL)" "\<not> (\<not> lastcr s \<and> c = CR)" by blast
  then show ?case
  proof cases
    case 1
    with "2.prems" show ?thesis by auto
  next
    case 2
    with "2.IH"(1) "2.prems" show ?thesis by auto
  next
    case 3
    let ?c = "if lastcr s then (if c = LF then LF else CR) else c"
    let ?g = "fp\<lparr>f_out := f_out fp @ [?c]\<rparr>"
    from "2.prems" have w: "f_writen [?c] fp = (1, ?g)" by (simp add: f_writen_def Let_def)
    have "nvt_decode False cs \<noteq> None" using 3 "2.prems"(1) by (auto split: if_splits)
    with "2.IH"(2) [OF 3 refl w [symmetric] refl refl] "2.prems"(2)
    obtain t where "file_write_ascii ec cs ?g (s\<lparr>lastcr := False\<rparr>) = Ret () t" by auto
    then show ?thesis using 3 w by (auto simp: Let_def)
  qed
qed auto

text \<open>
  The write routines of both programs, as one relation: when they return, the file has
  accepted the bytes and only \<open>localfp\<close> and \<open>lastcr\<close> have changed.
\<close>

definition write_result :: "tftp \<Rightarrow> byte list \<Rightarrow> tftp \<Rightarrow> bool" where
  "write_result s bs t \<longleftrightarrow> (\<forall>xs. accepted s xs \<longrightarrow> accepted t (xs @ bs)) \<and>
     t = s\<lparr>localfp := localfp t, lastcr := lastcr t\<rparr> \<and>
     (\<exists>f. localfp t = Some f \<and> \<not> f_closed f)"

lemma write_ascii_result:
  assumes "file_write_ascii ec bs f s = Ret () t" "localfp s = Some f" "\<not> f_closed f"
    "modetype s \<noteq> MODE_BINARY"
  shows "write_result s bs t"
proof -
  from file_write_ascii_spec [OF assms(1)] obtain out g where g:
    "nvt_decode (lastcr s) bs = Some (out, lastcr t)" "localfp t = Some g"
    "f_out g = f_out f @ out" "f_closed g = f_closed f"
    "t = s\<lparr>localfp := localfp t, lastcr := lastcr t\<rparr>" by blast
  then have "modetype t = modetype s" by (metis tftp.surjective tftp.update_convs(10,11) tftp.select_convs(1))
  with g assms show ?thesis by (auto simp: write_result_def accepted_def nvt_decode_append)
qed

lemma write_binary_result:
  assumes "f_writen bs f = (length bs, g)" "localfp s = Some f" "\<not> f_closed f"
    "modetype s = MODE_BINARY"
  shows "write_result s bs (s\<lparr>localfp := Some g\<rparr>)"
proof -
  have "f_out g = f_out f @ bs \<and> f_closed g = f_closed f"
    using assms(1) by (auto simp: f_writen_def Let_def split: option.splits)
  with assms show ?thesis by (auto simp: write_result_def accepted_def)
qed

lemma file_write_result:
  assumes "file_write bs (modetype s) s = Ret () t"
  shows "write_result s bs t"
  using assms unfolding file_write_def with_file_def
  by (auto split: option.splits if_splits prod.splits
      intro: write_binary_result [where s = s] write_ascii_result [where s = s])

lemma file_write_cli_result:
  assumes "file_write_cli bs (modetype s) s = Ret () t"
  shows "write_result s bs t"
  using assms unfolding file_write_cli_def with_file_def
  by (auto split: option.splits if_splits prod.splits
      intro: write_binary_result [where s = s] write_ascii_result [where s = s])

lemma read_binary_result:
  assumes "f_readn n f = (Some bs, g)" "localfp s = Some f" "modetype s = MODE_BINARY"
  shows "read_result s n bs (s\<lparr>localfp := Some g\<rparr>)"
  using assms by (auto simp: f_readn_def read_result_def pending_def split: if_splits)

lemma read_ascii_result:
  assumes "file_read_ascii ec n f s = Ret bs t" "localfp s = Some f" "modetype s \<noteq> MODE_BINARY"
  shows "read_result s n bs t"
proof -
  have "s\<lparr>localfp := Some f\<rparr> = s" using assms(2) by simp
  with file_read_ascii_spec [OF assms(1,3)] show ?thesis by simp
qed

lemma file_read_result:
  assumes "file_read n (modetype s) s = Ret bs t"
  shows "read_result s n bs t"
  using assms unfolding file_read_def with_file_def
  by (auto split: option.splits if_splits prod.splits
      intro: read_binary_result [where s = s] read_ascii_result [where s = s])

lemma file_read_cli_result:
  assumes "file_read_cli n (modetype s) s = Ret bs t"
  shows "read_result s n bs t"
  using assms unfolding file_read_cli_def with_file_def
  by (auto split: option.splits if_splits prod.splits
      intro: read_binary_result [where s = s] read_ascii_result [where s = s])

section \<open>Frame\<close>

text \<open>However the file routines end, they have sent nothing and kept the mode.\<close>

lemma file_read_ascii_sent: "sent (ostate (file_read_ascii ec n fp s)) = sent s"
proof (induction ec n fp s rule: file_read_ascii.induct)
  case (2 ec n fp s)
  have bind: "ostate (obind m (\<lambda>bs. Ret (b # bs))) = ostate m" for m :: "(byte list, tftp) outcome" and b
    by (cases m) auto
  show ?case
  proof (cases "0 \<le> nextchar s")
    case True
    with 2 show ?thesis by (simp add: bind)
  next
    case no: False
    show ?thesis
    proof (cases "f_in fp")
      case (Cons c cs)
      then have "f_getc fp = (Some c, fp\<lparr>f_in := cs\<rparr>)" by (simp add: f_getc_def)
      with 2 no show ?thesis by (simp add: bind)
    qed (use no in \<open>simp add: f_getc_def\<close>)
  qed
qed simp

lemma file_read_sent: "sent (ostate (file_read n mode s)) = sent s"
  by (auto simp: file_read_def with_file_def file_read_ascii_sent split: option.splits prod.splits)

lemma file_read_cli_sent: "sent (ostate (file_read_cli n mode s)) = sent s"
  by (auto simp: file_read_cli_def with_file_def file_read_ascii_sent split: option.splits prod.splits)

lemma file_write_ascii_sent: "sent (ostate (file_write_ascii ec bs fp s)) = sent s"
  by (induction ec bs fp s rule: file_write_ascii.induct) (auto simp: Let_def split: prod.splits)

lemma file_write_sent: "sent (ostate (file_write bs mode s)) = sent s"
  by (auto simp: file_write_def with_file_def file_write_ascii_sent split: option.splits prod.splits)

lemma file_write_cli_sent: "sent (ostate (file_write_cli bs mode s)) = sent s"
  by (auto simp: file_write_cli_def with_file_def file_write_ascii_sent split: option.splits prod.splits)

lemma file_write_ascii_mode: "modetype (ostate (file_write_ascii ec bs fp s)) = modetype s"
  by (induction ec bs fp s rule: file_write_ascii.induct) (auto simp: Let_def split: prod.splits)

lemma file_write_mode:
  "modetype (ostate (file_write bs mode s)) = modetype s"
  "modetype (ostate (file_write_cli bs mode s)) = modetype s"
  by (auto simp: file_write_def file_write_cli_def with_file_def file_write_ascii_mode
      split: option.splits prod.splits)

lemma file_close_mode: "modetype (ostate (file_close s)) = modetype s"
  by (auto simp: file_close_def with_file_def Let_def split: option.splits)

lemma file_close_sent: "sent (ostate (file_close s)) = sent s"
  by (auto simp: file_close_def with_file_def Let_def split: option.splits)

lemma file_close_result:
  "file_close s = Ret () t \<Longrightarrow> (\<forall>xs. accepted s xs \<longrightarrow> accepted t xs) \<and>
     t = s\<lparr>localfp := localfp t\<rparr>"
  by (auto simp: file_close_def with_file_def accepted_def Let_def split: option.splits if_splits)

end
