(* ===== verification/TftpServer.thy ===== *)
theory TftpServer
  imports TftpFile
begin

text \<open>
  The TFTP server: sending and receiving packets (\<open>server/sendrecv.c\<close>), the UDP routines
  (\<open>server/net_udp.c\<close>), the finite state machine (\<open>server/fsm.c\<close>) and the loop of
  \<open>server/mainserver.c\<close>. Handlers take what the C functions get, the buffer from the
  byte after the opcode on and the number of bytes there.
\<close>

section \<open>Network\<close>

definition net_close :: "tftp \<Rightarrow> tftp" where
  "net_close s = s\<lparr>sockfd := - 1\<rparr>"

text \<open>\<open>net_send (sendbuff, sendlen)\<close>, the only way it is called.\<close>

definition net_send :: "unit prog" where
  "net_send s =
     (if net_up s \<and> 0 \<le> sockfd s
      then Ret () (s\<lparr>sent := sent s @ [(peer s, take (sendlen s) (sendbuff s))]\<rparr>)
      else Exit 1 s)"

text \<open>
  \<open>net_recv\<close> on one result of \<open>recvfrom\<close>. \<open>None\<close> is the jump back to \<open>recvfrom\<close> (a
  \<open>SIGCLD\<close>), \<open>Some (- 1)\<close> a timeout, \<open>Some n\<close> a datagram of \<open>n\<close> bytes now in
  \<open>recvbuff\<close>, which keeps its old contents behind them. Only the port of the sender is
  compared.
\<close>

definition net_recv :: "rcv \<Rightarrow> int option prog" where
  "net_recv e s = (case e of
     Intr alrm \<Rightarrow>
       let s = (if alrm then s\<lparr>tout_flag := True\<rparr> else s)
       in if tout_flag s then Ret (Some (- 1)) s else Ret None s
   | RecvErr \<Rightarrow> Exit 1 s
   | Dgram from d \<Rightarrow>
       let data = take MAXBUFF d;
           s = s\<lparr>recvbuff := buf_put 0 data (recvbuff s)\<rparr>;
           s = (if recv_first s then s\<lparr>peer := from, recv_first := False\<rparr> else s)
       in if snd (peer s) \<noteq> 0 \<and> snd (peer s) \<noteq> snd from then Exit 1 s
          else Ret (Some (int (length data))) s)"

text \<open>
  \<open>net_open\<close>: wait for a request (one result of \<open>recvfrom\<close>), fork, and in the child move to
  a socket of its own; \<open>pid\<close>, \<open>fd\<close> and \<open>bound\<close> are the results of \<open>fork\<close>, \<open>socket\<close> and
  \<open>bind\<close>.
\<close>

definition net_open :: "rcv \<Rightarrow> int \<Rightarrow> int \<Rightarrow> bool \<Rightarrow> int option prog" where
  "net_open e pid fd bound s =
     obind (net_recv e (s\<lparr>recv_first := True, recv_nbytes := - 1\<rparr>)) (\<lambda>r s.
       case r of None \<Rightarrow> Ret None s
       | Some nbytes \<Rightarrow>
           if pid < 0 then Exit 1 s
           else if pid > 0 then Ret (Some pid) s
           else let s = s\<lparr>sockfd := fd\<rparr>
             in if fd < 0 then Exit 1 s
                else if \<not> bound then Exit 1 s
                else Ret (Some 0) (s\<lparr>recv_nbytes := nbytes\<rparr>))"

section \<open>Sending\<close>

definition send_ERROR :: "int \<Rightarrow> string \<Rightarrow> 'a prog" where
  "send_ERROR ecode errstring s =
     (let s = s\<lparr>sendbuff := buf_put 0 (stshort OP_ERROR) (sendbuff s)\<rparr>;
          s = s\<lparr>sendbuff := buf_put 2 (stshort ecode) (sendbuff s)\<rparr>;
          s = s\<lparr>sendbuff := buf_put 4 (bytes errstring @ [NUL]) (sendbuff s)\<rparr>;
          s = s\<lparr>sendlen := 4 + length errstring + 1\<rparr>
      in obind (net_send s) (\<lambda>_ s. Exit 0 (net_close s)))"

definition send_ACK :: "int \<Rightarrow> unit prog" where
  "send_ACK blocknum s =
     (let s = s\<lparr>sendbuff := buf_put 0 (stshort OP_ACK) (sendbuff s)\<rparr>;
          s = s\<lparr>sendbuff := buf_put 2 (stshort blocknum) (sendbuff s)\<rparr>;
          s = s\<lparr>sendlen := 4\<rparr>
      in obind (net_send s) (\<lambda>_ s. Ret () (s\<lparr>op_sent := OP_ACK\<rparr>)))"

definition send_DATA :: "int \<Rightarrow> nat \<Rightarrow> unit prog" where
  "send_DATA blocknum nbytes s =
     (let s = s\<lparr>sendbuff := buf_put 0 (stshort OP_DATA) (sendbuff s)\<rparr>;
          s = s\<lparr>sendbuff := buf_put 2 (stshort blocknum) (sendbuff s)\<rparr>;
          s = s\<lparr>sendlen := 4 + nbytes\<rparr>
      in obind (net_send s) (\<lambda>_ s. Ret () (s\<lparr>op_sent := OP_DATA\<rparr>)))"

section \<open>Requests\<close>

text \<open>The last slash of a path and everything before it (\<open>rindex\<close>, then a NUL after it).\<close>

definition dir_part :: "byte list \<Rightarrow> byte list" where
  "dir_part p = rev (dropWhile (\<lambda>c. c \<noteq> 47) (rev p))"

text \<open>
  \<open>recv_xRQ\<close>. The second loop starts with the \<open>i\<close> the first one stopped at, one less than
  the bytes consumed, so it may look one byte past the packet; copying a name of 128 bytes
  or more overruns \<open>filename\<close> or \<open>mode\<close>.
\<close>

definition recv_xRQ :: "int \<Rightarrow> byte list \<Rightarrow> nat \<Rightarrow> unit prog" where
  "recv_xRQ opcode ptr nbytes s =
     (case scan_nul nbytes ptr of
        None \<Rightarrow> Fault s
      | Some None \<Rightarrow> Exit (- 1) s
      | Some (Some i) \<Rightarrow>
     if MAXFILENAME \<le> i then Fault s else
     let filename = take i ptr; ptr = drop (i + 1) ptr in
     case scan_nul (nbytes - i) ptr of
        None \<Rightarrow> Fault s
      | Some None \<Rightarrow> Exit (- 1) s
      | Some (Some j) \<Rightarrow>
     if MAXFILENAME \<le> j then Fault s else
     let mode = strlccpy (take j ptr) in
     obind (if mode = bytes ''netascii'' then Ret () (s\<lparr>modetype := MODE_ASCII\<rparr>)
            else if mode = bytes ''octet'' then Ret () (s\<lparr>modetype := MODE_BINARY\<rparr>)
            else send_ERROR ERR_BADOP ''Mode isn't netascii or octet'' s) (\<lambda>_ s.
     obind (if take 1 filename \<noteq> [47]
            then send_ERROR ERR_ACCESS (''filename must begin with '/'' @ [CHR 0x27]) s else Ret () s) (\<lambda>_ s.
     obind (if opcode = OP_RRQ then
              (case fs_stat (fs s) filename of
                 None \<Rightarrow> send_ERROR ERR_ACCESS ''filename get stat buffer error'' s
               | Some st_mode \<Rightarrow>
                   if \<not> bit st_mode 2
                   then send_ERROR ERR_ACCESS ''File doesn't allow world read permission'' s
                   else Ret () s)
            else if opcode = OP_WRQ then
              (case fs_stat (fs s) (dir_part filename) of
                 None \<Rightarrow> send_ERROR ERR_ACCESS ''dirname get stat buffer error'' s
               | Some st_mode \<Rightarrow>
                   if \<not> bit st_mode 1
                   then send_ERROR ERR_ACCESS ''Directory doesn't allow world write permission'' s
                   else Ret () s)
            else Exit (- 1) s) (\<lambda>_ s.
     obind (file_open filename (opcode \<noteq> OP_RRQ) 0 s) (\<lambda>fp s.
       let s = s\<lparr>localfp := fp\<rparr>
       in if fp = None then send_ERROR ERR_NOFILE ''file open error'' s else Ret () s)))))"

section \<open>Data and acknowledgements\<close>

definition recv_DATA :: "byte list \<Rightarrow> nat \<Rightarrow> int prog" where
  "recv_DATA ptr nbytes s =
     (let recvblknum = ldshort ptr; ptr = drop 2 ptr; nbytes = nbytes - 2 in
      if nbytes > MAXDATA then Exit (- 1) s
      else obind
        (if recvblknum = nextblknum s then
           let s = s\<lparr>nextblknum := nextblknum s + 1, totnbytes := totnbytes s + int nbytes\<rparr>
           in obind (if nbytes > 0 then file_write (take nbytes ptr) (modetype s) s else Ret () s)
                (\<lambda>_ s. if nbytes < MAXDATA then file_close s else Ret () s)
         else if recvblknum < nextblknum s - 1 then Exit (- 1) s
         else if recvblknum > nextblknum s then Exit (- 1) s
         else Ret () s)
        (\<lambda>_ s. obind (send_ACK recvblknum s) (\<lambda>_ s.
           Ret (if nbytes = MAXDATA then 0 else - 1) s)))"

definition recv_ACK :: "byte list \<Rightarrow> nat \<Rightarrow> int prog" where
  "recv_ACK ptr nbytes s =
     (let recvblknum = ldshort ptr in
      if nbytes \<noteq> 2 then Exit (- 1) s
      else if recvblknum = nextblknum s then
        obind (file_read MAXDATA (modetype s) s) (\<lambda>bs s.
          let s = s\<lparr>sendbuff := buf_put 4 bs (sendbuff s)\<rparr>; nbytes = length bs in
          if nbytes = 0 \<and> lastsend s < int MAXDATA then Ret (- 1) s
          else let s = s\<lparr>lastsend := int nbytes, nextblknum := nextblknum s + 1,
                         totnbytes := totnbytes s + int nbytes\<rparr>
            in obind (send_DATA (nextblknum s) nbytes s) (\<lambda>_ s. Ret 0 s))
      else if recvblknum < nextblknum s - 1 then Exit (- 1) s
      else if recvblknum > nextblknum s then Exit (- 1) s
      else Ret 0 s)"

definition recv_RRQ :: "byte list \<Rightarrow> nat \<Rightarrow> int prog" where
  "recv_RRQ ptr nbytes s =
     obind (recv_xRQ OP_RRQ ptr nbytes s) (\<lambda>_ s.
     obind (recv_ACK (stshort 0) 2 (s\<lparr>lastsend := int MAXDATA\<rparr>)) (\<lambda>_ s. Ret 0 s))"

definition recv_WRQ :: "byte list \<Rightarrow> nat \<Rightarrow> int prog" where
  "recv_WRQ ptr nbytes s =
     obind (recv_xRQ OP_WRQ ptr nbytes s) (\<lambda>_ s.
     obind (send_ACK 0 (s\<lparr>nextblknum := 1\<rparr>)) (\<lambda>_ s. Ret 0 s))"

section \<open>The finite state machine\<close>

text \<open>The functions of the table, and the table: indexed by the opcode sent, then received.\<close>

datatype handler = Fsm_invalid | Fsm_error | Recv_RRQ | Recv_WRQ | Recv_DATA | Recv_ACK

definition fsm_ptr :: "handler list list" where
  "fsm_ptr =
    [[Fsm_invalid, Recv_RRQ, Recv_WRQ, Fsm_invalid, Fsm_invalid, Fsm_invalid],
     [Fsm_invalid, Fsm_invalid, Fsm_invalid, Fsm_invalid, Fsm_invalid, Fsm_invalid],
     [Fsm_invalid, Fsm_invalid, Fsm_invalid, Fsm_invalid, Fsm_invalid, Fsm_invalid],
     [Fsm_invalid, Fsm_invalid, Fsm_invalid, Fsm_invalid, Recv_ACK, Fsm_error],
     [Fsm_invalid, Fsm_invalid, Fsm_invalid, Recv_DATA, Fsm_invalid, Fsm_error],
     [Fsm_invalid, Fsm_invalid, Fsm_invalid, Fsm_invalid, Fsm_invalid, Fsm_error]]"

definition fsm_error :: "int prog" where
  "fsm_error s = Exit (- 1) s"

definition fsm_invalid :: "int prog" where
  "fsm_invalid s = Exit (- 1) s"

fun call_handler :: "handler \<Rightarrow> byte list \<Rightarrow> nat \<Rightarrow> int prog" where
  "call_handler Fsm_invalid ptr n = fsm_invalid"
| "call_handler Fsm_error ptr n = fsm_error"
| "call_handler Recv_RRQ ptr n = recv_RRQ ptr n"
| "call_handler Recv_WRQ ptr n = recv_WRQ ptr n"
| "call_handler Recv_DATA ptr n = recv_DATA ptr n"
| "call_handler Recv_ACK ptr n = recv_ACK ptr n"

text \<open>The head of the loop body: clear the flag, compute the timeout, start the timer.\<close>

definition fsm_arm :: "unit prog" where
  "fsm_arm s = obind (on_rtt rtt_start (s\<lparr>tout_flag := False\<rparr>)) (\<lambda>t s.
     Ret () (s\<lparr>alarm_secs := t\<rparr>))"

text \<open>
  The rest of the body once \<open>net_recv\<close> has returned \<open>nbytes\<close>: \<open>Some r\<close> when \<open>fsm_loop\<close>
  returns \<open>r\<close>, \<open>None\<close> when the loop has gone round and waits in \<open>net_recv\<close> again.
\<close>

definition fsm_body :: "int \<Rightarrow> int option prog" where
  "fsm_body nbytes s =
     (if nbytes < 0 then
        if tout_flag s then
          obind (on_rtt rtt_timeout s) (\<lambda>r s.
            if r < 0 then Ret (Some (- 1)) s
            else obind (net_send s) (\<lambda>_ s. obind (fsm_arm s) (\<lambda>_ s. Ret None s)))
        else Exit (- 1) s
      else
        let s = s\<lparr>alarm_secs := 0, tout_flag := False\<rparr> in
        obind (on_rtt rtt_stop s) (\<lambda>_ s.
          if nbytes < 4 then Exit (- 1) s
          else let s = s\<lparr>op_recv := ldshort (recvbuff s)\<rparr> in
          if op_recv s < OP_MIN \<or> op_recv s > OP_MAX then Exit (- 1) s
          else obind (call_handler (fsm_ptr ! nat (op_sent s) ! nat (op_recv s))
                        (drop 2 (recvbuff s)) (nat (nbytes - 2)) s) (\<lambda>r s.
            if r < 0 then Ret (Some 0) s
            else obind (fsm_arm s) (\<lambda>_ s. Ret None s))))"

definition fsm_event :: "rcv \<Rightarrow> int option prog" where
  "fsm_event e s = obind (net_recv e s) (\<lambda>r s.
     case r of None \<Rightarrow> Ret None s | Some nbytes \<Rightarrow> fsm_body nbytes s)"

text \<open>
  \<open>fsm_loop\<close> up to its first wait in \<open>recvfrom\<close>: a message that \<open>net_open\<close> has read already
  is handled first.
\<close>

definition fsm_enter :: "int \<Rightarrow> int option prog" where
  "fsm_enter opcode s =
     (let s = s\<lparr>op_sent := opcode\<rparr>;
          s = (if rttfirst s then s\<lparr>rttinfo := rtt_init (rttinfo s), rttfirst := False\<rparr> else s);
          s = s\<lparr>rttinfo := rtt_newpack (rttinfo s)\<rparr>
      in obind (fsm_arm s) (\<lambda>_ s.
        if 0 \<le> recv_nbytes s then fsm_body (recv_nbytes s) (s\<lparr>recv_nbytes := - 1\<rparr>)
        else Ret None s))"

text \<open>
  The loop over the results of \<open>recvfrom\<close>; \<open>None\<close> at the end of the list is a process that
  is still waiting.
\<close>

fun fsm_run :: "rcv list \<Rightarrow> int option prog" where
  "fsm_run [] s = Ret None s"
| "fsm_run (e # es) s = obind (fsm_event e s) (\<lambda>r s.
     case r of None \<Rightarrow> fsm_run es s | Some r \<Rightarrow> Ret (Some r) s)"

definition fsm_loop :: "int \<Rightarrow> rcv list \<Rightarrow> int option prog" where
  "fsm_loop opcode es s = obind (fsm_enter opcode s) (\<lambda>r s.
     case r of None \<Rightarrow> fsm_run es s | Some r \<Rightarrow> Ret (Some r) s)"

text \<open>A child of \<open>main\<close>'s server loop: serve the request that came with \<open>e\<close>, then exit.\<close>

definition serve :: "rcv \<Rightarrow> int \<Rightarrow> rcv list \<Rightarrow> int option prog" where
  "serve e fd es s = obind (net_open e 0 fd True s) (\<lambda>r s.
     case r of None \<Rightarrow> Ret None s
     | Some _ \<Rightarrow> obind (fsm_loop 0 es s) (\<lambda>r s.
         case r of None \<Rightarrow> Ret None s | Some _ \<Rightarrow> Exit 0 (net_close s)))"

end
