(* ===== verification/TftpClient.thy ===== *)
theory TftpClient
  imports TftpFile
begin

text \<open>
  The TFTP client's transfer engine: \<open>client/sendrecv_cli.c\<close>, \<open>client/fsm_cli.c\<close>, the UDP
  routines of \<open>client/netudp_cli.c\<close> and the two commands that start a transfer,
  \<open>client/cmdgetput.c\<close>. Names that the server uses too carry the suffix \<open>_cli\<close>.
  \<open>err_quit\<close> and \<open>err_sys\<close> print and call \<open>exit(1)\<close> (\<open>client/error_cli.c\<close>).
\<close>

section \<open>Network\<close>

text \<open>
  \<open>net_open\<close>: \<open>udp_open\<close> looks the server up and makes the socket; its result is \<open>fd\<close>,
  and the address it stores is \<open>addr\<close>.
\<close>

definition net_open_cli :: "int \<Rightarrow> sockaddr \<Rightarrow> int prog" where
  "net_open_cli fd addr s =
     (let s = s\<lparr>sockfd := fd, peer := addr\<rparr>
      in if fd < 0 then Ret (- 1) s else Ret 0 (s\<lparr>recv_first := True\<rparr>))"

definition net_close_cli :: "tftp \<Rightarrow> tftp" where
  "net_close_cli s = s\<lparr>sockfd := - 1\<rparr>"

definition net_send_cli :: "unit prog" where
  "net_send_cli s =
     (if net_up s \<and> 0 \<le> sockfd s
      then Ret () (s\<lparr>sent := sent s @ [(peer s, take (sendlen s) (sendbuff s))]\<rparr>)
      else Exit 1 s)"

text \<open>
  \<open>net_recv\<close>: an interrupted \<open>recvfrom\<close> returns \<open>- 1\<close> whatever the signal was (the alarm
  has set \<open>tout_flag\<close>); the first reply must come from a new port, which becomes the
  peer's, every later one from that port.
\<close>

definition net_recv_cli :: "rcv \<Rightarrow> int prog" where
  "net_recv_cli e s = (case e of
     Intr alrm \<Rightarrow> Ret (- 1) (if alrm then s\<lparr>tout_flag := True\<rparr> else s)
   | RecvErr \<Rightarrow> Exit 1 s
   | Dgram from d \<Rightarrow>
       let data = take MAXBUFF d;
           s = s\<lparr>recvbuff := buf_put 0 data (recvbuff s)\<rparr>
       in if recv_first s then
            if snd (peer s) = snd from then Exit 1 s
            else Ret (int (length data)) (s\<lparr>peer := (fst (peer s), snd from), recv_first := False\<rparr>)
          else if snd (peer s) \<noteq> snd from then Exit 1 s
          else Ret (int (length data)) s)"

section \<open>Sending\<close>

definition mode_name :: "int \<Rightarrow> byte list option" where
  "mode_name mode = (if mode = MODE_ASCII then Some (bytes ''netascii'')
     else if mode = MODE_BINARY then Some (bytes ''octet'') else None)"

text \<open>
  \<open>send_RQ\<close>: opcode, file name and mode, each string with its NUL; a name that does not fit
  into \<open>sendbuff\<close> would be stored outside it. The assignment at its end
  is to the parameter itself (\<open>opcode = opcode\<close>): \<open>op_sent\<close> is set by \<open>fsm_loop\<close>.
\<close>

definition send_RQ :: "int \<Rightarrow> byte list \<Rightarrow> int \<Rightarrow> unit prog" where
  "send_RQ opcode fname mode s =
     (let s = s\<lparr>sendbuff := buf_put 0 (stshort opcode) (sendbuff s)\<rparr>;
          len = 2 + length fname + 1
      in if length (sendbuff s) < len then Fault s
      else let s = s\<lparr>sendbuff := buf_put 2 (fname @ [NUL]) (sendbuff s)\<rparr>
      in case mode_name mode of
           None \<Rightarrow> Exit 1 s
         | Some modestr \<Rightarrow>
             if length (sendbuff s) < len + length modestr + 1 then Fault s
             else let s = s\<lparr>sendbuff := buf_put len (modestr @ [NUL]) (sendbuff s)\<rparr>;
                      s = s\<lparr>sendlen := len + length modestr + 1\<rparr>
             in net_send_cli s)"

definition send_ACK_cli :: "int \<Rightarrow> unit prog" where
  "send_ACK_cli blocknum s =
     (let s = s\<lparr>sendbuff := buf_put 0 (stshort OP_ACK) (sendbuff s)\<rparr>;
          s = s\<lparr>sendbuff := buf_put 2 (stshort blocknum) (sendbuff s)\<rparr>;
          s = s\<lparr>sendlen := 4\<rparr>
      in obind (net_send_cli s) (\<lambda>_ s. Ret () (s\<lparr>op_sent := OP_ACK\<rparr>)))"

definition send_DATA_cli :: "int \<Rightarrow> nat \<Rightarrow> unit prog" where
  "send_DATA_cli blocknum nbytes s =
     (let s = s\<lparr>sendbuff := buf_put 0 (stshort OP_DATA) (sendbuff s)\<rparr>;
          s = s\<lparr>sendbuff := buf_put 2 (stshort blocknum) (sendbuff s)\<rparr>;
          s = s\<lparr>sendlen := 4 + nbytes\<rparr>
      in obind (net_send_cli s) (\<lambda>_ s. Ret () (s\<lparr>op_sent := OP_DATA\<rparr>)))"

section \<open>Receiving\<close>

text \<open>
  \<open>recv_RQERR\<close> terminates the message in the buffer (one byte past the packet, inside
  \<open>recvbuff\<close> unless the packet filled it) and prints it up to its first NUL.
\<close>

definition recv_RQERR :: "byte list \<Rightarrow> nat \<Rightarrow> int prog" where
  "recv_RQERR ptr nbytes s =
     (let ptr = drop 2 ptr; nbytes = nbytes - 2 in
      if nbytes < length ptr then
        Ret (- 1) (s\<lparr>message := takeWhile (\<lambda>c. c \<noteq> NUL) (take nbytes ptr),
                     recvbuff := (recvbuff s)[4 + nbytes := NUL]\<rparr>)
      else Fault s)"

definition recv_DATA_cli :: "byte list \<Rightarrow> nat \<Rightarrow> int prog" where
  "recv_DATA_cli ptr nbytes s =
     (let recvblknum = ldshort ptr; ptr = drop 2 ptr; nbytes = nbytes - 2 in
      obind
        (if recvblknum = nextblknum s then
           let s = s\<lparr>nextblknum := nextblknum s + 1, totnbytes := totnbytes s + int nbytes\<rparr>
           in if nbytes > 0 then file_write_cli (take nbytes ptr) (modetype s) s else Ret () s
         else if recvblknum < nextblknum s - 1 then Exit 1 s
         else if recvblknum > nextblknum s then Exit 1 s
         else Ret () s)
        (\<lambda>_ s. obind (send_ACK_cli recvblknum s) (\<lambda>_ s.
           Ret (if nbytes = MAXDATA then 0 else - 1) s)))"

definition recv_ACK_cli :: "byte list \<Rightarrow> nat \<Rightarrow> int prog" where
  "recv_ACK_cli ptr nbytes s =
     (let recvblknum = ldshort ptr in
      if nbytes \<noteq> 2 then Exit 1 s
      else if recvblknum = nextblknum s then
        obind (file_read_cli MAXDATA (modetype s) s) (\<lambda>bs s.
          let s = s\<lparr>sendbuff := buf_put 4 bs (sendbuff s)\<rparr>; nbytes = length bs in
          if nbytes = 0 \<and> lastsend s < int MAXDATA then Ret (- 1) s
          else let s = s\<lparr>lastsend := int nbytes, nextblknum := nextblknum s + 1,
                         totnbytes := totnbytes s + int nbytes\<rparr>
            in obind (send_DATA_cli (nextblknum s) nbytes s) (\<lambda>_ s. Ret 0 s))
      else if recvblknum < nextblknum s - 1 then Exit 1 s
      else if recvblknum > nextblknum s then Exit 1 s
      else Ret 0 s)"

section \<open>The finite state machine\<close>

datatype handler_cli =
  Fsm_invalid_cli | Fsm_error_cli | Recv_RQERR | Recv_DATA_cli | Recv_ACK_cli

definition fsm_ptr_cli :: "handler_cli list list" where
  "fsm_ptr_cli =
    [[Fsm_invalid_cli, Fsm_invalid_cli, Fsm_invalid_cli, Fsm_invalid_cli, Fsm_invalid_cli,
      Fsm_invalid_cli],
     [Fsm_invalid_cli, Fsm_invalid_cli, Fsm_invalid_cli, Recv_DATA_cli, Fsm_invalid_cli, Recv_RQERR],
     [Fsm_invalid_cli, Fsm_invalid_cli, Fsm_invalid_cli, Fsm_invalid_cli, Recv_ACK_cli, Recv_RQERR],
     [Fsm_invalid_cli, Fsm_invalid_cli, Fsm_invalid_cli, Fsm_invalid_cli, Recv_ACK_cli, Fsm_error_cli],
     [Fsm_invalid_cli, Fsm_invalid_cli, Fsm_invalid_cli, Recv_DATA_cli, Fsm_invalid_cli, Fsm_error_cli],
     [Fsm_invalid_cli, Fsm_invalid_cli, Fsm_invalid_cli, Fsm_invalid_cli, Fsm_invalid_cli,
      Fsm_error_cli]]"

definition fsm_invalid_cli :: "int prog" where
  "fsm_invalid_cli s = Exit 1 s"

definition fsm_error_cli :: "int prog" where
  "fsm_error_cli s = Exit 1 s"

fun call_handler_cli :: "handler_cli \<Rightarrow> byte list \<Rightarrow> nat \<Rightarrow> int prog" where
  "call_handler_cli Fsm_invalid_cli ptr n = fsm_invalid_cli"
| "call_handler_cli Fsm_error_cli ptr n = fsm_error_cli"
| "call_handler_cli Recv_RQERR ptr n = recv_RQERR ptr n"
| "call_handler_cli Recv_DATA_cli ptr n = recv_DATA_cli ptr n"
| "call_handler_cli Recv_ACK_cli ptr n = recv_ACK_cli ptr n"

definition fsm_arm_cli :: "unit prog" where
  "fsm_arm_cli s = obind (on_rtt rtt_start_cli (s\<lparr>tout_flag := False\<rparr>)) (\<lambda>t s.
     Ret () (s\<lparr>alarm_secs := t\<rparr>))"

definition fsm_body_cli :: "int \<Rightarrow> int option prog" where
  "fsm_body_cli nbytes s =
     (if nbytes < 0 then
        if tout_flag s then
          obind (on_rtt rtt_timeout_cli s) (\<lambda>r s.
            if r < 0 then Ret (Some (- 1)) s
            else obind (net_send_cli s) (\<lambda>_ s. obind (fsm_arm_cli s) (\<lambda>_ s. Ret None s)))
        else Exit 1 s
      else
        let s = s\<lparr>alarm_secs := 0, tout_flag := False\<rparr> in
        obind (on_rtt rtt_stop_cli s) (\<lambda>_ s.
          if nbytes < 4 then Exit 1 s
          else let s = s\<lparr>op_recv := ldshort (recvbuff s)\<rparr> in
          if op_recv s < OP_MIN \<or> op_recv s > OP_MAX then Exit 1 s
          else obind (call_handler_cli (fsm_ptr_cli ! nat (op_sent s) ! nat (op_recv s))
                        (drop 2 (recvbuff s)) (nat (nbytes - 2)) s) (\<lambda>r s.
            if r < 0 then Ret (Some 0) s
            else obind (fsm_arm_cli s) (\<lambda>_ s. Ret None s))))"

definition fsm_event_cli :: "rcv \<Rightarrow> int option prog" where
  "fsm_event_cli e s = obind (net_recv_cli e s) fsm_body_cli"

definition fsm_enter_cli :: "int \<Rightarrow> int option prog" where
  "fsm_enter_cli opcode s =
     (let s = s\<lparr>op_sent := opcode\<rparr>;
          s = (if rttfirst s then s\<lparr>rttinfo := rtt_init_cli (rttinfo s), rttfirst := False\<rparr> else s);
          s = s\<lparr>rttinfo := rtt_newpack_cli (rttinfo s)\<rparr>
      in obind (fsm_arm_cli s) (\<lambda>_ s. Ret None s))"

fun fsm_run_cli :: "rcv list \<Rightarrow> int option prog" where
  "fsm_run_cli [] s = Ret None s"
| "fsm_run_cli (e # es) s = obind (fsm_event_cli e s) (\<lambda>r s.
     case r of None \<Rightarrow> fsm_run_cli es s | Some r \<Rightarrow> Ret (Some r) s)"

definition fsm_loop_cli :: "int \<Rightarrow> rcv list \<Rightarrow> int option prog" where
  "fsm_loop_cli opcode es s = obind (fsm_enter_cli opcode s) (\<lambda>r s.
     case r of None \<Rightarrow> fsm_run_cli es s | Some r \<Rightarrow> Ret (Some r) s)"

section \<open>get and put\<close>

text \<open>
  The statistics' timer: \<open>t_start\<close> and \<open>t_stop\<close> read the clock (\<open>getrusage\<close> of the process
  itself does not fail, and nothing reads what it stores), \<open>t_getrtime\<close> is the difference
  in seconds as a \<open>double\<close>.
\<close>

definition t_start :: "unit prog" where
  "t_start s = (case gettimeofday s of
     (None, s) \<Rightarrow> Exit 1 s
   | (Some tv, s) \<Rightarrow> Ret () (s\<lparr>st_start := tv\<rparr>))"

definition t_stop :: "unit prog" where
  "t_stop s = (case gettimeofday s of
     (None, s) \<Rightarrow> Exit 1 s
   | (Some tv, s) \<Rightarrow> Ret () (s\<lparr>st_stop := tv\<rparr>))"

definition t_getrtime :: "tftp \<Rightarrow> rat" where
  "t_getrtime s =
     (let start = dbl (dbl (dbl (of_int (fst (st_start s))) * 1000000) + of_int (snd (st_start s)));
          stop = dbl (dbl (dbl (of_int (fst (st_stop s))) * 1000000) + of_int (snd (st_stop s)))
      in dbl (dbl (stop - start) / 1000000))"

text \<open>
  \<open>do_get\<close> and \<open>do_put\<close> up to the call of \<open>fsm_loop\<close> (\<open>None\<close>: they have returned before it,
  because the file or the socket could not be opened), and as a whole over a list of
  results of \<open>recvfrom\<close>. What \<open>fsm_loop\<close> returns is not looked at;
  the statistics printed at the end are \<open>totnbytes\<close> and \<open>t_getrtime\<close>.
\<close>

definition get_start :: "byte list \<Rightarrow> byte list \<Rightarrow> int \<Rightarrow> sockaddr \<Rightarrow> unit option prog" where
  "get_start remfname locfname fd addr s =
     obind (file_open_cli locfname True 1 s) (\<lambda>fp s.
       let s = s\<lparr>localfp := fp\<rparr>
       in if fp = None then Ret None s
       else obind (net_open_cli fd addr s) (\<lambda>r s.
         if r < 0 then Ret None s
         else obind (t_start (s\<lparr>totnbytes := 0\<rparr>)) (\<lambda>_ s.
           obind (send_RQ OP_RRQ remfname (modetype s) s) (\<lambda>_ s. Ret (Some ()) s))))"

definition put_start :: "byte list \<Rightarrow> byte list \<Rightarrow> int \<Rightarrow> sockaddr \<Rightarrow> unit option prog" where
  "put_start remfname locfname fd addr s =
     obind (file_open_cli locfname False 0 s) (\<lambda>fp s.
       let s = s\<lparr>localfp := fp\<rparr>
       in if fp = None then Ret None s
       else obind (net_open_cli fd addr s) (\<lambda>r s.
         if r < 0 then Ret None s
         else obind (t_start (s\<lparr>totnbytes := 0\<rparr>)) (\<lambda>_ s.
           obind (send_RQ OP_WRQ remfname (modetype s) (s\<lparr>lastsend := int MAXDATA\<rparr>)) (\<lambda>_ s.
             Ret (Some ()) s))))"

definition transfer_end :: "unit prog" where
  "transfer_end s = obind (t_stop s) (\<lambda>_ s. file_close_cli (net_close_cli s))"

definition do_get :: "byte list \<Rightarrow> byte list \<Rightarrow> int \<Rightarrow> sockaddr \<Rightarrow> rcv list \<Rightarrow> unit option prog" where
  "do_get remfname locfname fd addr es s =
     obind (get_start remfname locfname fd addr s) (\<lambda>go s.
       if go = None then Ret (Some ()) s
       else obind (fsm_loop_cli OP_RRQ es s) (\<lambda>r s.
         if r = None then Ret None s else obind (transfer_end s) (\<lambda>_ s. Ret (Some ()) s)))"

definition do_put :: "byte list \<Rightarrow> byte list \<Rightarrow> int \<Rightarrow> sockaddr \<Rightarrow> rcv list \<Rightarrow> unit option prog" where
  "do_put remfname locfname fd addr es s =
     obind (put_start remfname locfname fd addr s) (\<lambda>go s.
       if go = None then Ret (Some ()) s
       else obind (fsm_loop_cli OP_WRQ es s) (\<lambda>r s.
         if r = None then Ret None s else obind (transfer_end s) (\<lambda>_ s. Ret (Some ()) s)))"

end
