(* ===== verification/TftpLink.thy ===== *)
theory TftpLink
  imports Prelude
begin

text \<open>
  The stop-and-wait protocol between the two ends of a transfer, as interfaces. What the
  protocol needs of the end that sends data is the locale \<open>tftp_sender\<close>, of the end that
  receives it \<open>tftp_receiver\<close>; \<open>tftp_link\<close> puts one of each on a network that may lose,
  duplicate and reorder datagrams, and proves once what the receiver's file holds. The
  server and the client are interpreted as both.
\<close>

section \<open>Messages and phases\<close>

text \<open>
  A datagram as the protocol sees it: block numbers are as on the wire, 16 bits wide.
\<close>

datatype msg = DataMsg int "byte list" | AckMsg int | ReqMsg | ErrMsg

text \<open>
  A process is still in its loop, has left it after the last block, or has stopped
  otherwise (it exited, crashed or gave up).
\<close>

datatype phase = Running | Finished | Dead

abbreviation wire :: "nat \<Rightarrow> int" where
  "wire k \<equiv> int k mod 65536"

lemma wire_small: "k < 65536 \<Longrightarrow> wire k = int k"
  by (simp add: zmod_trivial_iff)

text \<open>A wire number names the one block it can be, as long as the blocks stay below 65536.\<close>

lemma wire_eq: "wire j = int k \<Longrightarrow> j \<le> k + 1 \<Longrightarrow> j = k"
proof -
  assume w: "wire j = int k" and le: "j \<le> k + 1"
  have "int k < 65536" using w pos_mod_bound [of 65536 "int j"] by simp
  then have "k < 65536" by linarith
  show "j = k"
  proof (cases "j < 65536")
    case True
    with w show ?thesis by (simp add: wire_small)
  next
    case False
    with \<open>k < 65536\<close> le have "j = 65536" by simp
    with w \<open>k < 65536\<close> le show ?thesis by simp
  qed
qed

text \<open>Block \<open>k\<close> (from 1) of a stream: 512 bytes, less only at the end.\<close>

definition block :: "byte list \<Rightarrow> nat \<Rightarrow> byte list" where
  "block E k = take 512 (drop (512 * (k - 1)) E)"

lemma take_block: "take (512 * k) E @ block E (Suc k) = take (512 * Suc k) E"
  by (simp add: block_def take_add [symmetric] add.commute)

lemma length_block: "length (block E k) \<le> 512"
  by (simp add: block_def)

lemma block_short:
  "length (block E (Suc k)) \<noteq> 512 \<Longrightarrow> take (512 * k) E @ block E (Suc k) = E \<and> length E < 512 * Suc k"
  by (auto simp: take_block) (simp_all add: block_def min_def split: if_splits)

lemma block_full: "512 * k \<le> length E \<Longrightarrow> 1 \<le> k \<Longrightarrow> length (block E k) = 512"
  by (cases k) (auto simp: block_def)

section \<open>The two interfaces\<close>

locale tftp_sender =
  fixes s_step :: "msg option \<Rightarrow> 's \<Rightarrow> phase \<Rightarrow> 's \<Rightarrow> bool"
    and s_ok :: "'s \<Rightarrow> bool"
    and s_next :: "'s \<Rightarrow> int"
    and s_pend :: "'s \<Rightarrow> byte list"
    and s_msgs :: "'s \<Rightarrow> msg set"
  assumes s_ok_step: "s_ok s \<Longrightarrow> s_step m s Running t \<Longrightarrow> s_ok t"
    and s_idle: "s_ok s \<Longrightarrow> s_step m s ph t \<Longrightarrow> m \<noteq> Some (AckMsg (s_next s)) \<Longrightarrow>
      s_msgs t \<subseteq> s_msgs s \<and> (ph = Running \<longrightarrow> s_next t = s_next s \<and> s_pend t = s_pend s)"
    and s_acked: "s_ok s \<Longrightarrow> s_step (Some (AckMsg (s_next s))) s ph t \<Longrightarrow>
      s_msgs t \<subseteq> insert (DataMsg ((s_next s + 1) mod 65536) (take 512 (s_pend s))) (s_msgs s) \<and>
      (ph = Running \<longrightarrow> s_next t = s_next s + 1 \<and> s_pend t = drop 512 (s_pend s))"

locale tftp_receiver =
  fixes r_step :: "msg option \<Rightarrow> 'r \<Rightarrow> phase \<Rightarrow> 'r \<Rightarrow> bool"
    and r_ok :: "'r \<Rightarrow> bool"
    and r_next :: "'r \<Rightarrow> int"
    and r_acc :: "'r \<Rightarrow> byte list \<Rightarrow> bool"
    and r_msgs :: "'r \<Rightarrow> msg set"
  assumes r_ok_step: "r_ok r \<Longrightarrow> r_step m r Running t \<Longrightarrow> r_ok t"
    and r_idle: "r_ok r \<Longrightarrow> r_step m r ph t \<Longrightarrow> (\<forall>p. m \<noteq> Some (DataMsg (r_next r) p)) \<Longrightarrow>
      r_msgs t \<subseteq> r_msgs r \<union> {AckMsg n |n p. m = Some (DataMsg n p) \<and> n = r_next r - 1} \<and>
      (ph = Running \<longrightarrow> r_next t = r_next r) \<and>
      (\<forall>xs. r_acc r xs \<longrightarrow> r_acc t xs) \<and>
      (ph = Finished \<longrightarrow> m = Some ErrMsg \<or>
         (\<exists>p. m = Some (DataMsg (r_next r - 1) p) \<and> length p \<noteq> 512))"
    and r_data: "r_ok r \<Longrightarrow> r_step (Some (DataMsg (r_next r) p)) r ph t \<Longrightarrow> length p \<le> 512 \<Longrightarrow>
      r_msgs t \<subseteq> insert (AckMsg (r_next r)) (r_msgs r) \<and>
      (ph = Running \<longrightarrow> length p = 512 \<and> r_next t = r_next r + 1) \<and>
      (ph = Finished \<longrightarrow> length p \<noteq> 512) \<and>
      (ph \<noteq> Dead \<longrightarrow> (\<forall>xs. r_acc r xs \<longrightarrow> r_acc t (xs @ p)))"

section \<open>A transfer\<close>

text \<open>The datagrams a sender of \<open>E\<close> that has reached block \<open>K\<close>, and a receiver that has
  accepted \<open>N\<close> blocks, can have sent.\<close>

definition blocks_upto :: "byte list \<Rightarrow> nat \<Rightarrow> msg set \<Rightarrow> bool" where
  "blocks_upto E K M \<longleftrightarrow>
     (\<forall>m \<in> M. m = ReqMsg \<or> (\<exists>j. 1 \<le> j \<and> j \<le> K \<and> m = DataMsg (wire j) (block E j)))"

definition acks_upto :: "nat \<Rightarrow> msg set \<Rightarrow> bool" where
  "acks_upto N M \<longleftrightarrow> (\<forall>m \<in> M. m = ReqMsg \<or> (\<exists>j \<le> N. m = AckMsg (wire j)))"

lemma blocks_upto_subset: "blocks_upto E K M \<Longrightarrow> M' \<subseteq> M \<Longrightarrow> blocks_upto E K M'"
  by (auto simp: blocks_upto_def)

lemma blocks_upto_Suc:
  "blocks_upto E K M \<Longrightarrow> M' \<subseteq> insert (DataMsg (wire (Suc K)) (block E (Suc K))) M \<Longrightarrow>
   blocks_upto E (Suc K) M'"
  unfolding blocks_upto_def by (metis insertE le_Suc_eq less_eq_Suc_le subsetD zero_less_Suc One_nat_def)

lemma acks_upto_subset: "acks_upto N M \<Longrightarrow> M' \<subseteq> M \<Longrightarrow> acks_upto N M'"
  by (auto simp: acks_upto_def)

lemma acks_upto_insert:
  "acks_upto N M \<Longrightarrow> N \<le> N' \<Longrightarrow> j \<le> N' \<Longrightarrow> M' \<subseteq> insert (AckMsg (wire j)) M \<Longrightarrow> acks_upto N' M'"
  unfolding acks_upto_def by (metis insertE le_trans subsetD)

locale tftp_link = tftp_sender + tftp_receiver
begin

text \<open>
  Where each end stands. \<open>K\<close> is the last block sent, \<open>N\<close> the last one accepted; the numbers
  on the wire wrap around, \<open>K\<close> and \<open>N\<close> do not.
\<close>

definition sender_at :: "byte list \<Rightarrow> nat \<Rightarrow> phase \<Rightarrow> 'a \<Rightarrow> bool" where
  "sender_at E K ph s \<longleftrightarrow>
     (ph = Running \<longrightarrow> s_ok s \<and> s_next s = int K \<and> s_pend s = drop (512 * K) E)"

definition receiver_at :: "byte list \<Rightarrow> nat \<Rightarrow> phase \<Rightarrow> 'b \<Rightarrow> bool" where
  "receiver_at E N ph r \<longleftrightarrow>
     (ph = Running \<longrightarrow> r_ok r \<and> r_next r = int N + 1 \<and> 512 * N \<le> length E \<and>
        r_acc r (take (512 * N) E)) \<and>
     (ph = Finished \<longrightarrow> r_acc r E \<and> length E < 512 * 65535)"

definition link_inv :: "byte list \<Rightarrow> phase \<Rightarrow> 'a \<Rightarrow> phase \<Rightarrow> 'b \<Rightarrow> bool" where
  "link_inv E sp s rp r \<longleftrightarrow> (\<exists>K N. N \<le> K \<and> K \<le> Suc N \<and> N \<le> 65535 \<and>
     blocks_upto E K (s_msgs s) \<and> acks_upto N (r_msgs r) \<and>
     sender_at E K sp s \<and> receiver_at E N rp r)"

lemma link_invI:
  "N \<le> K \<Longrightarrow> K \<le> Suc N \<Longrightarrow> N \<le> 65535 \<Longrightarrow> blocks_upto E K (s_msgs s) \<Longrightarrow>
   acks_upto N (r_msgs r) \<Longrightarrow> sender_at E K sp s \<Longrightarrow> receiver_at E N rp r \<Longrightarrow>
   link_inv E sp s rp r"
  unfolding link_inv_def by blast

lemma link_sender_step:
  assumes inv: "link_inv E Running s rp r" and step: "s_step m s ph t"
    and m: "m = None \<or> (\<exists>x \<in> r_msgs r. m = Some x)"
  shows "link_inv E ph t rp r"
proof -
  from inv obtain K N where i:
    "N \<le> K" "K \<le> Suc N" "N \<le> 65535" "blocks_upto E K (s_msgs s)" "acks_upto N (r_msgs r)"
    "sender_at E K Running s" "receiver_at E N rp r"
    unfolding link_inv_def by blast
  then have ok: "s_ok s" and nxt: "s_next s = int K" and pend: "s_pend s = drop (512 * K) E"
    by (simp_all add: sender_at_def)
  have ok': "ph = Running \<longrightarrow> s_ok t" using s_ok_step ok step by blast
  show ?thesis
  proof (cases "m = Some (AckMsg (s_next s))")
    case False
    from s_idle [OF ok step False] have
      a: "s_msgs t \<subseteq> s_msgs s" "ph = Running \<longrightarrow> s_next t = s_next s \<and> s_pend t = s_pend s"
      by simp_all
    with ok' nxt pend have "sender_at E K ph t" by (simp add: sender_at_def)
    with a(1) i show ?thesis by (blast intro: link_invI blocks_upto_subset)
  next
    case True
    with m have "AckMsg (s_next s) \<in> r_msgs r" by simp
    with i(5) nxt obtain j where j: "j \<le> N" "wire j = int K"
      unfolding acks_upto_def by fastforce
    with i(1) have "j = K" using wire_eq by simp
    with j(1) i(1) have NK: "N = K" by simp
    from step True have step': "s_step (Some (AckMsg (s_next s))) s ph t" by simp
    have blk: "take 512 (s_pend s) = block E (Suc K)" "drop 512 (s_pend s) = drop (512 * Suc K) E"
      "s_next s + 1 = int (Suc K)"
      using pend nxt by (simp_all add: block_def)
    from s_acked [OF ok step'] have
      a: "s_msgs t \<subseteq> insert (DataMsg (wire (Suc K)) (block E (Suc K))) (s_msgs s)"
        "ph = Running \<longrightarrow> s_next t = int (Suc K) \<and> s_pend t = drop (512 * Suc K) E"
      unfolding blk by blast+
    with ok' have "sender_at E (Suc K) ph t" by (simp add: sender_at_def)
    moreover have "blocks_upto E (Suc K) (s_msgs t)" by (rule blocks_upto_Suc [OF i(4) a(1)])
    ultimately show ?thesis using i NK by (intro link_invI [of N "Suc K"]) simp_all
  qed
qed

lemma link_receiver_step:
  assumes inv: "link_inv E sp s Running r" and step: "r_step m r ph t"
    and m: "m = None \<or> (\<exists>x \<in> s_msgs s. m = Some x)"
  shows "link_inv E sp s ph t"
proof -
  from inv obtain K N where i:
    "N \<le> K" "K \<le> Suc N" "N \<le> 65535" "blocks_upto E K (s_msgs s)" "acks_upto N (r_msgs r)"
    "sender_at E K sp s" "receiver_at E N Running r"
    unfolding link_inv_def by blast
  then have ok: "r_ok r" and nxt: "r_next r = int N + 1" and full: "512 * N \<le> length E"
    and acc: "r_acc r (take (512 * N) E)"
    by (simp_all add: receiver_at_def)
  have ok': "ph = Running \<longrightarrow> r_ok t" using r_ok_step ok step by blast
  have data: "\<exists>j. 1 \<le> j \<and> j \<le> K \<and> n = wire j \<and> p = block E j" if "m = Some (DataMsg n p)" for n p
    using m i(4) that unfolding blocks_upto_def by auto
  show ?thesis
  proof (cases "\<exists>p. m = Some (DataMsg (r_next r) p)")
    case True
    then obtain p where p: "m = Some (DataMsg (r_next r) p)" by blast
    with data nxt obtain j where j: "1 \<le> j" "j \<le> K" "wire j = int (Suc N)" "p = block E j"
      by (metis add.commute of_nat_Suc)
    then have "j = Suc N" using wire_eq i(2) by simp
    with j i(1,2) have K: "K = Suc N" "p = block E (Suc N)" by simp_all
    have "int (Suc N) < 65536" using j(3) pos_mod_bound [of 65536 "int j"] by simp
    then have N: "Suc N \<le> 65535" by linarith
    have w: "r_next r = wire (Suc N)" using nxt N by (simp add: wire_small)
    from r_data [OF ok step [unfolded p]] have
      a: "r_msgs t \<subseteq> insert (AckMsg (wire (Suc N))) (r_msgs r)"
        "ph = Running \<longrightarrow> length p = 512 \<and> r_next t = r_next r + 1"
        "ph = Finished \<longrightarrow> length p \<noteq> 512"
        "ph \<noteq> Dead \<longrightarrow> r_acc t (take (512 * N) E @ p)"
      using acc K(2) w length_block by auto
    have "receiver_at E (Suc N) ph t"
    proof -
      have "ph = Running \<longrightarrow> 512 * Suc N \<le> length E"
        using a(2) K(2) by (auto simp: block_def)
      moreover have "ph = Running \<longrightarrow> r_acc t (take (512 * Suc N) E)"
        using a(4) K(2) take_block [of N E] by auto
      moreover have "ph = Finished \<longrightarrow> r_acc t E \<and> length E < 512 * 65535"
        using a(3,4) K(2) block_short [of E N] N by auto
      ultimately show ?thesis using ok' a(2) nxt by (auto simp: receiver_at_def)
    qed
    moreover have "acks_upto (Suc N) (r_msgs t)"
      by (rule acks_upto_insert [OF i(5) _ _ a(1)]) simp_all
    ultimately show ?thesis using i K(1) N by (intro link_invI [of "Suc N" K]) simp_all
  next
    case False
    then have "\<forall>p. m \<noteq> Some (DataMsg (r_next r) p)" by blast
    from r_idle [OF ok step this] have
      a: "r_msgs t \<subseteq> r_msgs r \<union> {AckMsg n |n p. m = Some (DataMsg n p) \<and> n = r_next r - 1}"
        "ph = Running \<longrightarrow> r_next t = r_next r" "\<forall>xs. r_acc r xs \<longrightarrow> r_acc t xs"
        "ph = Finished \<longrightarrow> m = Some ErrMsg \<or>
           (\<exists>p. m = Some (DataMsg (r_next r - 1) p) \<and> length p \<noteq> 512)"
      by simp_all
    have dup: "1 \<le> N \<and> p = block E N" if "m = Some (DataMsg (int N) p)" for p
    proof -
      from data [OF that] obtain j where j: "1 \<le> j" "j \<le> K" "wire j = int N" "p = block E j"
        by auto
      then show ?thesis using wire_eq i(2) by fastforce
    qed
    have "r_next r - 1 = int N" using nxt by simp
    then have "r_msgs t \<subseteq> insert (AckMsg (wire N)) (r_msgs r)"
      using a(1) i(3) by (auto simp: wire_small)
    then have "acks_upto N (r_msgs t)" using acks_upto_insert [OF i(5)] by blast
    moreover have "ph \<noteq> Finished"
    proof
      assume fin: "ph = Finished"
      have "m \<noteq> Some ErrMsg" using m i(4) unfolding blocks_upto_def by auto
      with fin a(4) \<open>r_next r - 1 = int N\<close> obtain p where
        "m = Some (DataMsg (int N) p)" "length p \<noteq> 512" by auto
      with dup block_full [OF full] show False by blast
    qed
    then have "receiver_at E N ph t"
      using ok' a(2,3) nxt full acc by (cases ph) (auto simp: receiver_at_def)
    ultimately show ?thesis using i by (blast intro: link_invI)
  qed
qed

text \<open>
  What the invariant says of the receiver's file: it holds a whole number of blocks of the
  stream while the transfer runs, and the stream itself when the receiver has finished,
  which a stream of 65535 blocks or more never lets it do.
\<close>

lemma link_running: "link_inv E sp s Running r \<Longrightarrow> \<exists>n. r_acc r (take n E)"
  unfolding link_inv_def receiver_at_def by blast

lemma link_finished: "link_inv E sp s Finished r \<Longrightarrow> r_acc r E \<and> length E < 512 * 65535"
  unfolding link_inv_def receiver_at_def by blast

end

end
