(* ===== verification/TftpEngine.thy ===== *)
theory TftpEngine
  imports TftpServer TftpClient TftpLink
begin

text \<open>
  The two programs' state machines as implementations of the stop-and-wait interfaces. What
  one event does is described once, by \<open>fsm_engine\<close>: it is idle (nothing but a possible
  retransmission) or it runs one handler of the table. \<open>ack_handler\<close> and \<open>data_handler\<close> say
  what the handlers for acknowledgements and for data promise. Every law is discharged for
  the server's functions and for the client's.
\<close>

section \<open>Reading a state as the protocol does\<close>

definition parse :: "byte list \<Rightarrow> msg" where
  "parse d = (if length d < 4 then ErrMsg
     else let op = ldshort d in
       if op = OP_DATA then DataMsg (ldshort (drop 2 d)) (drop 4 d)
       else if op = OP_ACK \<and> length d = 4 then AckMsg (ldshort (drop 2 d))
       else if op = OP_RRQ \<or> op = OP_WRQ then ReqMsg else ErrMsg)"

text \<open>What a receiver with a buffer of \<open>MAXBUFF\<close> bytes sees of a datagram, and the datagrams a
  program has sent, so seen.\<close>

definition seen :: "byte list \<Rightarrow> msg" where
  "seen d = parse (take MAXBUFF d)"

definition msgs :: "tftp \<Rightarrow> msg set" where
  "msgs s = seen ` snd ` set (sent s)"

fun input :: "rcv \<Rightarrow> msg option" where
  "input (Dgram from d) = Some (seen d)"
| "input (Intr b) = None"
| "input RecvErr = None"

fun phase_of :: "(int option, 's) outcome \<Rightarrow> phase" where
  "phase_of (Ret None s) = Running"
| "phase_of (Ret (Some r) s) = (if r = 0 then Finished else Dead)"
| "phase_of (Exit c s) = Dead"
| "phase_of (Fault s) = Dead"

text \<open>Everything an idle event leaves alone.\<close>

definition same_core :: "tftp \<Rightarrow> tftp \<Rightarrow> bool" where
  "same_core s t \<longleftrightarrow> modetype t = modetype s \<and> nextblknum t = nextblknum s \<and>
     lastsend t = lastsend s \<and> op_sent t = op_sent s \<and> sendbuff t = sendbuff s \<and>
     sendlen t = sendlen s \<and> localfp t = localfp s \<and> lastcr t = lastcr s \<and>
     nextchar t = nextchar s \<and> sent t = sent s \<and> length (recvbuff t) = length (recvbuff s) \<and> fs t = fs s"

lemma same_core_refl [simp]: "same_core s s"
  by (simp add: same_core_def)

lemma same_core_trans: "same_core s t \<Longrightarrow> same_core t u \<Longrightarrow> same_core s u"
  by (simp add: same_core_def)

lemma same_core_obs:
  assumes "same_core s t"
  shows "pending t = pending s" "accepted t xs = accepted s xs" "msgs t = msgs s"
proof -
  show "pending t = pending s"
    by (rule pending_cong) (use assms in \<open>simp_all add: same_core_def\<close>)
  show "accepted t xs = accepted s xs"
    by (rule accepted_cong) (use assms in \<open>simp_all add: same_core_def\<close>)
  show "msgs t = msgs s" using assms by (simp add: same_core_def msgs_def)
qed

lemma on_rtt_core: "same_core s (ostate (on_rtt f s))"
  by (auto simp: on_rtt_def gettimeofday_def same_core_def split: outcome.splits)

lemma on_rtt_Ret_core: "on_rtt f s = Ret x t \<Longrightarrow> same_core s t"
  using on_rtt_core [of s f] by simp

lemma same_core_flags [simp]:
  "same_core s (t\<lparr>tout_flag := b\<rparr>) = same_core s t"
  "same_core s (t\<lparr>alarm_secs := i\<rparr>) = same_core s t"
  "same_core s (t\<lparr>op_recv := i\<rparr>) = same_core s t"
  "same_core (s\<lparr>tout_flag := b\<rparr>) t = same_core s t"
  "same_core (s\<lparr>alarm_secs := i\<rparr>) t = same_core s t"
  "same_core (s\<lparr>op_recv := i\<rparr>) t = same_core s t"
  by (simp_all add: same_core_def)

lemma fsm_arm_core: "same_core s (ostate (fsm_arm s))"
  using on_rtt_core [of "s\<lparr>tout_flag := False\<rparr>" rtt_start]
  by (cases "on_rtt rtt_start (s\<lparr>tout_flag := False\<rparr>)") (auto simp: fsm_arm_def)

text \<open>Where the two programs have the same code, their models are the same functions.\<close>

lemma cli_srv_eq: "fsm_arm_cli = fsm_arm" "net_send_cli = net_send"
  by (rule ext, simp add: fsm_arm_cli_def fsm_arm_def rtt_cli_eq)
     (rule ext, simp add: net_send_cli_def net_send_def)

section \<open>One event\<close>

text \<open>
  The end of an event that runs a handler: what the loop makes of the handler's outcome.
\<close>

definition after_handler :: "(int, tftp) outcome \<Rightarrow> phase \<Rightarrow> tftp \<Rightarrow> bool" where
  "after_handler R ph t \<longleftrightarrow> (case R of
     Ret r v \<Rightarrow> if r < 0 then ph = Finished \<and> t = v else ph \<noteq> Finished \<and> same_core v t
   | Exit c v \<Rightarrow> ph = Dead \<and> t = v
   | Fault v \<Rightarrow> ph = Dead \<and> t = v)"

definition idle_event :: "tftp \<Rightarrow> phase \<Rightarrow> tftp \<Rightarrow> bool" where
  "idle_event s ph t \<longleftrightarrow> ph \<noteq> Finished \<and> (same_core s t \<or>
     (\<exists>dst. same_core (s\<lparr>sent := sent s @ [(dst, take (sendlen s) (sendbuff s))]\<rparr>) t))"

definition handler_event ::
  "(int \<Rightarrow> int \<Rightarrow> byte list \<Rightarrow> nat \<Rightarrow> int prog) \<Rightarrow> byte list \<Rightarrow> tftp \<Rightarrow> phase \<Rightarrow> tftp \<Rightarrow> bool" where
  "handler_event call data s ph t \<longleftrightarrow> (\<exists>u.
     same_core s u \<and> 4 \<le> length data \<and> take (length data) (recvbuff u) = data \<and>
     OP_MIN \<le> ldshort data \<and> ldshort data \<le> OP_MAX \<and>
     after_handler (call (op_sent s) (ldshort data) (drop 2 (recvbuff u)) (length data - 2) u) ph t)"

locale fsm_engine =
  fixes ev :: "rcv \<Rightarrow> int option prog"
    and call :: "int \<Rightarrow> int \<Rightarrow> byte list \<Rightarrow> nat \<Rightarrow> int prog"
  assumes ev_cases: "length (recvbuff s) = MAXBUFF \<Longrightarrow>
    idle_event s (phase_of (ev e s)) (ostate (ev e s)) \<and>
      (input e = None \<or> phase_of (ev e s) = Dead) \<or>
    (\<exists>from d. e = Dgram from d \<and>
       handler_event call (take MAXBUFF d) s (phase_of (ev e s)) (ostate (ev e s)))"

definition call_srv :: "int \<Rightarrow> int \<Rightarrow> byte list \<Rightarrow> nat \<Rightarrow> int prog" where
  "call_srv snt rcvd = call_handler (fsm_ptr ! nat snt ! nat rcvd)"

definition call_cli :: "int \<Rightarrow> int \<Rightarrow> byte list \<Rightarrow> nat \<Rightarrow> int prog" where
  "call_cli snt rcvd = call_handler_cli (fsm_ptr_cli ! nat snt ! nat rcvd)"

lemma ldshort_take: "2 \<le> n \<Longrightarrow> ldshort (take n b) = ldshort b"
  by (simp add: ldshort_def)

text \<open>
  The body of the loop, with what differs between the programs as arguments: the exit code
  and the table. The two branches, a timeout and a datagram, are then treated once.
\<close>

definition loop_body ::
  "int \<Rightarrow> (int \<Rightarrow> int \<Rightarrow> byte list \<Rightarrow> nat \<Rightarrow> int prog) \<Rightarrow> int \<Rightarrow> int option prog" where
  "loop_body ec call nbytes s =
     (if nbytes < 0 then
        if tout_flag s then
          obind (on_rtt rtt_timeout s) (\<lambda>r s.
            if r < 0 then Ret (Some (- 1)) s
            else obind (net_send s) (\<lambda>_ s. obind (fsm_arm s) (\<lambda>_ s. Ret None s)))
        else Exit ec s
      else
        let s = s\<lparr>alarm_secs := 0, tout_flag := False\<rparr> in
        obind (on_rtt rtt_stop s) (\<lambda>_ s.
          if nbytes < 4 then Exit ec s
          else let s = s\<lparr>op_recv := ldshort (recvbuff s)\<rparr> in
          if op_recv s < OP_MIN \<or> op_recv s > OP_MAX then Exit ec s
          else obind (call (op_sent s) (op_recv s) (drop 2 (recvbuff s)) (nat (nbytes - 2)) s) (\<lambda>r s.
            if r < 0 then Ret (Some 0) s
            else obind (fsm_arm s) (\<lambda>_ s. Ret None s))))"

lemma fsm_body_loop: "fsm_body = loop_body (- 1) call_srv"
  by (intro ext) (simp only: fsm_body_def loop_body_def call_srv_def)

lemma fsm_body_cli_loop: "fsm_body_cli = loop_body 1 call_cli"
  by (intro ext) (simp only: fsm_body_cli_def loop_body_def call_cli_def cli_srv_eq rtt_cli_eq)

lemma after_handler_bind:
  "after_handler R (phase_of (obind R (\<lambda>r s. if r < 0 then Ret (Some 0) s
       else obind (fsm_arm s) (\<lambda>_ s. Ret None s))))
     (ostate (obind R (\<lambda>r s. if r < 0 then Ret (Some 0) s
       else obind (fsm_arm s) (\<lambda>_ s. Ret None s))))"
proof (cases R)
  case (Ret r v)
  then show ?thesis using fsm_arm_core [of v] by (cases "fsm_arm v") (auto simp: after_handler_def)
qed (auto simp: after_handler_def)

lemma loop_body_timeout:
  assumes "n < 0"
  shows "idle_event s (phase_of (loop_body ec call n s)) (ostate (loop_body ec call n s))"
proof (cases "tout_flag s")
  case False
  with assms show ?thesis by (simp add: loop_body_def idle_event_def)
next
  case True
  show ?thesis
  proof (cases "on_rtt rtt_timeout s")
    case (Ret r u)
    then have u: "same_core s u" by (rule on_rtt_Ret_core)
    show ?thesis
    proof (cases "r < 0 \<or> \<not> (net_up u \<and> 0 \<le> sockfd u)")
      case True
      with assms \<open>tout_flag s\<close> Ret u show ?thesis
        by (auto simp: loop_body_def idle_event_def net_send_def)
    next
      case False
      let ?s = "s\<lparr>sent := sent s @ [(peer u, take (sendlen s) (sendbuff s))]\<rparr>"
      let ?v = "u\<lparr>sent := sent u @ [(peer u, take (sendlen u) (sendbuff u))]\<rparr>"
      from False assms \<open>tout_flag s\<close> Ret have
        b: "loop_body ec call n s = obind (fsm_arm ?v) (\<lambda>_ s. Ret None s)"
        by (simp add: loop_body_def net_send_def)
      have "same_core ?s ?v" using u by (simp add: same_core_def)
      with fsm_arm_core [of ?v] have "same_core ?s (ostate (loop_body ec call n s))"
        unfolding b by (cases "fsm_arm ?v") (auto intro: same_core_trans)
      moreover have "phase_of (loop_body ec call n s) \<noteq> Finished"
        unfolding b by (cases "fsm_arm ?v") auto
      ultimately show ?thesis unfolding idle_event_def by blast
    qed
  qed (use assms True on_rtt_core [of s rtt_timeout] in \<open>auto simp: loop_body_def idle_event_def\<close>)
qed

lemma loop_body_data:
  assumes "0 \<le> n" "take (nat n) (recvbuff s) = data" "length data = nat n"
  shows "idle_event s (phase_of (loop_body ec call n s)) (ostate (loop_body ec call n s)) \<and>
      phase_of (loop_body ec call n s) = Dead \<or>
    handler_event call data s (phase_of (loop_body ec call n s)) (ostate (loop_body ec call n s))"
proof -
  let ?s = "s\<lparr>alarm_secs := 0, tout_flag := False\<rparr>"
  have core: "same_core s (ostate (on_rtt rtt_stop ?s))" using on_rtt_core [of ?s rtt_stop] by simp
  show ?thesis
  proof (cases "on_rtt rtt_stop ?s")
    case (Ret x u)
    then have u: "same_core s u" "recvbuff u = recvbuff s"
      using core by (auto simp: on_rtt_def gettimeofday_def split: outcome.splits)
    let ?u = "u\<lparr>op_recv := ldshort (recvbuff u)\<rparr>"
    show ?thesis
    proof (cases "4 \<le> n \<and> OP_MIN \<le> ldshort (recvbuff u) \<and> ldshort (recvbuff u) \<le> OP_MAX")
      case False
      with Ret u assms(1) show ?thesis by (auto simp: loop_body_def idle_event_def Let_def)
    next
      case True
      then have d: "ldshort data = ldshort (recvbuff u)" "4 \<le> length data" "nat (n - 2) = length data - 2"
        using assms u(2) ldshort_take [of "nat n" "recvbuff s"] by auto
      let ?R = "call (op_sent s) (ldshort data) (drop 2 (recvbuff ?u)) (length data - 2) ?u"
      have b: "loop_body ec call n s = obind ?R (\<lambda>r s.
          if r < 0 then Ret (Some 0) s else obind (fsm_arm s) (\<lambda>_ s. Ret None s))"
        using True assms(1) Ret d u by (simp add: loop_body_def Let_def same_core_def)
      have "after_handler ?R (phase_of (loop_body ec call n s)) (ostate (loop_body ec call n s))"
        unfolding b by (rule after_handler_bind)
      then show ?thesis
        using True u assms d unfolding handler_event_def
        by (intro disjI2 exI [of _ ?u]) (simp add: d(1))
    qed
  qed (use core assms(1) in \<open>auto simp: loop_body_def idle_event_def Let_def\<close>)
qed

text \<open>
  Putting \<open>net_recv\<close> in front: any function that leaves the state alone up to the receive
  buffer and answers with the length of the datagram now in that buffer.
\<close>

lemma idle_event_core: "same_core s u \<Longrightarrow> idle_event u ph t \<Longrightarrow> idle_event s ph t"
  unfolding idle_event_def same_core_def by auto

lemma handler_event_core:
  "same_core s u \<Longrightarrow> handler_event call d u ph t \<Longrightarrow> handler_event call d s ph t"
  unfolding handler_event_def
  by (elim exE conjE, rule exI, intro conjI, erule (1) same_core_trans)
     (simp_all add: same_core_def)

lemma loop_body_engine:
  fixes s u :: tftp
  defines "ph \<equiv> \<lambda>ec call n. phase_of (loop_body ec call n u)"
    and "t \<equiv> \<lambda>ec call n. ostate (loop_body ec call n u)"
  assumes "same_core s u" "n < 0 \<or> take (nat n) (recvbuff u) = data \<and> length data = nat n"
  shows "idle_event s (ph ec call n) (t ec call n) \<and> (n < 0 \<or> ph ec call n = Dead) \<or>
    0 \<le> n \<and> handler_event call data s (ph ec call n) (t ec call n)"
proof (cases "n < 0")
  case True
  from idle_event_core [OF assms(3) loop_body_timeout [OF True]] True show ?thesis
    by (simp add: ph_def t_def)
next
  case False
  then have n: "0 \<le> n" "take (nat n) (recvbuff u) = data" "length data = nat n"
    using assms(4) by simp_all
  from loop_body_data [OF n, of ec call] n(1)
    idle_event_core [OF assms(3)] handler_event_core [OF assms(3)]
  show ?thesis unfolding ph_def t_def by blast
qed

text \<open>Both programs' \<open>net_recv\<close> leave the core of the state alone.\<close>

lemma net_recv_core:
  "length (recvbuff s) = MAXBUFF \<Longrightarrow> same_core s (ostate (net_recv e s))"
  "length (recvbuff s) = MAXBUFF \<Longrightarrow> same_core s (ostate (net_recv_cli e s))"
  by (auto simp: net_recv_def net_recv_cli_def same_core_def Let_def buf_simps
      split: rcv.splits if_splits)

lemma net_recv_bytes:
  assumes "length (recvbuff s) = MAXBUFF"
  shows "net_recv e s = Ret (Some n) u \<Longrightarrow> n < 0 \<and> input e = None \<or> (\<exists>from d. e = Dgram from d \<and>
      0 \<le> n \<and> take (nat n) (recvbuff u) = take MAXBUFF d \<and> length (take MAXBUFF d) = nat n)"
    and "net_recv e s = Ret None u \<Longrightarrow> input e = None"
    and "net_recv_cli e s = Ret n u \<Longrightarrow> n < 0 \<and> input e = None \<or> (\<exists>from d. e = Dgram from d \<and>
      0 \<le> n \<and> take (nat n) (recvbuff u) = take MAXBUFF d \<and> length (take MAXBUFF d) = nat n)"
  using assms by (cases e; auto simp: net_recv_def net_recv_cli_def Let_def buf_simps split: if_splits)+

interpretation srv_engine: fsm_engine fsm_event call_srv
proof unfold_locales
  fix s :: tftp and e assume len: "length (recvbuff s) = MAXBUFF"
  let ?T = "fsm_event e s"
  note core = net_recv_core(1) [OF len, of e]
  show "idle_event s (phase_of ?T) (ostate ?T) \<and> (input e = None \<or> phase_of ?T = Dead) \<or>
    (\<exists>from d. e = Dgram from d \<and> handler_event call_srv (take MAXBUFF d) s (phase_of ?T) (ostate ?T))"
  proof (cases "net_recv e s")
    case (Ret r u)
    with core have u: "same_core s u" by simp
    show ?thesis
    proof (cases r)
      case None
      with Ret u net_recv_bytes(2) [OF len] show ?thesis by (simp add: fsm_event_def idle_event_def)
    next
      case (Some n)
      have "?T = loop_body (- 1) call_srv n u" using Ret Some by (simp add: fsm_event_def fsm_body_loop)
      with net_recv_bytes(1) [OF len Ret [unfolded Some]] loop_body_engine [OF u]
      show ?thesis by (metis linorder_not_less)
    qed
  qed (use core in \<open>simp_all add: fsm_event_def idle_event_def\<close>)
qed

interpretation cli_engine: fsm_engine fsm_event_cli call_cli
proof unfold_locales
  fix s :: tftp and e assume len: "length (recvbuff s) = MAXBUFF"
  let ?T = "fsm_event_cli e s"
  note core = net_recv_core(2) [OF len, of e]
  show "idle_event s (phase_of ?T) (ostate ?T) \<and> (input e = None \<or> phase_of ?T = Dead) \<or>
    (\<exists>from d. e = Dgram from d \<and> handler_event call_cli (take MAXBUFF d) s (phase_of ?T) (ostate ?T))"
  proof (cases "net_recv_cli e s")
    case (Ret n u)
    with core have u: "same_core s u" by simp
    have "?T = loop_body 1 call_cli n u" using Ret by (simp add: fsm_event_cli_def fsm_body_cli_loop)
    with net_recv_bytes(3) [OF len Ret] loop_body_engine [OF u]
    show ?thesis by (metis linorder_not_less)
  qed (use core in \<open>simp_all add: fsm_event_cli_def idle_event_def\<close>)
qed

section \<open>The handlers\<close>

text \<open>The arrays have their sizes; what a timeout would send again has been sent before.\<close>

definition buffers :: "tftp \<Rightarrow> bool" where
  "buffers s \<longleftrightarrow> length (sendbuff s) = MAXBUFF \<and> length (recvbuff s) = MAXBUFF"

definition resend :: "tftp \<Rightarrow> bool" where
  "resend s \<longleftrightarrow> seen (take (sendlen s) (sendbuff s)) \<in> msgs s"

lemma msgs_snoc: "sent t = sent s @ [(a, d)] \<Longrightarrow> msgs t = insert (seen d) (msgs s)"
  by (simp add: msgs_def)

lemma msgs_same: "sent t = sent s \<Longrightarrow> msgs t = msgs s"
  by (simp add: msgs_def)

lemma drop_stshort [simp]: "drop 2 (stshort a @ rest) = rest"
  by simp

lemma seen_data: "length p \<le> 512 \<Longrightarrow> seen (stshort OP_DATA @ stshort b @ p) = DataMsg (b mod 65536) p"
  by (simp add: seen_def parse_def Let_def)

lemma seen_ack: "seen (stshort OP_ACK @ stshort b) = AckMsg (b mod 65536)"
proof -
  have "ldshort (stshort OP_ACK @ stshort b) = OP_ACK" by simp
  moreover have "length (stshort OP_ACK @ stshort b) = 4" by simp
  ultimately show ?thesis by (simp add: seen_def parse_def Let_def)
qed

text \<open>Where the send routines end, and what they have sent then.\<close>

lemma send_DATA_ends:
  assumes "buffers s" "n \<le> 512"
  shows "send_DATA b n s =
    (let t = s\<lparr>sendbuff := buf_put 2 (stshort b) (buf_put 0 (stshort OP_DATA) (sendbuff s)),
               sendlen := 4 + n\<rparr>
     in if net_up s \<and> 0 \<le> sockfd s
        then Ret () (t\<lparr>sent := sent s @ [(peer s, stshort OP_DATA @ stshort b @ take n (drop 4 (sendbuff s)))],
                    op_sent := OP_DATA\<rparr>) else Exit 1 t)"
  using assms by (simp add: send_DATA_def net_send_def Let_def buffers_def buf_simps)

lemma send_ACK_ends:
  assumes "buffers s"
  shows "send_ACK b s =
    (let t = s\<lparr>sendbuff := buf_put 2 (stshort b) (buf_put 0 (stshort OP_ACK) (sendbuff s)),
               sendlen := 4\<rparr>
     in if net_up s \<and> 0 \<le> sockfd s
        then Ret () (t\<lparr>sent := sent s @ [(peer s, stshort OP_ACK @ stshort b)], op_sent := OP_ACK\<rparr>)
        else Exit 1 t)"
  using assms take_put_put [of "stshort OP_ACK" "stshort b" 0 "sendbuff s"]
  by (simp add: send_ACK_def net_send_def Let_def buffers_def)

lemma cli_send_eq: "send_ACK_cli = send_ACK" "send_DATA_cli = send_DATA"
  by (rule ext, rule ext, simp add: send_ACK_cli_def send_ACK_def cli_srv_eq)
     (rule ext, rule ext, rule ext, simp add: send_DATA_cli_def send_DATA_def cli_srv_eq)

lemma buffers_put:
  "buffers s \<Longrightarrow> off + length bs \<le> MAXBUFF \<Longrightarrow> buffers (s\<lparr>sendbuff := buf_put off bs (sendbuff s)\<rparr>)"
  by (simp add: buffers_def buf_simps)

text \<open>Acknowledgement in, next block out.\<close>

locale ack_handler =
  fixes H :: "byte list \<Rightarrow> nat \<Rightarrow> int prog"
  assumes ack_stale: "n \<noteq> 2 \<or> ldshort ptr \<noteq> nextblknum u \<Longrightarrow>
      (\<exists>c. H ptr n u = Exit c u) \<or> H ptr n u = Ret 0 u"
    and ack_fresh: "buffers u \<Longrightarrow> ldshort ptr = nextblknum u \<Longrightarrow>
      msgs (ostate (H ptr 2 u)) \<subseteq>
        insert (DataMsg ((nextblknum u + 1) mod 65536) (take 512 (pending u))) (msgs u)"
    and ack_next: "buffers u \<Longrightarrow> ldshort ptr = nextblknum u \<Longrightarrow> H ptr 2 u = Ret r v \<Longrightarrow> 0 \<le> r \<Longrightarrow>
      nextblknum v = nextblknum u + 1 \<and> pending v = drop 512 (pending u) \<and>
      buffers v \<and> resend v \<and> op_sent v = OP_DATA"

text \<open>
  The common part of \<open>recv_ACK\<close>: a block has been read into the buffer, and is sent.
\<close>

definition push_block :: "byte list \<Rightarrow> tftp \<Rightarrow> (int, tftp) outcome" where
  "push_block bs s =
     (let s = s\<lparr>sendbuff := buf_put 4 bs (sendbuff s)\<rparr>; nbytes = length bs in
      if nbytes = 0 \<and> lastsend s < int MAXDATA then Ret (- 1) s
      else let s = s\<lparr>lastsend := int nbytes, nextblknum := nextblknum s + 1,
                     totnbytes := totnbytes s + int nbytes\<rparr>
        in obind (send_DATA (nextblknum s) nbytes s) (\<lambda>_ s. Ret 0 s))"

lemma push_block_spec:
  assumes rd: "read_result u 512 bs s" and b: "buffers u"
  shows "msgs (ostate (push_block bs s)) \<subseteq>
      insert (DataMsg ((nextblknum u + 1) mod 65536) (take 512 (pending u))) (msgs u)"
    and "push_block bs s = Ret r v \<Longrightarrow> 0 \<le> r \<Longrightarrow>
      nextblknum v = nextblknum u + 1 \<and> pending v = drop 512 (pending u) \<and>
      buffers v \<and> resend v \<and> op_sent v = OP_DATA"
proof -
  obtain f n where s: "s = u\<lparr>localfp := f, nextchar := n\<rparr>"
    using rd unfolding read_result_def by blast
  have bs: "bs = take 512 (pending u)" and pend: "pending s = drop 512 (pending u)"
    using rd by (simp_all add: read_result_def)
  then have len: "length bs \<le> 512" by simp
  let ?w = "s\<lparr>sendbuff := buf_put 4 bs (sendbuff s), lastsend := int (length bs),
    nextblknum := nextblknum u + 1, totnbytes := totnbytes s + int (length bs)\<rparr>"
  have w: "buffers ?w" using b len by (simp add: buffers_def s buf_simps)
  have pay: "take (length bs) (drop 4 (sendbuff ?w)) = bs"
    using b len by (simp add: buffers_def s buf_put_def)
  let ?t = "?w\<lparr>sendbuff := buf_put 2 (stshort (nextblknum u + 1))
      (buf_put 0 (stshort OP_DATA) (sendbuff ?w)), sendlen := 4 + length bs\<rparr>"
  let ?pkt = "stshort OP_DATA @ stshort (nextblknum u + 1) @ bs"
  let ?done = "?t\<lparr>sent := sent u @ [(peer u, ?pkt)], op_sent := OP_DATA\<rparr>"
  have step: "push_block bs s =
    (if bs = [] \<and> lastsend u < 512 then Ret (- 1) (s\<lparr>sendbuff := buf_put 4 bs (sendbuff s)\<rparr>)
     else if net_up u \<and> 0 \<le> sockfd u then Ret 0 ?done else Exit 1 ?t)"
    using send_DATA_ends [OF w len, of "nextblknum u + 1"] pay
    by (simp add: push_block_def Let_def s)
  have sent_pkt: "take (sendlen ?t) (sendbuff ?t) = ?pkt"
    using w len take_put_put [of "stshort OP_DATA" "stshort (nextblknum u + 1)" "length bs" "sendbuff ?w"] pay
    by (simp add: buffers_def)
  have d: "seen ?pkt = DataMsg ((nextblknum u + 1) mod 65536) bs" by (rule seen_data [OF len])
  show "msgs (ostate (push_block bs s)) \<subseteq>
      insert (DataMsg ((nextblknum u + 1) mod 65536) (take 512 (pending u))) (msgs u)"
    unfolding step using d bs by (auto simp: msgs_def s)
  assume "push_block bs s = Ret r v" "0 \<le> r"
  then have v: "v = ?done" unfolding step by (auto split: if_splits)
  have "pending v = pending s" unfolding v by (rule pending_cong) simp_all
  moreover have "buffers v" unfolding v using w by (simp add: buffers_def buf_simps)
  moreover have "resend v" unfolding v resend_def using sent_pkt by (simp add: msgs_def)
  ultimately show "nextblknum v = nextblknum u + 1 \<and> pending v = drop 512 (pending u) \<and>
      buffers v \<and> resend v \<and> op_sent v = OP_DATA"
    using pend by (simp add: v)
qed

interpretation srv_ack: ack_handler recv_ACK
proof unfold_locales
  fix n :: nat and ptr and u :: tftp
  assume "n \<noteq> 2 \<or> ldshort ptr \<noteq> nextblknum u"
  then show "(\<exists>c. recv_ACK ptr n u = Exit c u) \<or> recv_ACK ptr n u = Ret 0 u"
    by (auto simp: recv_ACK_def Let_def)
next
  fix ptr and u :: tftp
  assume b: "buffers u" and blk: "ldshort ptr = nextblknum u"
  have eq: "recv_ACK ptr 2 u = obind (file_read 512 (modetype u) u) push_block"
    unfolding recv_ACK_def push_block_def [abs_def] Let_def using blk by simp
  have keep: "sent (ostate (file_read 512 (modetype u) u)) = sent u"
    by (rule file_read_sent)
  show "msgs (ostate (recv_ACK ptr 2 u)) \<subseteq>
      insert (DataMsg ((nextblknum u + 1) mod 65536) (take 512 (pending u))) (msgs u)"
    unfolding eq using keep push_block_spec(1) [OF file_read_result b]
    by (cases "file_read 512 (modetype u) u") (auto simp: msgs_def)
  fix r v
  assume "recv_ACK ptr 2 u = Ret r v" "0 \<le> r"
  then show "nextblknum v = nextblknum u + 1 \<and> pending v = drop 512 (pending u) \<and>
      buffers v \<and> resend v \<and> op_sent v = OP_DATA"
    unfolding eq by (auto dest!: push_block_spec(2) [OF file_read_result b])
qed

interpretation cli_ack: ack_handler recv_ACK_cli
proof unfold_locales
  fix n :: nat and ptr and u :: tftp
  assume "n \<noteq> 2 \<or> ldshort ptr \<noteq> nextblknum u"
  then show "(\<exists>c. recv_ACK_cli ptr n u = Exit c u) \<or> recv_ACK_cli ptr n u = Ret 0 u"
    by (auto simp: recv_ACK_cli_def Let_def)
next
  fix ptr and u :: tftp
  assume b: "buffers u" and blk: "ldshort ptr = nextblknum u"
  have eq: "recv_ACK_cli ptr 2 u = obind (file_read_cli 512 (modetype u) u) push_block"
    unfolding recv_ACK_cli_def push_block_def [abs_def] cli_send_eq Let_def using blk by simp
  have keep: "sent (ostate (file_read_cli 512 (modetype u) u)) = sent u"
    by (rule file_read_cli_sent)
  show "msgs (ostate (recv_ACK_cli ptr 2 u)) \<subseteq>
      insert (DataMsg ((nextblknum u + 1) mod 65536) (take 512 (pending u))) (msgs u)"
    unfolding eq using keep push_block_spec(1) [OF file_read_cli_result b]
    by (cases "file_read_cli 512 (modetype u) u") (auto simp: msgs_def)
  fix r v
  assume "recv_ACK_cli ptr 2 u = Ret r v" "0 \<le> r"
  then show "nextblknum v = nextblknum u + 1 \<and> pending v = drop 512 (pending u) \<and>
      buffers v \<and> resend v \<and> op_sent v = OP_DATA"
    unfolding eq by (auto dest!: push_block_spec(2) [OF file_read_cli_result b])
qed

text \<open>Data in, acknowledgement out. \<open>n\<close> counts the block number's two bytes as well.\<close>

definition same_file :: "tftp \<Rightarrow> tftp \<Rightarrow> bool" where
  "same_file s t \<longleftrightarrow> localfp t = localfp s \<and> modetype t = modetype s \<and> lastcr t = lastcr s"

lemma same_file_accepted: "same_file s t \<Longrightarrow> accepted t xs = accepted s xs"
  by (rule accepted_cong) (simp_all add: same_file_def)

definition acked :: "tftp \<Rightarrow> bool" where
  "acked v \<longleftrightarrow> buffers v \<and> resend v \<and> op_sent v = OP_ACK"

locale data_handler =
  fixes H :: "byte list \<Rightarrow> nat \<Rightarrow> int prog"
  assumes data_stale: "buffers u \<Longrightarrow> ldshort ptr \<noteq> nextblknum u \<Longrightarrow>
      same_file u (ostate (H ptr n u)) \<and>
      (msgs (ostate (H ptr n u)) \<subseteq> msgs u \<or>
       ldshort ptr = nextblknum u - 1 \<and>
         msgs (ostate (H ptr n u)) \<subseteq> insert (AckMsg (ldshort ptr)) (msgs u))"
    and data_dup: "buffers u \<Longrightarrow> ldshort ptr \<noteq> nextblknum u \<Longrightarrow> H ptr n u = Ret r v \<Longrightarrow>
      ldshort ptr = nextblknum u - 1 \<and> nextblknum v = nextblknum u \<and> acked v \<and>
      (r < 0 \<longleftrightarrow> n - 2 \<noteq> 512)"
    and data_fresh: "buffers u \<Longrightarrow> ldshort ptr = nextblknum u \<Longrightarrow>
      msgs (ostate (H ptr n u)) \<subseteq> insert (AckMsg (ldshort ptr)) (msgs u)"
    and data_next: "buffers u \<Longrightarrow> ldshort ptr = nextblknum u \<Longrightarrow> H ptr n u = Ret r v \<Longrightarrow>
      nextblknum v = nextblknum u + 1 \<and> acked v \<and> (r < 0 \<longleftrightarrow> n - 2 \<noteq> 512) \<and>
      (\<forall>xs. accepted u xs \<longrightarrow> accepted v (xs @ take (n - 2) (drop 2 ptr)))"
    and data_mode: "buffers u \<Longrightarrow> modetype (ostate (H ptr n u)) = modetype u"

text \<open>The common end of \<open>recv_DATA\<close>: acknowledge, and say whether this was the last block.\<close>

definition ack_block :: "int \<Rightarrow> nat \<Rightarrow> tftp \<Rightarrow> (int, tftp) outcome" where
  "ack_block b nbytes s = obind (send_ACK b s) (\<lambda>_ s. Ret (if nbytes = MAXDATA then 0 else - 1) s)"

lemma ack_block_spec:
  assumes s: "buffers s" and b: "0 \<le> b" "b < 65536"
  shows "same_file s (ostate (ack_block b k s)) \<and>
      msgs (ostate (ack_block b k s)) \<subseteq> insert (AckMsg b) (msgs s)"
    and "ack_block b k s = Ret r v \<Longrightarrow>
      nextblknum v = nextblknum s \<and> acked v \<and> (r < 0 \<longleftrightarrow> k \<noteq> 512) \<and> same_file s v"
proof -
  let ?t = "s\<lparr>sendbuff := buf_put 2 (stshort b) (buf_put 0 (stshort OP_ACK) (sendbuff s)), sendlen := 4\<rparr>"
  let ?pkt = "stshort OP_ACK @ stshort b"
  let ?done = "?t\<lparr>sent := sent s @ [(peer s, ?pkt)], op_sent := OP_ACK\<rparr>"
  have step: "ack_block b k s =
    (if net_up s \<and> 0 \<le> sockfd s then Ret (if k = 512 then 0 else - 1) ?done else Exit 1 ?t)"
    using send_ACK_ends [OF s, of b] by (simp add: ack_block_def Let_def)
  have d: "seen ?pkt = AckMsg b" using seen_ack [of b] b by (simp add: zmod_trivial_iff)
  have pkt: "take (sendlen ?done) (sendbuff ?done) = ?pkt"
    using s take_put_put [of "stshort OP_ACK" "stshort b" 0 "sendbuff s"] by (simp add: buffers_def)
  show "same_file s (ostate (ack_block b k s)) \<and>
      msgs (ostate (ack_block b k s)) \<subseteq> insert (AckMsg b) (msgs s)"
    unfolding step using d by (auto simp: same_file_def msgs_def)
  assume "ack_block b k s = Ret r v"
  then have v: "v = ?done" "r = (if k = 512 then 0 else - 1)"
    unfolding step by (auto split: if_splits)
  have "buffers v" unfolding v using s by (simp add: buffers_def buf_simps)
  moreover have "resend v" unfolding v resend_def pkt by (simp add: msgs_def)
  ultimately show "nextblknum v = nextblknum s \<and> acked v \<and> (r < 0 \<longleftrightarrow> k \<noteq> 512) \<and> same_file s v"
    by (simp add: v acked_def same_file_def)
qed

text \<open>
  \<open>recv_DATA\<close> of both programs is a store followed by \<open>ack_block\<close>. What the store of a fresh
  block promises is all that the two have to show.
\<close>

definition store_spec :: "byte list \<Rightarrow> nat \<Rightarrow> tftp \<Rightarrow> (unit, tftp) outcome \<Rightarrow> bool" where
  "store_spec ptr n u W \<longleftrightarrow> sent (ostate W) = sent u \<and> modetype (ostate W) = modetype u \<and>
     (\<forall>w. W = Ret () w \<longrightarrow> buffers w \<and> nextblknum w = nextblknum u + 1 \<and>
        (\<forall>xs. accepted u xs \<longrightarrow> accepted w (xs @ take n (drop 2 ptr))))"

lemma fresh_block:
  assumes W: "store_spec ptr (n - 2) u W" and b: "ldshort ptr = nextblknum u"
  defines "R \<equiv> obind W (\<lambda>_ s. ack_block (ldshort ptr) (n - 2) s)"
  shows "msgs (ostate R) \<subseteq> insert (AckMsg (ldshort ptr)) (msgs u)"
    and "R = Ret r v \<Longrightarrow> nextblknum v = nextblknum u + 1 \<and> acked v \<and> (r < 0 \<longleftrightarrow> n - 2 \<noteq> 512) \<and>
      (\<forall>xs. accepted u xs \<longrightarrow> accepted v (xs @ take (n - 2) (drop 2 ptr)))"
proof -
  have range: "0 \<le> ldshort ptr" "ldshort ptr < 65536" using ldshort_bounds by simp_all
  show "msgs (ostate R) \<subseteq> insert (AckMsg (ldshort ptr)) (msgs u)"
  proof (cases W)
    case (Ret x w)
    with W have "buffers w" "msgs w = msgs u" by (auto simp: store_spec_def msgs_def)
    with ack_block_spec(1) [OF _ range, of w "n - 2"] Ret show ?thesis by (simp add: R_def)
  qed (use W in \<open>auto simp: R_def store_spec_def msgs_def\<close>)
  assume "R = Ret r v"
  then obtain w where w: "W = Ret () w" "ack_block (ldshort ptr) (n - 2) w = Ret r v"
    by (auto simp: R_def)
  with W have bw: "buffers w" "nextblknum w = nextblknum u + 1"
    "\<forall>xs. accepted u xs \<longrightarrow> accepted w (xs @ take (n - 2) (drop 2 ptr))"
    by (auto simp: store_spec_def)
  from ack_block_spec(2) [OF bw(1) range w(2)] bw(2,3) same_file_accepted [of w v]
  show "nextblknum v = nextblknum u + 1 \<and> acked v \<and> (r < 0 \<longleftrightarrow> n - 2 \<noteq> 512) \<and>
      (\<forall>xs. accepted u xs \<longrightarrow> accepted v (xs @ take (n - 2) (drop 2 ptr)))"
    by auto
qed

lemma fresh_block_mode:
  assumes W: "store_spec ptr k u W" and range: "0 \<le> b" "b < 65536"
  shows "modetype (ostate (obind W (\<lambda>_ s. ack_block b k s))) = modetype u"
proof (cases W)
  case (Ret x w)
  with W have "buffers w" "modetype w = modetype u" by (auto simp: store_spec_def)
  with ack_block_spec(1) [OF _ range, of w k] Ret show ?thesis by (simp add: same_file_def)
qed (use W in \<open>auto simp: store_spec_def\<close>)

text \<open>The state in which a fresh block is stored.\<close>

definition counted :: "nat \<Rightarrow> tftp \<Rightarrow> tftp" where
  "counted n u = u\<lparr>nextblknum := nextblknum u + 1, totnbytes := totnbytes u + int n\<rparr>"

lemma counted_simps [simp]:
  "modetype (counted n u) = modetype u" "sent (counted n u) = sent u"
  "nextblknum (counted n u) = nextblknum u + 1" "accepted (counted n u) xs = accepted u xs"
  "buffers (counted n u) = buffers u"
  by (simp_all add: counted_def accepted_def buffers_def)

lemma write_result_keeps:
  assumes "write_result s bs t"
  shows "nextblknum t = nextblknum s \<and> buffers t = buffers s \<and> modetype t = modetype s"
proof -
  obtain f c where "t = s\<lparr>localfp := f, lastcr := c\<rparr>"
    using assms unfolding write_result_def by blast
  then show ?thesis by (simp add: buffers_def)
qed

lemma store_srv:
  assumes b: "buffers u"
  shows "store_spec ptr n u
    (obind (if n > 0 then file_write (take n (drop 2 ptr)) (modetype u) (counted n u)
            else Ret () (counted n u))
      (\<lambda>_ s. if n < MAXDATA then file_close s else Ret () s))"
    (is "store_spec ptr n u (obind ?W ?C)")
proof -
  let ?p = "take n (drop 2 ptr)"
  have sent: "sent (ostate ?W) = sent u" by (simp add: file_write_sent)
  have "sent (ostate (obind ?W ?C)) = sent u"
    using sent by (cases ?W) (auto simp: file_close_sent)
  moreover have "modetype (ostate ?W) = modetype u" by (simp add: file_write_mode)
  then have "modetype (ostate (obind ?W ?C)) = modetype u"
    by (cases ?W) (auto simp: file_close_mode)
  moreover have "buffers w \<and> nextblknum w = nextblknum u + 1 \<and>
      (\<forall>xs. accepted u xs \<longrightarrow> accepted w (xs @ ?p))" if ret: "obind ?W ?C = Ret () w" for w
  proof -
    from ret obtain v where v: "?W = Ret () v" "?C () v = Ret () w" by auto
    have v': "buffers v \<and> nextblknum v = nextblknum u + 1 \<and>
        (\<forall>xs. accepted u xs \<longrightarrow> accepted v (xs @ ?p))"
    proof (cases "n > 0")
      case True
      with v(1) have "file_write ?p (modetype (counted n u)) (counted n u) = Ret () v" by simp
      from file_write_result [OF this] b show ?thesis
        using write_result_keeps [of "counted n u" ?p v] by (auto simp: write_result_def)
    qed (use v(1) b in auto)
    show ?thesis
    proof (cases "n < MAXDATA")
      case True
      with v(2) have "file_close v = Ret () w" by simp
      from file_close_result [OF this] obtain f where
        "w = v\<lparr>localfp := f\<rparr>" "\<forall>xs. accepted v xs \<longrightarrow> accepted w xs" by metis
      with v' show ?thesis by (simp add: buffers_def)
    qed (use v(2) v' in simp)
  qed
  ultimately show ?thesis by (simp add: store_spec_def)
qed

lemma store_cli:
  assumes b: "buffers u"
  shows "store_spec ptr n u
    (if n > 0 then file_write_cli (take n (drop 2 ptr)) (modetype u) (counted n u)
     else Ret () (counted n u))"
proof (cases "n > 0")
  case True
  let ?p = "take n (drop 2 ptr)"
  have "buffers w \<and> nextblknum w = nextblknum u + 1 \<and>
      (\<forall>xs. accepted u xs \<longrightarrow> accepted w (xs @ ?p))"
    if "file_write_cli ?p (modetype u) (counted n u) = Ret () w" for w
  proof -
    from that have "file_write_cli ?p (modetype (counted n u)) (counted n u) = Ret () w" by simp
    from file_write_cli_result [OF this] b show ?thesis
      using write_result_keeps [of "counted n u" ?p w] by (auto simp: write_result_def)
  qed
  with True show ?thesis
    by (simp add: store_spec_def file_write_cli_sent file_write_mode)
qed (use b in \<open>simp add: store_spec_def\<close>)

text \<open>The two cases of \<open>recv_DATA\<close>, in terms of \<open>ack_block\<close>.\<close>

lemma recv_DATA_stale:
  assumes "ldshort ptr \<noteq> nextblknum u"
  shows "(\<exists>c. recv_DATA ptr n u = Exit c u) \<or>
    ldshort ptr = nextblknum u - 1 \<and> recv_DATA ptr n u = ack_block (ldshort ptr) (n - 2) u"
  using assms by (auto simp: recv_DATA_def ack_block_def Let_def)

lemma recv_DATA_fresh:
  assumes "buffers u" "ldshort ptr = nextblknum u"
  obtains c where "recv_DATA ptr n u = Exit c u" | W where "store_spec ptr (n - 2) u W"
    "recv_DATA ptr n u = obind W (\<lambda>_. ack_block (ldshort ptr) (n - 2))"
proof -
  have "recv_DATA ptr n u = (if MAXDATA < n - 2 then Exit (- 1) u else obind (obind (if n - 2 > 0 then file_write (take (n - 2) (drop 2 ptr)) (modetype u) (counted (n - 2) u)
            else Ret () (counted (n - 2) u))
      (\<lambda>_ s. if n - 2 < MAXDATA then file_close s else Ret () s)) (\<lambda>_. ack_block (ldshort ptr) (n - 2)))"
    unfolding recv_DATA_def ack_block_def [abs_def] Let_def counted_def using assms(2) by simp
  with store_srv [OF assms(1), where n = "n - 2" and ptr = ptr] that show thesis by (meson)
qed

lemma recv_DATA_cli_stale:
  assumes "ldshort ptr \<noteq> nextblknum u"
  shows "(\<exists>c. recv_DATA_cli ptr n u = Exit c u) \<or>
    ldshort ptr = nextblknum u - 1 \<and> recv_DATA_cli ptr n u = ack_block (ldshort ptr) (n - 2) u"
  using assms by (auto simp: recv_DATA_cli_def ack_block_def Let_def cli_send_eq)

lemma recv_DATA_cli_fresh:
  assumes "buffers u" "ldshort ptr = nextblknum u"
  obtains c where "recv_DATA_cli ptr n u = Exit c u" | W where "store_spec ptr (n - 2) u W"
    "recv_DATA_cli ptr n u = obind W (\<lambda>_. ack_block (ldshort ptr) (n - 2))"
proof -
  have "recv_DATA_cli ptr n u = (obind (if n - 2 > 0 then file_write_cli (take (n - 2) (drop 2 ptr)) (modetype u) (counted (n - 2) u)
     else Ret () (counted (n - 2) u)) (\<lambda>_. ack_block (ldshort ptr) (n - 2)))"
    unfolding recv_DATA_cli_def ack_block_def [abs_def] Let_def counted_def cli_send_eq using assms(2) by simp
  with store_cli [OF assms(1), where n = "n - 2" and ptr = ptr] that show thesis by blast
qed

interpretation srv_data: data_handler recv_DATA
proof unfold_locales
  fix u :: tftp and ptr n r v
  assume b: "buffers u"
  let ?R = "recv_DATA ptr n u"
  have range: "0 \<le> ldshort ptr" "ldshort ptr < 65536" using ldshort_bounds by simp_all
  {
    assume blk: "ldshort ptr \<noteq> nextblknum u"
    note cases = recv_DATA_stale [OF blk, of n] ack_block_spec(1) [OF b range, of "n - 2"]
      ack_block_spec(2) [OF b range, of "n - 2" r v]
    show "same_file u (ostate ?R) \<and> (msgs (ostate ?R) \<subseteq> msgs u \<or>
        ldshort ptr = nextblknum u - 1 \<and> msgs (ostate ?R) \<subseteq> insert (AckMsg (ldshort ptr)) (msgs u))"
      using cases by (auto simp: same_file_def)
    assume "?R = Ret r v"
    with cases show "ldshort ptr = nextblknum u - 1 \<and> nextblknum v = nextblknum u \<and> acked v \<and>
        (r < 0 \<longleftrightarrow> n - 2 \<noteq> 512)" by auto
  next
    assume blk: "ldshort ptr = nextblknum u"
    show "msgs (ostate ?R) \<subseteq> insert (AckMsg (ldshort ptr)) (msgs u)"
      by (rule recv_DATA_fresh [OF b blk, of n]) (auto dest: fresh_block(1) [OF _ blk])
    assume "?R = Ret r v"
    then show "nextblknum v = nextblknum u + 1 \<and> acked v \<and> (r < 0 \<longleftrightarrow> n - 2 \<noteq> 512) \<and>
        (\<forall>xs. accepted u xs \<longrightarrow> accepted v (xs @ take (n - 2) (drop 2 ptr)))"
      using fresh_block(2) [OF _ blk, of n] recv_DATA_fresh [OF b blk, of n] by (metis outcome.distinct(1))
  next
    show "modetype (ostate ?R) = modetype u"
    proof (cases "ldshort ptr = nextblknum u")
      case True
      show ?thesis by (rule recv_DATA_fresh [OF b True, of n]) (auto dest: fresh_block_mode [OF _ range])
    next
      case False
      with recv_DATA_stale [OF False, of n] ack_block_spec(1) [OF b range, of "n - 2"]
      show ?thesis by (auto simp: same_file_def)
    qed
  }
qed

interpretation cli_data: data_handler recv_DATA_cli
proof unfold_locales
  fix u :: tftp and ptr n r v
  assume b: "buffers u"
  let ?R = "recv_DATA_cli ptr n u"
  have range: "0 \<le> ldshort ptr" "ldshort ptr < 65536" using ldshort_bounds by simp_all
  {
    assume blk: "ldshort ptr \<noteq> nextblknum u"
    note cases = recv_DATA_cli_stale [OF blk, of n] ack_block_spec(1) [OF b range, of "n - 2"]
      ack_block_spec(2) [OF b range, of "n - 2" r v]
    show "same_file u (ostate ?R) \<and> (msgs (ostate ?R) \<subseteq> msgs u \<or>
        ldshort ptr = nextblknum u - 1 \<and> msgs (ostate ?R) \<subseteq> insert (AckMsg (ldshort ptr)) (msgs u))"
      using cases by (auto simp: same_file_def)
    assume "?R = Ret r v"
    with cases show "ldshort ptr = nextblknum u - 1 \<and> nextblknum v = nextblknum u \<and> acked v \<and>
        (r < 0 \<longleftrightarrow> n - 2 \<noteq> 512)" by auto
  next
    assume blk: "ldshort ptr = nextblknum u"
    show "msgs (ostate ?R) \<subseteq> insert (AckMsg (ldshort ptr)) (msgs u)"
      by (rule recv_DATA_cli_fresh [OF b blk, of n]) (auto dest: fresh_block(1) [OF _ blk])
    assume "?R = Ret r v"
    then show "nextblknum v = nextblknum u + 1 \<and> acked v \<and> (r < 0 \<longleftrightarrow> n - 2 \<noteq> 512) \<and>
        (\<forall>xs. accepted u xs \<longrightarrow> accepted v (xs @ take (n - 2) (drop 2 ptr)))"
      using fresh_block(2) [OF _ blk, of n] recv_DATA_cli_fresh [OF b blk, of n] by (metis outcome.distinct(1))
  next
    show "modetype (ostate ?R) = modetype u"
    proof (cases "ldshort ptr = nextblknum u")
      case True
      show ?thesis by (rule recv_DATA_cli_fresh [OF b True, of n]) (auto dest: fresh_block_mode [OF _ range])
    next
      case False
      with recv_DATA_cli_stale [OF False, of n] ack_block_spec(1) [OF b range, of "n - 2"]
      show ?thesis by (auto simp: same_file_def)
    qed
  }
qed

end
