(* ===== verification/TftpEnds.thy ===== *)
theory TftpEnds
  imports TftpEngine
begin

text \<open>
  The two ends of a transfer. A program that sends a file is an engine with an acknowledgement
  handler (\<open>sending_end\<close>), one that receives a file an engine with a data handler
  (\<open>receiving_end\<close>); each is shown to be the sender or the receiver of the protocol, and the
  server's and the client's tables are interpreted as both.
\<close>

section \<open>The two ends of a transfer\<close>

text \<open>
  An event as a step of the protocol, and the invariant of a running end: its arrays, what it
  would retransmit, and the packet it sent last, one of \<open>ops\<close>.
\<close>

definition engine_step :: "(rcv \<Rightarrow> int option prog) \<Rightarrow> msg option \<Rightarrow> tftp \<Rightarrow> phase \<Rightarrow> tftp \<Rightarrow> bool" where
  "engine_step ev m s ph t \<longleftrightarrow> (\<exists>e. input e = m \<and> phase_of (ev e s) = ph \<and> ostate (ev e s) = t)"

definition running :: "int set \<Rightarrow> tftp \<Rightarrow> bool" where
  "running ops s \<longleftrightarrow> buffers s \<and> resend s \<and> op_sent s \<in> ops"

text \<open>The other entries of the table end the transfer and touch neither file nor network.\<close>

definition stops :: "int \<Rightarrow> tftp \<Rightarrow> (int, tftp) outcome \<Rightarrow> bool" where
  "stops rcvd u R \<longleftrightarrow> same_file u (ostate R) \<and> sent (ostate R) = sent u \<and>
     (\<forall>r v. R = Ret r v \<longrightarrow> r < 0 \<and> rcvd = OP_ERROR)"

lemma running_core: "same_core s u \<Longrightarrow> running ops u = running ops s"
  by (auto simp: running_def same_core_def buffers_def resend_def msgs_def)

lemma idle_event_keeps:
  assumes "idle_event s ph t" "running ops s"
  shows "msgs t \<subseteq> msgs s \<and> ph \<noteq> Finished \<and> running ops t \<and> nextblknum t = nextblknum s \<and>
    pending t = pending s \<and> accepted t = accepted s"
proof -
  from assms(1) obtain u where u: "same_core u t" "ph \<noteq> Finished"
    "u = s \<or> (\<exists>dst. u = s\<lparr>sent := sent s @ [(dst, take (sendlen s) (sendbuff s))]\<rparr>)"
    unfolding idle_event_def by blast
  from u(3) assms(2) have "msgs u = msgs s"
    by (auto simp: running_def resend_def insert_absorb
        msgs_snoc [of "s\<lparr>sent := sent s @ [(dst, take (sendlen s) (sendbuff s))]\<rparr>" s for dst])
  moreover from u(3) have "pending u = pending s" by (auto intro: pending_cong)
  moreover from u(3) have "accepted u = accepted s" by (auto simp: accepted_def fun_eq_iff)
  moreover have "running ops u"
  proof -
    from u(3) have "sendbuff u = sendbuff s" "sendlen u = sendlen s" "op_sent u = op_sent s"
      "recvbuff u = recvbuff s" by auto
    with assms(2) \<open>msgs u = msgs s\<close> show ?thesis by (simp add: running_def buffers_def resend_def)
  qed
  moreover from u(3) have "nextblknum u = nextblknum s" by auto
  moreover have "nextblknum t = nextblknum u" using u(1) by (simp add: same_core_def)
  moreover have "pending t = pending u" "accepted t = accepted u" "msgs t = msgs u"
    using same_core_obs [OF u(1)] by (simp_all add: fun_eq_iff)
  ultimately show ?thesis using u(2) running_core [OF u(1), of ops] by simp
qed

lemma parse_data: "4 \<le> length d \<Longrightarrow> ldshort d = OP_DATA \<Longrightarrow>
    parse d = DataMsg (ldshort (drop 2 d)) (drop 4 d)"
  by (simp add: parse_def Let_def)

lemma parse_ack_iff: "4 \<le> length d \<Longrightarrow>
    (parse d = AckMsg b) = (ldshort d = OP_ACK \<and> length d = 4 \<and> ldshort (drop 2 d) = b)"
  by (auto simp: parse_def Let_def)

lemma parse_data_iff: "4 \<le> length d \<Longrightarrow>
    (parse d = DataMsg b p) = (ldshort d = OP_DATA \<and> ldshort (drop 2 d) = b \<and> p = drop 4 d)"
  by (auto simp: parse_def Let_def)

lemma parse_error: "ldshort d = OP_ERROR \<Longrightarrow> parse d = ErrMsg"
  by (simp add: parse_def Let_def)

text \<open>The arguments of a handler, as parts of the datagram.\<close>

lemma handler_args:
  assumes "take (length d) b = d" "4 \<le> length d"
  shows "ldshort (drop 2 b) = ldshort (drop 2 d)"
    and "take (length d - 2 - 2) (drop 2 (drop 2 b)) = drop 4 d"
proof -
  have "drop 2 d = take (length d - 2) (drop 2 b)"
    using arg_cong [OF assms(1), of "drop 2"] by (simp add: drop_take)
  then show "ldshort (drop 2 b) = ldshort (drop 2 d)" using assms(2) by (simp add: ldshort_take)
  have "take (length d - 4) (drop 4 b) = drop 4 (take (length d) b)" by (simp add: drop_take)
  with assms(1) show "take (length d - 2 - 2) (drop 2 (drop 2 b)) = drop 4 d" by simp
qed

context fsm_engine
begin

lemma ev_parse:
  assumes "running ops s"
  shows "idle_event s (phase_of (ev e s)) (ostate (ev e s)) \<and>
      (input e = None \<or> phase_of (ev e s) = Dead) \<or>
    (\<exists>d. input e = Some (parse d) \<and> handler_event call d s (phase_of (ev e s)) (ostate (ev e s)))"
proof -
  have "length (recvbuff s) = MAXBUFF" using assms by (simp add: running_def buffers_def)
  from ev_cases [OF this, of e] show ?thesis by (auto simp: seen_def)
qed

end

locale sending_end = fsm_engine ev call + ack_handler H
  for ev :: "rcv \<Rightarrow> int option prog"
    and call :: "int \<Rightarrow> int \<Rightarrow> byte list \<Rightarrow> nat \<Rightarrow> int prog"
    and H :: "byte list \<Rightarrow> nat \<Rightarrow> int prog" +
  fixes ops :: "int set"
  assumes ack_entry: "oc \<in> ops \<Longrightarrow> call oc OP_ACK = H"
    and other_entries: "oc \<in> ops \<Longrightarrow> OP_MIN \<le> rc \<Longrightarrow> rc \<le> OP_MAX \<Longrightarrow> rc \<noteq> OP_ACK \<Longrightarrow>
      stops rc u (call oc rc ptr n u)"
    and data_op: "OP_DATA \<in> ops"
begin

lemma sending_handler:
  assumes "handler_event call data s ph t" "running ops s"
  shows "parse data \<noteq> AckMsg (nextblknum s) \<Longrightarrow> msgs t = msgs s \<and>
      (ph = Running \<longrightarrow> running ops t \<and> nextblknum t = nextblknum s \<and> pending t = pending s)"
    and "parse data = AckMsg (nextblknum s) \<Longrightarrow>
      msgs t \<subseteq> insert (DataMsg ((nextblknum s + 1) mod 65536) (take 512 (pending s))) (msgs s) \<and>
      (ph = Running \<longrightarrow> running ops t \<and> nextblknum t = nextblknum s + 1 \<and>
         pending t = drop 512 (pending s))"
proof -
  from assms(1) obtain u where u: "same_core s u" "4 \<le> length data"
    "take (length data) (recvbuff u) = data" "OP_MIN \<le> ldshort data" "ldshort data \<le> OP_MAX"
    and after: "after_handler (call (op_sent s) (ldshort data) (drop 2 (recvbuff u)) (length data - 2) u) ph t"
    (is "after_handler ?R ph t")
    unfolding handler_event_def by blast
  have run: "running ops u" using assms(2) running_core [OF u(1)] by simp
  have op: "op_sent s \<in> ops" using assms(2) by (simp add: running_def)
  have obs: "nextblknum u = nextblknum s" "pending u = pending s" "msgs u = msgs s"
    using u(1) same_core_obs [OF u(1)] by (simp_all add: same_core_def)
  have num: "ldshort (drop 2 (recvbuff u)) = ldshort (drop 2 data)"
    by (rule handler_args [OF u(3,2)])
  {
    assume stale: "parse data \<noteq> AckMsg (nextblknum s)"
    consider "ldshort data = OP_ACK" | "stops (ldshort data) u ?R" using other_entries [OF op u(4,5)] by blast
    then show "msgs t = msgs s \<and>
      (ph = Running \<longrightarrow> running ops t \<and> nextblknum t = nextblknum s \<and> pending t = pending s)"
    proof cases
      case 1
      then have "length data - 2 \<noteq> 2 \<or> ldshort (drop 2 (recvbuff u)) \<noteq> nextblknum u"
        using stale u(2) num obs(1) parse_ack_iff [OF u(2)] by auto
      from ack_stale [OF this] 1 ack_entry [OF op] have "(\<exists>c. ?R = Exit c u) \<or> ?R = Ret 0 u" by simp
      with after have "same_core u t" by (auto simp: after_handler_def)
      then show ?thesis
        using same_core_obs [of u t] running_core [of u t ops] run obs by (auto simp: same_core_def)
    next
      case 2
      with after obs show ?thesis
        by (cases ?R) (auto simp: stops_def after_handler_def msgs_def split: if_splits)
    qed
  next
    assume fresh: "parse data = AckMsg (nextblknum s)"
    then have f: "ldshort data = OP_ACK" "length data = 4" "ldshort (drop 2 (recvbuff u)) = nextblknum u"
      using num obs(1) parse_ack_iff [OF u(2)] by auto
    let ?H = "H (drop 2 (recvbuff u)) 2 u"
    have R: "?R = ?H" using f(1,2) ack_entry [OF op] by simp
    have b: "buffers u" using run by (simp add: running_def)
    have sub: "msgs (ostate ?H) \<subseteq>
        insert (DataMsg ((nextblknum s + 1) mod 65536) (take 512 (pending s))) (msgs s)"
      using ack_fresh [OF b f(3)] obs by simp
    show "msgs t \<subseteq> insert (DataMsg ((nextblknum s + 1) mod 65536) (take 512 (pending s))) (msgs s) \<and>
      (ph = Running \<longrightarrow> running ops t \<and> nextblknum t = nextblknum s + 1 \<and>
         pending t = drop 512 (pending s))"
    proof (cases "\<exists>r v. ?H = Ret r v \<and> 0 \<le> r")
      case True
      then obtain r v where v: "?H = Ret r v" "0 \<le> r" by blast
      with after R have vt: "same_core v t" by (simp add: after_handler_def)
      have a: "nextblknum v = nextblknum s + 1 \<and> pending v = drop 512 (pending s) \<and> running ops v"
        using ack_next [OF b f(3) v] obs data_op by (simp add: running_def)
      from vt a sub v(1) show ?thesis
        using same_core_obs [OF vt] running_core [OF vt, of ops] by (simp add: same_core_def)
    next
      case False
      with after R sub show ?thesis by (cases ?H) (auto simp: after_handler_def)
    qed
  }
qed

lemma sending_event:
  assumes "running ops s"
  shows "input e \<noteq> Some (AckMsg (nextblknum s)) \<Longrightarrow> msgs (ostate (ev e s)) \<subseteq> msgs s \<and>
      (phase_of (ev e s) = Running \<longrightarrow> running ops (ostate (ev e s)) \<and>
         nextblknum (ostate (ev e s)) = nextblknum s \<and> pending (ostate (ev e s)) = pending s)"
    and "input e = Some (AckMsg (nextblknum s)) \<Longrightarrow>
      msgs (ostate (ev e s)) \<subseteq>
        insert (DataMsg ((nextblknum s + 1) mod 65536) (take 512 (pending s))) (msgs s) \<and>
      (phase_of (ev e s) = Running \<longrightarrow> running ops (ostate (ev e s)) \<and>
         nextblknum (ostate (ev e s)) = nextblknum s + 1 \<and>
         pending (ostate (ev e s)) = drop 512 (pending s))"
proof -
  note c = ev_parse [OF assms, of e]
  note idle = idle_event_keeps [OF _ assms]
  note hnd = sending_handler [OF _ assms]
  {
    assume m: "input e \<noteq> Some (AckMsg (nextblknum s))"
    from c show "msgs (ostate (ev e s)) \<subseteq> msgs s \<and>
      (phase_of (ev e s) = Running \<longrightarrow> running ops (ostate (ev e s)) \<and>
         nextblknum (ostate (ev e s)) = nextblknum s \<and> pending (ostate (ev e s)) = pending s)"
    proof (elim disjE exE conjE)
      fix d assume d: "input e = Some (parse d)"
        "handler_event call d s (phase_of (ev e s)) (ostate (ev e s))"
      with m have "parse d \<noteq> AckMsg (nextblknum s)" by simp
      from hnd(1) [OF d(2) this] show ?thesis by simp
    qed (use idle in blast)+
  next
    assume m: "input e = Some (AckMsg (nextblknum s))"
    from c show "msgs (ostate (ev e s)) \<subseteq>
        insert (DataMsg ((nextblknum s + 1) mod 65536) (take 512 (pending s))) (msgs s) \<and>
      (phase_of (ev e s) = Running \<longrightarrow> running ops (ostate (ev e s)) \<and>
         nextblknum (ostate (ev e s)) = nextblknum s + 1 \<and>
         pending (ostate (ev e s)) = drop 512 (pending s))"
    proof (elim disjE exE conjE)
      fix d assume d: "input e = Some (parse d)"
        "handler_event call d s (phase_of (ev e s)) (ostate (ev e s))"
      with m have "parse d = AckMsg (nextblknum s)" by simp
      from hnd(2) [OF d(2) this] show ?thesis .
    qed (use m idle in \<open>auto dest!: idle\<close>)
  }
qed

end

sublocale sending_end \<subseteq> tftp_sender "engine_step ev" "running ops" nextblknum pending msgs
proof unfold_locales
  fix s t m ph
  {
    assume s: "running ops s" "engine_step ev m s Running t"
    then obtain e where "phase_of (ev e s) = Running" "t = ostate (ev e s)"
      unfolding engine_step_def by blast
    with sending_event [OF s(1), of e] show "running ops t" by blast
  next
    assume s: "running ops s" "engine_step ev m s ph t" "m \<noteq> Some (AckMsg (nextblknum s))"
    then obtain e where "input e = m" "phase_of (ev e s) = ph" "t = ostate (ev e s)"
      unfolding engine_step_def by blast
    with sending_event(1) [OF s(1), of e] s(3) show "msgs t \<subseteq> msgs s \<and>
      (ph = Running \<longrightarrow> nextblknum t = nextblknum s \<and> pending t = pending s)" by simp
  next
    assume s: "running ops s" "engine_step ev (Some (AckMsg (nextblknum s))) s ph t"
    then obtain e where "input e = Some (AckMsg (nextblknum s))" "phase_of (ev e s) = ph"
      "t = ostate (ev e s)" unfolding engine_step_def by blast
    with sending_event(2) [OF s(1), of e] show
      "msgs t \<subseteq> insert (DataMsg ((nextblknum s + 1) mod 65536) (take 512 (pending s))) (msgs s) \<and>
       (ph = Running \<longrightarrow> nextblknum t = nextblknum s + 1 \<and> pending t = drop 512 (pending s))" by simp
  }
qed

locale receiving_end = fsm_engine ev call + data_handler H
  for ev :: "rcv \<Rightarrow> int option prog"
    and call :: "int \<Rightarrow> int \<Rightarrow> byte list \<Rightarrow> nat \<Rightarrow> int prog"
    and H :: "byte list \<Rightarrow> nat \<Rightarrow> int prog" +
  fixes ops :: "int set"
  assumes data_entry: "oc \<in> ops \<Longrightarrow> call oc OP_DATA = H"
    and other_entries: "oc \<in> ops \<Longrightarrow> OP_MIN \<le> rc \<Longrightarrow> rc \<le> OP_MAX \<Longrightarrow> rc \<noteq> OP_DATA \<Longrightarrow>
      stops rc u (call oc rc ptr n u)"
    and ack_op: "OP_ACK \<in> ops"
begin

lemma receiving_handler:
  assumes "handler_event call data r ph t" "running ops r"
  shows "\<forall>p. parse data \<noteq> DataMsg (nextblknum r) p \<Longrightarrow>
      msgs t \<subseteq> msgs r \<union> {AckMsg n |n p. parse data = DataMsg n p \<and> n = nextblknum r - 1} \<and>
      (ph = Running \<longrightarrow> running ops t \<and> nextblknum t = nextblknum r) \<and>
      (\<forall>xs. accepted r xs \<longrightarrow> accepted t xs) \<and>
      (ph = Finished \<longrightarrow> parse data = ErrMsg \<or>
         (\<exists>p. parse data = DataMsg (nextblknum r - 1) p \<and> length p \<noteq> 512))"
    and "parse data = DataMsg (nextblknum r) p \<Longrightarrow>
      msgs t \<subseteq> insert (AckMsg (nextblknum r)) (msgs r) \<and>
      (ph = Running \<longrightarrow> running ops t \<and> length p = 512 \<and> nextblknum t = nextblknum r + 1) \<and>
      (ph = Finished \<longrightarrow> length p \<noteq> 512) \<and>
      (ph \<noteq> Dead \<longrightarrow> (\<forall>xs. accepted r xs \<longrightarrow> accepted t (xs @ p)))"
proof -
  from assms(1) obtain u where u: "same_core r u" "4 \<le> length data"
    "take (length data) (recvbuff u) = data" "OP_MIN \<le> ldshort data" "ldshort data \<le> OP_MAX"
    and after: "after_handler (call (op_sent r) (ldshort data) (drop 2 (recvbuff u)) (length data - 2) u) ph t"
    (is "after_handler ?R ph t")
    unfolding handler_event_def by blast
  have run: "running ops u" using assms(2) running_core [OF u(1)] by simp
  then have b: "buffers u" by (simp add: running_def)
  have op: "op_sent r \<in> ops" using assms(2) by (simp add: running_def)
  have obs: "nextblknum u = nextblknum r" "accepted u = accepted r" "msgs u = msgs r"
    using u(1) same_core_obs [OF u(1)] by (simp_all add: same_core_def fun_eq_iff)
  note args = handler_args [OF u(3,2)]
  let ?H = "H (drop 2 (recvbuff u)) (length data - 2) u"
  have len: "length data - 2 - 2 = length (drop 4 data)" by simp
  {
    assume stale: "\<forall>p. parse data \<noteq> DataMsg (nextblknum r) p"
    show "msgs t \<subseteq> msgs r \<union> {AckMsg n |n p. parse data = DataMsg n p \<and> n = nextblknum r - 1} \<and>
      (ph = Running \<longrightarrow> running ops t \<and> nextblknum t = nextblknum r) \<and>
      (\<forall>xs. accepted r xs \<longrightarrow> accepted t xs) \<and>
      (ph = Finished \<longrightarrow> parse data = ErrMsg \<or>
         (\<exists>p. parse data = DataMsg (nextblknum r - 1) p \<and> length p \<noteq> 512))"
    proof (cases "ldshort data = OP_DATA")
      case True
      have R: "?R = ?H" using True data_entry [OF op] by simp
      let ?b = "ldshort (drop 2 data)"
      have p: "parse data = DataMsg ?b (drop 4 data)" by (rule parse_data [OF u(2) True])
      with stale have ne: "ldshort (drop 2 (recvbuff u)) \<noteq> nextblknum u" using args(1) obs(1) by auto
      note st = data_stale [OF b ne, of "length data - 2", unfolded args(1)]
      have keep: "\<forall>xs. accepted r xs \<longrightarrow> accepted (ostate ?H) xs"
        using st same_file_accepted obs(2) by metis
      have sub: "msgs (ostate ?H) \<subseteq> msgs r \<union>
          {AckMsg n |n p. parse data = DataMsg n p \<and> n = nextblknum r - 1}"
        using st p obs(1,3) by auto
      show ?thesis
      proof (cases ?H)
        case (Ret x v)
        with data_dup [OF b ne, of "length data - 2"] have v:
          "?b = nextblknum r - 1" "nextblknum v = nextblknum r" "running ops v"
          "(x < 0) = (length data - 4 \<noteq> 512)"
          using args(1) obs(1) ack_op by (simp_all add: acked_def running_def)
        show ?thesis
        proof (cases "x < 0")
          case True
          with after R Ret have "ph = Finished" "t = v" by (simp_all add: after_handler_def)
          with True v keep sub p Ret len show ?thesis by auto
        next
          case False
          with after R Ret have vt: "ph \<noteq> Finished" "same_core v t" by (simp_all add: after_handler_def)
          with v(2,3) keep sub Ret show ?thesis
            using same_core_obs [OF vt(2)] running_core [OF vt(2), of ops] by (simp add: same_core_def)
        qed
      qed (use after R keep sub in \<open>simp_all add: after_handler_def\<close>)
    next
      case False
      from other_entries [OF op u(4,5) False] have st:
        "stops (ldshort data) u ?R" .
      have obst: "same_file u (ostate ?R)" "msgs (ostate ?R) = msgs r"
        using st obs(3) by (simp_all add: stops_def msgs_def)
      then have "\<forall>xs. accepted r xs \<longrightarrow> accepted (ostate ?R) xs"
        using same_file_accepted obs(2) by metis
      with after st obst(2) show ?thesis
        by (cases ?R) (auto simp: stops_def after_handler_def parse_error split: if_splits)
    qed
  next
    assume fresh: "parse data = DataMsg (nextblknum r) p"
    then have f: "ldshort data = OP_DATA" "ldshort (drop 2 (recvbuff u)) = nextblknum u" "p = drop 4 data"
      using args(1) obs(1) parse_data_iff [OF u(2)] by auto
    have R: "?R = ?H" using f(1) data_entry [OF op] by simp
    note fr = data_fresh [OF b f(2), of "length data - 2"]
    have sub: "msgs (ostate ?H) \<subseteq> insert (AckMsg (nextblknum r)) (msgs r)"
      using fr f(2) obs(1,3) by simp
    show "msgs t \<subseteq> insert (AckMsg (nextblknum r)) (msgs r) \<and>
      (ph = Running \<longrightarrow> running ops t \<and> length p = 512 \<and> nextblknum t = nextblknum r + 1) \<and>
      (ph = Finished \<longrightarrow> length p \<noteq> 512) \<and>
      (ph \<noteq> Dead \<longrightarrow> (\<forall>xs. accepted r xs \<longrightarrow> accepted t (xs @ p)))"
    proof (cases ?H)
      case (Ret x v)
      with data_next [OF b f(2) Ret] have v: "nextblknum v = nextblknum r + 1" "running ops v"
        "(x < 0) = (length p \<noteq> 512)" "\<forall>xs. accepted r xs \<longrightarrow> accepted v (xs @ p)"
        using args(2) obs(1,2) ack_op f(3) by (simp_all add: acked_def running_def)
      show ?thesis
      proof (cases "x < 0")
        case True
        with after R Ret have "ph = Finished" "t = v" by (simp_all add: after_handler_def)
        with True v sub Ret show ?thesis by simp
      next
        case False
        with after R Ret have vt: "ph \<noteq> Finished" "same_core v t" by (simp_all add: after_handler_def)
        with False v sub Ret show ?thesis
          using same_core_obs [OF vt(2)] running_core [OF vt(2), of ops] by (simp add: same_core_def)
      qed
    qed (use after R sub in \<open>simp_all add: after_handler_def\<close>)
  }
qed

lemma receiving_mode:
  assumes "running ops r"
  shows "modetype (ostate (ev e r)) = modetype r"
proof -
  have h: "modetype t = modetype r" if "handler_event call d r ph t" for d ph t
  proof -
    from that obtain u where u: "same_core r u" "OP_MIN \<le> ldshort d" "ldshort d \<le> OP_MAX"
      and after: "after_handler (call (op_sent r) (ldshort d) (drop 2 (recvbuff u)) (length d - 2) u) ph t"
      (is "after_handler ?R ph t")
      unfolding handler_event_def by blast
    have op: "op_sent r \<in> ops" and b: "buffers u"
      using assms running_core [OF u(1)] by (auto simp: running_def)
    have "modetype (ostate ?R) = modetype u"
    proof (cases "ldshort d = OP_DATA")
      case True
      with data_entry [OF op] data_mode [OF b] show ?thesis by simp
    next
      case False
      from other_entries [OF op u(2,3) False] show ?thesis by (simp add: stops_def same_file_def)
    qed
    with after u(1) show ?thesis
      by (cases ?R) (auto simp: after_handler_def same_core_def split: if_splits)
  qed
  have i: "modetype t = modetype r" if "idle_event r ph t" for ph t
    using that by (auto simp: idle_event_def same_core_def)
  from ev_parse [OF assms, of e] h i show ?thesis by blast
qed

text \<open>What an event does to a receiver, as one relation for both kinds of input.\<close>

lemma receiving_event:
  assumes "running ops r"
  shows "\<forall>p. input e \<noteq> Some (DataMsg (nextblknum r) p) \<Longrightarrow>
      msgs (ostate (ev e r)) \<subseteq>
        msgs r \<union> {AckMsg n |n p. input e = Some (DataMsg n p) \<and> n = nextblknum r - 1} \<and>
      (phase_of (ev e r) = Running \<longrightarrow> running ops (ostate (ev e r)) \<and>
         nextblknum (ostate (ev e r)) = nextblknum r) \<and>
      (\<forall>xs. accepted r xs \<longrightarrow> accepted (ostate (ev e r)) xs) \<and>
      (phase_of (ev e r) = Finished \<longrightarrow> input e = Some ErrMsg \<or>
         (\<exists>p. input e = Some (DataMsg (nextblknum r - 1) p) \<and> length p \<noteq> 512))"
    and "input e = Some (DataMsg (nextblknum r) p) \<Longrightarrow>
      msgs (ostate (ev e r)) \<subseteq> insert (AckMsg (nextblknum r)) (msgs r) \<and>
      (phase_of (ev e r) = Running \<longrightarrow> running ops (ostate (ev e r)) \<and> length p = 512 \<and>
         nextblknum (ostate (ev e r)) = nextblknum r + 1) \<and>
      (phase_of (ev e r) = Finished \<longrightarrow> length p \<noteq> 512) \<and>
      (phase_of (ev e r) \<noteq> Dead \<longrightarrow> (\<forall>xs. accepted r xs \<longrightarrow> accepted (ostate (ev e r)) (xs @ p)))"
proof -
  note c = ev_parse [OF assms, of e]
  note idle = idle_event_keeps [OF _ assms]
  note hnd = receiving_handler [OF _ assms]
  {
    assume m: "\<forall>p. input e \<noteq> Some (DataMsg (nextblknum r) p)"
    from c show "msgs (ostate (ev e r)) \<subseteq>
        msgs r \<union> {AckMsg n |n p. input e = Some (DataMsg n p) \<and> n = nextblknum r - 1} \<and>
      (phase_of (ev e r) = Running \<longrightarrow> running ops (ostate (ev e r)) \<and>
         nextblknum (ostate (ev e r)) = nextblknum r) \<and>
      (\<forall>xs. accepted r xs \<longrightarrow> accepted (ostate (ev e r)) xs) \<and>
      (phase_of (ev e r) = Finished \<longrightarrow> input e = Some ErrMsg \<or>
         (\<exists>p. input e = Some (DataMsg (nextblknum r - 1) p) \<and> length p \<noteq> 512))"
    proof (elim disjE exE conjE)
      fix d assume d: "input e = Some (parse d)"
        "handler_event call d r (phase_of (ev e r)) (ostate (ev e r))"
      with m have "\<forall>p. parse d \<noteq> DataMsg (nextblknum r) p" by simp
      from hnd(1) [OF d(2) this] show ?thesis unfolding d(1) option.inject .
    next
      assume i: "idle_event r (phase_of (ev e r)) (ostate (ev e r))"
      from idle [OF i] show ?thesis by auto
    next
      assume i: "idle_event r (phase_of (ev e r)) (ostate (ev e r))"
      from idle [OF i] show ?thesis by auto
    qed
  next
    assume m: "input e = Some (DataMsg (nextblknum r) p)"
    from c show "msgs (ostate (ev e r)) \<subseteq> insert (AckMsg (nextblknum r)) (msgs r) \<and>
      (phase_of (ev e r) = Running \<longrightarrow> running ops (ostate (ev e r)) \<and> length p = 512 \<and>
         nextblknum (ostate (ev e r)) = nextblknum r + 1) \<and>
      (phase_of (ev e r) = Finished \<longrightarrow> length p \<noteq> 512) \<and>
      (phase_of (ev e r) \<noteq> Dead \<longrightarrow> (\<forall>xs. accepted r xs \<longrightarrow> accepted (ostate (ev e r)) (xs @ p)))"
    proof (elim disjE exE conjE)
      fix d assume d: "input e = Some (parse d)"
        "handler_event call d r (phase_of (ev e r)) (ostate (ev e r))"
      with m have "parse d = DataMsg (nextblknum r) p" by simp
      from hnd(2) [OF d(2) this] show ?thesis .
    next
      assume i: "idle_event r (phase_of (ev e r)) (ostate (ev e r))" "phase_of (ev e r) = Dead"
      from idle [OF i(1)] i(2) show ?thesis by auto
    qed (use m in simp)
  }
qed

end

sublocale receiving_end \<subseteq> tftp_receiver "engine_step ev" "running ops" nextblknum accepted msgs
proof unfold_locales
  fix r t m ph p
  {
    assume s: "running ops r" "engine_step ev m r Running t"
    then obtain e where "phase_of (ev e r) = Running" "t = ostate (ev e r)"
      unfolding engine_step_def by blast
    with receiving_event [OF s(1), of e] show "running ops t" by blast
  next
    assume s: "running ops r" "engine_step ev m r ph t" "\<forall>p. m \<noteq> Some (DataMsg (nextblknum r) p)"
    then obtain e where "input e = m" "phase_of (ev e r) = ph" "t = ostate (ev e r)"
      unfolding engine_step_def by blast
    with receiving_event(1) [OF s(1), of e] s(3) show
      "msgs t \<subseteq> msgs r \<union> {AckMsg n |n p. m = Some (DataMsg n p) \<and> n = nextblknum r - 1} \<and>
      (ph = Running \<longrightarrow> nextblknum t = nextblknum r) \<and>
      (\<forall>xs. accepted r xs \<longrightarrow> accepted t xs) \<and>
      (ph = Finished \<longrightarrow> m = Some ErrMsg \<or>
         (\<exists>p. m = Some (DataMsg (nextblknum r - 1) p) \<and> length p \<noteq> 512))" by simp
  next
    assume s: "running ops r" "engine_step ev (Some (DataMsg (nextblknum r) p)) r ph t"
    then obtain e where "input e = Some (DataMsg (nextblknum r) p)" "phase_of (ev e r) = ph"
      "t = ostate (ev e r)" unfolding engine_step_def by blast
    with receiving_event(2) [OF s(1), of e] show
      "msgs t \<subseteq> insert (AckMsg (nextblknum r)) (msgs r) \<and>
      (ph = Running \<longrightarrow> length p = 512 \<and> nextblknum t = nextblknum r + 1) \<and>
      (ph = Finished \<longrightarrow> length p \<noteq> 512) \<and>
      (ph \<noteq> Dead \<longrightarrow> (\<forall>xs. accepted r xs \<longrightarrow> accepted t (xs @ p)))" by simp
  }
qed

text \<open>The entries of the two tables, by the packet sent last.\<close>

lemma opcodes:
  fixes rc :: int
  shows "OP_MIN \<le> rc \<Longrightarrow> rc \<le> OP_MAX \<Longrightarrow> rc \<in> {OP_RRQ, OP_WRQ, OP_DATA, OP_ACK, OP_ERROR}"
  by auto

lemma stops_exit: "stops rc u (Exit c u)"
  by (simp add: stops_def same_file_def)

lemma stops_RQERR: "stops OP_ERROR u (recv_RQERR ptr n u)"
  by (simp add: stops_def same_file_def recv_RQERR_def Let_def)

lemmas table_simps = call_srv_def call_cli_def fsm_ptr_def fsm_ptr_cli_def
  fsm_invalid_def fsm_error_def fsm_invalid_cli_def fsm_error_cli_def

interpretation srv_sends: sending_end fsm_event call_srv recv_ACK "{OP_DATA}"
proof unfold_locales
  fix oc rc :: int and u :: tftp and ptr n
  assume "oc \<in> {OP_DATA}" "OP_MIN \<le> rc" "rc \<le> OP_MAX" "rc \<noteq> OP_ACK"
  then show "stops rc u (call_srv oc rc ptr n u)"
    using opcodes [of rc] by (auto simp: table_simps stops_exit)
qed (auto simp: table_simps fun_eq_iff)

interpretation cli_sends: sending_end fsm_event_cli call_cli recv_ACK_cli "{OP_WRQ, OP_DATA}"
proof unfold_locales
  fix oc rc :: int and u :: tftp and ptr n
  assume "oc \<in> {OP_WRQ, OP_DATA}" "OP_MIN \<le> rc" "rc \<le> OP_MAX" "rc \<noteq> OP_ACK"
  then show "stops rc u (call_cli oc rc ptr n u)"
    using opcodes [of rc] by (auto simp: table_simps stops_exit stops_RQERR)
qed (auto simp: table_simps fun_eq_iff)

interpretation srv_receives: receiving_end fsm_event call_srv recv_DATA "{OP_ACK}"
proof unfold_locales
  fix oc rc :: int and u :: tftp and ptr n
  assume "oc \<in> {OP_ACK}" "OP_MIN \<le> rc" "rc \<le> OP_MAX" "rc \<noteq> OP_DATA"
  then show "stops rc u (call_srv oc rc ptr n u)"
    using opcodes [of rc] by (auto simp: table_simps stops_exit)
qed (auto simp: table_simps fun_eq_iff)

interpretation cli_receives: receiving_end fsm_event_cli call_cli recv_DATA_cli "{OP_RRQ, OP_ACK}"
proof unfold_locales
  fix oc rc :: int and u :: tftp and ptr n
  assume "oc \<in> {OP_RRQ, OP_ACK}" "OP_MIN \<le> rc" "rc \<le> OP_MAX" "rc \<noteq> OP_DATA"
  then show "stops rc u (call_cli oc rc ptr n u)"
    using opcodes [of rc] by (auto simp: table_simps stops_exit stops_RQERR)
qed (auto simp: table_simps fun_eq_iff)

text \<open>Each sender with the other program's receiver.\<close>

interpretation get_link: tftp_link
  "engine_step fsm_event" "running {OP_DATA}" nextblknum pending msgs
  "engine_step fsm_event_cli" "running {OP_RRQ, OP_ACK}" nextblknum accepted msgs
  by unfold_locales

interpretation put_link: tftp_link
  "engine_step fsm_event_cli" "running {OP_WRQ, OP_DATA}" nextblknum pending msgs
  "engine_step fsm_event" "running {OP_ACK}" nextblknum accepted msgs
  by unfold_locales

end
