(* ===== verification/TftpTransfer.thy ===== *)
theory TftpTransfer
  imports TftpEnds
begin

text \<open>
  Whole transfers: the client's \<open>do_get\<close> and \<open>do_put\<close> against a child of the server, over a
  network that may lose, duplicate, delay and reorder datagrams. A run is any sequence of
  events of the two processes in which each hears only what the other has sent.
\<close>

section \<open>Starting a transfer\<close>

text \<open>
  \<open>do_get\<close> and \<open>do_put\<close> up to the first wait for a reply, and the server's child up to its
  first wait after it has taken the request. \<open>Ret None\<close> is such a wait.
\<close>

definition get_call :: "byte list \<Rightarrow> byte list \<Rightarrow> int \<Rightarrow> sockaddr \<Rightarrow> int option prog" where
  "get_call remf locf fd addr c = obind (get_start remf locf fd addr c) (\<lambda>go c.
     if go = None then Ret (Some 0) c else fsm_enter_cli OP_RRQ c)"

definition put_call :: "byte list \<Rightarrow> byte list \<Rightarrow> int \<Rightarrow> sockaddr \<Rightarrow> int option prog" where
  "put_call remf locf fd addr c = obind (put_start remf locf fd addr c) (\<lambda>go c.
     if go = None then Ret (Some 0) c else fsm_enter_cli OP_WRQ c)"

definition serve_call :: "rcv \<Rightarrow> int \<Rightarrow> int option prog" where
  "serve_call e fd s = obind (net_open e 0 fd True s) (\<lambda>r s.
     case r of None \<Rightarrow> Ret None s | Some _ \<Rightarrow> fsm_enter 0 s)"

section \<open>Runs\<close>

text \<open>What a process may hear: an interrupt, a socket error, or a datagram that the other has
  sent at any time, from wherever.\<close>

definition heard :: "tftp \<Rightarrow> rcv \<Rightarrow> bool" where
  "heard other e \<longleftrightarrow> (\<forall>from d. e = Dgram from d \<longrightarrow> d \<in> snd ` set (sent other))"

text \<open>
  The reachable states of a transfer: the client alone (\<open>None\<close>), then the client with the
  child that took its request. A process that has left its loop, or has stopped, stays as it
  is. \<open>start\<close> and \<open>accept\<close> are the two programs up to their first wait.
\<close>

inductive transfer :: "(int option, tftp) outcome \<Rightarrow> (rcv \<Rightarrow> (int option, tftp) outcome) \<Rightarrow>
    (phase \<times> tftp) option \<Rightarrow> phase \<times> tftp \<Rightarrow> bool" for start accept where
  transfer_start: "start = Ret None c \<Longrightarrow> transfer start accept None (Running, c)"
| transfer_alone: "transfer start accept None (Running, c) \<Longrightarrow> (\<forall>from d. e \<noteq> Dgram from d) \<Longrightarrow>
    transfer start accept None (phase_of (fsm_event_cli e c), ostate (fsm_event_cli e c))"
| transfer_accept: "transfer start accept None (cp, c) \<Longrightarrow> heard c (Dgram from d) \<Longrightarrow>
    accept (Dgram from d) = Ret None s \<Longrightarrow>
    transfer start accept (Some (Running, s)) (cp, c)"
| transfer_server: "transfer start accept (Some (Running, s)) (cp, c) \<Longrightarrow> heard c e \<Longrightarrow>
    transfer start accept (Some (phase_of (fsm_event e s), ostate (fsm_event e s))) (cp, c)"
| transfer_client: "transfer start accept (Some (sp, s)) (Running, c) \<Longrightarrow> heard s e \<Longrightarrow>
    transfer start accept (Some (sp, s))
      (phase_of (fsm_event_cli e c), ostate (fsm_event_cli e c))"

section \<open>Requests\<close>

text \<open>A request as \<open>send_RQ\<close> builds it.\<close>

definition request :: "int \<Rightarrow> byte list \<Rightarrow> byte list \<Rightarrow> byte list" where
  "request opcode fname modestr = stshort opcode @ fname @ NUL # modestr @ [NUL]"

lemma take_buf_put_beyond:
  "off \<le> length buf \<Longrightarrow> n = off + length bs \<Longrightarrow> take n (buf_put off bs buf) = take off buf @ bs"
  by (simp add: buf_put_def)

lemma send_RQ_result:
  assumes "send_RQ opcode fname mode s = Ret () t" "length (sendbuff s) = MAXBUFF"
  shows "\<exists>ms. mode_name mode = Some ms \<and>
    length (request opcode fname ms) \<le> MAXBUFF \<and>
    take (sendlen t) (sendbuff t) = request opcode fname ms \<and>
    t = s\<lparr>sendbuff := sendbuff t, sendlen := sendlen t,
          sent := sent s @ [(peer s, request opcode fname ms)]\<rparr> \<and>
    length (sendbuff t) = MAXBUFF"
proof -
  let ?b1 = "buf_put 0 (stshort opcode) (sendbuff s)"
  let ?b2 = "buf_put 2 (fname @ [NUL]) ?b1"
  let ?len = "2 + length fname + 1"
  have l1: "length ?b1 = MAXBUFF" using assms(2) by (simp add: buf_simps)
  from assms(1) have le: "?len \<le> MAXBUFF"
    using l1 by (auto simp: send_RQ_def Let_def split: if_splits option.splits)
  then have l2: "length ?b2 = MAXBUFF" using l1 by (simp add: buf_simps)
  from assms(1) le l1 obtain ms where ms: "mode_name mode = Some ms"
    by (auto simp: send_RQ_def Let_def split: if_splits option.splits)
  let ?b3 = "buf_put ?len (ms @ [NUL]) ?b2"
  let ?n = "?len + length ms + 1"
  from assms(1) le l1 l2 ms have r: "?n \<le> MAXBUFF"
    "net_send_cli (s\<lparr>sendbuff := ?b3, sendlen := ?n\<rparr>) = Ret () t"
    by (auto simp: send_RQ_def Let_def split: if_splits)
  have l3: "length ?b3 = MAXBUFF" using l2 r(1) by (simp add: buf_simps)
  have "take ?n ?b3 = take ?len ?b2 @ ms @ [NUL]"
    by (rule take_buf_put_beyond) (use l2 le in simp_all)
  also have "take ?len ?b2 = take 2 ?b1 @ fname @ [NUL]"
    by (rule take_buf_put_beyond) (use l1 in simp_all)
  also have "take 2 ?b1 = stshort opcode" by (simp add: buf_put_def)
  finally have pkt: "take ?n ?b3 = request opcode fname ms" by (simp add: request_def)
  have t: "t = s\<lparr>sendbuff := ?b3, sendlen := ?n, sent := sent s @ [(peer s, take ?n ?b3)]\<rparr>"
    using r(2) by (simp add: net_send_cli_def split: if_splits)
  show ?thesis
    unfolding t pkt using ms r(1) l3 pkt by (simp add: request_def)
qed

lemma mode_name_cases:
  assumes "mode_name m = Some ms"
  shows "m = MODE_ASCII \<and> ms = bytes ''netascii'' \<or> m = MODE_BINARY \<and> ms = bytes ''octet''"
  using assms by (auto simp: mode_name_def split: if_splits)

lemma mode_bytes:
  "NUL \<notin> set (bytes ''netascii'')" "NUL \<notin> set (bytes ''octet'')"
  "strlccpy (bytes ''netascii'') = bytes ''netascii''" "strlccpy (bytes ''octet'') = bytes ''octet''"
  "bytes ''octet'' \<noteq> bytes ''netascii''"
  by code_simp+

text \<open>What the server makes of it: the file is opened and the mode set.\<close>

lemma recv_xRQ_request:
  assumes ptr: "ptr = fname @ NUL # ms @ NUL # rest" "n = length fname + length ms + 2"
    and name: "NUL \<notin> set fname" "length fname < MAXFILENAME" and mode: "mode_name m = Some ms"
    and ret: "recv_xRQ opcode ptr n s = Ret () t"
  shows "\<exists>f. (if opcode = OP_RRQ then fs_read (fs s) fname else fs_write (fs s) fname) = Some f \<and>
    t = s\<lparr>modetype := m, nextblknum := 0, lastcr := False, nextchar := - 1, localfp := Some f\<rparr>"
proof -
  have sc1: "scan_nul n ptr = Some (Some (length fname))"
    unfolding ptr by (rule scan_nul_at [OF name(1)]) simp
  have ms: "NUL \<notin> set ms" "length ms < MAXFILENAME" "strlccpy ms = ms"
    using mode_name_cases [OF mode] mode_bytes by auto
  have sc2: "scan_nul (n - length fname) (drop (length fname + 1) ptr) = Some (Some (length ms))"
    unfolding ptr using scan_nul_at [OF ms(1), of "length ms + 2" rest] by simp
  have parts: "take (length fname) ptr = fname"
    "take (length ms) (drop (length fname + 1) ptr) = ms"
    unfolding ptr by simp_all
  let ?s = "s\<lparr>modetype := m\<rparr>"
  from ret sc1 sc2 name(2) ms(2,3) parts mode_name_cases [OF mode] mode_bytes(5)
  obtain fp u where r: "file_open fname (opcode \<noteq> OP_RRQ) 0 ?s = Ret fp u" "fp \<noteq> None"
    "t = u\<lparr>localfp := fp\<rparr>" "take 1 fname = [47]"
    by (auto simp: recv_xRQ_def Let_def send_ERROR_def split: if_splits option.splits)
  from r(4) have "fname \<noteq> [45]" by auto
  with r(1-3) show ?thesis
    by (auto simp: file_open_def split: option.splits if_splits)
qed

section \<open>The first handler of a server's child\<close>

lemma fsm_arm_frame:
  "fsm_arm s = Ret x t \<Longrightarrow> recvbuff t = recvbuff s \<and> op_sent t = op_sent s \<and> sent t = sent s \<and>
     fs t = fs s \<and> sendbuff t = sendbuff s \<and> recv_nbytes t = recv_nbytes s"
  by (auto simp: fsm_arm_def on_rtt_def gettimeofday_def split: outcome.splits)

text \<open>The state in which \<open>fsm_loop\<close> arms its first timer, the same in both programs.\<close>

definition entered :: "int \<Rightarrow> tftp \<Rightarrow> tftp" where
  "entered opcode s =
     (let s = s\<lparr>op_sent := opcode\<rparr>;
          s = (if rttfirst s then s\<lparr>rttinfo := rtt_init (rttinfo s), rttfirst := False\<rparr> else s)
      in s\<lparr>rttinfo := rtt_newpack (rttinfo s)\<rparr>)"

lemma fsm_enter_entered:
  "fsm_enter opcode s = obind (fsm_arm (entered opcode s)) (\<lambda>_ s.
     if 0 \<le> recv_nbytes s then fsm_body (recv_nbytes s) (s\<lparr>recv_nbytes := - 1\<rparr>) else Ret None s)"
  "fsm_enter_cli opcode s = obind (fsm_arm (entered opcode s)) (\<lambda>_ s. Ret None s)"
  by (simp_all add: fsm_enter_def fsm_enter_cli_def entered_def Let_def rtt_cli_eq cli_srv_eq)

lemma entered_frame:
  "op_sent (entered opcode s) = opcode"
  "same_core (s\<lparr>op_sent := opcode\<rparr>) (entered opcode s)"
  "recvbuff (entered opcode s) = recvbuff s" "recv_nbytes (entered opcode s) = recv_nbytes s"
  by (simp_all add: entered_def Let_def same_core_def)

lemma net_open_request:
  assumes "net_open (Dgram from d) 0 fd True s0 = Ret r s" "length d \<le> MAXBUFF"
  shows "r = Some 0 \<and> recvbuff s = buf_put 0 d (recvbuff s0) \<and> recv_nbytes s = int (length d) \<and>
    sent s = sent s0 \<and> fs s = fs s0 \<and> sendbuff s = sendbuff s0"
  using assms by (auto simp: net_open_def net_recv_def Let_def split: if_splits)

lemma serve_call_enter:
  assumes call: "serve_call (Dgram from d) fd s0 = Ret None s"
    and b: "buffers s0" and len: "length d \<le> MAXBUFF"
  shows "\<exists>s1. handler_event call_srv d s1 Running s \<and> op_sent s1 = 0 \<and> sent s1 = sent s0 \<and>
    fs s1 = fs s0 \<and> buffers s1"
proof -
  from call obtain r s2 where o: "net_open (Dgram from d) 0 fd True s0 = Ret r s2"
    and e: "r \<noteq> None \<Longrightarrow> fsm_enter 0 s2 = Ret None s"
    by (auto simp: serve_call_def split: option.splits)
  note s2 = net_open_request [OF o len]
  with e have "fsm_enter 0 s2 = Ret None s" by simp
  then obtain s4 where s4: "fsm_arm (entered 0 s2) = Ret () s4"
    and body: "(if 0 \<le> recv_nbytes s4 then fsm_body (recv_nbytes s4) (s4\<lparr>recv_nbytes := - 1\<rparr>)
               else Ret None s4) = Ret None s"
    by (auto simp: fsm_enter_entered)
  let ?s = "s4\<lparr>recv_nbytes := - 1\<rparr>"
  have f: "recvbuff ?s = buf_put 0 d (recvbuff s0)" "op_sent ?s = 0" "sent ?s = sent s0"
    "fs ?s = fs s0" "sendbuff ?s = sendbuff s0" "recv_nbytes s4 = int (length d)"
    using fsm_arm_frame [OF s4] entered_frame [of 0 s2] s2 by (simp_all add: same_core_def)
  have "fsm_body (int (length d)) ?s = Ret None s" using body f(6) by simp
  then have "loop_body (- 1) call_srv (int (length d)) ?s = Ret None s" by (simp add: fsm_body_loop)
  moreover have "take (length d) (recvbuff ?s) = d" using f(1) by (simp add: buf_simps)
  ultimately have "handler_event call_srv d ?s Running s"
    using loop_body_data [of "int (length d)" ?s d "- 1" call_srv] by simp
  moreover have "buffers ?s" using f b len by (simp add: buffers_def buf_simps)
  ultimately show ?thesis using f by blast
qed

text \<open>What a file of the given contents is on the wire.\<close>

definition stream :: "int \<Rightarrow> byte list \<Rightarrow> byte list" where
  "stream mode xs = (if mode = MODE_BINARY then xs else nvt_encode xs)"

lemma request_parts:
  "ldshort (request opcode fname ms) = opcode mod 65536"
  "drop 2 (request opcode fname ms) = fname @ NUL # ms @ [NUL]"
  "length (request opcode fname ms) = length fname + length ms + 4"
  by (simp_all add: request_def)

lemma drop_received:
  assumes "take (length d) b = d" "d = stshort x @ e"
  shows "\<exists>rest. drop 2 b = e @ rest"
proof -
  have "b = d @ drop (length d) b" using assms(1) by (metis append_take_drop_id)
  with assms(2) have "drop 2 b = e @ drop (length d) b" by (metis append.assoc drop_stshort)
  then show ?thesis ..
qed

text \<open>After a full block (or a request) \<open>recv_ACK\<close> has something to send, if only an empty block.\<close>

lemma recv_ACK_first:
  assumes "recv_ACK ptr 2 u = Ret r v" "lastsend u = int MAXDATA"
  shows "0 \<le> r"
proof (cases "ldshort ptr = nextblknum u")
  case True
  then have "recv_ACK ptr 2 u = obind (file_read 512 (modetype u) u) push_block"
    unfolding recv_ACK_def push_block_def [abs_def] Let_def by simp
  with assms(1) obtain bs w where w: "file_read 512 (modetype u) u = Ret bs w" "push_block bs w = Ret r v"
    by auto
  obtain f g where "w = u\<lparr>localfp := f, nextchar := g\<rparr>"
    using file_read_result [OF w(1)] unfolding read_result_def by blast
  then have "lastsend w = int MAXDATA" using assms(2) by simp
  with w(2) show ?thesis by (auto simp: push_block_def Let_def)
next
  case False
  with assms(1) show ?thesis by (auto simp: recv_ACK_def Let_def split: if_splits)
qed

lemma serve_RRQ:
  assumes call: "serve_call (Dgram from (request OP_RRQ fname ms)) fd s0 = Ret None s"
    and b: "buffers s0" "sent s0 = []" and len: "length (request OP_RRQ fname ms) \<le> MAXBUFF"
    and name: "NUL \<notin> set fname" "length fname < MAXFILENAME" and mode: "mode_name m = Some ms"
  shows "\<exists>f. fs_read (fs s0) fname = Some f \<and> running {OP_DATA} s \<and> nextblknum s = 1 \<and>
    pending s = drop 512 (stream m (f_in f)) \<and>
    msgs s \<subseteq> {DataMsg 1 (take 512 (stream m (f_in f)))}"
proof -
  let ?d = "request OP_RRQ fname ms"
  from serve_call_enter [OF call b(1) len] obtain s1 where
    h: "handler_event call_srv ?d s1 Running s" "op_sent s1 = 0" "sent s1 = []" "fs s1 = fs s0" "buffers s1"
    using b(2) by auto
  then obtain u where u: "same_core s1 u" "take (length ?d) (recvbuff u) = ?d"
    and after: "after_handler (call_srv (op_sent s1) (ldshort ?d) (drop 2 (recvbuff u)) (length ?d - 2) u) Running s"
    unfolding handler_event_def by blast
  let ?ptr = "drop 2 (recvbuff u)" and ?n = "length ?d - 2"
  have "call_srv (op_sent s1) (ldshort ?d) = recv_RRQ"
    using h(2) by (simp add: request_parts table_simps fun_eq_iff)
  with after obtain r v where r: "recv_RRQ ?ptr ?n u = Ret r v" "same_core v s"
    by (auto simp: after_handler_def split: outcome.splits if_splits)
  then obtain t r' where t: "recv_xRQ OP_RRQ ?ptr ?n u = Ret () t"
    and ack: "recv_ACK (stshort 0) 2 (t\<lparr>lastsend := int MAXDATA\<rparr>) = Ret r' v"
    by (auto simp: recv_RRQ_def)
  obtain rest where "?ptr = fname @ NUL # ms @ NUL # rest"
    using drop_received [OF u(2)] by (auto simp: request_def)
  from recv_xRQ_request [OF this _ name mode t] obtain f where f: "fs_read (fs u) fname = Some f"
    "t = u\<lparr>modetype := m, nextblknum := 0, lastcr := False, nextchar := - 1, localfp := Some f\<rparr>"
    by (auto simp: request_parts)
  let ?w = "t\<lparr>lastsend := int MAXDATA\<rparr>"
  have w: "buffers ?w" "nextblknum ?w = 0" "msgs ?w = {}" "pending ?w = stream m (f_in f)"
    using f(2) u(1) h(3,5) by (simp_all add: same_core_def buffers_def msgs_def pending_def stream_def)
  have z: "ldshort (stshort 0) = nextblknum ?w" using w(2) by simp
  have sub: "msgs v \<subseteq> {DataMsg 1 (take 512 (stream m (f_in f)))}"
    using srv_ack.ack_fresh [OF w(1) z] ack w by simp
  have "0 \<le> r'" by (rule recv_ACK_first [OF ack]) simp
  from srv_ack.ack_next [OF w(1) z ack this] w have v:
    "nextblknum v = 1" "pending v = drop 512 (stream m (f_in f))" "running {OP_DATA} v"
    by (simp_all add: running_def)
  have "fs u = fs s0" using u(1) h(4) by (simp add: same_core_def)
  with f(1) sub v show ?thesis
    using same_core_obs [OF r(2)] running_core [OF r(2)] r(2) by (auto simp: same_core_def)
qed

lemma serve_WRQ:
  assumes call: "serve_call (Dgram from (request OP_WRQ fname ms)) fd s0 = Ret None s"
    and b: "buffers s0" "sent s0 = []" and len: "length (request OP_WRQ fname ms) \<le> MAXBUFF"
    and name: "NUL \<notin> set fname" "length fname < MAXFILENAME" and mode: "mode_name m = Some ms"
  shows "\<exists>f. fs_write (fs s0) fname = Some f \<and> running {OP_ACK} s \<and> nextblknum s = 1 \<and>
    modetype s = m \<and> lastcr s = False \<and> localfp s = Some f \<and> msgs s \<subseteq> {AckMsg 0}"
proof -
  let ?d = "request OP_WRQ fname ms"
  from serve_call_enter [OF call b(1) len] obtain s1 where
    h: "handler_event call_srv ?d s1 Running s" "op_sent s1 = 0" "sent s1 = []" "fs s1 = fs s0" "buffers s1"
    using b(2) by auto
  then obtain u where u: "same_core s1 u" "take (length ?d) (recvbuff u) = ?d"
    and after: "after_handler (call_srv (op_sent s1) (ldshort ?d) (drop 2 (recvbuff u)) (length ?d - 2) u) Running s"
    unfolding handler_event_def by blast
  let ?ptr = "drop 2 (recvbuff u)" and ?n = "length ?d - 2"
  have "call_srv (op_sent s1) (ldshort ?d) = recv_WRQ"
    using h(2) by (simp add: request_parts table_simps fun_eq_iff)
  with after obtain r v where r: "recv_WRQ ?ptr ?n u = Ret r v" "same_core v s"
    by (auto simp: after_handler_def split: outcome.splits if_splits)
  then obtain t where t: "recv_xRQ OP_WRQ ?ptr ?n u = Ret () t"
    and ack: "send_ACK 0 (t\<lparr>nextblknum := 1\<rparr>) = Ret () v"
    by (auto simp: recv_WRQ_def)
  obtain rest where "?ptr = fname @ NUL # ms @ NUL # rest"
    using drop_received [OF u(2)] by (auto simp: request_def)
  from recv_xRQ_request [OF this _ name mode t] obtain f where f: "fs_write (fs u) fname = Some f"
    "t = u\<lparr>modetype := m, nextblknum := 0, lastcr := False, nextchar := - 1, localfp := Some f\<rparr>"
    by (auto simp: request_parts)
  let ?w = "t\<lparr>nextblknum := 1\<rparr>"
  have w: "buffers ?w" "nextblknum ?w = 1" "msgs ?w = {}" "localfp ?w = Some f" "modetype ?w = m"
    "lastcr ?w = False"
    using f(2) u(1) h(3,5) by (simp_all add: same_core_def buffers_def msgs_def)
  have "ack_block 0 512 ?w = Ret 0 v" using ack by (simp add: ack_block_def)
  with ack_block_spec(1) [OF w(1), of 0 512] ack_block_spec(2) [OF w(1), of 0 512 0 v] w have v:
    "msgs v \<subseteq> {AckMsg 0}" "running {OP_ACK} v" "nextblknum v = 1" "localfp v = Some f"
    "modetype v = m" "lastcr v = False"
    by (auto simp: running_def acked_def same_file_def)
  have "fs u = fs s0" using u(1) h(4) by (simp add: same_core_def)
  with f(1) v show ?thesis
    using same_core_obs [OF r(2)] running_core [OF r(2)] r(2) by (auto simp: same_core_def)
qed

section \<open>The client's first packet\<close>

text \<open>A client that waits for the first reply: everything it has sent is its request.\<close>

definition asking :: "byte list \<Rightarrow> tftp \<Rightarrow> bool" where
  "asking rq c \<longleftrightarrow> length (recvbuff c) = MAXBUFF \<and> length (sendbuff c) = MAXBUFF \<and>
     take (sendlen c) (sendbuff c) = rq \<and> snd ` set (sent c) = {rq}"

definition opened :: "byte list \<Rightarrow> bool \<Rightarrow> tftp \<Rightarrow> lfile option" where
  "opened locf write c = (if locf = [45] then Some (fs_stdout (fs c))
     else if write then fs_write (fs c) locf else fs_read (fs c) locf)"

lemma seen_request:
  assumes "opcode = OP_RRQ \<or> opcode = OP_WRQ" "length (request opcode fname ms) \<le> MAXBUFF"
  shows "seen (request opcode fname ms) = ReqMsg"
  using assms by (auto simp: seen_def parse_def Let_def request_parts)

lemma get_start_result:
  assumes "get_start remf locf fd addr c0 = Ret (Some ()) c" "buffers c0" "sent c0 = []"
  shows "\<exists>ms f. mode_name (modetype c0) = Some ms \<and> opened locf True c0 = Some f \<and>
    length (request OP_RRQ remf ms) \<le> MAXBUFF \<and> asking (request OP_RRQ remf ms) c \<and>
    nextblknum c = 1 \<and> localfp c = Some f \<and> modetype c = modetype c0 \<and>
    lastcr c = lastcr c0 \<and> nextchar c = nextchar c0"
proof -
  from assms(1) obtain f c1 tv where f: "opened locf True c0 = Some f"
    and c1: "c1 = c0\<lparr>nextblknum := 1, localfp := Some f, sockfd := fd, peer := addr,
               recv_first := True, totnbytes := 0, ticks := ticks c0 + 1, st_start := tv\<rparr>"
    and rq: "send_RQ OP_RRQ remf (modetype c1) c1 = Ret () c"
    by (auto simp: get_start_def file_open_cli_def net_open_cli_def opened_def Let_def
          t_start_def gettimeofday_def split: option.splits if_splits)
  have "length (sendbuff c1) = MAXBUFF" using assms(2) c1 by (simp add: buffers_def)
  from send_RQ_result [OF rq this] obtain ms where ms: "mode_name (modetype c1) = Some ms"
    "length (request OP_RRQ remf ms) \<le> MAXBUFF"
    "take (sendlen c) (sendbuff c) = request OP_RRQ remf ms" "length (sendbuff c) = MAXBUFF"
    and c: "c = c1\<lparr>sendbuff := sendbuff c, sendlen := sendlen c,
              sent := sent c1 @ [(peer c1, request OP_RRQ remf ms)]\<rparr>"
    by blast
  have fields: "recvbuff c = recvbuff c0" "snd ` set (sent c) = {request OP_RRQ remf ms}"
    "nextblknum c = 1" "localfp c = Some f" "modetype c = modetype c0" "lastcr c = lastcr c0"
    "nextchar c = nextchar c0"
    by (subst c, simp add: c1 assms(3))+
  with ms f assms(2) c1 show ?thesis by (auto simp: asking_def buffers_def)
qed

lemma put_start_result:
  assumes "put_start remf locf fd addr c0 = Ret (Some ()) c" "buffers c0" "sent c0 = []"
  shows "\<exists>ms f. mode_name (modetype c0) = Some ms \<and> opened locf False c0 = Some f \<and>
    length (request OP_WRQ remf ms) \<le> MAXBUFF \<and> asking (request OP_WRQ remf ms) c \<and>
    nextblknum c = 0 \<and> localfp c = Some f \<and> modetype c = modetype c0 \<and>
    lastcr c = lastcr c0 \<and> nextchar c = nextchar c0"
proof -
  from assms(1) obtain f c1 tv where f: "opened locf False c0 = Some f"
    and c1: "c1 = c0\<lparr>nextblknum := 0, localfp := Some f, sockfd := fd, peer := addr,
               recv_first := True, totnbytes := 0, ticks := ticks c0 + 1, st_start := tv,
               lastsend := int MAXDATA\<rparr>"
    and rq: "send_RQ OP_WRQ remf (modetype c1) c1 = Ret () c"
    by (auto simp: put_start_def file_open_cli_def net_open_cli_def opened_def Let_def
          t_start_def gettimeofday_def split: option.splits if_splits)
  have "length (sendbuff c1) = MAXBUFF" using assms(2) c1 by (simp add: buffers_def)
  from send_RQ_result [OF rq this] obtain ms where ms: "mode_name (modetype c1) = Some ms"
    "length (request OP_WRQ remf ms) \<le> MAXBUFF"
    "take (sendlen c) (sendbuff c) = request OP_WRQ remf ms" "length (sendbuff c) = MAXBUFF"
    and c: "c = c1\<lparr>sendbuff := sendbuff c, sendlen := sendlen c,
              sent := sent c1 @ [(peer c1, request OP_WRQ remf ms)]\<rparr>"
    by blast
  have fields: "recvbuff c = recvbuff c0" "snd ` set (sent c) = {request OP_WRQ remf ms}"
    "nextblknum c = 0" "localfp c = Some f" "modetype c = modetype c0" "lastcr c = lastcr c0"
    "nextchar c = nextchar c0"
    by (subst c, simp add: c1 assms(3))+
  with ms f assms(2) c1 show ?thesis by (auto simp: asking_def buffers_def)
qed

text \<open>Entering the loop, and waiting in it, keep that state.\<close>

lemma enter_asking:
  assumes "fsm_enter_cli opcode c = Ret None d"
  shows "op_sent d = opcode \<and> same_core (c\<lparr>op_sent := opcode\<rparr>) d"
proof -
  from assms have "fsm_arm (entered opcode c) = Ret () d" by (auto simp: fsm_enter_entered)
  with fsm_arm_core [of "entered opcode c"] entered_frame(2) [where s = c and opcode = opcode]
  have "same_core (c\<lparr>op_sent := opcode\<rparr>) d" by (metis ostate.simps(1) same_core_trans)
  then show ?thesis by (simp add: same_core_def)
qed

lemma asking_core: "asking rq c \<Longrightarrow> same_core (c\<lparr>op_sent := opcode\<rparr>) d \<Longrightarrow> asking rq d"
  by (simp add: asking_def same_core_def)

lemma asking_running:
  assumes "asking rq c" "op_sent c \<in> ops"
  shows "running ops c" "msgs c = {seen rq}"
proof -
  have "msgs c = seen ` (snd ` set (sent c))" by (simp add: msgs_def)
  with assms(1) show m: "msgs c = {seen rq}" by (simp add: asking_def)
  with assms show "running ops c" by (simp add: running_def resend_def buffers_def asking_def)
qed

lemma asking_idle:
  assumes "idle_event c ph d" "asking rq c"
  shows "asking rq d \<and> op_sent d = op_sent c \<and> nextblknum d = nextblknum c \<and>
    localfp d = localfp c \<and> modetype d = modetype c \<and> lastcr d = lastcr c \<and> nextchar d = nextchar c"
proof -
  from assms(1) consider "same_core c d" |
    a where "same_core (c\<lparr>sent := sent c @ [(a, take (sendlen c) (sendbuff c))]\<rparr>) d"
    unfolding idle_event_def by blast
  then show ?thesis
  proof cases
    case 1
    with assms(2) show ?thesis by (simp add: asking_def same_core_def)
  next
    case (2 a)
    with assms(2) show ?thesis by (auto simp: asking_def same_core_def)
  qed
qed

section \<open>The invariants of get and put\<close>

definition get_inv :: "byte list \<Rightarrow> byte list \<Rightarrow> int \<Rightarrow> (phase \<times> tftp) option \<Rightarrow> phase \<Rightarrow> tftp \<Rightarrow> bool" where
  "get_inv E rq m srv cp c \<longleftrightarrow> modetype c = m \<and> (case srv of
     None \<Rightarrow> asking rq c \<and> op_sent c = OP_RRQ \<and> nextblknum c = 1 \<and> accepted c [] \<and> cp \<noteq> Finished
   | Some (sp, s) \<Rightarrow> get_link.link_inv E sp s cp c)"

definition put_inv :: "byte list \<Rightarrow> byte list \<Rightarrow> int \<Rightarrow> (phase \<times> tftp) option \<Rightarrow> phase \<Rightarrow> tftp \<Rightarrow> bool" where
  "put_inv E rq m srv cp c \<longleftrightarrow> (case srv of
     None \<Rightarrow> asking rq c \<and> op_sent c = OP_WRQ \<and> nextblknum c = 0 \<and> pending c = E \<and> cp \<noteq> Finished
   | Some (sp, s) \<Rightarrow> modetype s = m \<and> put_link.link_inv E cp c sp s)"

lemma heard_input: "heard other e \<Longrightarrow> input e = None \<or> (\<exists>x \<in> msgs other. input e = Some x)"
  by (cases e) (auto simp: heard_def msgs_def)

lemma engine_stepI: "engine_step ev (input e) s (phase_of (ev e s)) (ostate (ev e s))"
  by (auto simp: engine_step_def)

lemma alone_idle:
  assumes "asking rq c" "op_sent c \<in> ops" "\<forall>from d. e \<noteq> Dgram from d"
  shows "idle_event c (phase_of (fsm_event_cli e c)) (ostate (fsm_event_cli e c))"
  using cli_engine.ev_parse [OF asking_running(1) [OF assms(1,2)], of e] assms(3)
  by (cases e) auto

text \<open>The state of the link when the server has taken the request.\<close>

lemma get_link_starts:
  assumes "msgs s \<subseteq> {DataMsg 1 (take 512 E)}" "running {OP_DATA} s" "nextblknum s = 1"
    "pending s = drop 512 E" "msgs c = {ReqMsg}" "running {OP_RRQ, OP_ACK} c" "nextblknum c = 1"
    "accepted c []" "cp \<noteq> Finished"
  shows "get_link.link_inv E Running s cp c"
proof -
  have "DataMsg 1 (take 512 E) = DataMsg (wire 1) (block E 1)" by (simp add: block_def)
  with assms(1) have "blocks_upto E 1 (msgs s)" by (force simp: blocks_upto_def)
  moreover have "acks_upto 0 (msgs c)" using assms(5) by (simp add: acks_upto_def)
  ultimately show ?thesis
    using assms by (intro get_link.link_invI [of 0 1]) (auto simp: get_link.sender_at_def get_link.receiver_at_def)
qed

lemma put_link_starts:
  assumes "msgs s \<subseteq> {AckMsg 0}" "running {OP_ACK} s" "nextblknum s = 1" "accepted s []"
    "msgs c = {ReqMsg}" "running {OP_WRQ, OP_DATA} c" "nextblknum c = 0" "pending c = E"
  shows "put_link.link_inv E cp c Running s"
proof -
  have "acks_upto 0 (msgs s)" using assms(1) by (auto simp: acks_upto_def)
  moreover have "blocks_upto E 0 (msgs c)" using assms(5) by (simp add: blocks_upto_def)
  ultimately show ?thesis
    using assms by (intro put_link.link_invI [of 0 0]) (auto simp: put_link.sender_at_def put_link.receiver_at_def)
qed

lemma get_inv_holds:
  assumes run: "transfer (get_call remf locf cfd addr c0) (\<lambda>e. serve_call e sfd s0) srv (cp, c)"
    and c0: "buffers c0" "sent c0 = []" "\<not> lastcr c0" and s0: "buffers s0" "sent s0 = []"
    and name: "NUL \<notin> set remf" "length remf < MAXFILENAME"
    and rfile: "fs_read (fs s0) remf = Some f" "\<forall>g. opened locf True c0 = Some g \<longrightarrow> f_out g = []"
  shows "\<exists>rq ms. get_inv (stream (modetype c0) (f_in f)) rq (modetype c0) srv cp c \<and>
    rq = request OP_RRQ remf ms \<and> mode_name (modetype c0) = Some ms \<and> length rq \<le> MAXBUFF"
  using run
proof (induction srv "(cp, c)" arbitrary: cp c rule: transfer.induct)
  case (transfer_start c)
  then obtain c1 where c1: "get_start remf locf cfd addr c0 = Ret (Some ()) c1"
    "fsm_enter_cli OP_RRQ c1 = Ret None c"
    by (auto simp: get_call_def split: if_splits)
  from get_start_result [OF c1(1) c0(1,2)] obtain ms g where g: "mode_name (modetype c0) = Some ms"
    "opened locf True c0 = Some g" "length (request OP_RRQ remf ms) \<le> MAXBUFF"
    "asking (request OP_RRQ remf ms) c1" "nextblknum c1 = 1" "localfp c1 = Some g"
    "modetype c1 = modetype c0" "lastcr c1 = lastcr c0" by blast
  note e = enter_asking [OF c1(2)]
  have "accepted c []" using e g rfile(2) c0(3) by (auto simp: same_core_def accepted_def)
  moreover have "asking (request OP_RRQ remf ms) c" using asking_core [OF g(4)] e by blast
  ultimately show ?case using e g by (auto simp: get_inv_def same_core_def)
next
  case (transfer_alone c e)
  then obtain rq ms where i: "asking rq c" "op_sent c = OP_RRQ" "nextblknum c = 1" "accepted c []"
    "modetype c = modetype c0" and rq: "rq = request OP_RRQ remf ms"
    "mode_name (modetype c0) = Some ms" "length rq \<le> MAXBUFF"
    by (auto simp: get_inv_def)
  have idle: "idle_event c (phase_of (fsm_event_cli e c)) (ostate (fsm_event_cli e c))"
    using alone_idle [OF i(1), of "{OP_RRQ}"] i(2) transfer_alone by simp
  note k = asking_idle [OF idle i(1)]
  then have "accepted (ostate (fsm_event_cli e c)) [] = accepted c []"
    by (intro accepted_cong) simp_all
  with k i rq idle show ?case unfolding get_inv_def idle_event_def by simp
next
  case (transfer_accept cp c src d s)
  then obtain rq ms where i: "asking rq c" "op_sent c = OP_RRQ" "nextblknum c = 1" "accepted c []"
    "modetype c = modetype c0" "cp \<noteq> Finished" and rq: "rq = request OP_RRQ remf ms"
    "mode_name (modetype c0) = Some ms" "length rq \<le> MAXBUFF"
    by (auto simp: get_inv_def)
  have "d = rq" using transfer_accept i(1) by (auto simp: heard_def asking_def)
  with transfer_accept rq(1) have call: "serve_call (Dgram src (request OP_RRQ remf ms)) sfd s0 = Ret None s"
    by simp
  from serve_RRQ [OF call s0 rq(3) [unfolded rq(1)] name rq(2)] rfile(1) have s:
    "running {OP_DATA} s" "nextblknum s = 1" "pending s = drop 512 (stream (modetype c0) (f_in f))"
    "msgs s \<subseteq> {DataMsg 1 (take 512 (stream (modetype c0) (f_in f)))}" by auto
  have r: "running {OP_RRQ, OP_ACK} c" "msgs c = {seen rq}"
    using asking_running [OF i(1), of "{OP_RRQ, OP_ACK}"] i(2) by simp_all
  have "seen rq = ReqMsg" using seen_request rq by blast
  with get_link_starts [OF s(4,1,2,3) _ r(1) i(3,4,6)] r(2) i(5) rq show ?case
    by (auto simp: get_inv_def)
next
  case (transfer_server s cp c e)
  then obtain rq ms where i: "get_link.link_inv (stream (modetype c0) (f_in f)) Running s cp c"
    "modetype c = modetype c0" and rq: "rq = request OP_RRQ remf ms"
    "mode_name (modetype c0) = Some ms" "length rq \<le> MAXBUFF"
    by (auto simp: get_inv_def)
  from get_link.link_sender_step [OF i(1) engine_stepI heard_input] transfer_server i(2) rq
  show ?case by (auto simp: get_inv_def)
next
  case (transfer_client sp s c e)
  then obtain rq ms where i: "get_link.link_inv (stream (modetype c0) (f_in f)) sp s Running c"
    "modetype c = modetype c0" and rq: "rq = request OP_RRQ remf ms"
    "mode_name (modetype c0) = Some ms" "length rq \<le> MAXBUFF"
    by (auto simp: get_inv_def)
  have "running {OP_RRQ, OP_ACK} c"
    using i(1) by (auto simp: get_link.link_inv_def get_link.receiver_at_def)
  from get_link.link_receiver_step [OF i(1) engine_stepI heard_input] transfer_client i(2) rq
    cli_receives.receiving_mode [OF this, of e]
  show ?case by (auto simp: get_inv_def)
qed

lemma put_inv_holds:
  assumes run: "transfer (put_call remf locf cfd addr c0) (\<lambda>e. serve_call e sfd s0) srv (cp, c)"
    and c0: "buffers c0" "sent c0 = []" and s0: "buffers s0" "sent s0 = []"
    and name: "NUL \<notin> set remf" "length remf < MAXFILENAME"
    and lfile: "opened locf False c0 = Some f"
    and wfile: "\<forall>g. fs_write (fs s0) remf = Some g \<longrightarrow> f_out g = []"
  defines "E \<equiv> pending (c0\<lparr>localfp := Some f\<rparr>)"
  shows "\<exists>rq ms. put_inv E rq (modetype c0) srv cp c \<and>
    rq = request OP_WRQ remf ms \<and> mode_name (modetype c0) = Some ms \<and> length rq \<le> MAXBUFF"
  using run
proof (induction srv "(cp, c)" arbitrary: cp c rule: transfer.induct)
  case (transfer_start c)
  then obtain c1 where c1: "put_start remf locf cfd addr c0 = Ret (Some ()) c1"
    "fsm_enter_cli OP_WRQ c1 = Ret None c"
    by (auto simp: put_call_def split: if_splits)
  from put_start_result [OF c1(1) c0(1,2)] lfile obtain ms where g: "mode_name (modetype c0) = Some ms"
    "length (request OP_WRQ remf ms) \<le> MAXBUFF"
    "asking (request OP_WRQ remf ms) c1" "nextblknum c1 = 0" "localfp c1 = Some f"
    "modetype c1 = modetype c0" "nextchar c1 = nextchar c0" by auto
  note e = enter_asking [OF c1(2)]
  have "pending c = E" unfolding E_def by (rule pending_cong) (use e g in \<open>simp_all add: same_core_def\<close>)
  moreover have "asking (request OP_WRQ remf ms) c" using asking_core [OF g(3)] e by blast
  ultimately show ?case using e g by (auto simp: put_inv_def same_core_def)
next
  case (transfer_alone c e)
  then obtain rq ms where i: "asking rq c" "op_sent c = OP_WRQ" "nextblknum c = 0" "pending c = E"
    and rq: "rq = request OP_WRQ remf ms"
    "mode_name (modetype c0) = Some ms" "length rq \<le> MAXBUFF"
    by (auto simp: put_inv_def)
  have idle: "idle_event c (phase_of (fsm_event_cli e c)) (ostate (fsm_event_cli e c))"
    using alone_idle [OF i(1), of "{OP_WRQ}"] i(2) transfer_alone by simp
  note k = asking_idle [OF idle i(1)]
  then have "pending (ostate (fsm_event_cli e c)) = pending c"
    by (intro pending_cong) simp_all
  with k i rq idle show ?case unfolding put_inv_def idle_event_def by simp
next
  case (transfer_accept cp c src d s)
  then obtain rq ms where i: "asking rq c" "op_sent c = OP_WRQ" "nextblknum c = 0" "pending c = E"
    and rq: "rq = request OP_WRQ remf ms"
    "mode_name (modetype c0) = Some ms" "length rq \<le> MAXBUFF"
    by (auto simp: put_inv_def)
  have "d = rq" using transfer_accept i(1) by (auto simp: heard_def asking_def)
  with transfer_accept rq(1) have call: "serve_call (Dgram src (request OP_WRQ remf ms)) sfd s0 = Ret None s"
    by simp
  from serve_WRQ [OF call s0 rq(3) [unfolded rq(1)] name rq(2)] wfile have s:
    "running {OP_ACK} s" "nextblknum s = 1" "modetype s = modetype c0" "accepted s []"
    "msgs s \<subseteq> {AckMsg 0}" by (auto simp: accepted_def)
  have r: "running {OP_WRQ, OP_DATA} c" "msgs c = {seen rq}"
    using asking_running [OF i(1), of "{OP_WRQ, OP_DATA}"] i(2) by simp_all
  have "seen rq = ReqMsg" using seen_request rq by blast
  with put_link_starts [OF s(5,1,2,4) _ r(1) i(3,4)] r(2) s(3) rq show ?case
    by (auto simp: put_inv_def)
next
  case (transfer_server s cp c e)
  then obtain rq ms where i: "put_link.link_inv E cp c Running s"
    "modetype s = modetype c0" and rq: "rq = request OP_WRQ remf ms"
    "mode_name (modetype c0) = Some ms" "length rq \<le> MAXBUFF"
    by (auto simp: put_inv_def)
  have "running {OP_ACK} s"
    using i(1) by (auto simp: put_link.link_inv_def put_link.receiver_at_def)
  from put_link.link_receiver_step [OF i(1) engine_stepI heard_input] transfer_server i(2) rq
    srv_receives.receiving_mode [OF this, of e]
  show ?case by (auto simp: put_inv_def)
next
  case (transfer_client sp s c e)
  then obtain rq ms where i: "put_link.link_inv E Running c sp s"
    "modetype s = modetype c0" and rq: "rq = request OP_WRQ remf ms"
    "mode_name (modetype c0) = Some ms" "length rq \<le> MAXBUFF"
    by (auto simp: put_inv_def)
  from put_link.link_sender_step [OF i(1) engine_stepI heard_input] transfer_client i(2) rq
  show ?case by (auto simp: put_inv_def)
qed

section \<open>What a receiver's file holds\<close>

text \<open>A stream that decodes, and the file a receiver has after a part of it or all of it.\<close>

definition decodes :: "int \<Rightarrow> byte list \<Rightarrow> byte list \<Rightarrow> bool" where
  "decodes mode E xs \<longleftrightarrow> (if mode = MODE_BINARY then E = xs else nvt_decode False E = Some (xs, False))"

lemma decodes_stream: "decodes m (stream m xs) xs"
  by (simp add: decodes_def stream_def nvt_decode_encode)

lemma accepted_prefix:
  assumes "accepted c (take n E)" "decodes (modetype c) E xs"
  shows "\<exists>h. localfp c = Some h \<and> prefix (f_out h) xs"
proof (cases "modetype c = MODE_BINARY")
  case True
  with assms show ?thesis by (auto simp: accepted_def decodes_def prefix_take)
next
  case False
  with assms(1) obtain h where h: "localfp c = Some h"
    "nvt_decode False (take n E) = Some (f_out h, lastcr c)" by (auto simp: accepted_def)
  moreover have "nvt_decode False (take n E @ drop n E) = Some (xs, False)"
    using assms(2) False by (simp add: decodes_def)
  ultimately have "prefix (f_out h) xs"
    unfolding nvt_decode_append by (cases "nvt_decode (lastcr c) (drop n E)") auto
  with h(1) show ?thesis by blast
qed

lemma accepted_all:
  assumes "accepted c E" "decodes (modetype c) E xs"
  shows "\<exists>h. localfp c = Some h \<and> f_out h = xs"
  using assms by (auto simp: accepted_def decodes_def split: if_splits)

text \<open>The file of the client that gets, and of the server that is put to.\<close>

lemma get_file:
  assumes "transfer (get_call remf locf cfd addr c0) (\<lambda>e. serve_call e sfd s0) (Some (sp, s)) (cp, c)"
    and "buffers c0" "sent c0 = []" "\<not> lastcr c0" "buffers s0" "sent s0 = []"
    and "NUL \<notin> set remf" "length remf < MAXFILENAME" "fs_read (fs s0) remf = Some f"
    and "\<forall>g. opened locf True c0 = Some g \<longrightarrow> f_out g = []"
  shows "(cp = Running \<longrightarrow> (\<exists>h. localfp c = Some h \<and> prefix (f_out h) (f_in f))) \<and>
    (cp = Finished \<longrightarrow> (\<exists>h. localfp c = Some h \<and> f_out h = f_in f) \<and>
       length (stream (modetype c0) (f_in f)) < 512 * 65535)"
proof -
  from get_inv_holds [OF assms] have i: "modetype c = modetype c0"
    "get_link.link_inv (stream (modetype c0) (f_in f)) sp s cp c" by (auto simp: get_inv_def)
  let ?E = "stream (modetype c0) (f_in f)"
  have d: "decodes (modetype c) ?E (f_in f)" using decodes_stream i(1) by simp
  show ?thesis
  proof (cases cp)
    case Running
    with get_link.link_running i(2) obtain n where "accepted c (take n ?E)" by blast
    from accepted_prefix [OF this d] Running show ?thesis by simp
  next
    case Finished
    with get_link.link_finished i(2) have "accepted c ?E" "length ?E < 512 * 65535" by blast+
    with accepted_all [OF this(1) d] Finished show ?thesis by simp
  qed simp
qed

lemma put_file:
  assumes "transfer (put_call remf locf cfd addr c0) (\<lambda>e. serve_call e sfd s0) (Some (sp, s)) (cp, c)"
    and "buffers c0" "sent c0 = []" "nextchar c0 \<in> {- 1, 0, 10}" "buffers s0" "sent s0 = []"
    and "NUL \<notin> set remf" "length remf < MAXFILENAME" "opened locf False c0 = Some f"
    and "\<forall>g. fs_write (fs s0) remf = Some g \<longrightarrow> f_out g = []"
  defines "left \<equiv> (if modetype c0 = MODE_BINARY \<or> nextchar c0 < 0 then []
                    else [word_of_int (nextchar c0)])"
  shows "(sp = Running \<longrightarrow> (\<exists>h. localfp s = Some h \<and> prefix (f_out h) (left @ f_in f))) \<and>
    (sp = Finished \<longrightarrow> (\<exists>h. localfp s = Some h \<and> f_out h = left @ f_in f) \<and>
       length (stream (modetype c0) (f_in f)) < 512 * 65535)"
proof -
  let ?E = "pending (c0\<lparr>localfp := Some f\<rparr>)"
  from put_inv_holds [OF assms(1-3,5-10)] have i: "modetype s = modetype c0"
    "put_link.link_inv ?E cp c sp s" by (auto simp: put_inv_def)
  have d: "decodes (modetype c0) ?E (left @ f_in f)"
    using assms(4) by (auto simp: decodes_def pending_def left_def nvt_decode_encode)
  have le: "length (stream (modetype c0) (f_in f)) \<le> length ?E"
    by (simp add: pending_def stream_def)
  show ?thesis
  proof (cases sp)
    case Running
    with put_link.link_running i(2) obtain n where "accepted s (take n ?E)" by blast
    from accepted_prefix [OF this] d i(1) Running show ?thesis by simp
  next
    case Finished
    with put_link.link_finished i(2) have "accepted s ?E" "length ?E < 512 * 65535" by blast+
    with accepted_all [OF this(1)] d i(1) Finished le show ?thesis by simp
  qed simp
qed

end
