(* ===== verification/TftpTimer.thy ===== *)
theory TftpTimer
  imports TftpTransfer
begin

text \<open>
  The retransmission timer over a whole transfer: with a clock that stays within a window of
  ten million seconds the estimators stay bounded, so that no conversion to \<open>int\<close> overflows and every
  operation returns. The bounds leave room for the rounding of each operation.
\<close>

section \<open>Bounds of the estimators\<close>

text \<open>A reading in the window; the seconds of the epoch fit into 32 bits.\<close>

definition window :: "int \<Rightarrow> timeval \<Rightarrow> bool" where
  "window base tv \<longleftrightarrow> 0 \<le> fst tv \<and> fst tv < 2 ^ 32 \<and> 0 \<le> snd tv \<and> snd tv < 1000000 \<and>
     base \<le> fst tv \<and> fst tv \<le> base + 10000000"

abbreviation (input) BOUND :: rat where "BOUND \<equiv> 20000000"

definition bounded :: "rtt_struct \<Rightarrow> bool" where
  "bounded p \<longleftrightarrow> rtt_nrexmt p = 0 \<and> rtt_nxtrto p = 0 \<and>
     \<bar>rtt_srtt p\<bar> \<le> 2 * BOUND \<and> \<bar>rtt_rttdev p\<bar> \<le> 4 * BOUND"

lemma flt_error: "\<bar>flt x - x\<bar> \<le> \<bar>x\<bar> / 1000" and dbl_error: "\<bar>dbl x - x\<bar> \<le> \<bar>x\<bar> / 1000"
  by (rule fl_error, simp)+

lemma flt_bound: "\<bar>x\<bar> \<le> b \<Longrightarrow> \<bar>flt x\<bar> \<le> b + b / 1000"
  and dbl_bound: "\<bar>x\<bar> \<le> b \<Longrightarrow> \<bar>dbl x\<bar> \<le> b + b / 1000"
  using flt_error [of x] dbl_error [of x] by linarith+

lemma usecs_exact:
  assumes "window base tv"
  shows "usecs tv = of_int (fst tv * 1000000 + snd tv)"
proof -
  have "0 \<le> fst tv * 1000000" "fst tv * 1000000 + snd tv < 2 ^ 53" "0 \<le> snd tv"
    using assms by (simp_all add: window_def)
  then have "\<bar>fst tv * 1000000\<bar> < 2 ^ 53" "\<bar>fst tv * 1000000 + snd tv\<bar> < 2 ^ 53" by linarith+
  from fl_of_int [OF this(1)] fl_of_int [OF this(2)] show ?thesis by (simp add: usecs_def)
qed

lemma measured_bound:
  assumes "window base t0" "window base t1"
  shows "\<bar>flt (dbl (dbl (usecs t1 - usecs t0) / 1000000))\<bar> \<le> BOUND"
proof -
  have "fst t1 - fst t0 \<le> 10000000" "fst t0 - fst t1 \<le> 10000000"
    "snd t1 - snd t0 \<le> 1000000" "snd t0 - snd t1 \<le> 1000000"
    using assms unfolding window_def by linarith+
  then have "\<bar>(fst t1 * 1000000 + snd t1) - (fst t0 * 1000000 + snd t0)\<bar> \<le> 10000001 * 1000000"
    by linarith
  then have "of_int \<bar>(fst t1 * 1000000 + snd t1) - (fst t0 * 1000000 + snd t0)\<bar> \<le> (of_int (10000001 * 1000000) :: rat)"
    by (simp only: of_int_le_iff)
  then have "\<bar>usecs t1 - usecs t0\<bar> \<le> 10000001 * 1000000"
    using usecs_exact [OF assms(1)] usecs_exact [OF assms(2)] by simp
  from dbl_bound [OF this] have "\<bar>dbl (usecs t1 - usecs t0) / 1000000\<bar> \<le> 10011002" by simp
  from dbl_bound [OF this] have "\<bar>dbl (dbl (usecs t1 - usecs t0) / 1000000)\<bar> \<le> 10021014" by simp
  from flt_bound [OF this] show ?thesis by simp
qed

text \<open>The estimators after a measurement.\<close>

lemma estimators_bound:
  assumes "\<bar>m\<bar> \<le> BOUND" "\<bar>sr\<bar> \<le> 2 * BOUND" "\<bar>dv\<bar> \<le> 4 * BOUND"
  defines "err \<equiv> flt (m - sr)"
  shows "\<bar>flt (dbl (sr + err / 8))\<bar> \<le> 2 * BOUND"
    "\<bar>flt (dbl (dv + dbl ((if err < 0 then - err else err) - dv) / 4))\<bar> \<le> 4 * BOUND"
proof -
  have d: "\<bar>m - sr\<bar> \<le> 60000000" using assms by linarith
  have "\<bar>m - sr\<bar> / 1000 \<le> 60000" using d by simp
  then have e: "\<bar>err - (m - sr)\<bar> \<le> 60000"
    unfolding err_def by (rule order_trans [OF flt_error])
  have "\<bar>sr + err / 8\<bar> \<le> 37507500" using e assms(1,2) by linarith
  from dbl_bound [OF this] have "\<bar>dbl (sr + err / 8)\<bar> \<le> 37545008" by linarith
  from flt_bound [OF this] show "\<bar>flt (dbl (sr + err / 8))\<bar> \<le> 2 * BOUND" by linarith
  define a where "a = (if err < 0 then - err else err)"
  have a: "0 \<le> a" "a \<le> 60060000" using e d by (auto simp: a_def)
  have "\<bar>a - dv\<bar> \<le> 140060000" using a assms(3) by linarith
  then have "\<bar>a - dv\<bar> / 1000 \<le> 140060" by simp
  then have "\<bar>dbl (a - dv) - (a - dv)\<bar> \<le> 140060" by (rule order_trans [OF dbl_error])
  then have "\<bar>dv + dbl (a - dv) / 4\<bar> \<le> 75050015" using a assms(3) by linarith
  from dbl_bound [OF this] have "\<bar>dbl (dv + dbl (a - dv) / 4)\<bar> \<le> 75125066" by linarith
  from flt_bound [OF this] show "\<bar>flt (dbl (dv + dbl ((if err < 0 then - err else err) - dv) / 4))\<bar> \<le> 4 * BOUND"
    unfolding a_def by linarith
qed

lemma trunc_returns: "\<bar>x\<bar> \<le> 2000000000 \<Longrightarrow> \<exists>i. trunc_int x = Some i"
proof -
  assume x: "\<bar>x\<bar> \<le> 2000000000"
  have "- 2000000000 \<le> \<lfloor>x\<rfloor>" "\<lceil>x\<rceil> \<le> 2000000000" using x by (simp_all add: le_floor_iff ceiling_le_iff)
  then have "- 2000000000 \<le> \<lceil>x\<rceil>" "\<lfloor>x\<rfloor> \<le> 2000000000" using floor_le_ceiling [of x] by linarith+
  with \<open>- 2000000000 \<le> \<lfloor>x\<rfloor>\<close> \<open>\<lceil>x\<rceil> \<le> 2000000000\<close> show ?thesis by (simp add: trunc_int_def Let_def)
qed

section \<open>The operations return\<close>

lemma rtt_start_returns:
  assumes "bounded p" "window base tv"
  shows "\<exists>t q. rtt_start (Some tv) p = Ret t q \<and> bounded q \<and> time_start q = tv \<and>
    RTT_RXTMIN \<le> t \<and> t \<le> RTT_RXTMAX"
proof -
  have "\<bar>rtt_srtt p + 2 * rtt_rttdev p\<bar> \<le> 200000000" using assms(1) unfolding bounded_def by linarith
  from dbl_bound [OF this] have "\<bar>dbl (rtt_srtt p + 2 * rtt_rttdev p) + 1/2\<bar> \<le> 201000000" by linarith
  from dbl_bound [OF this] obtain i where
    "trunc_int (dbl (dbl (rtt_srtt p + 2 * rtt_rttdev p) + 1/2)) = Some i"
    using trunc_returns [of "dbl (dbl (rtt_srtt p + 2 * rtt_rttdev p) + 1/2)"] by fastforce
  with assms(1) show ?thesis by (auto simp: rtt_start_def bounded_def Let_def)
qed

lemma rtt_stop_returns:
  assumes "bounded p" "window base (time_start p)" "window base tv"
  shows "\<exists>q. rtt_stop (Some tv) p = Ret () q \<and> bounded q"
proof -
  let ?m = "flt (dbl (dbl (usecs tv - usecs (time_start p)) / 1000000))"
  have "\<bar>?m\<bar> \<le> BOUND" by (rule measured_bound [OF assms(2,3)])
  with assms(1) have "\<bar>?m\<bar> \<le> BOUND" "\<bar>rtt_srtt p\<bar> \<le> 2 * BOUND" "\<bar>rtt_rttdev p\<bar> \<le> 4 * BOUND"
    by (simp_all add: bounded_def)
  from estimators_bound [OF this] assms(1) show ?thesis
    by (cases "flt (?m - rtt_srtt p) < 0") (simp_all add: rtt_stop_def bounded_def Let_def)
qed

end
