(* ===== verification/TftpLive.thy ===== *)
theory TftpLive
  imports TftpTimer
begin

text \<open>
  What makes progress: as long as the clock stays in its window, the network takes datagrams
  and the local files work, every routine on the way from a datagram to the answer returns.
  These are the lemmas behind the completion of a transfer without losses.
\<close>

section \<open>Timers in a running program\<close>

definition steady :: "int \<Rightarrow> tftp \<Rightarrow> bool" where
  "steady base s \<longleftrightarrow> (\<forall>n. \<exists>tv. clock s n = Some tv \<and> window base tv) \<and> bounded (rttinfo s)"

definition started :: "int \<Rightarrow> tftp \<Rightarrow> bool" where
  "started base s \<longleftrightarrow> steady base s \<and> window base (time_start (rttinfo s))"

text \<open>What the timer routines and the handlers leave alone.\<close>

definition wires :: "tftp \<Rightarrow> tftp \<Rightarrow> bool" where
  "wires s t \<longleftrightarrow> clock t = clock s \<and> net_up t = net_up s \<and> sockfd t = sockfd s \<and>
     peer t = peer s \<and> recv_first t = recv_first s \<and> recv_nbytes t = recv_nbytes s \<and>
     recvbuff t = recvbuff s"

lemma wires_trans: "wires s t \<Longrightarrow> wires t u \<Longrightarrow> wires s u"
  by (simp add: wires_def)

lemma on_rtt_returns:
  assumes "steady base s" "\<And>tv. window base tv \<Longrightarrow> \<exists>x q. f (Some tv) (rttinfo s) = Ret x q \<and> P x q"
  shows "\<exists>x t. on_rtt f s = Ret x t \<and> P x (rttinfo t) \<and> same_core s t \<and> wires s t"
proof -
  from assms(1) obtain tv where tv: "clock s (ticks s) = Some tv" "window base tv"
    unfolding steady_def by blast
  from assms(2) [OF tv(2)] obtain x q where "f (Some tv) (rttinfo s) = Ret x q" "P x q" by blast
  with tv(1) have "on_rtt f s = Ret x (s\<lparr>ticks := ticks s + 1, rttinfo := q\<rparr>)" "P x q"
    by (simp_all add: on_rtt_def gettimeofday_def)
  then show ?thesis by (auto simp: same_core_def wires_def)
qed

lemma fsm_arm_returns:
  assumes "steady base s"
  shows "\<exists>t. fsm_arm s = Ret () t \<and> started base t \<and> same_core s t \<and> wires s t"
proof -
  let ?s = "s\<lparr>tout_flag := False\<rparr>"
  have "steady base ?s" using assms by (simp add: steady_def)
  from on_rtt_returns [OF this, of rtt_start "\<lambda>_ q. bounded q \<and> window base (time_start q)"]
  obtain x t where t: "on_rtt rtt_start ?s = Ret x t" "bounded (rttinfo t)"
    "window base (time_start (rttinfo t))" "same_core ?s t" "wires ?s t"
    using assms rtt_start_returns [of "rttinfo s"] by (fastforce simp: steady_def)
  then have "fsm_arm s = Ret () (t\<lparr>alarm_secs := x\<rparr>)" by (simp add: fsm_arm_def)
  moreover have "started base (t\<lparr>alarm_secs := x\<rparr>)" "wires s (t\<lparr>alarm_secs := x\<rparr>)"
    using t assms by (simp_all add: started_def steady_def wires_def)
  ultimately show ?thesis using t(4) by simp
qed

lemma rtt_stop_program:
  assumes "started base s"
  shows "\<exists>t. on_rtt rtt_stop s = Ret () t \<and> steady base t \<and> same_core s t \<and> wires s t"
proof -
  from assms have s: "steady base s" "bounded (rttinfo s)" "window base (time_start (rttinfo s))"
    by (simp_all add: started_def steady_def)
  from on_rtt_returns [OF s(1), of rtt_stop "\<lambda>_. bounded"] rtt_stop_returns [OF s(2,3)]
  obtain x t where "on_rtt rtt_stop s = Ret x t" "bounded (rttinfo t)" "same_core s t" "wires s t"
    by blast
  with s(1) show ?thesis by (auto simp: steady_def wires_def)
qed

text \<open>
  The loop body on a datagram: if the handler returns, so does the body, in the state the
  handler has left up to the timer.
\<close>

lemma loop_body_live:
  assumes "started base s" "4 \<le> length d" "take (length d) (recvbuff s) = d"
    and "OP_MIN \<le> ldshort d" "ldshort d \<le> OP_MAX"
    and handler: "\<And>u. same_core s u \<Longrightarrow> wires s u \<Longrightarrow> steady base u \<Longrightarrow>
      \<exists>r v. call (op_sent s) (ldshort d) (drop 2 (recvbuff s)) (length d - 2) u = Ret r v \<and>
        steady base v \<and> P r v"
  shows "\<exists>r v. P r v \<and> steady base v \<and> (if r < 0 then loop_body ec call (int (length d)) s = Ret (Some 0) v
    else \<exists>t. loop_body ec call (int (length d)) s = Ret None t \<and> same_core v t \<and> wires v t \<and> started base t)"
proof -
  let ?s = "s\<lparr>alarm_secs := 0, tout_flag := False\<rparr>"
  have "started base ?s" using assms(1) by (simp add: started_def steady_def)
  from rtt_stop_program [OF this] obtain w where w: "on_rtt rtt_stop ?s = Ret () w" "steady base w"
    "same_core ?s w" "wires ?s w" by blast
  let ?u = "w\<lparr>op_recv := ldshort (recvbuff w)\<rparr>"
  have d: "ldshort (recvbuff w) = ldshort d" "recvbuff w = recvbuff s"
    using w(4) assms(2,3) ldshort_take [of "length d" "recvbuff s"] by (simp_all add: wires_def)
  have u: "same_core s ?u" "wires s ?u" "steady base ?u" "op_sent ?u = op_sent s"
    using w by (simp_all add: same_core_def wires_def steady_def)
  from handler [OF u(1-3)] obtain r v where h:
    "call (op_sent s) (ldshort d) (drop 2 (recvbuff s)) (length d - 2) ?u = Ret r v" "steady base v" "P r v"
    by blast
  have n: "nat (int (length d) - 2) = length d - 2" "\<not> int (length d) < 4" "\<not> int (length d) < 0"
    using assms(2) by simp_all
  have eq: "loop_body ec call (int (length d)) s =
      (if r < 0 then Ret (Some 0) v else obind (fsm_arm v) (\<lambda>_ s. Ret None s))"
    using w(1) h(1) n u(4) d assms(4,5) by (simp add: loop_body_def)
  from fsm_arm_returns [OF h(2)] obtain t where "fsm_arm v = Ret () t" "started base t"
    "same_core v t" "wires v t" by blast
  with h eq show ?thesis by (intro exI [of _ r] exI [of _ v]) auto
qed

section \<open>The sending end\<close>

text \<open>A file that can be read, and a sender that waits for the acknowledgement of block \<open>k\<close>.\<close>

definition readable :: "tftp \<Rightarrow> bool" where
  "readable s \<longleftrightarrow> (\<exists>f. localfp s = Some f \<and> \<not> f_closed f \<and> \<not> f_rderr f) \<and>
     (modetype s = MODE_ASCII \<or> modetype s = MODE_BINARY)"

definition online :: "tftp \<Rightarrow> bool" where
  "online s \<longleftrightarrow> buffers s \<and> net_up s \<and> 0 \<le> sockfd s"

definition source_at :: "nat \<Rightarrow> byte list \<Rightarrow> nat \<Rightarrow> tftp \<Rightarrow> bool" where
  "source_at k p ls s \<longleftrightarrow> online s \<and> nextblknum s = int k \<and> pending s = p \<and>
     lastsend s = int ls \<and> readable s"

lemma file_read_returns:
  assumes "readable s"
  shows "\<exists>bs t. file_read n (modetype s) s = Ret bs t" "\<exists>bs t. file_read_cli n (modetype s) s = Ret bs t"
  using assms file_read_ascii_returns
  by (auto simp: readable_def file_read_def file_read_cli_def with_file_def f_readn_def)

lemma online_core: "same_core s t \<Longrightarrow> wires s t \<Longrightarrow> online t = online s"
  by (simp add: online_def buffers_def same_core_def wires_def)

lemma source_core: "same_core s t \<Longrightarrow> wires s t \<Longrightarrow> source_at k p ls t = source_at k p ls s"
  using same_core_obs(1) [of s t] online_core [of s t]
  by (simp add: source_at_def readable_def) (simp add: same_core_def)

definition data_packet :: "nat \<Rightarrow> byte list \<Rightarrow> byte list" where
  "data_packet k bs = stshort OP_DATA @ stshort (int k) @ bs"

definition ack_packet :: "nat \<Rightarrow> byte list" where
  "ack_packet k = stshort OP_ACK @ stshort (int k)"

lemma push_block_live:
  assumes u: "source_at k p ls u" and rd: "read_result u 512 bs s" and st: "steady base u"
  shows "\<exists>r v. push_block bs s = Ret r v \<and> steady base v \<and> wires u v \<and>
    (if p = [] \<and> ls < 512 then r < 0
     else r = 0 \<and> source_at (k + 1) (drop 512 p) (length (take 512 p)) v \<and> op_sent v = OP_DATA \<and>
       sent v = sent u @ [(peer u, data_packet (k + 1) (take 512 p))])"
proof -
  obtain f n where s: "s = u\<lparr>localfp := f, nextchar := n\<rparr>"
    using rd unfolding read_result_def by blast
  have p: "pending u = p" "online u" "nextblknum u = int k" "lastsend u = int ls" "readable u"
    using u by (simp_all add: source_at_def)
  then have bs: "bs = take 512 p" and pend: "pending s = drop 512 p"
    using rd by (simp_all add: read_result_def)
  have b: "buffers s" using p(2) by (simp add: s online_def buffers_def)
  have rdy: "readable s" using rd p(5) by (auto simp: read_result_def readable_def s)
  have len: "length bs \<le> 512" using bs by simp
  let ?b = "s\<lparr>sendbuff := buf_put 4 bs (sendbuff s)\<rparr>"
  let ?w = "?b\<lparr>lastsend := int (length bs), nextblknum := nextblknum s + 1,
    totnbytes := totnbytes s + int (length bs)\<rparr>"
  have w: "buffers ?w" using b len by (simp add: buffers_def buf_simps)
  have pay: "take (length bs) (drop 4 (sendbuff ?w)) = bs"
    using b len by (simp add: buffers_def buf_put_def)
  show ?thesis
  proof (cases "p = [] \<and> ls < 512")
    case True
    then have "push_block bs s = Ret (- 1) ?b" using bs p(4) by (simp add: push_block_def s)
    moreover have "steady base ?b" "wires u ?b" using st by (simp_all add: s steady_def wires_def)
    ultimately show ?thesis using True by auto
  next
    case False
    let ?t = "?w\<lparr>sendbuff := buf_put 2 (stshort (nextblknum u + 1))
        (buf_put 0 (stshort OP_DATA) (sendbuff ?w)), sendlen := 4 + length bs\<rparr>"
    let ?done = "?t\<lparr>sent := sent u @ [(peer u, data_packet (k + 1) bs)], op_sent := OP_DATA\<rparr>"
    have "push_block bs s = Ret 0 ?done"
      using send_DATA_ends [OF w len, of "nextblknum u + 1"] pay False bs p
      by (auto simp: push_block_def Let_def s online_def data_packet_def add.commute)
    moreover have "steady base ?done" "wires u ?done" using st by (simp_all add: s steady_def wires_def)
    moreover have "pending ?done = pending s" by (rule pending_cong) simp_all
    then have "source_at (k + 1) (drop 512 p) (length bs) ?done"
      using w p(2,3) rdy pend by (simp add: source_at_def online_def buffers_def buf_simps readable_def s)
    ultimately show ?thesis using False bs by (intro exI [of _ 0] exI [of _ ?done]) auto
  qed
qed

text \<open>What \<open>recv_ACK\<close> has done with a fresh acknowledgement.\<close>

definition pushed :: "nat \<Rightarrow> byte list \<Rightarrow> nat \<Rightarrow> tftp \<Rightarrow> int \<Rightarrow> tftp \<Rightarrow> bool" where
  "pushed k p ls u r v \<longleftrightarrow> wires u v \<and>
    (if p = [] \<and> ls < 512 then r < 0
     else r = 0 \<and> source_at (k + 1) (drop 512 p) (length (take 512 p)) v \<and> op_sent v = OP_DATA \<and>
       sent v = sent u @ [(peer u, data_packet (k + 1) (take 512 p))])"

lemma recv_ACK_live:
  assumes "source_at k p ls u" "steady base u" "ldshort ptr = int k"
  shows "\<exists>r v. recv_ACK ptr 2 u = Ret r v \<and> steady base v \<and> pushed k p ls u r v"
    "\<exists>r v. recv_ACK_cli ptr 2 u = Ret r v \<and> steady base v \<and> pushed k p ls u r v"
proof -
  have u: "nextblknum u = int k" "readable u" using assms(1) by (simp_all add: source_at_def)
  then have eq: "recv_ACK ptr 2 u = obind (file_read 512 (modetype u) u) push_block"
    "recv_ACK_cli ptr 2 u = obind (file_read_cli 512 (modetype u) u) push_block"
    unfolding recv_ACK_def recv_ACK_cli_def push_block_def [abs_def] cli_send_eq Let_def
    using assms(3) by simp_all
  have push: "\<exists>r v. push_block bs s = Ret r v \<and> steady base v \<and> pushed k p ls u r v"
    if "read_result u 512 bs s" for bs s
    using push_block_live [OF assms(1) that assms(2)] unfolding pushed_def by blast
  from file_read_returns(1) [OF u(2), of 512] obtain bs s where
    "file_read 512 (modetype u) u = Ret bs s" by blast
  with push [OF file_read_result [OF this]] eq(1)
  show "\<exists>r v. recv_ACK ptr 2 u = Ret r v \<and> steady base v \<and> pushed k p ls u r v" by simp
  from file_read_returns(2) [OF u(2), of 512] obtain bs s where
    "file_read_cli 512 (modetype u) u = Ret bs s" by blast
  with push [OF file_read_cli_result [OF this]] eq(2)
  show "\<exists>r v. recv_ACK_cli ptr 2 u = Ret r v \<and> steady base v \<and> pushed k p ls u r v" by simp
qed

section \<open>Hearing a datagram\<close>

text \<open>A program that talks to the port of \<open>a\<close>; a client that has not heard from it yet.\<close>

definition linked :: "sockaddr \<Rightarrow> tftp \<Rightarrow> bool" where
  "linked a s \<longleftrightarrow> \<not> recv_first s \<and> snd (peer s) = snd a"

definition greets :: "sockaddr \<Rightarrow> tftp \<Rightarrow> bool" where
  "greets a s \<longleftrightarrow> recv_first s \<and> snd (peer s) \<noteq> snd a"

definition delivered :: "sockaddr \<Rightarrow> byte list \<Rightarrow> tftp \<Rightarrow> tftp \<Rightarrow> bool" where
  "delivered a d s t \<longleftrightarrow> same_core s t \<and> take (length d) (recvbuff t) = d \<and> linked a t \<and>
     clock t = clock s \<and> net_up t = net_up s \<and> sockfd t = sockfd s \<and> rttinfo t = rttinfo s"

lemma srv_delivers:
  assumes "linked a s" "length d \<le> MAXBUFF" "length (recvbuff s) = MAXBUFF"
  shows "\<exists>t. fsm_event (Dgram a d) s = loop_body (- 1) call_srv (int (length d)) t \<and> delivered a d s t"
  using assms by (auto simp: fsm_event_def net_recv_def Let_def fsm_body_loop delivered_def linked_def
      same_core_def buf_simps)

lemma cli_delivers:
  assumes "linked a s \<or> greets a s" "length d \<le> MAXBUFF" "length (recvbuff s) = MAXBUFF"
  shows "\<exists>t. fsm_event_cli (Dgram a d) s = loop_body 1 call_cli (int (length d)) t \<and> delivered a d s t"
  using assms by (auto simp: fsm_event_cli_def net_recv_cli_def Let_def fsm_body_cli_loop delivered_def
      linked_def greets_def same_core_def buf_simps)

lemma delivered_started: "delivered a d s t \<Longrightarrow> started base t = started base s"
  by (simp add: delivered_def started_def steady_def)

lemma delivered_online: "delivered a d s t \<Longrightarrow> online t = online s"
  by (simp add: delivered_def online_def buffers_def same_core_def)

lemma delivered_source: "delivered a d s t \<Longrightarrow> source_at k p ls t = source_at k p ls s"
  using same_core_obs(1) [of s t] delivered_online [of a d s t]
  by (simp add: source_at_def readable_def delivered_def) (simp add: same_core_def)

lemma wires_linked: "wires s t \<Longrightarrow> linked a t = linked a s"
  by (simp add: wires_def linked_def)

text \<open>An acknowledgement makes a sender send the next block, or leave its loop after the last.\<close>

lemma sender_event:
  assumes d: "delivered a (ack_packet k) s t" and H: "call (op_sent s) OP_ACK = H"
    and live: "\<And>u ptr. source_at k p ls u \<Longrightarrow> steady base u \<Longrightarrow> ldshort ptr = int k \<Longrightarrow>
      \<exists>r v. H ptr 2 u = Ret r v \<and> steady base v \<and> pushed k p ls u r v"
    and s: "source_at k p ls s" "started base s" "k < 65536"
  shows "if p = [] \<and> ls < 512 then \<exists>v. loop_body ec call 4 t = Ret (Some 0) v
    else \<exists>v. loop_body ec call 4 t = Ret None v \<and>
      source_at (k + 1) (drop 512 p) (length (take 512 p)) v \<and> started base v \<and> linked a v \<and>
      op_sent v = OP_DATA \<and> data_packet (k + 1) (take 512 p) \<in> snd ` set (sent v)"
proof -
  let ?d = "ack_packet k"
  have dl: "length ?d = 4" "ldshort ?d = OP_ACK" "ldshort (drop 2 ?d) = int k"
    using s(3) by (simp_all add: ack_packet_def)
  have t: "started base t" "source_at k p ls t" "op_sent t = op_sent s" "linked a t"
    "take (length ?d) (recvbuff t) = ?d"
    using d s delivered_started [OF d] delivered_source [OF d] by (simp_all add: delivered_def same_core_def)
  have num: "ldshort (drop 2 (recvbuff t)) = int k"
    using handler_args(1) [OF t(5)] dl by simp
  define P where "P r v \<longleftrightarrow> (\<exists>u. pushed k p ls u r v) \<and> wires t v" for r v
  have hnd: "\<exists>r v. call (op_sent t) (ldshort ?d) (drop 2 (recvbuff t)) (length ?d - 2) u = Ret r v \<and>
      steady base v \<and> P r v"
    if "same_core t u" "wires t u" "steady base u" for u
  proof -
    from live [OF _ that(3) num] source_core [OF that(1,2)] t(2) obtain r v where
      v: "H (drop 2 (recvbuff t)) 2 u = Ret r v" "steady base v" "pushed k p ls u r v" by blast
    from v(3) have "wires u v" by (simp add: pushed_def)
    with v(3) have "P r v" using wires_trans [OF that(2)] unfolding P_def by blast
    then show ?thesis using v(1,2) t(3) dl H by auto
  qed
  have n: "int (length ?d) = 4" using dl(1) by simp
  have "\<exists>r v. P r v \<and> steady base v \<and> (if r < 0 then loop_body ec call (int (length ?d)) t = Ret (Some 0) v
    else \<exists>w. loop_body ec call (int (length ?d)) t = Ret None w \<and> same_core v w \<and> wires v w \<and> started base w)"
    by (rule loop_body_live [where P = P and base = base and s = t and d = "ack_packet k" and call = call])
      (use t(1,5) dl hnd in simp_all)
  then obtain r v u where v: "pushed k p ls u r v" "wires t v"
    "if r < 0 then loop_body ec call 4 t = Ret (Some 0) v
     else \<exists>w. loop_body ec call 4 t = Ret None w \<and> same_core v w \<and> wires v w \<and> started base w"
    unfolding n P_def by blast
  show ?thesis
  proof (cases "p = [] \<and> ls < 512")
    case True
    with v(1,3) show ?thesis by (auto simp: pushed_def)
  next
    case False
    with v(1) have r: "r = 0" "source_at (k + 1) (drop 512 p) (length (take 512 p)) v"
      "op_sent v = OP_DATA" "sent v = sent u @ [(peer u, data_packet (k + 1) (take 512 p))]"
      unfolding pushed_def by simp_all
    with v(3) obtain w where w: "loop_body ec call 4 t = Ret None w" "same_core v w" "wires v w"
      "started base w" by auto
    have "source_at (k + 1) (drop 512 p) (length (take 512 p)) w" "linked a w"
      using source_core [OF w(2,3)] r(2) wires_linked [OF w(3)] wires_linked [OF v(2)] t(4) by simp_all
    moreover have "op_sent w = OP_DATA" "data_packet (k + 1) (take 512 p) \<in> snd ` set (sent w)"
      using r(3,4) w(2) by (simp_all add: same_core_def)
    ultimately show ?thesis using False w(1,4) by auto
  qed
qed

end
