(* ===== verification/TftpComplete.thy ===== *)
theory TftpComplete
  imports TftpLive
begin

text \<open>
  Transfers without losses: the receiving end's routines return as long as its file takes what
  arrives, so each block is answered by an acknowledgement and each acknowledgement by a
  block, and both programs leave their loops. The two directions share the locale
  \<open>lockstep\<close>.
\<close>

section \<open>The receiving end\<close>

definition writable :: "tftp \<Rightarrow> bool" where
  "writable s \<longleftrightarrow> (\<exists>f. localfp s = Some f \<and> \<not> f_closed f \<and> f_room f = None \<and> \<not> f_clserr f) \<and>
     (modetype s = MODE_ASCII \<or> modetype s = MODE_BINARY)"

text \<open>The bytes \<open>bs\<close> are nothing the conversion of the network's line ends refuses.\<close>

definition takes :: "tftp \<Rightarrow> byte list \<Rightarrow> bool" where
  "takes s bs \<longleftrightarrow> modetype s = MODE_BINARY \<or> nvt_decode (lastcr s) bs \<noteq> None"

lemma file_write_ascii_room:
  "file_write_ascii ec bs fp s = Ret () t \<Longrightarrow> f_room fp = None \<Longrightarrow>
   \<exists>g. localfp t = Some g \<and> f_room g = None \<and> f_clserr g = f_clserr fp"
proof (induction ec bs fp s rule: file_write_ascii.induct)
  case (2 ec c cs fp s)
  let ?c = "if lastcr s then (if c = LF then LF else CR) else c"
  have w: "f_writen [?c] fp = (1, fp\<lparr>f_out := f_out fp @ [?c]\<rparr>)"
    using "2.prems"(2) by (simp add: f_writen_def Let_def)
  consider "lastcr s \<and> c \<noteq> LF \<and> c \<noteq> NUL" | "\<not> lastcr s \<and> c = CR"
    | "\<not> (lastcr s \<and> c \<noteq> LF \<and> c \<noteq> NUL)" "\<not> (\<not> lastcr s \<and> c = CR)" by blast
  then show ?case
  proof cases
    case 3
    from "2.IH"(2) [OF 3 refl w [symmetric] refl refl] "2.prems" 3 w show ?thesis
      by (auto simp: Let_def)
  qed (use 2 in auto)
qed auto

lemma file_write_live:
  assumes "writable s" "takes s bs"
  shows "\<exists>t. file_write bs (modetype s) s = Ret () t \<and> writable t \<and>
      (modetype s = MODE_BINARY \<longrightarrow> lastcr t = lastcr s)"
    "\<exists>t. file_write_cli bs (modetype s) s = Ret () t \<and> writable t \<and>
      (modetype s = MODE_BINARY \<longrightarrow> lastcr t = lastcr s)"
proof -
  from assms(1) obtain f where f: "localfp s = Some f" "\<not> f_closed f" "f_room f = None" "\<not> f_clserr f"
    "modetype s = MODE_ASCII \<or> modetype s = MODE_BINARY" by (auto simp: writable_def)
  have ascii: "\<exists>t. file_write_ascii ec bs f s = Ret () t \<and> writable t" if "modetype s = MODE_ASCII" for ec
  proof -
    have "nvt_decode (lastcr s) bs \<noteq> None" using assms(2) that by (simp add: takes_def)
    from file_write_ascii_returns [OF this f(3)] obtain t where t: "file_write_ascii ec bs f s = Ret () t" by blast
    from file_write_ascii_room [OF t f(3)] file_write_ascii_spec [OF t] f(2,4)
      file_write_ascii_mode [of ec bs f s] t that
    show ?thesis by (auto simp: writable_def)
  qed
  let ?t = "s\<lparr>localfp := Some (f\<lparr>f_out := f_out f @ bs\<rparr>)\<rparr>"
  have w: "f_writen bs f = (length bs, f\<lparr>f_out := f_out f @ bs\<rparr>)" "writable ?t"
    using f by (simp_all add: f_writen_def writable_def)
  from f(1,2,5) w ascii [of "- 1"] show "\<exists>t. file_write bs (modetype s) s = Ret () t \<and> writable t \<and>
      (modetype s = MODE_BINARY \<longrightarrow> lastcr t = lastcr s)"
    by (auto simp: file_write_def with_file_def)
  from f(1,2,5) w ascii [of 1] show "\<exists>t. file_write_cli bs (modetype s) s = Ret () t \<and> writable t \<and>
      (modetype s = MODE_BINARY \<longrightarrow> lastcr t = lastcr s)"
    by (auto simp: file_write_cli_def with_file_def)
qed

text \<open>
  A receiver that has accepted \<open>k\<close> blocks, the bytes \<open>xs\<close>. The server's \<open>file_close\<close> looks
  at \<open>nextchar\<close> and \<open>lastcr\<close> in every mode (\<open>q\<close>), the client's does not.
\<close>

definition sink_at :: "bool \<Rightarrow> nat \<Rightarrow> byte list \<Rightarrow> tftp \<Rightarrow> bool" where
  "sink_at q k xs s \<longleftrightarrow> online s \<and> nextblknum s = int k + 1 \<and> writable s \<and> accepted s xs \<and>
     (q \<longrightarrow> nextchar s < 0 \<and> (modetype s = MODE_BINARY \<longrightarrow> \<not> lastcr s))"

definition stored :: "bool \<Rightarrow> nat \<Rightarrow> byte list \<Rightarrow> byte list \<Rightarrow> tftp \<Rightarrow> int \<Rightarrow> tftp \<Rightarrow> bool" where
  "stored q k xs p u r v \<longleftrightarrow> wires u v \<and> op_sent v = OP_ACK \<and> modetype v = modetype u \<and>
     sent v = sent u @ [(peer u, ack_packet (k + 1))] \<and>
     (if length p = 512 then r = 0 \<and> sink_at q (k + 1) (xs @ p) v else r < 0)"

lemma ack_block_live:
  assumes "online s"
  shows "\<exists>b. ack_block (int k) n s = Ret (if n = MAXDATA then 0 else - 1)
      (s\<lparr>sendbuff := b, sendlen := 4, sent := sent s @ [(peer s, ack_packet k)], op_sent := OP_ACK\<rparr>) \<and>
    length b = MAXBUFF"
proof -
  have "buffers s" "net_up s" "0 \<le> sockfd s" using assms by (simp_all add: online_def)
  then show ?thesis using send_ACK_ends [of s "int k"]
    by (auto simp: ack_block_def ack_packet_def Let_def buffers_def buf_simps)
qed

lemma accepted_takes:
  assumes "accepted s xs" "decodes (modetype s) (xs @ p @ rest) ys"
  shows "takes s p"
proof (cases "modetype s = MODE_BINARY")
  case False
  with assms obtain out where "nvt_decode False xs = Some (out, lastcr s)"
    "nvt_decode False (xs @ p @ rest) = Some (ys, False)" by (auto simp: accepted_def decodes_def)
  then have "nvt_decode (lastcr s) p \<noteq> None"
    by (cases "nvt_decode (lastcr s) p") (simp_all add: nvt_decode_append)
  then show ?thesis by (simp add: takes_def)
qed (simp add: takes_def)

lemma accepted_closed:
  "accepted s xs \<Longrightarrow> decodes (modetype s) xs ys \<Longrightarrow> modetype s \<noteq> MODE_BINARY \<Longrightarrow> \<not> lastcr s"
  by (auto simp: accepted_def decodes_def)

text \<open>Storing a block that is not refused.\<close>

lemma store_live:
  assumes "writable u" "accepted u xs" "takes u p"
  defines "stores \<equiv> \<lambda>W. \<exists>t. (if p \<noteq> [] then W p (modetype u) u else Ret () u) = Ret () t \<and> writable t \<and>
    accepted t (xs @ p) \<and> t = u\<lparr>localfp := localfp t, lastcr := lastcr t\<rparr> \<and>
    (modetype u = MODE_BINARY \<longrightarrow> lastcr t = lastcr u)"
  shows "stores file_write" "stores file_write_cli"
proof -
  have nil: "u = u\<lparr>localfp := localfp u, lastcr := lastcr u\<rparr>" by simp
  show "stores file_write"
  proof (cases "p = []")
    case False
    from file_write_live(1) [OF assms(1,3)] obtain t where t: "file_write p (modetype u) u = Ret () t"
      "writable t" "modetype u = MODE_BINARY \<longrightarrow> lastcr t = lastcr u" by blast
    from file_write_result [OF t(1)] assms(2) have
      "accepted t (xs @ p)" "t = u\<lparr>localfp := localfp t, lastcr := lastcr t\<rparr>"
      by (simp_all add: write_result_def)
    with t False show ?thesis unfolding stores_def by auto
  qed (use nil assms(1,2) in \<open>simp add: stores_def\<close>)
  show "stores file_write_cli"
  proof (cases "p = []")
    case False
    from file_write_live(2) [OF assms(1,3)] obtain t where t: "file_write_cli p (modetype u) u = Ret () t"
      "writable t" "modetype u = MODE_BINARY \<longrightarrow> lastcr t = lastcr u" by blast
    from file_write_cli_result [OF t(1)] assms(2) have
      "accepted t (xs @ p)" "t = u\<lparr>localfp := localfp t, lastcr := lastcr t\<rparr>"
      by (simp_all add: write_result_def)
    with t False show ?thesis unfolding stores_def by auto
  qed (use nil assms(1,2) in \<open>simp add: stores_def\<close>)
qed

text \<open>The server closes its file after the last block.\<close>

lemma file_close_live:
  assumes "writable s" "\<not> lastcr s" "nextchar s < 0"
  shows "\<exists>f. file_close s = Ret () (s\<lparr>localfp := f\<rparr>)"
proof -
  from assms(1) obtain f where "localfp s = Some f" "\<not> f_closed f" "\<not> f_clserr f"
    by (auto simp: writable_def)
  moreover have "\<exists>g. s = s\<lparr>localfp := g\<rparr>" by (rule exI [of _ "localfp s"]) simp
  ultimately show ?thesis using assms(2,3) unfolding file_close_def with_file_def
    by (cases "f_std f") (auto simp: Let_def)
qed

text \<open>The end of \<open>recv_DATA\<close>, once the block is in the file and, if need be, the file closed.\<close>

lemma stored_ack:
  assumes u: "sink_at q k xs u" "steady base u" and len: "length p = n"
    and w: "w = (counted n u)\<lparr>localfp := localfp w, lastcr := lastcr w\<rparr>"
    and full: "n = 512 \<Longrightarrow> writable w \<and> accepted w (xs @ p) \<and>
      (modetype u = MODE_BINARY \<longrightarrow> lastcr w = lastcr u)"
  shows "\<exists>r v. ack_block (int (k + 1)) n w = Ret r v \<and> steady base v \<and> stored q k xs p u r v"
proof -
  obtain f c where w': "w = (counted n u)\<lparr>localfp := f, lastcr := c\<rparr>" using w by blast
  have uo: "online u" "nextblknum u = int k + 1" using u(1) by (simp_all add: sink_at_def)
  then have o: "online w" by (simp add: w' online_def buffers_def counted_def)
  from ack_block_live [OF o, of "k + 1" n] obtain b where
    b: "length b = MAXBUFF" and a: "ack_block (int (k + 1)) n w = Ret (if n = MAXDATA then 0 else - 1)
      (w\<lparr>sendbuff := b, sendlen := 4, sent := sent w @ [(peer w, ack_packet (k + 1))], op_sent := OP_ACK\<rparr>)"
    (is "_ = Ret _ ?v") by blast
  have "steady base ?v" "wires u ?v" "sent ?v = sent u @ [(peer u, ack_packet (k + 1))]"
    "modetype ?v = modetype u" "nextblknum ?v = int (k + 1) + 1" "nextchar ?v = nextchar u" "online ?v"
    using u(2) uo b by (simp_all add: w' counted_def steady_def wires_def online_def buffers_def)
  moreover have "writable ?v = writable w" "accepted ?v = accepted w" "lastcr ?v = lastcr w"
    "modetype ?v = modetype w"
    by (simp_all add: writable_def accepted_def fun_eq_iff)
  moreover have "op_sent ?v = OP_ACK" by simp
  ultimately have "steady base ?v \<and> stored q k xs p u (if n = MAXDATA then 0 else - 1) ?v"
    using full u(1) len unfolding stored_def sink_at_def by auto
  with a show ?thesis by blast
qed

text \<open>A fresh block makes both programs' \<open>recv_DATA\<close> return.\<close>

lemma recv_DATA_live:
  fixes u ptr n p xs
  defines "p \<equiv> take (n - 2) (drop 2 ptr)"
  assumes u: "steady base u" and len: "length p = n - 2" "n - 2 \<le> MAXDATA"
    and k: "ldshort ptr = int (k + 1)"
    and dec: "decodes (modetype u) (xs @ p @ rest) ys" "length p < 512 \<Longrightarrow> rest = []"
  shows "sink_at True k xs u \<Longrightarrow>
      \<exists>r v. recv_DATA ptr n u = Ret r v \<and> steady base v \<and> stored True k xs p u r v"
    and "sink_at False k xs u \<Longrightarrow>
      \<exists>r v. recv_DATA_cli ptr n u = Ret r v \<and> steady base v \<and> stored False k xs p u r v"
proof -
  let ?c = "counted (n - 2) u"
  have nz: "(0 < n - 2) = (p \<noteq> [])" using len(1) by (metis length_greater_0_conv)
  {
    assume s: "sink_at True k xs u"
    then have c: "writable ?c" "accepted ?c xs" "takes ?c p" "nextblknum u = int k + 1"
      using accepted_takes [OF _ dec(1)] by (auto simp: sink_at_def writable_def takes_def counted_def accepted_def)
    from store_live(1) [OF c(1-3)] obtain t where
      t: "(if p \<noteq> [] then file_write p (modetype ?c) ?c else Ret () ?c) = Ret () t" "writable t"
      "accepted t (xs @ p)" "t = ?c\<lparr>localfp := localfp t, lastcr := lastcr t\<rparr>"
      "modetype u = MODE_BINARY \<longrightarrow> lastcr t = lastcr u" by (auto simp: counted_def)
    then obtain f l where t': "t = ?c\<lparr>localfp := f, lastcr := l\<rparr>" by blast
    have eq: "recv_DATA ptr n u = obind (obind (if p \<noteq> [] then file_write p (modetype ?c) ?c else Ret () ?c)
        (\<lambda>_ s. if n - 2 < MAXDATA then file_close s else Ret () s)) (\<lambda>_. ack_block (int (k + 1)) (n - 2))"
      unfolding nz [symmetric] unfolding recv_DATA_def ack_block_def [abs_def] Let_def p_def
      using len(2) k c(4) by (simp add: counted_def)
    have "\<exists>g. (if n - 2 < MAXDATA then file_close t else Ret () t) = Ret () (t\<lparr>localfp := g\<rparr>) \<and>
        (n - 2 = 512 \<longrightarrow> t\<lparr>localfp := g\<rparr> = t)"
    proof (cases "n - 2 < MAXDATA")
      case True
      have "\<not> lastcr t"
      proof (cases "modetype u = MODE_BINARY")
        case True
        with t(5) s show ?thesis by (simp add: sink_at_def)
      next
        case False
        have "modetype t = modetype u" by (simp add: t' counted_def)
        with accepted_closed [OF t(3)] dec True len(1) False show ?thesis by simp
      qed
      moreover have "nextchar t < 0" using s by (simp add: t' counted_def sink_at_def)
      ultimately show ?thesis using file_close_live [OF t(2)] True by auto
    qed (rule exI [of _ "localfp t"], simp)
    then obtain g where g: "(if n - 2 < MAXDATA then file_close t else Ret () t) = Ret () (t\<lparr>localfp := g\<rparr>)"
      "n - 2 = 512 \<Longrightarrow> t\<lparr>localfp := g\<rparr> = t" by blast
    have w: "t\<lparr>localfp := g\<rparr> = ?c\<lparr>localfp := localfp (t\<lparr>localfp := g\<rparr>), lastcr := lastcr (t\<lparr>localfp := g\<rparr>)\<rparr>"
      by (simp add: t')
    have "recv_DATA ptr n u = ack_block (int (k + 1)) (n - 2) (t\<lparr>localfp := g\<rparr>)"
      unfolding eq t(1) using g(1) by simp
    with stored_ack [OF s u len(1) w] g(2) t(2,3,5)
    show "\<exists>r v. recv_DATA ptr n u = Ret r v \<and> steady base v \<and> stored True k xs p u r v" by simp
  next
    assume s: "sink_at False k xs u"
    then have c: "writable ?c" "accepted ?c xs" "takes ?c p" "nextblknum u = int k + 1"
      using accepted_takes [OF _ dec(1)] by (auto simp: sink_at_def writable_def takes_def counted_def accepted_def)
    from store_live(2) [OF c(1-3)] obtain t where
      t: "(if p \<noteq> [] then file_write_cli p (modetype ?c) ?c else Ret () ?c) = Ret () t" "writable t"
      "accepted t (xs @ p)" "t = ?c\<lparr>localfp := localfp t, lastcr := lastcr t\<rparr>"
      "modetype u = MODE_BINARY \<longrightarrow> lastcr t = lastcr u" by (auto simp: counted_def)
    have "recv_DATA_cli ptr n u = obind (if p \<noteq> [] then file_write_cli p (modetype ?c) ?c else Ret () ?c)
        (\<lambda>_. ack_block (int (k + 1)) (n - 2))"
      unfolding nz [symmetric] unfolding recv_DATA_cli_def ack_block_def [abs_def] Let_def p_def cli_send_eq
      using k c(4) by (simp add: counted_def)
    with t(1) have "recv_DATA_cli ptr n u = ack_block (int (k + 1)) (n - 2) t" by simp
    with stored_ack [OF s u len(1) t(4)] t(2,3,5)
    show "\<exists>r v. recv_DATA_cli ptr n u = Ret r v \<and> steady base v \<and> stored False k xs p u r v" by simp
  }
qed

lemma delivered_sink: "delivered a d s t \<Longrightarrow> sink_at q k xs t = sink_at q k xs s"
  using same_core_obs(2) [of s t xs] delivered_online [of a d s t]
  by (simp add: sink_at_def writable_def delivered_def) (simp add: same_core_def)

lemma sink_core: "same_core s t \<Longrightarrow> wires s t \<Longrightarrow> sink_at q k xs t = sink_at q k xs s"
  using same_core_obs(2) [of s t xs] online_core [of s t]
  by (simp add: sink_at_def writable_def) (simp add: same_core_def)

text \<open>A block makes a receiver acknowledge it, and leave its loop after a short one.\<close>

lemma receiver_event:
  assumes d: "delivered a (data_packet (k + 1) p) s t" and H: "call (op_sent s) OP_DATA = H"
    and live: "\<And>u ptr n. sink_at q k xs u \<Longrightarrow> steady base u \<Longrightarrow> ldshort ptr = int (k + 1) \<Longrightarrow>
      take (n - 2) (drop 2 ptr) = p \<Longrightarrow> length p = n - 2 \<Longrightarrow> modetype u = modetype s \<Longrightarrow>
      \<exists>r v. H ptr n u = Ret r v \<and> steady base v \<and> stored q k xs p u r v"
    and s: "sink_at q k xs s" "started base s" "k < 65535"
  shows "\<exists>v. ack_packet (k + 1) \<in> snd ` set (sent v) \<and>
    (if length p = 512
     then loop_body ec call (int (4 + length p)) t = Ret None v \<and> sink_at q (k + 1) (xs @ p) v \<and>
       started base v \<and> linked a v \<and> op_sent v = OP_ACK \<and> modetype v = modetype s
     else loop_body ec call (int (4 + length p)) t = Ret (Some 0) v)"
proof -
  let ?d = "data_packet (k + 1) p"
  have dl: "length ?d = 4 + length p" "ldshort ?d = OP_DATA" "ldshort (drop 2 ?d) = int (k + 1)"
    "drop 4 ?d = p"
    using s(3) by (simp_all add: data_packet_def)
  have t: "started base t" "sink_at q k xs t" "op_sent t = op_sent s" "linked a t"
    "take (length ?d) (recvbuff t) = ?d" "modetype t = modetype s"
    using d s delivered_started [OF d] delivered_sink [OF d] by (simp_all add: delivered_def same_core_def)
  have arg: "ldshort (drop 2 (recvbuff t)) = int (k + 1)"
    "take (length ?d - 2 - 2) (drop 2 (drop 2 (recvbuff t))) = p"
    using handler_args [OF t(5)] dl by simp_all
  define P where "P r v \<longleftrightarrow> (\<exists>u. stored q k xs p u r v \<and> modetype u = modetype s) \<and> wires t v" for r v
  have hnd: "\<exists>r v. call (op_sent t) (ldshort ?d) (drop 2 (recvbuff t)) (length ?d - 2) u = Ret r v \<and>
      steady base v \<and> P r v"
    if "same_core t u" "wires t u" "steady base u" for u
  proof -
    have u: "sink_at q k xs u" "modetype u = modetype s"
      using sink_core [OF that(1,2)] t(2,6) that(1) by (simp_all add: same_core_def)
    from live [OF u(1) that(3) arg _ u(2)] dl(1) obtain r v where
      v: "H (drop 2 (recvbuff t)) (length ?d - 2) u = Ret r v" "steady base v" "stored q k xs p u r v"
      by auto
    from v(3) have "wires u v" by (simp add: stored_def)
    with v(3) u(2) have "P r v" using wires_trans [OF that(2)] unfolding P_def by blast
    then show ?thesis using v(1,2) t(3) dl(2) H by auto
  qed
  have n: "int (length ?d) = int (4 + length p)" using dl(1) by simp
  have "\<exists>r v. P r v \<and> steady base v \<and> (if r < 0 then loop_body ec call (int (length ?d)) t = Ret (Some 0) v
    else \<exists>w. loop_body ec call (int (length ?d)) t = Ret None w \<and> same_core v w \<and> wires v w \<and> started base w)"
    by (rule loop_body_live [where P = P and base = base and s = t and d = "?d" and call = call])
      (use t(1,5) dl hnd in simp_all)
  then obtain r v u where v: "stored q k xs p u r v" "modetype u = modetype s" "wires t v"
    "if r < 0 then loop_body ec call (int (4 + length p)) t = Ret (Some 0) v
     else \<exists>w. loop_body ec call (int (4 + length p)) t = Ret None w \<and> same_core v w \<and> wires v w \<and> started base w"
    unfolding n P_def by blast
  have sv: "op_sent v = OP_ACK" "ack_packet (k + 1) \<in> snd ` set (sent v)" "modetype v = modetype s"
    using v(1,2) by (simp_all add: stored_def)
  show ?thesis
  proof (cases "length p = 512")
    case True
    with v(1) have r: "r = 0" "sink_at q (k + 1) (xs @ p) v" by (simp_all add: stored_def)
    with v(4) obtain w where w: "loop_body ec call (int (4 + length p)) t = Ret None w" "same_core v w"
      "wires v w" "started base w" by auto
    have "sink_at q (k + 1) (xs @ p) w" "linked a w"
      using sink_core [OF w(2,3)] r(2) wires_linked [OF w(3)] wires_linked [OF v(3)] t(4) by simp_all
    moreover have "op_sent w = OP_ACK" "ack_packet (k + 1) \<in> snd ` set (sent w)" "modetype w = modetype s"
      using sv w(2) by (simp_all add: same_core_def)
    ultimately show ?thesis using True w(1,4) by auto
  next
    case False
    with v(1) have "r < 0" by (simp add: stored_def)
    with v(4) sv(2) False show ?thesis by auto
  qed
qed

section \<open>Block by block\<close>

text \<open>
  A sender and a receiver that answer each other. \<open>conf\<close> are the reachable states of the
  pair; \<open>S k p ls\<close> is a sender that waits for the acknowledgement of block \<open>k\<close>, has the
  bytes \<open>p\<close> left and sent \<open>ls\<close> bytes last; \<open>R k xs\<close> a receiver that has accepted \<open>k\<close> blocks.
\<close>

locale lockstep =
  fixes ev_s ev_r :: "rcv \<Rightarrow> int option prog"
    and S :: "nat \<Rightarrow> byte list \<Rightarrow> nat \<Rightarrow> tftp \<Rightarrow> bool"
    and R :: "nat \<Rightarrow> byte list \<Rightarrow> tftp \<Rightarrow> bool"
    and E :: "byte list"
    and conf :: "phase \<times> tftp \<Rightarrow> phase \<times> tftp \<Rightarrow> bool"
    and sa ra :: sockaddr
  assumes S_ack: "S k p ls s \<Longrightarrow> k < 65536 \<Longrightarrow>
      if p = [] \<and> ls < 512 then \<exists>v. ev_s (Dgram ra (ack_packet k)) s = Ret (Some 0) v
      else \<exists>v. ev_s (Dgram ra (ack_packet k)) s = Ret None v \<and>
        S (k + 1) (drop 512 p) (length (take 512 p)) v \<and>
        data_packet (k + 1) (take 512 p) \<in> snd ` set (sent v)"
    and R_data: "R k xs r \<Longrightarrow> k < 65535 \<Longrightarrow> E = xs @ p @ rest \<Longrightarrow> length p \<le> 512 \<Longrightarrow>
      (length p < 512 \<longrightarrow> rest = []) \<Longrightarrow>
      \<exists>v. ack_packet (k + 1) \<in> snd ` set (sent v) \<and>
        (if length p = 512
         then ev_r (Dgram sa (data_packet (k + 1) p)) r = Ret None v \<and> R (k + 1) (xs @ p) v
         else ev_r (Dgram sa (data_packet (k + 1) p)) r = Ret (Some 0) v)"
    and conf_s: "conf (Running, s) (rp, r) \<Longrightarrow> heard r e \<Longrightarrow>
      conf (phase_of (ev_s e s), ostate (ev_s e s)) (rp, r)"
    and conf_r: "conf (sp, s) (Running, r) \<Longrightarrow> heard s e \<Longrightarrow>
      conf (sp, s) (phase_of (ev_r e r), ostate (ev_r e r))"
begin

lemma lockstep_data:
  assumes "conf (Running, s) (Running, r)" "S (k + 1) p (length blk) s" "R k xs r"
    "data_packet (k + 1) blk \<in> snd ` set (sent s)" "E = xs @ blk @ p" "length xs = 512 * k"
    "length E < 512 * 65535" "length blk \<le> 512" "length blk < 512 \<longrightarrow> p = []"
  shows "\<exists>s' r'. conf (Finished, s') (Finished, r')"
  using assms
proof (induction "length p + (if length blk = 512 then 1 else 0)" arbitrary: s r k p blk xs
    rule: less_induct)
  case less
  have k: "k < 65535" using less.prems(5,6,7) by simp
  have "heard s (Dgram sa (data_packet (k + 1) blk))" using less.prems(4) by (simp add: heard_def)
  note cr = conf_r [OF less.prems(1) this]
  from R_data [OF less.prems(3) k less.prems(5,8,9)] obtain v where
    v: "ack_packet (k + 1) \<in> snd ` set (sent v)"
    "if length blk = 512
     then ev_r (Dgram sa (data_packet (k + 1) blk)) r = Ret None v \<and> R (k + 1) (xs @ blk) v
     else ev_r (Dgram sa (data_packet (k + 1) blk)) r = Ret (Some 0) v" by blast
  have hv: "heard v (Dgram ra (ack_packet (k + 1)))" using v(1) by (simp add: heard_def)
  have k1: "k + 1 < 65536" using k by simp
  show ?case
  proof (cases "length blk = 512")
    case False
    with v(2) cr have c: "conf (Running, s) (Finished, v)" by simp
    from False less.prems(8,9) have "p = [] \<and> length blk < 512" by simp
    with S_ack [OF less.prems(2) k1] obtain w where
      "ev_s (Dgram ra (ack_packet (k + 1))) s = Ret (Some 0) w" by auto
    with conf_s [OF c hv] have "conf (Finished, w) (Finished, v)" by simp
    then show ?thesis by blast
  next
    case True
    with v(2) cr have c: "conf (Running, s) (Running, v)" "R (k + 1) (xs @ blk) v" by simp_all
    from S_ack [OF less.prems(2) k1] True obtain w where w:
      "ev_s (Dgram ra (ack_packet (k + 1))) s = Ret None w"
      "S (k + 1 + 1) (drop 512 p) (length (take 512 p)) w"
      "data_packet (k + 1 + 1) (take 512 p) \<in> snd ` set (sent w)" by auto
    have c': "conf (Running, w) (Running, v)" using conf_s [OF c(1) hv] w(1) by simp
    have m: "length (drop 512 p) + (if length (take 512 p) = 512 then 1 else 0)
        < length p + (if length blk = 512 then 1 else 0)" using True by auto
    have "E = (xs @ blk) @ take 512 p @ drop 512 p" "length (xs @ blk) = 512 * (k + 1)"
      using less.prems(5,6) True by simp_all
    from less.hyps [OF m c' w(2) c(2) w(3) this less.prems(7)] show ?thesis by auto
  qed
qed

text \<open>The same where the first acknowledgement is still to come.\<close>

lemma lockstep_ack:
  assumes "conf (Running, s) (Running, r)" "S 0 E 512 s" "R 0 [] r"
    "ack_packet 0 \<in> snd ` set (sent r)" "length E < 512 * 65535"
  shows "\<exists>s' r'. conf (Finished, s') (Finished, r')"
proof -
  have h: "heard r (Dgram ra (ack_packet 0))" using assms(4) by (simp add: heard_def)
  from S_ack [OF assms(2)] obtain v where v: "ev_s (Dgram ra (ack_packet 0)) s = Ret None v"
    "S (0 + 1) (drop 512 E) (length (take 512 E)) v"
    "data_packet (0 + 1) (take 512 E) \<in> snd ` set (sent v)" by auto
  have "conf (Running, v) (Running, r)" using conf_s [OF assms(1) h] v(1) by simp
  from lockstep_data [OF this v(2) assms(3) v(3)] assms(5) show ?thesis by simp
qed

end

text \<open>The four roles as predicates on a program's state.\<close>

definition srv_source :: "int \<Rightarrow> sockaddr \<Rightarrow> nat \<Rightarrow> byte list \<Rightarrow> nat \<Rightarrow> tftp \<Rightarrow> bool" where
  "srv_source base a k p ls s \<longleftrightarrow> source_at k p ls s \<and> started base s \<and> linked a s \<and> op_sent s = OP_DATA"

definition cli_source :: "int \<Rightarrow> sockaddr \<Rightarrow> nat \<Rightarrow> byte list \<Rightarrow> nat \<Rightarrow> tftp \<Rightarrow> bool" where
  "cli_source base a k p ls s \<longleftrightarrow> source_at k p ls s \<and> started base s \<and> (linked a s \<or> greets a s) \<and>
     (op_sent s = OP_WRQ \<or> op_sent s = OP_DATA)"

definition srv_sink :: "int \<Rightarrow> sockaddr \<Rightarrow> byte list \<Rightarrow> byte list \<Rightarrow> nat \<Rightarrow> byte list \<Rightarrow> tftp \<Rightarrow> bool" where
  "srv_sink base a E ys k xs s \<longleftrightarrow> sink_at True k xs s \<and> started base s \<and> linked a s \<and>
     op_sent s = OP_ACK \<and> decodes (modetype s) E ys"

definition cli_sink :: "int \<Rightarrow> sockaddr \<Rightarrow> byte list \<Rightarrow> byte list \<Rightarrow> nat \<Rightarrow> byte list \<Rightarrow> tftp \<Rightarrow> bool" where
  "cli_sink base a E ys k xs s \<longleftrightarrow> sink_at False k xs s \<and> started base s \<and> (linked a s \<or> greets a s) \<and>
     (op_sent s = OP_RRQ \<or> op_sent s = OP_ACK) \<and> decodes (modetype s) E ys"

lemma ack_length: "length (ack_packet k) = 4" "int (length (ack_packet k)) = 4"
  by (simp_all add: ack_packet_def)

lemma data_length: "length (data_packet k p) = 4 + length p"
  by (simp add: data_packet_def)

lemma srv_source_step:
  assumes "srv_source base a k p ls s" "k < 65536"
  shows "if p = [] \<and> ls < 512 then \<exists>v. fsm_event (Dgram a (ack_packet k)) s = Ret (Some 0) v
    else \<exists>v. fsm_event (Dgram a (ack_packet k)) s = Ret None v \<and>
      srv_source base a (k + 1) (drop 512 p) (length (take 512 p)) v \<and>
      data_packet (k + 1) (take 512 p) \<in> snd ` set (sent v)"
proof -
  from assms(1) have s: "source_at k p ls s" "started base s" "linked a s" "op_sent s = OP_DATA"
    by (simp_all add: srv_source_def)
  then have b: "length (recvbuff s) = MAXBUFF" by (simp add: source_at_def online_def buffers_def)
  from srv_delivers [OF s(3) _ b, of "ack_packet k"] obtain t where
    t: "fsm_event (Dgram a (ack_packet k)) s = loop_body (- 1) call_srv 4 t" "delivered a (ack_packet k) s t"
    by (auto simp: ack_length)
  have H: "call_srv (op_sent s) OP_ACK = recv_ACK" using s(4) by (simp add: table_simps fun_eq_iff)
  note e = sender_event [where H = recv_ACK and call = call_srv and k = k and p = p and ls = ls and base = base and a = a and s = s and ec = "- 1",
      OF t(2) H recv_ACK_live(1) s(1,2) assms(2)]
  show ?thesis
  proof (cases "p = [] \<and> ls < 512")
    case True
    show ?thesis using e [unfolded if_P [OF True]] unfolding if_P [OF True] t(1) .
  next
    case False
    show ?thesis
      using e [unfolded if_not_P [OF False]] unfolding if_not_P [OF False] t(1) srv_source_def by blast
  qed
qed

lemma cli_source_step:
  assumes "cli_source base a k p ls s" "k < 65536"
  shows "if p = [] \<and> ls < 512 then \<exists>v. fsm_event_cli (Dgram a (ack_packet k)) s = Ret (Some 0) v
    else \<exists>v. fsm_event_cli (Dgram a (ack_packet k)) s = Ret None v \<and>
      cli_source base a (k + 1) (drop 512 p) (length (take 512 p)) v \<and>
      data_packet (k + 1) (take 512 p) \<in> snd ` set (sent v)"
proof -
  from assms(1) have s: "source_at k p ls s" "started base s" "linked a s \<or> greets a s"
    "op_sent s = OP_WRQ \<or> op_sent s = OP_DATA" by (simp_all add: cli_source_def)
  then have b: "length (recvbuff s) = MAXBUFF" by (simp add: source_at_def online_def buffers_def)
  from cli_delivers [OF s(3) _ b, of "ack_packet k"] obtain t where
    t: "fsm_event_cli (Dgram a (ack_packet k)) s = loop_body 1 call_cli 4 t" "delivered a (ack_packet k) s t"
    by (auto simp: ack_length)
  have H: "call_cli (op_sent s) OP_ACK = recv_ACK_cli" using s(4) by (auto simp: table_simps fun_eq_iff)
  note e = sender_event [where H = recv_ACK_cli and call = call_cli and k = k and p = p and ls = ls and base = base and a = a and s = s and ec = 1,
      OF t(2) H recv_ACK_live(2) s(1,2) assms(2)]
  show ?thesis
  proof (cases "p = [] \<and> ls < 512")
    case True
    show ?thesis using e [unfolded if_P [OF True]] unfolding if_P [OF True] t(1) .
  next
    case False
    show ?thesis
      using e [unfolded if_not_P [OF False]] unfolding if_not_P [OF False] t(1) cli_source_def by blast
  qed
qed

lemma srv_sink_step:
  assumes "srv_sink base a E ys k xs s" "k < 65535" "E = xs @ p @ rest" "length p \<le> 512"
    "length p < 512 \<longrightarrow> rest = []"
  shows "\<exists>v. ack_packet (k + 1) \<in> snd ` set (sent v) \<and>
    (if length p = 512
     then fsm_event (Dgram a (data_packet (k + 1) p)) s = Ret None v \<and> srv_sink base a E ys (k + 1) (xs @ p) v
     else fsm_event (Dgram a (data_packet (k + 1) p)) s = Ret (Some 0) v)"
proof -
  from assms(1) have s: "sink_at True k xs s" "started base s" "linked a s" "op_sent s = OP_ACK"
    "decodes (modetype s) E ys" by (simp_all add: srv_sink_def)
  then have b: "length (recvbuff s) = MAXBUFF" by (simp add: sink_at_def online_def buffers_def)
  have "length (data_packet (k + 1) p) \<le> MAXBUFF" using assms(4) by (simp add: data_length)
  from srv_delivers [OF s(3) this b] obtain t where
    t: "fsm_event (Dgram a (data_packet (k + 1) p)) s = loop_body (- 1) call_srv (int (4 + length p)) t"
      "delivered a (data_packet (k + 1) p) s t" unfolding data_length by blast
  have H: "call_srv (op_sent s) OP_DATA = recv_DATA" using s(4) by (simp add: table_simps fun_eq_iff)
  have live: "\<exists>r v. recv_DATA ptr n u = Ret r v \<and> steady base v \<and> stored True k xs p u r v"
    if "sink_at True k xs u" "steady base u" "ldshort ptr = int (k + 1)"
      "take (n - 2) (drop 2 ptr) = p" "length p = n - 2" "modetype u = modetype s" for u ptr n
    using recv_DATA_live(1) [of base u n ptr k xs rest ys] that s(5) assms(3-5) by simp
  have "\<exists>v. ack_packet (k + 1) \<in> snd ` set (sent v) \<and>
    (if length p = 512
     then loop_body (- 1) call_srv (int (4 + length p)) t = Ret None v \<and> sink_at True (k + 1) (xs @ p) v \<and>
       started base v \<and> linked a v \<and> op_sent v = OP_ACK \<and> modetype v = modetype s
     else loop_body (- 1) call_srv (int (4 + length p)) t = Ret (Some 0) v)"
    by (rule receiver_event [where base = base and k = k and p = p and s = s and call = call_srv and H = recv_DATA
      and q = True and xs = xs, OF t(2) H live s(1,2) assms(2)])
  with s(5) show ?thesis unfolding t(1) srv_sink_def by (cases "length p = 512") auto
qed

lemma cli_sink_step:
  assumes "cli_sink base a E ys k xs s" "k < 65535" "E = xs @ p @ rest" "length p \<le> 512"
    "length p < 512 \<longrightarrow> rest = []"
  shows "\<exists>v. ack_packet (k + 1) \<in> snd ` set (sent v) \<and>
    (if length p = 512
     then fsm_event_cli (Dgram a (data_packet (k + 1) p)) s = Ret None v \<and> cli_sink base a E ys (k + 1) (xs @ p) v
     else fsm_event_cli (Dgram a (data_packet (k + 1) p)) s = Ret (Some 0) v)"
proof -
  from assms(1) have s: "sink_at False k xs s" "started base s" "linked a s \<or> greets a s"
    "op_sent s = OP_RRQ \<or> op_sent s = OP_ACK" "decodes (modetype s) E ys" by (simp_all add: cli_sink_def)
  then have b: "length (recvbuff s) = MAXBUFF" by (simp add: sink_at_def online_def buffers_def)
  have "length (data_packet (k + 1) p) \<le> MAXBUFF" using assms(4) by (simp add: data_length)
  from cli_delivers [OF s(3) this b] obtain t where
    t: "fsm_event_cli (Dgram a (data_packet (k + 1) p)) s = loop_body 1 call_cli (int (4 + length p)) t"
      "delivered a (data_packet (k + 1) p) s t" unfolding data_length by blast
  have H: "call_cli (op_sent s) OP_DATA = recv_DATA_cli" using s(4) by (auto simp: table_simps fun_eq_iff)
  have live: "\<exists>r v. recv_DATA_cli ptr n u = Ret r v \<and> steady base v \<and> stored False k xs p u r v"
    if "sink_at False k xs u" "steady base u" "ldshort ptr = int (k + 1)"
      "take (n - 2) (drop 2 ptr) = p" "length p = n - 2" "modetype u = modetype s" for u ptr n
    using recv_DATA_live(2) [of base u n ptr k xs rest ys] that s(5) assms(3-5) by simp
  have "\<exists>v. ack_packet (k + 1) \<in> snd ` set (sent v) \<and>
    (if length p = 512
     then loop_body 1 call_cli (int (4 + length p)) t = Ret None v \<and> sink_at False (k + 1) (xs @ p) v \<and>
       started base v \<and> linked a v \<and> op_sent v = OP_ACK \<and> modetype v = modetype s
     else loop_body 1 call_cli (int (4 + length p)) t = Ret (Some 0) v)"
    by (rule receiver_event [where base = base and k = k and p = p and s = s and call = call_cli and H = recv_DATA_cli
      and q = False and xs = xs, OF t(2) H live s(1,2) assms(2)])
  with s(5) show ?thesis unfolding t(1) cli_sink_def by (cases "length p = 512") auto
qed

interpretation get_steps: lockstep fsm_event fsm_event_cli "srv_source sbase ca" "cli_sink cbase sa E ys" E
    "\<lambda>x y. transfer start accept (Some x) y" sa ca
  for sbase cbase ca sa E ys start accept
  by unfold_locales
    (blast intro: srv_source_step cli_sink_step transfer_server transfer_client)+

interpretation put_steps: lockstep fsm_event_cli fsm_event "cli_source cbase sa" "srv_sink sbase ca E ys" E
    "\<lambda>x y. transfer start accept (Some y) x" ca sa
  for sbase cbase ca sa E ys start accept
  by unfold_locales
    (blast intro: cli_source_step srv_sink_step transfer_server transfer_client)+

end
