(* ===== verification/TftpStart.thy ===== *)
theory TftpStart
  imports TftpComplete
begin

text \<open>
  How a transfer starts when nothing is in its way: the client's request goes out, the server
  accepts it, opens the file and answers. Both programs are in their initial state
  \<open>initvars\<close>, the client after its command \<open>mode\<close>.
\<close>

section \<open>Entering the loop\<close>

definition clock_ok :: "int \<Rightarrow> (nat \<Rightarrow> timeval option) \<Rightarrow> bool" where
  "clock_ok base clk \<longleftrightarrow> (\<forall>n. \<exists>tv. clk n = Some tv \<and> window base tv)"

lemma enter_live:
  assumes "clock_ok base (clock s)" "rttfirst s"
  shows "\<exists>t. fsm_arm (entered opcode s) = Ret () t \<and> started base t \<and>
    same_core (s\<lparr>op_sent := opcode\<rparr>) t \<and> wires s t"
proof -
  have "steady base (entered opcode s)"
    using assms by (simp add: steady_def clock_ok_def entered_def Let_def bounded_def rtt_init_def rtt_newpack_def)
  from fsm_arm_returns [OF this] obtain t where t: "fsm_arm (entered opcode s) = Ret () t"
    "started base t" "same_core (entered opcode s) t" "wires (entered opcode s) t" by blast
  have "wires s (entered opcode s)" by (simp add: wires_def entered_def Let_def)
  with t entered_frame(2) [where s = s and opcode = opcode] show ?thesis by (blast intro: same_core_trans wires_trans)
qed

section \<open>The request\<close>

lemma send_RQ_returns:
  assumes "mode_name mode = Some ms" "length (request opcode fname ms) \<le> MAXBUFF"
    "length (sendbuff s) = MAXBUFF" "net_up s" "0 \<le> sockfd s"
  shows "\<exists>t. send_RQ opcode fname mode s = Ret () t"
proof -
  have le: "length fname + length ms + 4 \<le> MAXBUFF" using assms(2) by (simp add: request_parts)
  let ?b1 = "buf_put 0 (stshort opcode) (sendbuff s)"
  have l1: "length ?b1 = MAXBUFF" using assms(3) by (simp add: buf_simps)
  have "length (buf_put 2 (fname @ [NUL]) ?b1) = MAXBUFF" using l1 le by (simp add: buf_simps)
  with l1 le assms(1,4,5) show ?thesis
    by (simp add: send_RQ_def net_send_cli_def Let_def)
qed

lemma recv_xRQ_returns:
  assumes ptr: "ptr = fname @ NUL # ms @ NUL # rest" "n = length fname + length ms + 2"
    and name: "NUL \<notin> set fname" "length fname < MAXFILENAME" "take 1 fname = [47]"
    and mode: "mode_name m = Some ms"
    and perm: "opcode = OP_RRQ \<and> fs_stat (fs s) fname = Some st \<and> bit st 2 \<and> fs_read (fs s) fname = Some f \<or>
      opcode = OP_WRQ \<and> fs_stat (fs s) (dir_part fname) = Some st \<and> bit st 1 \<and> fs_write (fs s) fname = Some f"
  shows "recv_xRQ opcode ptr n s =
    Ret () (s\<lparr>modetype := m, nextblknum := 0, lastcr := False, nextchar := - 1, localfp := Some f\<rparr>)"
proof -
  have sc1: "scan_nul n ptr = Some (Some (length fname))"
    unfolding ptr by (rule scan_nul_at [OF name(1)]) simp
  have ms: "NUL \<notin> set ms" "length ms < MAXFILENAME" "strlccpy ms = ms"
    using mode_name_cases [OF mode] mode_bytes by auto
  have sc2: "scan_nul (n - length fname) (drop (length fname + 1) ptr) = Some (Some (length ms))"
    unfolding ptr using scan_nul_at [OF ms(1), of "length ms + 2" rest] by simp
  have parts: "take (length fname) ptr = fname"
    "take (length ms) (drop (length fname + 1) ptr) = ms"
    unfolding ptr by simp_all
  have ne: "fname \<noteq> [45]" using name(3) by auto
  have md: "(if ms = bytes ''netascii'' then Ret () (s\<lparr>modetype := MODE_ASCII\<rparr>)
            else if ms = bytes ''octet'' then Ret () (s\<lparr>modetype := MODE_BINARY\<rparr>)
            else send_ERROR ERR_BADOP ''Mode isn't netascii or octet'' s) = Ret () (s\<lparr>modetype := m\<rparr>)"
    using mode_name_cases [OF mode] mode_bytes(5) by auto
  show ?thesis
    unfolding recv_xRQ_def sc1
    using name(2,3) ms(2,3) sc2 parts md perm ne
    by (elim disjE) (simp_all add: Let_def file_open_def)
qed

section \<open>The client\<close>

definition has_sent :: "byte list \<Rightarrow> tftp \<Rightarrow> bool" where
  "has_sent d s \<longleftrightarrow> d \<in> snd ` set (sent s)"

lemma has_sent_snoc: "sent t = sent s @ [(a, d)] \<Longrightarrow> has_sent d t"
  by (simp add: has_sent_def)

text \<open>The state of \<open>do_get\<close> and \<open>do_put\<close> when they send the request.\<close>

definition asking_from :: "lfile \<Rightarrow> int \<Rightarrow> int \<Rightarrow> sockaddr \<Rightarrow> timeval \<Rightarrow> tftp \<Rightarrow> tftp" where
  "asking_from f blk fd addr tv c = c\<lparr>nextblknum := blk, localfp := Some f, sockfd := fd, peer := addr,
     recv_first := True, totnbytes := 0, ticks := ticks c + 1, st_start := tv\<rparr>"

lemma client_live:
  fixes f blk tv
  assumes clk: "clock_ok base (clock c)" "rttfirst c" and b: "buffers c" "net_up c" "0 \<le> fd"
    and rq: "mode_name (modetype c) = Some ms" "length (request opcode remf ms) \<le> MAXBUFF"
    and addr: "snd addr \<noteq> snd a"
  defines "c1 \<equiv> \<lambda>ls. (asking_from f blk fd addr tv c)\<lparr>lastsend := ls\<rparr>"
  shows "\<exists>t. obind (send_RQ opcode remf (modetype c) (c1 ls)) (\<lambda>_. fsm_enter_cli opcode) = Ret None t \<and>
    started base t \<and> online t \<and> greets a t \<and> nextblknum t = blk \<and> localfp t = Some f \<and>
    modetype t = modetype c \<and> lastcr t = lastcr c \<and> nextchar t = nextchar c \<and> lastsend t = ls \<and>
    op_sent t = opcode \<and> has_sent (request opcode remf ms) t"
proof -
  let ?c = "c1 ls"
  have len: "length (sendbuff ?c) = MAXBUFF" "net_up ?c" "0 \<le> sockfd ?c"
    using b by (simp_all add: c1_def asking_from_def buffers_def)
  from send_RQ_returns [OF rq len] obtain w where w: "send_RQ opcode remf (modetype c) ?c = Ret () w" by blast
  from send_RQ_result [OF w len(1)] rq(1) obtain sb sl where
    w': "w = ?c\<lparr>sendbuff := sb, sendlen := sl, sent := sent ?c @ [(peer ?c, request opcode remf ms)]\<rparr>"
      "length sb = MAXBUFF" by auto
  have "clock_ok base (clock w)" "rttfirst w" using clk by (simp_all add: w' c1_def asking_from_def)
  from enter_live [OF this, of opcode] obtain t where t: "fsm_arm (entered opcode w) = Ret () t"
    "started base t" "same_core (w\<lparr>op_sent := opcode\<rparr>) t" "wires w t" by blast
  have e: "obind (send_RQ opcode remf (modetype c) ?c) (\<lambda>_. fsm_enter_cli opcode) = Ret None t"
    using w t(1) by (simp add: fsm_enter_entered)
  have st: "sockfd t = fd" "net_up t = net_up c" "peer t = addr" "recv_first t" "buffers t"
    using t(3,4) w' b(1) by (simp_all add: same_core_def wires_def buffers_def c1_def asking_from_def)
  then have "online t" "greets a t" using b addr by (simp_all add: online_def greets_def)
  moreover have "nextblknum t = blk" "localfp t = Some f" "modetype t = modetype c" "lastcr t = lastcr c"
    "nextchar t = nextchar c" "lastsend t = ls" "op_sent t = opcode"
    "has_sent (request opcode remf ms) t"
    using t(3) by (simp_all add: same_core_def w' c1_def asking_from_def has_sent_def)
  ultimately show ?thesis using e t(2) by (intro exI [of _ t] conjI)
qed

lemma get_live:
  assumes clk: "clock_ok base (clock c)" "rttfirst c" and b: "buffers c" "net_up c" "0 \<le> fd"
    and rq: "mode_name (modetype c) = Some ms" "length (request OP_RRQ remf ms) \<le> MAXBUFF"
    and addr: "snd addr \<noteq> snd a" and f: "opened locf True c = Some f" "f_out f = []" "f_room f = None"
      "\<not> f_closed f" "\<not> f_clserr f" "\<not> lastcr c"
    and dec: "decodes (modetype c) E ys"
  shows "\<exists>t. get_call remf locf fd addr c = Ret None t \<and> cli_sink base a E ys 0 [] t \<and>
    has_sent (request OP_RRQ remf ms) t"
proof -
  obtain tv where tv: "clock c (ticks c) = Some tv" using clk(1) unfolding clock_ok_def by blast
  from client_live [OF clk b rq addr, where f = f and blk = 1 and tv = tv and ls = "lastsend c"] obtain t where t:
    "obind (send_RQ OP_RRQ remf (modetype c) (asking_from f 1 fd addr tv c\<lparr>lastsend := lastsend c\<rparr>))
       (\<lambda>_. fsm_enter_cli OP_RRQ) = Ret None t"
    "started base t" "online t" "greets a t" "nextblknum t = 1" "localfp t = Some f"
    "modetype t = modetype c" "lastcr t = lastcr c" "op_sent t = OP_RRQ"
    "has_sent (request OP_RRQ remf ms) t" by (elim exE conjE) (rule that)
  have ls: "asking_from f 1 fd addr tv c\<lparr>lastsend := lastsend c\<rparr> = asking_from f 1 fd addr tv c"
    by (simp add: asking_from_def)
  have "file_open_cli locf True 1 c = Ret (Some f) (c\<lparr>nextblknum := 1\<rparr>)"
    using f(1) by (simp add: file_open_cli_def opened_def)
  then have "get_start remf locf fd addr c =
      obind (send_RQ OP_RRQ remf (modetype c) (asking_from f 1 fd addr tv c)) (\<lambda>_ s. Ret (Some ()) s)"
    using b(3) tv
    by (simp add: get_start_def net_open_cli_def t_start_def gettimeofday_def Let_def asking_from_def)
  then have "get_call remf locf fd addr c =
      obind (send_RQ OP_RRQ remf (modetype c) (asking_from f 1 fd addr tv c)) (\<lambda>_. fsm_enter_cli OP_RRQ)"
    by (simp add: get_call_def obind_assoc)
  with t(1) have "get_call remf locf fd addr c = Ret None t" by (simp add: ls)
  moreover have "cli_sink base a E ys 0 [] t"
    using t f dec mode_name_cases [OF rq(1)]
    by (auto simp: cli_sink_def sink_at_def writable_def accepted_def)
  ultimately show ?thesis using t(10) by blast
qed

lemma put_live:
  assumes clk: "clock_ok base (clock c)" "rttfirst c" and b: "buffers c" "net_up c" "0 \<le> fd"
    and rq: "mode_name (modetype c) = Some ms" "length (request OP_WRQ remf ms) \<le> MAXBUFF"
    and addr: "snd addr \<noteq> snd a" and f: "opened locf False c = Some f" "\<not> f_closed f" "\<not> f_rderr f"
  shows "\<exists>t. put_call remf locf fd addr c = Ret None t \<and>
    cli_source base a 0 (pending (c\<lparr>localfp := Some f\<rparr>)) MAXDATA t \<and>
    has_sent (request OP_WRQ remf ms) t"
proof -
  obtain tv where tv: "clock c (ticks c) = Some tv" using clk(1) unfolding clock_ok_def by blast
  from client_live [OF clk b rq addr, where f = f and blk = 0 and tv = tv and ls = "int MAXDATA"] obtain t where t:
    "obind (send_RQ OP_WRQ remf (modetype c) (asking_from f 0 fd addr tv c\<lparr>lastsend := int MAXDATA\<rparr>))
       (\<lambda>_. fsm_enter_cli OP_WRQ) = Ret None t"
    "started base t" "online t" "greets a t" "nextblknum t = 0" "localfp t = Some f"
    "modetype t = modetype c" "nextchar t = nextchar c" "lastsend t = int MAXDATA" "op_sent t = OP_WRQ"
    "has_sent (request OP_WRQ remf ms) t" by (elim exE conjE) (rule that)
  have "file_open_cli locf False 0 c = Ret (Some f) (c\<lparr>nextblknum := 0\<rparr>)"
    using f(1) by (simp add: file_open_cli_def opened_def)
  then have "put_start remf locf fd addr c =
      obind (send_RQ OP_WRQ remf (modetype c) (asking_from f 0 fd addr tv c\<lparr>lastsend := int MAXDATA\<rparr>))
        (\<lambda>_ s. Ret (Some ()) s)"
    using b(3) tv
    by (simp add: put_start_def net_open_cli_def t_start_def gettimeofday_def Let_def asking_from_def)
  then have "put_call remf locf fd addr c =
      obind (send_RQ OP_WRQ remf (modetype c) (asking_from f 0 fd addr tv c\<lparr>lastsend := int MAXDATA\<rparr>))
        (\<lambda>_. fsm_enter_cli OP_WRQ)"
    by (simp add: put_call_def obind_assoc)
  with t(1) have "put_call remf locf fd addr c = Ret None t" by simp
  moreover have "pending t = pending (c\<lparr>localfp := Some f\<rparr>)"
    by (rule pending_cong) (use t in simp_all)
  then have "cli_source base a 0 (pending (c\<lparr>localfp := Some f\<rparr>)) MAXDATA t"
    using t f mode_name_cases [OF rq(1)]
    by (auto simp: cli_source_def source_at_def readable_def)
  ultimately show ?thesis using t(11) by blast
qed

section \<open>The server\<close>

text \<open>
  A child that takes the request \<open>d\<close>, in the state in which the handler runs: the socket is
  open, the peer known, nothing sent, and no file yet.
\<close>

definition asked :: "sockaddr \<Rightarrow> byte list \<Rightarrow> fsys \<Rightarrow> tftp \<Rightarrow> bool" where
  "asked a d env u \<longleftrightarrow> online u \<and> linked a u \<and> sent u = [] \<and> fs u = env \<and>
     take (length d) (recvbuff u) = d"

lemma serve_live:
  assumes clk: "clock_ok base clk" and fd: "0 \<le> fd"
    and d: "4 \<le> length d" "length d \<le> MAXBUFF" "OP_MIN \<le> ldshort d" "ldshort d \<le> OP_MAX"
    and handler: "\<And>u. asked a d env u \<Longrightarrow> steady base u \<Longrightarrow>
      \<exists>v. call_srv 0 (ldshort d) (drop 2 (recvbuff u)) (length d - 2) u = Ret 0 v \<and>
        steady base v \<and> wires u v \<and> Q v"
  shows "\<exists>s v. serve_call (Dgram a d) fd (initvars env clk) = Ret None s \<and> Q v \<and> same_core v s \<and>
    wires v s \<and> started base s \<and> linked a s"
proof -
  let ?s0 = "initvars env clk"
  let ?s2 = "?s0\<lparr>recv_nbytes := int (length d), recvbuff := buf_put 0 d (recvbuff ?s0), peer := a, sockfd := fd\<rparr>"
  have o: "net_open (Dgram a d) 0 fd True ?s0 = Ret (Some 0) ?s2"
    using d(2) fd by (simp add: net_open_def net_recv_def Let_def initvars_def)
  have "clock_ok base (clock ?s2)" "rttfirst ?s2" using clk by (simp_all add: initvars_def)
  from enter_live [OF this, of 0] obtain t where t: "fsm_arm (entered 0 ?s2) = Ret () t"
    "started base t" "same_core (?s2\<lparr>op_sent := 0\<rparr>) t" "wires ?s2 t" by blast
  let ?t = "t\<lparr>recv_nbytes := - 1\<rparr>"
  have rb: "recvbuff t = buf_put 0 d (recvbuff ?s0)" "recv_nbytes t = int (length d)"
    using t(4) by (simp_all add: wires_def)
  have e: "serve_call (Dgram a d) fd ?s0 = loop_body (- 1) call_srv (int (length d)) ?t"
    using o t(1) rb(2) by (simp add: serve_call_def fsm_enter_entered fsm_body_loop)
  have tk: "take (length d) (recvbuff ?t) = d" by (simp add: rb buf_simps)
  have ask: "asked a d env ?t"
    using t(3,4) fd tk d(2)
    by (simp add: asked_def online_def buffers_def linked_def same_core_def wires_def initvars_def buf_simps)
  have ask_u: "asked a d env u" if "same_core ?t u" "wires ?t u" for u
    using ask online_core [OF that] wires_linked [OF that(2), of a] that
    by (simp add: asked_def) (simp add: same_core_def wires_def)
  have op: "op_sent ?t = 0" using t(3) by (simp add: same_core_def)
  define P where "P r v \<longleftrightarrow> r = 0 \<and> Q v \<and> wires ?t v" for r :: int and v
  have hnd: "\<exists>r v. call_srv (op_sent ?t) (ldshort d) (drop 2 (recvbuff ?t)) (length d - 2) u = Ret r v \<and>
      steady base v \<and> P r v"
    if u: "same_core ?t u" "wires ?t u" "steady base u" for u
  proof -
    from handler [OF ask_u [OF u(1,2)] u(3)] obtain v where
      "call_srv 0 (ldshort d) (drop 2 (recvbuff u)) (length d - 2) u = Ret 0 v" "steady base v" "wires u v" "Q v"
      by blast
    moreover have "recvbuff u = recvbuff ?t" using u(2) by (simp add: wires_def)
    ultimately show ?thesis unfolding P_def op using wires_trans [OF u(2)] by auto
  qed
  have st: "started base ?t" using t(2) by (simp add: started_def steady_def)
  have "\<exists>r v. P r v \<and> steady base v \<and> (if r < 0 then loop_body (- 1) call_srv (int (length d)) ?t = Ret (Some 0) v
    else \<exists>w. loop_body (- 1) call_srv (int (length d)) ?t = Ret None w \<and> same_core v w \<and> wires v w \<and> started base w)"
    by (rule loop_body_live [where P = P and base = base and s = ?t and d = d and call = call_srv])
      (use st d(1,3,4) tk hnd in simp_all)
  then obtain v w where v: "Q v" "wires ?t v" and w: "loop_body (- 1) call_srv (int (length d)) ?t = Ret None w"
    "same_core v w" "wires v w" "started base w" unfolding P_def by auto
  have "linked a w"
    using ask wires_linked [OF v(2), of a] wires_linked [OF w(3), of a] by (simp add: asked_def)
  with e v(1) w show ?thesis by (intro exI [of _ w] exI [of _ v]) simp
qed

text \<open>A read request for a file that may be read.\<close>

lemma serve_read_live:
  assumes clk: "clock_ok base clk" "0 \<le> fd"
    and rq: "mode_name m = Some ms" "length (request OP_RRQ fname ms) \<le> MAXBUFF"
    and name: "NUL \<notin> set fname" "length fname < MAXFILENAME" "take 1 fname = [47]"
    and fl: "fs_stat env fname = Some st" "bit st 2" "fs_read env fname = Some f" "\<not> f_closed f" "\<not> f_rderr f"
  defines "E \<equiv> stream m (f_in f)"
  shows "\<exists>s. serve_call (Dgram a (request OP_RRQ fname ms)) fd (initvars env clk) = Ret None s \<and>
    srv_source base a 1 (drop 512 E) (length (take 512 E)) s \<and> has_sent (data_packet 1 (take 512 E)) s"
proof -
  let ?d = "request OP_RRQ fname ms"
  have d: "4 \<le> length ?d" "ldshort ?d = OP_RRQ" by (simp_all add: request_parts)
  define Q where "Q v \<longleftrightarrow> source_at 1 (drop 512 E) (length (take 512 E)) v \<and> op_sent v = OP_DATA \<and>
    has_sent (data_packet 1 (take 512 E)) v" for v
  have hnd: "\<exists>v. call_srv 0 (ldshort ?d) (drop 2 (recvbuff u)) (length ?d - 2) u = Ret 0 v \<and>
        steady base v \<and> wires u v \<and> Q v" if u: "asked a ?d env u" "steady base u" for u
  proof -
    have tk: "take (length ?d) (recvbuff u) = ?d" "fs u = env" using u(1) by (simp_all add: asked_def)
    obtain rest where ptr: "drop 2 (recvbuff u) = fname @ NUL # ms @ NUL # rest"
      using drop_received [OF tk(1)] by (auto simp: request_def)
    let ?t = "u\<lparr>modetype := m, nextblknum := 0, lastcr := False, nextchar := - 1, localfp := Some f\<rparr>"
    have x: "recv_xRQ OP_RRQ (drop 2 (recvbuff u)) (length ?d - 2) u = Ret () ?t"
      by (rule recv_xRQ_returns [OF ptr _ name rq(1)]) (use fl tk(2) in \<open>simp_all add: request_parts\<close>)
    let ?w = "?t\<lparr>lastsend := int MAXDATA\<rparr>"
    have "online u" using u(1) by (simp add: asked_def)
    then have w: "source_at 0 E MAXDATA ?w" "steady base ?w" "ldshort (stshort 0) = int 0" "wires u ?w"
      using u(2) fl(4,5) mode_name_cases [OF rq(1)]
      by (auto simp: source_at_def online_def buffers_def readable_def pending_def E_def stream_def
          steady_def wires_def)
    from recv_ACK_live(1) [OF w(1-3)] obtain r v where
      v: "recv_ACK (stshort 0) 2 ?w = Ret r v" "steady base v" "pushed 0 E MAXDATA ?w r v" by blast
    then have "recv_RRQ (drop 2 (recvbuff u)) (length ?d - 2) u = Ret 0 v"
      using x by (simp add: recv_RRQ_def)
    moreover have "Q v" "wires ?w v" using v(3) by (auto simp: pushed_def Q_def intro: has_sent_snoc)
    ultimately show ?thesis using v(2) wires_trans [OF w(4)] d(2) by (auto simp: table_simps)
  qed
  have "\<exists>s v. serve_call (Dgram a ?d) fd (initvars env clk) = Ret None s \<and> Q v \<and> same_core v s \<and>
      wires v s \<and> started base s \<and> linked a s"
    by (rule serve_live [where Q = Q and base = base and d = ?d and a = a and env = env, OF clk d(1) rq(2) _ _ hnd])
      (use d(2) in simp_all)
  then obtain s v where
    s: "serve_call (Dgram a ?d) fd (initvars env clk) = Ret None s" "Q v" "same_core v s" "wires v s"
      "started base s" "linked a s" by blast
  have "source_at 1 (drop 512 E) (length (take 512 E)) s"
    using source_core [OF s(3,4)] s(2) by (simp add: Q_def)
  moreover have "op_sent s = OP_DATA" "has_sent (data_packet 1 (take 512 E)) s"
    using s(2,3) by (simp_all add: Q_def same_core_def has_sent_def)
  ultimately show ?thesis using s(1,5,6) unfolding srv_source_def by blast
qed

text \<open>A write request in a directory that may be written.\<close>

lemma serve_write_live:
  assumes clk: "clock_ok base clk" "0 \<le> fd"
    and rq: "mode_name m = Some ms" "length (request OP_WRQ fname ms) \<le> MAXBUFF"
    and name: "NUL \<notin> set fname" "length fname < MAXFILENAME" "take 1 fname = [47]"
    and fl: "fs_stat env (dir_part fname) = Some st" "bit st 1" "fs_write env fname = Some f" "f_out f = []"
      "f_room f = None" "\<not> f_closed f" "\<not> f_clserr f"
    and dec: "decodes m E ys"
  shows "\<exists>s. serve_call (Dgram a (request OP_WRQ fname ms)) fd (initvars env clk) = Ret None s \<and>
    srv_sink base a E ys 0 [] s \<and> has_sent (ack_packet 0) s"
proof -
  let ?d = "request OP_WRQ fname ms"
  have d: "4 \<le> length ?d" "ldshort ?d = OP_WRQ" by (simp_all add: request_parts)
  define Q where "Q v \<longleftrightarrow> sink_at True 0 [] v \<and> op_sent v = OP_ACK \<and> modetype v = m \<and>
    has_sent (ack_packet 0) v" for v
  have hnd: "\<exists>v. call_srv 0 (ldshort ?d) (drop 2 (recvbuff u)) (length ?d - 2) u = Ret 0 v \<and>
        steady base v \<and> wires u v \<and> Q v" if u: "asked a ?d env u" "steady base u" for u
  proof -
    have tk: "take (length ?d) (recvbuff u) = ?d" "fs u = env" using u(1) by (simp_all add: asked_def)
    obtain rest where ptr: "drop 2 (recvbuff u) = fname @ NUL # ms @ NUL # rest"
      using drop_received [OF tk(1)] by (auto simp: request_def)
    let ?t = "u\<lparr>modetype := m, nextblknum := 0, lastcr := False, nextchar := - 1, localfp := Some f\<rparr>"
    have x: "recv_xRQ OP_WRQ (drop 2 (recvbuff u)) (length ?d - 2) u = Ret () ?t"
      by (rule recv_xRQ_returns [OF ptr _ name rq(1)]) (use fl tk(2) in \<open>simp_all add: request_parts\<close>)
    let ?w = "?t\<lparr>nextblknum := 1\<rparr>"
    have o: "online ?w" using u(1) by (simp add: asked_def online_def buffers_def)
    from ack_block_live [OF o, of 0 MAXDATA] obtain b where b: "length b = MAXBUFF"
      "ack_block (int 0) MAXDATA ?w = Ret 0
        (?w\<lparr>sendbuff := b, sendlen := 4, sent := sent ?w @ [(peer ?w, ack_packet 0)], op_sent := OP_ACK\<rparr>)"
      (is "_ = Ret 0 ?v") by auto
    have "Q ?v" "wires u ?v" "steady base ?v"
      using o b(1) fl u(2) mode_name_cases [OF rq(1)]
      by (auto simp: Q_def sink_at_def online_def buffers_def writable_def accepted_def has_sent_def
          wires_def steady_def)
    moreover have "recv_WRQ (drop 2 (recvbuff u)) (length ?d - 2) u = Ret 0 ?v"
      using x b(2) by (auto simp: recv_WRQ_def ack_block_def)
    ultimately show ?thesis using d(2) by (intro exI [of _ ?v]) (simp add: table_simps)
  qed
  have "\<exists>s v. serve_call (Dgram a ?d) fd (initvars env clk) = Ret None s \<and> Q v \<and> same_core v s \<and>
      wires v s \<and> started base s \<and> linked a s"
    by (rule serve_live [where Q = Q and base = base and d = ?d and a = a and env = env, OF clk d(1) rq(2) _ _ hnd])
      (use d(2) in simp_all)
  then obtain s v where
    s: "serve_call (Dgram a ?d) fd (initvars env clk) = Ret None s" "Q v" "same_core v s" "wires v s"
      "started base s" "linked a s" by blast
  have "sink_at True 0 [] s" using sink_core [OF s(3,4)] s(2) by (simp add: Q_def)
  moreover have "op_sent s = OP_ACK" "has_sent (ack_packet 0) s" "decodes (modetype s) E ys"
    using s(2,3) dec by (simp_all add: Q_def same_core_def has_sent_def)
  ultimately show ?thesis using s(1,5,6) unfolding srv_sink_def by blast
qed

section \<open>Whole transfers\<close>

lemma request_fits:
  assumes "mode_name m = Some ms" "length fname < MAXFILENAME"
  shows "length (request opcode fname ms) \<le> MAXBUFF"
  using assms mode_name_cases [OF assms(1)] by (auto simp: request_parts)

lemma initvars_client:
  "rttfirst (initvars env clk\<lparr>modetype := m\<rparr>)" "buffers (initvars env clk\<lparr>modetype := m\<rparr>)"
  "net_up (initvars env clk\<lparr>modetype := m\<rparr>)" "clock (initvars env clk\<lparr>modetype := m\<rparr>) = clk"
  "\<not> lastcr (initvars env clk\<lparr>modetype := m\<rparr>)" "sent (initvars env clk\<lparr>modetype := m\<rparr>) = []"
  "modetype (initvars env clk\<lparr>modetype := m\<rparr>) = m" "nextchar (initvars env clk\<lparr>modetype := m\<rparr>) = 0"
  "fs (initvars env clk\<lparr>modetype := m\<rparr>) = env"
  "buffers (initvars env clk)" "sent (initvars env clk) = []" "fs (initvars env clk) = env"
  by (simp_all add: initvars_def buffers_def)

text \<open>What the first \<open>put\<close> of a client sends: \<open>nextchar\<close> is still 0.\<close>

lemma first_put:
  "pending (initvars env clk\<lparr>modetype := m\<rparr>\<lparr>localfp := Some f\<rparr>) =
    (if m = MODE_BINARY then f_in f else NUL # nvt_encode (f_in f))"
  by (simp add: pending_def initvars_def)

lemma get_runs:
  fixes cenv senv cclk sclk m
  defines "c0 \<equiv> initvars cenv cclk\<lparr>modetype := m\<rparr>" and "s0 \<equiv> initvars senv sclk"
  assumes clk: "clock_ok cbase cclk" "clock_ok sbase sclk" "0 \<le> cfd" "0 \<le> sfd"
    and mode: "m = MODE_ASCII \<or> m = MODE_BINARY"
    and name: "NUL \<notin> set remf" "length remf < MAXFILENAME" "take 1 remf = [47]"
    and rfl: "fs_stat senv remf = Some st" "bit st 2" "fs_read senv remf = Some f" "\<not> f_closed f" "\<not> f_rderr f"
    and lfl: "opened locf True c0 = Some g" "f_out g = []" "f_room g = None" "\<not> f_closed g" "\<not> f_clserr g"
    and len: "length (stream m (f_in f)) < 512 * 65535"
  shows "\<exists>s c. transfer (get_call remf locf cfd addr c0) (\<lambda>e. serve_call e sfd s0)
    (Some (Finished, s)) (Finished, c)"
proof -
  let ?E = "stream m (f_in f)"
  obtain ms where ms: "mode_name m = Some ms" using mode by (auto simp: mode_name_def)
  note fits = request_fits [OF ms name(2)]
  obtain sa :: sockaddr where sa: "snd addr \<noteq> snd sa" by (rule that [of "(0, snd addr + 1)"]) simp
  have c0: "clock_ok cbase (clock c0)" "rttfirst c0" "buffers c0" "net_up c0" "mode_name (modetype c0) = Some ms"
    "\<not> lastcr c0" "decodes (modetype c0) ?E (f_in f)"
    unfolding c0_def initvars_client using clk(1) ms decodes_stream by (auto simp: initvars_client)
  from get_live [OF c0(1-4) clk(3) c0(5) fits sa lfl c0(6,7)] obtain c where
    c: "get_call remf locf cfd addr c0 = Ret None c" "cli_sink cbase sa ?E (f_in f) 0 [] c"
      "has_sent (request OP_RRQ remf ms) c" unfolding has_sent_def by auto
  from serve_read_live [OF clk(2,4) ms fits name rfl, of "(0, 0)"] obtain s where
    s: "serve_call (Dgram (0, 0) (request OP_RRQ remf ms)) sfd s0 = Ret None s"
      "srv_source sbase (0, 0) 1 (drop 512 ?E) (length (take 512 ?E)) s"
      "has_sent (data_packet 1 (take 512 ?E)) s" unfolding s0_def by auto
  let ?run = "transfer (get_call remf locf cfd addr c0) (\<lambda>e. serve_call e sfd s0)"
  have "heard c (Dgram (0, 0) (request OP_RRQ remf ms))" using c(3) by (simp add: heard_def has_sent_def)
  from transfer_accept [OF transfer_start [OF c(1)] this, of "\<lambda>e. serve_call e sfd s0"] s(1)
  have run: "?run (Some (Running, s)) (Running, c)" by simp
  show ?thesis
    by (rule get_steps.lockstep_data [where s = s and r = c and k = 0 and p = "drop 512 ?E" and
        blk = "take 512 ?E" and xs = "[]" and E = ?E and ys = "f_in f" and sbase = sbase and cbase = cbase
        and ca = "(0, 0)" and sa = sa])
      (use run s(2,3) c(2) len in \<open>simp_all add: has_sent_def\<close>)
qed

lemma put_runs:
  fixes cenv senv cclk sclk m
  defines "c0 \<equiv> initvars cenv cclk\<lparr>modetype := m\<rparr>" and "s0 \<equiv> initvars senv sclk"
  assumes clk: "clock_ok cbase cclk" "clock_ok sbase sclk" "0 \<le> cfd" "0 \<le> sfd"
    and mode: "m = MODE_ASCII \<or> m = MODE_BINARY"
    and name: "NUL \<notin> set remf" "length remf < MAXFILENAME" "take 1 remf = [47]"
    and wfl: "fs_stat senv (dir_part remf) = Some st" "bit st 1" "fs_write senv remf = Some g" "f_out g = []"
      "f_room g = None" "\<not> f_closed g" "\<not> f_clserr g"
    and lfl: "opened locf False c0 = Some f" "\<not> f_closed f" "\<not> f_rderr f"
    and len: "length (pending (c0\<lparr>localfp := Some f\<rparr>)) < 512 * 65535"
  shows "\<exists>s c. transfer (put_call remf locf cfd addr c0) (\<lambda>e. serve_call e sfd s0)
    (Some (Finished, s)) (Finished, c)"
proof -
  let ?E = "pending (c0\<lparr>localfp := Some f\<rparr>)"
  obtain ms where ms: "mode_name m = Some ms" using mode by (auto simp: mode_name_def)
  note fits = request_fits [OF ms name(2)]
  obtain sa :: sockaddr where sa: "snd addr \<noteq> snd sa" by (rule that [of "(0, snd addr + 1)"]) simp
  have c0: "clock_ok cbase (clock c0)" "rttfirst c0" "buffers c0" "net_up c0" "mode_name (modetype c0) = Some ms"
    unfolding c0_def using clk(1) ms by (auto simp: initvars_client)
  have "\<exists>ys. decodes m ?E ys"
    unfolding c0_def first_put by (simp add: decodes_def nvt_decode_encode)
  then obtain ys where dec: "decodes m ?E ys" by blast
  from put_live [OF c0(1-4) clk(3) c0(5) fits sa lfl] obtain c where
    c: "put_call remf locf cfd addr c0 = Ret None c" "cli_source cbase sa 0 ?E MAXDATA c"
      "has_sent (request OP_WRQ remf ms) c" unfolding has_sent_def by auto
  from serve_write_live [OF clk(2,4) ms fits name wfl dec, of "(0, 0)"] obtain s where
    s: "serve_call (Dgram (0, 0) (request OP_WRQ remf ms)) sfd s0 = Ret None s"
      "srv_sink sbase (0, 0) ?E ys 0 [] s" "has_sent (ack_packet 0) s" unfolding s0_def by auto
  let ?run = "transfer (put_call remf locf cfd addr c0) (\<lambda>e. serve_call e sfd s0)"
  have "heard c (Dgram (0, 0) (request OP_WRQ remf ms))" using c(3) by (simp add: heard_def has_sent_def)
  from transfer_accept [OF transfer_start [OF c(1)] this, of "\<lambda>e. serve_call e sfd s0"] s(1)
  have run: "?run (Some (Running, s)) (Running, c)" by simp
  have "\<exists>c s. ?run (Some (Finished, s)) (Finished, c)"
    by (rule put_steps.lockstep_ack [where s = c and r = s and E = ?E and ys = ys and sbase = sbase and
        cbase = cbase and ca = "(0, 0)" and sa = sa])
      (use run s(2,3) c(2) len in \<open>simp_all add: has_sent_def\<close>)
  then show ?thesis by blast
qed

end
