(* ===== verification/TftpProps.thy ===== *)
theory TftpProps
  imports TftpStart
begin

text \<open>
  What the TFTP client and server guarantee: the contents of a received file whatever the
  network does, the completion of a transfer without losses, giving up in silence, the
  behaviour of the retransmission timer, and how requests are built, parsed and refused.
\<close>

section \<open>Transfers\<close>


















end
