(* ===== verification/TftpSilence.thy ===== *)
theory TftpSilence
  imports TftpStart
begin

text \<open>
  A program that hears nothing: each timeout doubles the back-off and sends the last packet
  again, and the fifth ends the loop. The alarm times are those of the timer, which multiplies
  a C \<open>short\<close>.
\<close>

section \<open>One timeout\<close>

text \<open>A program that can send, and a timer before its \<open>k\<close>-th retransmission.\<close>

definition silent :: "nat \<Rightarrow> int \<Rightarrow> tftp \<Rightarrow> bool" where
  "silent k t0 s \<longleftrightarrow> net_up s \<and> 0 \<le> sockfd s \<and> rtt_nrexmt (rttinfo s) = int k \<and>
     rtt_currto (rttinfo s) = t0 \<and> (k = 0 \<longrightarrow> clock s (ticks s) \<noteq> None)"

text \<open>What stays while the timeouts come.\<close>

definition holds_on :: "tftp \<Rightarrow> tftp \<Rightarrow> bool" where
  "holds_on s t \<longleftrightarrow> peer t = peer s \<and> sendbuff t = sendbuff s \<and> sendlen t = sendlen s \<and>
     localfp t = localfp s \<and> nextblknum t = nextblknum s"

lemma holds_on_trans: "holds_on s t \<Longrightarrow> holds_on t u \<Longrightarrow> holds_on s u"
  by (simp add: holds_on_def)

lemma rtt_stop_any_returns:
  "rtt_nrexmt p > 0 \<or> now \<noteq> None \<Longrightarrow> \<exists>q. rtt_stop now p = Ret () q \<and>
     rtt_nrexmt q = rtt_nrexmt p \<and> rtt_currto q = rtt_currto p"
  by (auto simp: rtt_stop_def Let_def split: option.splits)

lemma rtt_timeout_returns:
  assumes "rtt_nrexmt p = int k" "k \<le> 4" "k = 0 \<longrightarrow> now \<noteq> None"
  shows "\<exists>q. rtt_timeout now p = Ret (if k < 4 then 0 else - 1) q \<and> rtt_nrexmt q = int k + 1 \<and>
    rtt_currto q = rtt_currto p"
proof -
  from assms obtain q where q: "rtt_stop now p = Ret () q" "rtt_nrexmt q = int k" "rtt_currto q = rtt_currto p"
    using rtt_stop_any_returns [of p now] by (cases "k = 0") auto
  have "to_short (int k + 1) = int k + 1" using assms(2) by (intro to_short_id) simp_all
  with q assms(2) show ?thesis by (auto simp: rtt_timeout_def Let_def)
qed

lemma silent_step:
  assumes "silent k t0 s" "k < 4"
  defines "t1 \<equiv> to_short (t0 * 2 ^ (k + 1))"
  shows "\<exists>t. loop_body ec call (- 1) (s\<lparr>tout_flag := True\<rparr>) = Ret None t \<and> silent (k + 1) t1 t \<and>
    alarm_secs t = t1 \<and> holds_on s t \<and> sent t = sent s @ [(peer s, take (sendlen s) (sendbuff s))]"
proof -
  from assms(1) have s: "net_up s" "0 \<le> sockfd s" "rtt_nrexmt (rttinfo s) = int k" "rtt_currto (rttinfo s) = t0"
    "k = 0 \<longrightarrow> clock s (ticks s) \<noteq> None" by (simp_all add: silent_def)
  from rtt_timeout_returns [OF s(3) _ s(5)] assms(2) obtain q where
    q: "rtt_timeout (clock s (ticks s)) (rttinfo s) = Ret 0 q" "rtt_nrexmt q = int k + 1" "rtt_currto q = t0"
    using s(4) by auto
  have "1 \<le> rtt_nrexmt q" "rtt_nrexmt q \<le> RTT_MAXNREXMT" "nat (rtt_nrexmt q) = k + 1"
    using q(2) assms(2) by simp_all
  from rtt_start_retransmit [OF this(1,2)] this(3) q(3)
  have r: "rtt_start now q = Ret t1 (q\<lparr>rtt_currto := t1\<rparr>)" for now by (simp add: t1_def)
  show ?thesis
    using s q r by (auto simp: loop_body_def on_rtt_def gettimeofday_def net_send_def fsm_arm_def Let_def
        silent_def holds_on_def)
qed

lemma silent_end:
  assumes "silent 4 t0 s"
  shows "\<exists>t. loop_body ec call (- 1) (s\<lparr>tout_flag := True\<rparr>) = Ret (Some (- 1)) t \<and> holds_on s t \<and> sent t = sent s"
proof -
  from assms have s: "rtt_nrexmt (rttinfo s) = int 4" by (simp add: silent_def)
  from rtt_timeout_returns [OF s, of "clock s (ticks s)"] obtain q where
    "rtt_timeout (clock s (ticks s)) (rttinfo s) = Ret (- 1) q" by auto
  then show ?thesis by (auto simp: loop_body_def on_rtt_def gettimeofday_def Let_def holds_on_def)
qed

section \<open>Several of them\<close>

text \<open>Both loops on an alarm.\<close>

lemma alarm_event:
  "fsm_event (Intr True) s = loop_body (- 1) call_srv (- 1) (s\<lparr>tout_flag := True\<rparr>)"
  "fsm_event_cli (Intr True) s = loop_body 1 call_cli (- 1) (s\<lparr>tout_flag := True\<rparr>)"
  by (simp_all add: fsm_event_def net_recv_def fsm_event_cli_def net_recv_cli_def fsm_body_loop
      fsm_body_cli_loop Let_def)

text \<open>The timeout after \<open>k\<close> retransmissions in a row.\<close>

fun backed_off :: "int \<Rightarrow> nat \<Rightarrow> int" where
  "backed_off t0 0 = t0"
| "backed_off t0 (Suc k) = to_short (backed_off t0 k * 2 ^ (k + 1))"

lemma backed_off_small: "2 \<le> t0 \<Longrightarrow> t0 * 2 ^ (k * (k + 1) div 2) < 32768 \<Longrightarrow>
    backed_off t0 k = t0 * 2 ^ (k * (k + 1) div 2)"
proof (induction k)
  case (Suc k)
  define a where "a = k * (k + 1) div 2"
  have e: "Suc k * (Suc k + 1) div 2 = a + (k + 1)" by (simp add: a_def)
  have "(2 :: int) ^ a \<le> 2 ^ (a + (k + 1))" by (rule power_increasing) simp_all
  then have "t0 * 2 ^ a \<le> t0 * 2 ^ (a + (k + 1))" using Suc.prems(1) by (intro mult_left_mono) simp_all
  then have "backed_off t0 k = t0 * 2 ^ a"
    using Suc.IH [OF Suc.prems(1)] Suc.prems(2) unfolding e a_def [symmetric] by linarith
  then have "backed_off t0 (Suc k) = to_short (t0 * 2 ^ (a + (k + 1)))"
    by (simp add: power_add ac_simps)
  also have "\<dots> = t0 * 2 ^ (a + (k + 1))"
    using Suc.prems unfolding e by (intro to_short_id) (auto intro: order_trans [of _ 0])
  finally show ?case unfolding e .
qed simp

text \<open>A run over a list of events, for either program.\<close>

fun run_events :: "(rcv \<Rightarrow> int option prog) \<Rightarrow> rcv list \<Rightarrow> int option prog" where
  "run_events ev [] s = Ret None s"
| "run_events ev (e # es) s = obind (ev e s) (\<lambda>r s. case r of None \<Rightarrow> run_events ev es s | Some r \<Rightarrow> Ret (Some r) s)"

lemma run_events_eq: "fsm_run es s = run_events fsm_event es s" "fsm_run_cli es s = run_events fsm_event_cli es s"
proof -
  have "\<And>s. fsm_run es s = run_events fsm_event es s" by (induction es) (simp_all cong: option.case_cong)
  then show "fsm_run es s = run_events fsm_event es s" .
  have "\<And>s. fsm_run_cli es s = run_events fsm_event_cli es s" by (induction es) (simp_all cong: option.case_cong)
  then show "fsm_run_cli es s = run_events fsm_event_cli es s" .
qed

lemma run_events_append:
  "run_events ev (xs @ ys) s = obind (run_events ev xs s) (\<lambda>r s.
     case r of None \<Rightarrow> run_events ev ys s | Some r \<Rightarrow> Ret (Some r) s)"
  by (induction xs arbitrary: s) (auto simp: obind_assoc split: option.splits intro!: obind_cong)

lemma silent_run:
  assumes ev: "\<And>s. ev (Intr True) s = loop_body ec call (- 1) (s\<lparr>tout_flag := True\<rparr>)"
    and s: "silent 0 t0 s" and k: "k \<le> 4"
  shows "\<exists>t. run_events ev (replicate k (Intr True)) s = Ret None t \<and> silent k (backed_off t0 k) t \<and>
    (0 < k \<longrightarrow> alarm_secs t = backed_off t0 k) \<and> holds_on s t \<and>
    sent t = sent s @ replicate k (peer s, take (sendlen s) (sendbuff s))"
  using k
proof (induction k)
  case 0
  then show ?case using s by (simp add: holds_on_def)
next
  case (Suc k)
  then obtain t where t: "run_events ev (replicate k (Intr True)) s = Ret None t" "silent k (backed_off t0 k) t"
    "holds_on s t" "sent t = sent s @ replicate k (peer s, take (sendlen s) (sendbuff s))" by auto
  from silent_step [OF t(2), of ec call] Suc.prems obtain u where
    u: "ev (Intr True) t = Ret None u" "silent (k + 1) (backed_off t0 (Suc k)) u"
      "alarm_secs u = backed_off t0 (Suc k)" "holds_on t u"
      "sent u = sent t @ [(peer t, take (sendlen t) (sendbuff t))]" unfolding ev by auto
  have "run_events ev (replicate (Suc k) (Intr True)) s = Ret None u"
    unfolding replicate_Suc replicate_append_same [symmetric] run_events_append using t(1) u(1) by simp
  moreover have "sent u = sent s @ replicate (Suc k) (peer s, take (sendlen s) (sendbuff s))"
    using t(3,4) u(5) by (simp add: holds_on_def replicate_append_same [symmetric])
  ultimately show ?case using u(2-4) holds_on_trans [OF t(3)] by auto
qed

lemma silent_run_end:
  assumes ev: "\<And>s. ev (Intr True) s = loop_body ec call (- 1) (s\<lparr>tout_flag := True\<rparr>)"
    and s: "silent 0 t0 s"
  shows "\<exists>t. run_events ev (replicate 5 (Intr True)) s = Ret (Some (- 1)) t \<and> holds_on s t \<and>
    sent t = sent s @ replicate 4 (peer s, take (sendlen s) (sendbuff s))"
proof -
  from silent_run [where ev = ev and ec = ec and call = call and k = 4, OF ev s] obtain t where
    t: "run_events ev (replicate 4 (Intr True)) s = Ret None t" "silent 4 (backed_off t0 4) t" "holds_on s t"
      "sent t = sent s @ replicate 4 (peer s, take (sendlen s) (sendbuff s))" by auto
  from silent_end [OF t(2), of ec call] obtain u where
    u: "ev (Intr True) t = Ret (Some (- 1)) u" "holds_on t u" "sent u = sent t" unfolding ev by blast
  have "replicate 5 (Intr True) = replicate 4 (Intr True) @ [Intr True]"
    by (simp add: eval_nat_numeral)
  with t(1) u(1) have "run_events ev (replicate 5 (Intr True)) s = Ret (Some (- 1)) u"
    by (simp add: run_events_append)
  with t(3,4) u(2,3) show ?thesis using holds_on_trans by auto
qed

lemmas srv_silent_run = silent_run [where ev = fsm_event and ec = "- 1" and call = call_srv, OF alarm_event(1)]
lemmas srv_silent_end = silent_run_end [where ev = fsm_event and ec = "- 1" and call = call_srv, OF alarm_event(1)]
lemmas cli_silent_end = silent_run_end [where ev = fsm_event_cli and ec = 1 and call = call_cli, OF alarm_event(2)]

end
