(* ===== verification/TftpPackets.thy ===== *)
theory TftpPackets
  imports TftpRequest
begin

text \<open>
  The netascii conversion across block boundaries, from the file routines that read to those
  that write, and datagrams that come late or from somebody else.
\<close>

section \<open>From file to file\<close>

text \<open>One program's \<open>file_read\<close> feeding the other's \<open>file_write\<close>, in pieces of any sizes.\<close>

fun relay :: "nat list \<Rightarrow> tftp \<Rightarrow> tftp \<Rightarrow> (tftp \<times> tftp) option" where
  "relay [] s c = Some (s, c)"
| "relay (n # ns) s c = (case file_read n (modetype s) s of
     Ret bs s' \<Rightarrow> (case file_write_cli bs (modetype c) c of
        Ret _ c' \<Rightarrow> relay ns s' c'
      | _ \<Rightarrow> None)
   | _ \<Rightarrow> None)"

lemma read_result_readable:
  "read_result s n bs t \<Longrightarrow> readable s \<Longrightarrow> readable t \<and> modetype t = modetype s"
  unfolding read_result_def readable_def by (elim conjE exE, erule ssubst [of t]) auto

lemma relay_live:
  assumes "readable s" "writable c" "accepted c xs" "modetype c = modetype s"
    "decodes (modetype c) (xs @ pending s) ys" "length (pending s) \<le> sum_list ns"
  shows "\<exists>s' c' h. relay ns s c = Some (s', c') \<and> localfp c' = Some h \<and> f_out h = ys"
  using assms
proof (induction ns arbitrary: s c xs)
  case Nil
  then have "pending s = []" by simp
  with Nil accepted_all [of c xs ys] show ?case by simp
next
  case (Cons n ns)
  from file_read_returns(1) [OF Cons.prems(1), of n] obtain bs s' where
    s': "file_read n (modetype s) s = Ret bs s'" by blast
  from file_read_result [OF this] have r: "read_result s n bs s'" .
  then have bs: "bs = take n (pending s)" "pending s' = drop n (pending s)" by (simp_all add: read_result_def)
  then have xs: "xs @ pending s = xs @ bs @ pending s'" by simp
  have "takes c bs"
    using accepted_takes [OF Cons.prems(3), of bs "pending s'" ys] Cons.prems(5) xs by simp
  from file_write_live(2) [OF Cons.prems(2) this] obtain c' where
    c': "file_write_cli bs (modetype c) c = Ret () c'" "writable c'" by blast
  have wr: "write_result c bs c'" by (rule file_write_cli_result [OF c'(1)])
  have a: "accepted c' (xs @ bs)" using wr Cons.prems(3) unfolding write_result_def by blast
  have m: "modetype c' = modetype c" using write_result_keeps [OF wr] by simp
  from read_result_readable [OF r Cons.prems(1)] have rd: "readable s'" "modetype s' = modetype s" by simp_all
  have "decodes (modetype c') ((xs @ bs) @ pending s') ys" "length (pending s') \<le> sum_list ns"
    using Cons.prems(5,6) xs m bs(2) by simp_all
  from Cons.IH [OF rd(1) c'(2) a _ this] rd(2) m Cons.prems(4) s' c'(1) show ?case by simp
qed

text \<open>What \<open>file_write\<close> does in netascii, errors included, on a device that takes everything.\<close>

lemma file_write_ascii_exact:
  assumes "f_room fp = None"
  shows "case nvt_decode (lastcr s) bs of
      None \<Rightarrow> \<exists>t. file_write_ascii ec bs fp s = Exit ec t
    | Some (out, cr) \<Rightarrow> file_write_ascii ec bs fp s =
        Ret () (s\<lparr>localfp := Some (fp\<lparr>f_out := f_out fp @ out\<rparr>), lastcr := cr\<rparr>)"
  using assms
proof (induction bs arbitrary: fp s)
  case Nil
  then show ?case by simp
next
  case (Cons c cs)
  consider "lastcr s \<and> c \<noteq> LF \<and> c \<noteq> NUL" | "\<not> lastcr s \<and> c = CR"
    | "\<not> (lastcr s \<and> c \<noteq> LF \<and> c \<noteq> NUL)" "\<not> (\<not> lastcr s \<and> c = CR)" by blast
  then show ?case
  proof cases
    case 1
    then show ?thesis by simp
  next
    case 2
    with Cons.IH [OF Cons.prems, of "s\<lparr>lastcr := True\<rparr>"] show ?thesis
      by (auto split: option.splits)
  next
    case 3
    define b where "b = (if lastcr s then (if c = LF then LF else CR) else c)"
    let ?g = "fp\<lparr>f_out := f_out fp @ [b]\<rparr>"
    have w: "f_writen [b] fp = (1, ?g)" using Cons.prems by (simp add: f_writen_def Let_def)
    have g: "f_room ?g = None" using Cons.prems by simp
    have d: "nvt_decode (lastcr s) (c # cs) = map_option (apfst (Cons b)) (nvt_decode False cs)"
      using 3 by (auto simp: b_def)
    have e: "file_write_ascii ec (c # cs) fp s = file_write_ascii ec cs ?g (s\<lparr>lastcr := False\<rparr>)"
      unfolding file_write_ascii.simps(2) if_not_P [OF 3(1)] if_not_P [OF 3(2)] b_def [symmetric] Let_def w
      by simp
    from Cons.IH [OF g, of "s\<lparr>lastcr := False\<rparr>"] show ?thesis
      unfolding d e by (cases "nvt_decode False cs") auto
  qed
qed

section \<open>Late datagrams\<close>

text \<open>A packet on which the handler changes nothing but the timers.\<close>

lemma ignored_event:
  assumes d: "delivered a d s t" "4 \<le> length d" "OP_MIN \<le> ldshort d" "ldshort d \<le> OP_MAX" and st: "started base s"
    and H: "\<And>u. same_core s u \<Longrightarrow> call (op_sent s) (ldshort d) (drop 2 (recvbuff t)) (length d - 2) u = Ret 0 u"
  shows "\<exists>v. loop_body ec call (int (length d)) t = Ret None v \<and> same_core s v \<and> started base v \<and> linked a v \<and>
    online v = online s"
proof -
  have t: "same_core s t" "take (length d) (recvbuff t) = d" "linked a t" "op_sent t = op_sent s" "started base t"
    using d st delivered_started [OF d(1)] by (simp_all add: delivered_def same_core_def)
  define P where "P r v \<longleftrightarrow> r = 0 \<and> same_core s v \<and> wires t v" for r :: int and v
  have "\<exists>r v. call (op_sent t) (ldshort d) (drop 2 (recvbuff t)) (length d - 2) u = Ret r v \<and> steady base v \<and> P r v"
    if u: "same_core t u" "wires t u" "steady base u" for u
    using H [OF same_core_trans [OF t(1) u(1)]] same_core_trans [OF t(1) u(1)] u t(4) unfolding P_def by auto
  then have "\<exists>r v. P r v \<and> steady base v \<and> (if r < 0 then loop_body ec call (int (length d)) t = Ret (Some 0) v
    else \<exists>w. loop_body ec call (int (length d)) t = Ret None w \<and> same_core v w \<and> wires v w \<and> started base w)"
    by (intro loop_body_live [where P = P and base = base and s = t and d = d and call = call] t(2,5) d(2-4))
  then obtain r v w where v: "P r v" and w: "loop_body ec call (int (length d)) t = Ret None w"
    "same_core v w" "wires v w" "started base w" unfolding P_def by auto
  have core: "same_core s w" "linked a w" "wires t w"
    using v w(2,3) t(3) same_core_trans [of s v w] wires_linked [of t v a] wires_linked [of v w a] wires_trans
    by (auto simp: P_def)
  have "online w = online s"
    using core(1,3) d(1) by (simp add: online_def buffers_def same_core_def wires_def delivered_def)
  with w core(1,2) show ?thesis by blast
qed

lemma late_ack_handler:
  assumes "ldshort ptr = nextblknum u - 1"
  shows "recv_ACK ptr 2 u = Ret 0 u" "recv_ACK_cli ptr 2 u = Ret 0 u"
  using assms by (simp_all add: recv_ACK_def recv_ACK_cli_def Let_def)

lemma source_same: "same_core s t \<Longrightarrow> online t = online s \<Longrightarrow> source_at k p ls t = source_at k p ls s"
  using same_core_obs(1) [of s t] by (simp add: source_at_def readable_def) (simp add: same_core_def)

text \<open>A late acknowledgement leaves either sender where it is.\<close>

lemma srv_late_ack:
  assumes "srv_source base a k p ls s" "1 \<le> k" "k < 65536"
  shows "\<exists>t. fsm_event (Dgram a (ack_packet (k - 1))) s = Ret None t \<and> sent t = sent s \<and>
    srv_source base a k p ls t"
proof -
  let ?d = "ack_packet (k - 1)"
  from assms(1) have s: "source_at k p ls s" "started base s" "linked a s" "op_sent s = OP_DATA"
    by (simp_all add: srv_source_def)
  then have b: "length (recvbuff s) = MAXBUFF" by (simp add: source_at_def online_def buffers_def)
  have dl: "length ?d = 4" "ldshort ?d = OP_ACK" "ldshort (drop 2 ?d) = int k - 1"
    using assms(2,3) by (simp_all add: ack_packet_def of_nat_diff)
  from srv_delivers [OF s(3) _ b, of ?d] obtain t where
    t: "fsm_event (Dgram a ?d) s = loop_body (- 1) call_srv (int (length ?d)) t" "delivered a ?d s t"
    by (auto simp: ack_length)
  have num: "ldshort (drop 2 (recvbuff t)) = int k - 1"
    using handler_args(1) [of ?d "recvbuff t"] t(2) dl by (simp add: delivered_def)
  have h: "call_srv (op_sent s) (ldshort ?d) (drop 2 (recvbuff t)) (length ?d - 2) u = Ret 0 u"
    if "same_core s u" for u
    using late_ack_handler(1) [of "drop 2 (recvbuff t)" u] num that s(1,4) dl
    by (simp add: table_simps same_core_def source_at_def)
  have "\<exists>v. loop_body (- 1) call_srv (int (length ?d)) t = Ret None v \<and> same_core s v \<and> started base v \<and>
      linked a v \<and> online v = online s"
    by (rule ignored_event [where call = call_srv and base = base and ec = "- 1", OF t(2) _ _ _ s(2) h])
      (use dl in simp_all)
  then obtain v where v: "fsm_event (Dgram a ?d) s = Ret None v" "same_core s v" "started base v" "linked a v"
      "online v = online s" unfolding t(1) by blast
  moreover have "sent v = sent s" "op_sent v = OP_DATA" using v(2) s(4) by (simp_all add: same_core_def)
  ultimately show ?thesis using s(1) source_same [OF v(2,5)] by (auto simp: srv_source_def)
qed

lemma cli_late_ack:
  assumes "cli_source base a k p ls s" "1 \<le> k" "k < 65536"
  shows "\<exists>t. fsm_event_cli (Dgram a (ack_packet (k - 1))) s = Ret None t \<and> sent t = sent s \<and>
    cli_source base a k p ls t"
proof -
  let ?d = "ack_packet (k - 1)"
  from assms(1) have s: "source_at k p ls s" "started base s" "linked a s \<or> greets a s"
    "op_sent s = OP_WRQ \<or> op_sent s = OP_DATA" by (simp_all add: cli_source_def)
  then have b: "length (recvbuff s) = MAXBUFF" by (simp add: source_at_def online_def buffers_def)
  have dl: "length ?d = 4" "ldshort ?d = OP_ACK" "ldshort (drop 2 ?d) = int k - 1"
    using assms(2,3) by (simp_all add: ack_packet_def of_nat_diff)
  from cli_delivers [OF s(3) _ b, of ?d] obtain t where
    t: "fsm_event_cli (Dgram a ?d) s = loop_body 1 call_cli (int (length ?d)) t" "delivered a ?d s t"
    by (auto simp: ack_length)
  have num: "ldshort (drop 2 (recvbuff t)) = int k - 1"
    using handler_args(1) [of ?d "recvbuff t"] t(2) dl by (simp add: delivered_def)
  have h: "call_cli (op_sent s) (ldshort ?d) (drop 2 (recvbuff t)) (length ?d - 2) u = Ret 0 u"
    if "same_core s u" for u
    using late_ack_handler(2) [of "drop 2 (recvbuff t)" u] num that s(1,4) dl
    by (auto simp: table_simps same_core_def source_at_def)
  have "\<exists>v. loop_body 1 call_cli (int (length ?d)) t = Ret None v \<and> same_core s v \<and> started base v \<and>
      linked a v \<and> online v = online s"
    by (rule ignored_event [where call = call_cli and base = base and ec = 1, OF t(2) _ _ _ s(2) h])
      (use dl in simp_all)
  then obtain v where v: "fsm_event_cli (Dgram a ?d) s = Ret None v" "same_core s v" "started base v" "linked a v"
      "online v = online s" unfolding t(1) by blast
  moreover have "sent v = sent s" "op_sent v = op_sent s" using v(2) by (simp_all add: same_core_def)
  ultimately show ?thesis using s(1,4) source_same [OF v(2,5)] by (auto simp: cli_source_def)
qed

section \<open>Foreign datagrams\<close>

text \<open>The server's check of the sender's port ends the process.\<close>

lemma net_recv_stranger:
  "\<not> recv_first s \<Longrightarrow> snd (peer s) \<noteq> 0 \<Longrightarrow> snd a \<noteq> snd (peer s) \<Longrightarrow> length (recvbuff s) = MAXBUFF \<Longrightarrow>
   \<exists>t. net_recv (Dgram a d) s = Exit 1 t \<and> same_core s t"
  "\<not> recv_first s \<Longrightarrow> snd a \<noteq> snd (peer s) \<Longrightarrow> length (recvbuff s) = MAXBUFF \<Longrightarrow>
   \<exists>t. net_recv_cli (Dgram a d) s = Exit 1 t \<and> same_core s t"
  by (auto simp: net_recv_def net_recv_cli_def Let_def same_core_def buf_simps)

end
