(* ===== verification/TftpRules.thy ===== *)
theory TftpRules
  imports TftpPackets
begin

text \<open>
  The rules of the protocol one by one: what a timer does when nothing answers, how requests
  are built, parsed and refused, what the netascii conversion does to a file across block
  boundaries, and how late or foreign datagrams are treated.
\<close>

section \<open>Timers\<close>


definition sample_waiting :: "int \<Rightarrow> tftp" where
  "sample_waiting t0 = (initvars \<lparr>fs_stat = \<lambda>_. None, fs_read = \<lambda>_. None, fs_write = \<lambda>_. None,
       fs_stdout = \<lparr>f_in = [], f_rderr = False, f_out = [], f_room = None, f_clserr = False, f_closed = False,
         f_std = True\<rparr>\<rparr> (\<lambda>_. Some (0, 0)))
     \<lparr>sockfd := 3, rttinfo := zero_rtt\<lparr>rtt_currto := t0\<rparr>, peer := (0, 69), sendlen := 4, modetype := MODE_ASCII\<rparr>"

lemma sample_waiting_simps:
  "net_up (sample_waiting t0)" "sockfd (sample_waiting t0) = 3" "rtt_nrexmt (rttinfo (sample_waiting t0)) = 0"
  "clock (sample_waiting t0) = (\<lambda>_. Some (0, 0))" "rtt_currto (rttinfo (sample_waiting t0)) = t0"
  "sent (sample_waiting t0) = []" "localfp (sample_waiting t0) = None" "peer (sample_waiting t0) = (0, 69)"
  by (simp_all add: sample_waiting_def initvars_def zero_rtt_def)


text \<open>
  The alarm after the \<open>k\<close>-th timeout in a row is the first timeout times 2, 8, 64 and 1024,
  as long as the product fits into a C \<open>short\<close>; from a timeout of 64 seconds the fourth
  retransmission sets \<open>alarm (0)\<close>, which never rings.
\<close>

theorem backoff_in_silence:
  assumes "net_up s" "0 \<le> sockfd s" "rtt_nrexmt (rttinfo s) = 0" "clock s (ticks s) \<noteq> None"
    and "rtt_currto (rttinfo s) = t0" "RTT_RXTMIN \<le> t0" "1 \<le> k" "k \<le> 4"
  shows "\<exists>t. fsm_run (replicate k (Intr True)) s = Ret None t \<and>
    (t0 * 2 ^ (k * (k + 1) div 2) < 32768 \<longrightarrow> alarm_secs t = t0 * 2 ^ (k * (k + 1) div 2)) \<and>
    (t0 = 64 \<and> k = 4 \<longrightarrow> alarm_secs t = 0)"
proof -
  have "silent 0 t0 s" using assms(1-5) by (simp add: silent_def)
  from srv_silent_run [OF this assms(8)] assms(7) obtain t where
    t: "fsm_run (replicate k (Intr True)) s = Ret None t" "alarm_secs t = backed_off t0 k"
    unfolding run_events_eq by auto
  have "backed_off 64 4 = 0" by (simp add: eval_nat_numeral to_short_def)
  with t backed_off_small [OF assms(6), of k] show ?thesis by auto
qed

theorem backoff_in_silence_witness:
  "\<exists>t. fsm_run (replicate 4 (Intr True)) (sample_waiting 64) = Ret None t \<and> alarm_secs t = 0"
  using backoff_in_silence [of "sample_waiting 64" 64 4] by (auto simp: sample_waiting_simps)



section \<open>Requests\<close>

text \<open>A server's child and a client with open sockets, for the witnesses.\<close>

definition sample_child :: tftp where
  "sample_child = (initvars \<lparr>fs_stat = \<lambda>_. Some 4, fs_read = \<lambda>_. Some (lfile.make [65] False [] None False False False),
       fs_write = \<lambda>_. None, fs_stdout = lfile.make [] False [] None False False True\<rparr> (\<lambda>_. Some (0, 0)))\<lparr>sockfd := 3\<rparr>"

lemma sample_child_simps:
  "online sample_child" "fs_stat (fs sample_child) n = Some 4" "fs_write (fs sample_child) n = None"
  "fs_read (fs sample_child) n = Some (lfile.make [65] False [] None False False False)"
  "length (sendbuff sample_child) = MAXBUFF" "net_up sample_child" "sockfd sample_child = 3"
  by (simp_all add: sample_child_def online_def initvars_def buffers_def)

text \<open>
  C5. A request with both strings is granted exactly when its mode is known, its name is
  absolute, the file (or the directory, for a write) is public and the file opens; otherwise
  the child sends one error packet and exits, with no file open.
\<close>

theorem requests_are_checked:
  assumes "two_strings ptr n fname ms" "opcode = OP_RRQ \<or> opcode = OP_WRQ" "online s"
  shows "(\<exists>f. permitted opcode fname ms (fs s) f \<and> recv_xRQ opcode ptr n s = Ret () (s\<lparr>modetype :=
        (if strlccpy ms = bytes ''netascii'' then MODE_ASCII else MODE_BINARY),
        nextblknum := 0, lastcr := False, nextchar := - 1, localfp := Some f\<rparr>)) \<or>
    (\<forall>f. \<not> permitted opcode fname ms (fs s) f) \<and> refused s (recv_xRQ opcode ptr n s)"
  by (rule recv_xRQ_decides [OF assms])

theorem requests_are_checked_witness:
  "refused sample_child (recv_xRQ OP_WRQ ([47, 97, NUL] @ bytes ''octet'' @ [NUL, 7]) 9 sample_child)"
proof -
  have "two_strings ([47, 97, NUL] @ bytes ''octet'' @ [NUL, 7]) 9 [47, 97] (bytes ''octet'')"
    using mode_bytes(2) unfolding two_strings_def by (intro conjI exI [of _ "[7]"]) simp_all
  from requests_are_checked [OF this _ sample_child_simps(1), of OP_WRQ] show ?thesis
    by (auto simp: permitted_def sample_child_simps)
qed

text \<open>
  C6. What the server reads out of a request is what the client's \<open>send_RQ\<close> put into it: the file
  of that name is opened in the client's mode.
\<close>

theorem request_roundtrip:
  assumes "send_RQ opcode fname mode c = Ret () t" "length (sendbuff c) = MAXBUFF"
    and "opcode = OP_RRQ \<or> opcode = OP_WRQ" "NUL \<notin> set fname" "length fname < MAXFILENAME"
  shows "\<exists>d ms. sent t = sent c @ [(peer c, d)] \<and> ldshort d = opcode \<and> mode_name mode = Some ms \<and>
    (\<forall>b s f. take (length d) b = d \<and> online s \<and> permitted opcode fname ms (fs s) f \<longrightarrow>
       recv_xRQ opcode (drop 2 b) (length d - 2) s =
         Ret () (s\<lparr>modetype := mode, nextblknum := 0, lastcr := False, nextchar := - 1, localfp := Some f\<rparr>))"
proof -
  from send_RQ_result [OF assms(1,2)] obtain ms sb sl where
    ms: "mode_name mode = Some ms" and t: "t = c\<lparr>sendbuff := sb, sendlen := sl, sent := sent c @ [(peer c, request opcode fname ms)]\<rparr>"
    by blast
  let ?d = "request opcode fname ms"
  have m: "NUL \<notin> set ms" "length ms < MAXFILENAME"
    "(if strlccpy ms = bytes ''netascii'' then MODE_ASCII else MODE_BINARY) = mode"
    using mode_name_cases [OF ms] mode_bytes by auto
  have "recv_xRQ opcode (drop 2 b) (length ?d - 2) s =
         Ret () (s\<lparr>modetype := mode, nextblknum := 0, lastcr := False, nextchar := - 1, localfp := Some f\<rparr>)"
    if "take (length ?d) b = ?d" "online s" "permitted opcode fname ms (fs s) f" for b s f
  proof -
    have "\<exists>rest. drop 2 b = fname @ NUL # ms @ NUL # rest"
      using drop_received [OF that(1)] by (auto simp: request_def)
    then have "two_strings (drop 2 b) (length ?d - 2) fname ms"
      using assms(4,5) m(1,2) unfolding two_strings_def by (simp add: request_parts)
    from recv_xRQ_decides [OF this assms(3) that(2)] that(3) m(3) show ?thesis
      using assms(3) by (auto simp: permitted_def)
  qed
  moreover have "ldshort ?d = opcode" using assms(3) by (auto simp: request_parts)
  ultimately show ?thesis using t ms by auto
qed

theorem request_roundtrip_witness:
  "\<exists>t d. send_RQ OP_RRQ [47, 97] MODE_BINARY sample_child = Ret () t \<and>
     recv_xRQ OP_RRQ (drop 2 d) (length d - 2) sample_child = Ret () (sample_child\<lparr>modetype := MODE_BINARY,
     nextblknum := 0, lastcr := False, nextchar := - 1,
     localfp := Some (lfile.make [65] False [] None False False False)\<rparr>)"
proof -
  have "mode_name MODE_BINARY = Some (bytes ''octet'')" by (simp add: mode_name_def)
  from send_RQ_returns [OF this _ sample_child_simps(5,6), of OP_RRQ "[47, 97]"] obtain t where
    rq: "send_RQ OP_RRQ [47, 97] MODE_BINARY sample_child = Ret () t"
    by (auto simp: request_parts sample_child_simps)
  from request_roundtrip [OF rq sample_child_simps(5)] obtain d ms where
    d: "mode_name MODE_BINARY = Some ms" "\<forall>b s f. take (length d) b = d \<and> online s \<and> permitted OP_RRQ [47, 97] ms (fs s) f \<longrightarrow>
       recv_xRQ OP_RRQ (drop 2 b) (length d - 2) s = Ret () (s\<lparr>modetype := MODE_BINARY, nextblknum := 0,
         lastcr := False, nextchar := - 1, localfp := Some f\<rparr>)" by auto
  have "permitted OP_RRQ [47, 97] ms (fs sample_child) (lfile.make [65] False [] None False False False)"
    using d(1) mode_name_cases [OF d(1)] mode_bytes
    by (auto simp: permitted_def sample_child_simps bit_iff_odd)
  with d(2) sample_child_simps(1) have "recv_xRQ OP_RRQ (drop 2 d) (length d - 2) sample_child =
    Ret () (sample_child\<lparr>modetype := MODE_BINARY, nextblknum := 0, lastcr := False, nextchar := - 1,
     localfp := Some (lfile.make [65] False [] None False False False)\<rparr>)" by simp
  with rq show ?thesis by (intro exI conjI)
qed

text \<open>
  The client sends file names of 128 bytes and more as well, and the server that gets one
  copies it into an array of 128 bytes.
\<close>

theorem long_name_overruns:
  assumes "send_RQ opcode fname mode c = Ret () t" "length (sendbuff c) = MAXBUFF"
    and "NUL \<notin> set fname" "MAXFILENAME \<le> length fname"
  shows "\<exists>d. sent t = sent c @ [(peer c, d)] \<and>
    (\<forall>b s. take (length d) b = d \<longrightarrow> recv_xRQ opcode (drop 2 b) (length d - 2) s = Fault s)"
proof -
  from send_RQ_result [OF assms(1,2)] obtain ms sb sl where
    t: "t = c\<lparr>sendbuff := sb, sendlen := sl, sent := sent c @ [(peer c, request opcode fname ms)]\<rparr>" by blast
  let ?d = "request opcode fname ms"
  have "recv_xRQ opcode (drop 2 b) (length ?d - 2) s = Fault s" if b: "take (length ?d) b = ?d" for b s
  proof -
    obtain rest where "drop 2 b = fname @ NUL # ms @ NUL # rest"
      using drop_received [OF b] by (auto simp: request_def)
    then have "scan_nul (length ?d - 2) (drop 2 b) = Some (Some (length fname))"
      using scan_nul_at [OF assms(3), of "length ?d - 2"] by (simp add: request_parts)
    then show ?thesis using assms(4) by (simp add: recv_xRQ_def)
  qed
  with t show ?thesis by auto
qed

theorem long_name_overruns_witness:
  "\<exists>t d. send_RQ OP_RRQ (replicate 200 97) MODE_BINARY sample_child = Ret () t \<and>
     recv_xRQ OP_RRQ (drop 2 d) (length d - 2) sample_child = Fault sample_child"
proof -
  have "mode_name MODE_BINARY = Some (bytes ''octet'')" by (simp add: mode_name_def)
  from send_RQ_returns [OF this _ sample_child_simps(5,6), of OP_RRQ "replicate 200 97"] obtain t where
    rq: "send_RQ OP_RRQ (replicate 200 97) MODE_BINARY sample_child = Ret () t"
    by (auto simp: request_parts sample_child_simps)
  from long_name_overruns [OF rq sample_child_simps(5)] obtain d where
    "\<forall>b s. take (length d) b = d \<longrightarrow> recv_xRQ OP_RRQ (drop 2 b) (length d - 2) s = Fault s" by auto
  then have "recv_xRQ OP_RRQ (drop 2 d) (length d - 2) sample_child = Fault sample_child" by simp
  with rq show ?thesis by (intro exI conjI)
qed

section \<open>Files and datagrams\<close>

text \<open>
  C8. However the stream is cut into blocks, what \<open>file_read\<close> delivers and \<open>file_write\<close> takes
  restores the file, in both modes: a line end split between two blocks is put together again.
\<close>

theorem relay_restores_file:
  assumes "readable s" "localfp s = Some f" "nextchar s < 0"
    and "writable c" "localfp c = Some g" "f_out g = []" "\<not> lastcr c" "modetype c = modetype s"
    and "length (stream (modetype s) (f_in f)) \<le> sum_list ns"
  shows "\<exists>s' c' h. relay ns s c = Some (s', c') \<and> localfp c' = Some h \<and> f_out h = f_in f"
proof -
  have p: "pending s = stream (modetype s) (f_in f)" using assms(2,3) by (simp add: pending_def stream_def)
  have "decodes (modetype c) ([] @ pending s) (f_in f)" unfolding p assms(8) by (simp add: decodes_stream)
  from relay_live [OF assms(1,4) _ assms(8) this] assms(5-7,9) show ?thesis
    by (simp add: p accepted_def)
qed

theorem relay_restores_file_witness:
  "\<exists>s' c' h. relay [3, 1, 9] (sample_child\<lparr>modetype := MODE_ASCII, nextchar := - 1,
      localfp := Some (lfile.make [65, LF, CR, CR] False [] None False False False)\<rparr>)
    (sample_child\<lparr>modetype := MODE_ASCII, lastcr := False,
      localfp := Some (lfile.make [] False [] None False False False)\<rparr>) = Some (s', c') \<and>
    localfp c' = Some h \<and> f_out h = [65, LF, CR, CR]"
  using relay_restores_file [of "sample_child\<lparr>modetype := MODE_ASCII, nextchar := - 1,
      localfp := Some (lfile.make [65, LF, CR, CR] False [] None False False False)\<rparr>"
    "lfile.make [65, LF, CR, CR] False [] None False False False"
    "sample_child\<lparr>modetype := MODE_ASCII, lastcr := False,
      localfp := Some (lfile.make [] False [] None False False False)\<rparr>"
    "lfile.make [] False [] None False False False" "[3, 1, 9]"]
  by (simp add: readable_def writable_def lfile.defs stream_def)

text \<open>
  In netascii \<open>file_write\<close> appends exactly what the bytes decode to and remembers a CR at
  the end; a CR followed by anything but LF or NUL ends the program, in both programs.
\<close>

theorem file_write_netascii:
  assumes "localfp s = Some f" "\<not> f_closed f" "f_room f = None"
  shows "case nvt_decode (lastcr s) bs of
      None \<Rightarrow> (\<exists>t. file_write bs MODE_ASCII s = Exit (- 1) t) \<and> (\<exists>t. file_write_cli bs MODE_ASCII s = Exit 1 t)
    | Some (out, cr) \<Rightarrow>
        file_write bs MODE_ASCII s = Ret () (s\<lparr>localfp := Some (f\<lparr>f_out := f_out f @ out\<rparr>), lastcr := cr\<rparr>) \<and>
        file_write_cli bs MODE_ASCII s = Ret () (s\<lparr>localfp := Some (f\<lparr>f_out := f_out f @ out\<rparr>), lastcr := cr\<rparr>)"
  using file_write_ascii_exact [where s = s and bs = bs and ec = "- 1", OF assms(3)]
    file_write_ascii_exact [where s = s and bs = bs and ec = 1, OF assms(3)] assms(1,2)
  by (auto simp: file_write_def file_write_cli_def with_file_def split: option.splits)

theorem file_write_netascii_witness:
  "\<exists>t. file_write [CR, 65] MODE_ASCII (sample_child\<lparr>localfp := Some (lfile.make [] False [] None False False False)\<rparr>)
     = Exit (- 1) t"
  using file_write_netascii [of "sample_child\<lparr>localfp := Some (lfile.make [] False [] None False False False)\<rparr>"
    "lfile.make [] False [] None False False False" "[CR, 65]"]
  by (auto simp: lfile.defs sample_child_def initvars_def)

text \<open>
  An acknowledgement that comes again sends nothing and moves nothing, so a duplicate in the
  network does not double every packet of the rest of the transfer.
\<close>

theorem late_ack_ignored:
  assumes "1 \<le> k" "k < 65536"
  shows "(srv_source base a k p ls s \<longrightarrow> (\<exists>t. fsm_event (Dgram a (ack_packet (k - 1))) s = Ret None t \<and>
      sent t = sent s \<and> srv_source base a k p ls t)) \<and>
    (cli_source base a k p ls s \<longrightarrow> (\<exists>t. fsm_event_cli (Dgram a (ack_packet (k - 1))) s = Ret None t \<and>
      sent t = sent s \<and> cli_source base a k p ls t))"
  using srv_late_ack [OF _ assms] cli_late_ack [OF _ assms] by blast

theorem late_ack_ignored_witness:
  "\<exists>t. fsm_event (Dgram (0, 7) (ack_packet 0)) (sample_child\<lparr>modetype := MODE_BINARY, nextblknum := 1, op_sent := OP_DATA,
      peer := (0, 7), localfp := Some (lfile.make [65] False [] None False False False)\<rparr>) = Ret None t \<and> sent t = []"
proof -
  let ?s = "sample_child\<lparr>modetype := MODE_BINARY, nextblknum := 1, op_sent := OP_DATA,
      peer := (0, 7), localfp := Some (lfile.make [65] False [] None False False False)\<rparr>"
  have "srv_source 0 (0, 7) 1 [65] 0 ?s"
    by (simp add: srv_source_def source_at_def online_def buffers_def readable_def pending_def started_def
        steady_def window_def bounded_def linked_def sample_child_def initvars_def zero_rtt_def lfile.defs)
  moreover have "sent ?s = []" by (simp add: sample_child_def initvars_def)
  ultimately show ?thesis using late_ack_ignored [of 1 0 "(0, 7)" "[65]" 0 ?s] by auto
qed

text \<open>
  Any datagram from another port ends a transfer: both programs exit, where the protocol
  only asks to answer it with an error. File and packets sent stay as they are.
\<close>

theorem stranger_ends_transfer:
  assumes "length (recvbuff s) = MAXBUFF" "\<not> recv_first s" "snd (peer s) \<noteq> 0" "snd a \<noteq> snd (peer s)"
  shows "(\<exists>t. fsm_event (Dgram a d) s = Exit 1 t \<and> localfp t = localfp s \<and> sent t = sent s) \<and>
    (\<exists>t. fsm_event_cli (Dgram a d) s = Exit 1 t \<and> localfp t = localfp s \<and> sent t = sent s)"
  using net_recv_stranger(1) [OF assms(2,3,4,1), of d] net_recv_stranger(2) [OF assms(2,4,1), of d]
  by (auto simp: fsm_event_def fsm_event_cli_def same_core_def)

theorem stranger_ends_transfer_witness:
  "\<exists>t. fsm_event (Dgram (9, 9) [1, 2]) (sample_child\<lparr>peer := (0, 7)\<rparr>) = Exit 1 t"
  using stranger_ends_transfer [of "sample_child\<lparr>peer := (0, 7)\<rparr>" "(9, 9)" "[1, 2]"]
  by (auto simp: sample_child_def initvars_def)

end
