(* ===== verification/TftpCommand.thy ===== *)
theory TftpCommand
  imports TftpClient
begin

text \<open>
  The TFTP client around its two transfers: reading command lines and splitting them into
  tokens (\<open>client/cmdsubr.c\<close>), the commands (\<open>client/cmd.c\<close>), \<open>udp_open\<close> (\<open>client/udp_open.c\<close>)
  and \<open>main\<close> with its loop (\<open>client/mainclient.c\<close>). \<open>err_cmd\<close> jumps back into the loop,
  \<open>err_quit\<close> and \<open>err_sys\<close> exit; what is only printed is left out.
\<close>

section \<open>State\<close>

abbreviation (input) MAXLINE :: nat where "MAXLINE \<equiv> 512"
abbreviation (input) MAXTOKEN :: nat where "MAXTOKEN \<equiv> 128"
abbreviation (input) MAXHOSTNAME :: nat where "MAXHOSTNAME \<equiv> 128"

text \<open>
  What the system answers to \<open>udp_open\<close>: the port of the service \<open>tftp\<close>, the two ways of
  looking a host up, the descriptor of a new socket and whether it can be bound.
\<close>

record netenv =
  serv_port :: "int option"
  inet_addr :: "byte list \<Rightarrow> int option"
  host_addr :: "byte list \<Rightarrow> int option"
  socket_fd :: int
  bind_ok :: bool

text \<open>
  The client: its engine, the command variables of \<open>initvars_cli.c\<close>, the line buffer with its
  pointer, and the environment. \<open>replies\<close> holds for each \<open>get\<close> or \<open>put\<close> still to come what
  \<open>recvfrom\<close> will return during it.
\<close>

record client =
  eng :: tftp
  hostname :: "byte list"
  port :: int
  connected :: bool
  verboseflag :: bool
  traceflag :: bool
  command :: "byte list"
  line :: "byte list"
  lineptr :: nat
  netenv :: netenv
  replies :: "rcv list list"

text \<open>How a command ends: it returns, \<open>err_cmd\<close> jumps, or a transfer still waits for a packet.\<close>

datatype cmd_end = Done | Jumped | Waiting

type_synonym cmd_prog = "client \<Rightarrow> (cmd_end, client) outcome"

text \<open>Going on after a command's part that has not jumped.\<close>

definition then_cmd :: "(cmd_end, client) outcome \<Rightarrow> cmd_prog \<Rightarrow> (cmd_end, client) outcome" where
  "then_cmd m f = obind m (\<lambda>r s. if r = Done then f s else Ret r s)"

definition err_cmd :: cmd_prog where
  "err_cmd s = Ret Jumped s"

section \<open>Lines and tokens\<close>

text \<open>\<open>fgets\<close>: up to \<open>n\<close> bytes, through the first newline.\<close>

fun fgets :: "nat \<Rightarrow> byte list \<Rightarrow> byte list \<times> byte list" where
  "fgets 0 inp = ([], inp)"
| "fgets (Suc n) [] = ([], [])"
| "fgets (Suc n) (c # cs) = (if c = LF then ([c], cs) else apfst (Cons c) (fgets n cs))"

definition get_line :: "byte list \<Rightarrow> client \<Rightarrow> (byte list \<times> client) option" where
  "get_line inp s =
     (if inp = [] then None
      else case fgets (MAXLINE - 1) inp of (l, rest) \<Rightarrow>
        Some (rest, s\<lparr>line := buf_put 0 (l @ [NUL]) (line s), lineptr := 0\<rparr>))"

text \<open>
  \<open>gettoken\<close>. \<open>None\<close> is a pointer that runs off the end of \<open>line\<close>; the pointer is left behind
  the byte that ended the scan, also when that is the terminating NUL.
\<close>

fun skip_blanks :: "byte list \<Rightarrow> byte list option" where
  "skip_blanks [] = None"
| "skip_blanks (c # cs) = (if c = 32 \<or> c = 9 then skip_blanks cs else Some (c # cs))"

fun take_token :: "byte list \<Rightarrow> (byte list \<times> byte list) option" where
  "take_token [] = None"
| "take_token (c # cs) =
     (if c = 32 \<or> c = 9 \<or> c = LF \<or> c = NUL then Some ([], cs)
      else map_option (apfst (Cons c)) (take_token cs))"

definition gettoken :: "client \<Rightarrow> (byte list option, client) outcome" where
  "gettoken s =
     (case skip_blanks (drop (lineptr s) (line s)) of
        Some (c # cs) \<Rightarrow>
          if c = NUL \<or> c = LF then Ret None (s\<lparr>lineptr := length (line s) - length cs\<rparr>)
          else (case take_token (c # cs) of
              Some (tok, rest) \<Rightarrow>
                if MAXTOKEN \<le> length tok then Fault s
                else Ret (Some tok) (s\<lparr>lineptr := length (line s) - length rest\<rparr>)
            | None \<Rightarrow> Fault s)
      | _ \<Rightarrow> Fault s)"

definition checkend :: cmd_prog where
  "checkend s = obind (gettoken s) (\<lambda>tok s. if tok \<noteq> None then err_cmd s else Ret Done s)"

text \<open>
  \<open>striphost\<close> on the two arrays: the assignment \<open>ptr2 = 0\<close> changes the pointer and not what it
  points to, so the host name is the whole string.
\<close>

definition striphost :: "byte list \<Rightarrow> byte list \<Rightarrow> byte list \<times> byte list" where
  "striphost fname hname =
     (if 58 \<in> set fname then (tl (dropWhile (\<lambda>c. c \<noteq> 58) fname), fname) else (fname, hname))"

section \<open>Opening the connection\<close>

definition udp_open :: "byte list \<Rightarrow> bool \<Rightarrow> int \<Rightarrow> netenv \<Rightarrow> (int \<times> sockaddr) option" where
  "udp_open host service prt env =
     (let failed = Some (- 1, (0, 0)) in
      case (if service then map_option (\<lambda>sp. if prt > 0 then prt mod 65536 else sp) (serv_port env)
            else if prt \<le> 0 then None else Some (prt mod 65536)) of
        None \<Rightarrow> failed
      | Some sin_port \<Rightarrow>
          (case (case inet_addr env host of Some a \<Rightarrow> Some a | None \<Rightarrow> host_addr env host) of
             None \<Rightarrow> Some (- 1, (0, sin_port))
           | Some a \<Rightarrow>
               if prt < 0 then None
               else if socket_fd env < 0 then Some (- 1, (a, sin_port))
               else if \<not> bind_ok env then Some (- 1, (a, sin_port))
               else Some (socket_fd env, (a, sin_port))))"

section \<open>The commands\<close>

definition cmd_ascii :: cmd_prog where
  "cmd_ascii s = Ret Done (s\<lparr>eng := (eng s)\<lparr>modetype := MODE_ASCII\<rparr>\<rparr>)"

definition cmd_binary :: cmd_prog where
  "cmd_binary s = Ret Done (s\<lparr>eng := (eng s)\<lparr>modetype := MODE_BINARY\<rparr>\<rparr>)"

text \<open>\<open>atoi\<close>; a number outside \<open>int\<close> is undefined (\<open>None\<close>).\<close>

definition is_space :: "byte \<Rightarrow> bool" where
  "is_space c \<longleftrightarrow> c = 32 \<or> 9 \<le> c \<and> c \<le> 13"

definition digits_value :: "byte list \<Rightarrow> int" where
  "digits_value cs = foldl (\<lambda>v c. v * 10 + (uint c - 48)) 0 (takeWhile (\<lambda>c. 48 \<le> c \<and> c \<le> 57) cs)"

definition atoi :: "byte list \<Rightarrow> int option" where
  "atoi cs =
     (let cs = dropWhile is_space cs;
          v = (case cs of c # rest \<Rightarrow>
                 if c = 45 then - digits_value rest
                 else if c = 43 then digits_value rest else digits_value cs
               | [] \<Rightarrow> 0)
      in if - (2 ^ 31) \<le> v \<and> v < 2 ^ 31 then Some v else None)"

definition cmd_connect :: cmd_prog where
  "cmd_connect s = obind (gettoken s) (\<lambda>tok s.
     case tok of None \<Rightarrow> err_cmd s
     | Some h \<Rightarrow> obind (gettoken (s\<lparr>hostname := h\<rparr>)) (\<lambda>tok s.
         case tok of None \<Rightarrow> Ret Done s
         | Some p \<Rightarrow> (case atoi p of
             None \<Rightarrow> Fault s
           | Some val \<Rightarrow> if val < 0 then err_cmd s else Ret Done (s\<lparr>port := val\<rparr>))))"

definition cmd_exit :: cmd_prog where
  "cmd_exit s = Exit 0 s"

definition cmd_help :: cmd_prog where
  "cmd_help s = Ret Done s"

text \<open>
  A transfer, by \<open>do_get\<close> or \<open>do_put\<close>, on the answers the environment has for it. A port
  below 0 makes \<open>udp_open\<close> exit, once the local file has been opened.
\<close>

definition transfer_cmd ::
  "(byte list \<Rightarrow> byte list \<Rightarrow> int \<Rightarrow> sockaddr \<Rightarrow> rcv list \<Rightarrow> unit option prog) \<Rightarrow> byte list \<Rightarrow> byte list \<Rightarrow> cmd_prog" where
  "transfer_cmd run remf locf s =
     (case udp_open (hostname s) True (port s) (netenv s) of
        None \<Rightarrow>
          (case run remf locf (- 1) (0, 0) [] (eng s) of
             Ret _ e \<Rightarrow> if localfp e = None then Ret Done (s\<lparr>eng := e\<rparr>) else Exit 1 (s\<lparr>eng := e\<rparr>)
           | Exit c e \<Rightarrow> Exit c (s\<lparr>eng := e\<rparr>)
           | Fault e \<Rightarrow> Fault (s\<lparr>eng := e\<rparr>))
      | Some (fd, addr) \<Rightarrow>
          let es = (case replies s of e # _ \<Rightarrow> e | [] \<Rightarrow> []); s = s\<lparr>replies := tl (replies s)\<rparr>
          in (case run remf locf fd addr es (eng s) of
                Ret None e \<Rightarrow> Ret Waiting (s\<lparr>eng := e\<rparr>)
              | Ret (Some _) e \<Rightarrow> Ret Done (s\<lparr>eng := e\<rparr>)
              | Exit c e \<Rightarrow> Exit c (s\<lparr>eng := e\<rparr>)
              | Fault e \<Rightarrow> Fault (s\<lparr>eng := e\<rparr>)))"

definition named_transfer ::
  "(byte list \<Rightarrow> byte list \<Rightarrow> int \<Rightarrow> sockaddr \<Rightarrow> rcv list \<Rightarrow> unit option prog) \<Rightarrow> byte list \<Rightarrow> byte list \<Rightarrow> cmd_prog" where
  "named_transfer run remf locf s =
     (if 58 \<in> set locf then err_cmd s
      else let (remf, h) = striphost remf (hostname s); s = s\<lparr>hostname := h\<rparr>
      in if h = [] then err_cmd s else transfer_cmd run remf locf s)"

definition cmd_get :: cmd_prog where
  "cmd_get s = obind (gettoken s) (\<lambda>tok s.
     case tok of None \<Rightarrow> err_cmd s
     | Some remf \<Rightarrow> obind (gettoken s) (\<lambda>tok s.
         case tok of None \<Rightarrow> err_cmd s
         | Some locf \<Rightarrow> named_transfer do_get remf locf s))"

definition cmd_put :: cmd_prog where
  "cmd_put s = obind (gettoken s) (\<lambda>tok s.
     case tok of None \<Rightarrow> err_cmd s
     | Some locf \<Rightarrow> obind (gettoken s) (\<lambda>tok s.
         case tok of None \<Rightarrow> err_cmd s
         | Some remf \<Rightarrow> named_transfer do_put remf locf s))"

definition cmd_mode :: cmd_prog where
  "cmd_mode s = obind (gettoken s) (\<lambda>tok s.
     case tok of None \<Rightarrow> err_cmd s
     | Some t \<Rightarrow>
         if t = bytes ''ascii'' then cmd_ascii s
         else if t = bytes ''binary'' then cmd_binary s
         else err_cmd s)"

definition cmd_status :: cmd_prog where
  "cmd_status s = Ret Done s"

definition cmd_verbose :: cmd_prog where
  "cmd_verbose s = Ret Done (s\<lparr>verboseflag := \<not> verboseflag s\<rparr>)"

section \<open>Finding and running a command\<close>

datatype cmd_func = Cmd_help | Cmd_ascii | Cmd_binary | Cmd_connect | Cmd_exit | Cmd_get | Cmd_mode
  | Cmd_put | Cmd_status | Cmd_verbose

definition commands :: "(byte list \<times> cmd_func) list" where
  "commands = [(bytes ''?'', Cmd_help), (bytes ''ascii'', Cmd_ascii), (bytes ''binary'', Cmd_binary),
     (bytes ''connect'', Cmd_connect), (bytes ''exit'', Cmd_exit), (bytes ''get'', Cmd_get),
     (bytes ''help'', Cmd_help), (bytes ''mode'', Cmd_mode), (bytes ''put'', Cmd_put),
     (bytes ''quit'', Cmd_exit), (bytes ''status'', Cmd_status), (bytes ''verbose'', Cmd_verbose)]"

fun run_cmd :: "cmd_func \<Rightarrow> cmd_prog" where
  "run_cmd Cmd_help = cmd_help"
| "run_cmd Cmd_ascii = cmd_ascii"
| "run_cmd Cmd_binary = cmd_binary"
| "run_cmd Cmd_connect = cmd_connect"
| "run_cmd Cmd_exit = cmd_exit"
| "run_cmd Cmd_get = cmd_get"
| "run_cmd Cmd_mode = cmd_mode"
| "run_cmd Cmd_put = cmd_put"
| "run_cmd Cmd_status = cmd_status"
| "run_cmd Cmd_verbose = cmd_verbose"

text \<open>The sign of \<open>strcmp\<close>, on unsigned bytes.\<close>

fun strcmp :: "byte list \<Rightarrow> byte list \<Rightarrow> int" where
  "strcmp [] [] = 0"
| "strcmp [] (y # ys) = - 1"
| "strcmp (x # xs) [] = 1"
| "strcmp (x # xs) (y # ys) = (if x < y then - 1 else if y < x then 1 else strcmp xs ys)"

function binary_loop :: "byte list \<Rightarrow> int \<Rightarrow> int \<Rightarrow> int" where
  "binary_loop word low high =
     (if low \<le> high then
        let mid = (low + high) div 2; cond = strcmp word (fst (commands ! nat mid)) in
        if cond < 0 then binary_loop word low (mid - 1)
        else if cond > 0 then binary_loop word (mid + 1) high
        else mid
      else - 1)"
  by pat_completeness auto
termination
  by (relation "measure (\<lambda>(w, low, high). nat (high - low + 1))") auto

declare binary_loop.simps [simp del]

definition binary :: "byte list \<Rightarrow> int \<Rightarrow> int" where
  "binary word n = binary_loop word 0 (n - 1)"

definition docmd :: "byte list \<Rightarrow> cmd_prog" where
  "docmd cmdptr s =
     (let i = binary cmdptr (int (length commands)) in
      if i < 0 then err_cmd s
      else then_cmd (run_cmd (snd (commands ! nat i)) s) checkend)"

section \<open>The main loop\<close>

lemma fgets_shorter: "0 < n \<Longrightarrow> inp \<noteq> [] \<Longrightarrow> length (snd (fgets n inp)) < length inp"
proof -
  have le: "length (snd (fgets n inp)) \<le> length inp" for n inp
    by (induction n inp rule: fgets.induct) auto
  assume "0 < n" "inp \<noteq> []"
  then show ?thesis
    using le by (cases n; cases inp) (auto simp: less_Suc_eq_le)
qed

text \<open>
  \<open>mainloop\<close> over the bytes of a command file. After \<open>err_cmd\<close> the loop is entered again at its
  head, which only prints the prompt.
\<close>

function mainloop :: "byte list \<Rightarrow> cmd_prog" where
  "mainloop inp s =
     (case get_line inp s of
        None \<Rightarrow> Ret Done s
      | Some (rest, s) \<Rightarrow> obind (gettoken s) (\<lambda>tok s.
          case tok of None \<Rightarrow> mainloop rest s
          | Some cmd \<Rightarrow> obind (docmd cmd (s\<lparr>command := cmd\<rparr>)) (\<lambda>r s.
              if r = Waiting then Ret Waiting s else mainloop rest s)))"
  by pat_completeness auto
termination
  by (relation "measure (\<lambda>(inp, s). length inp)")
    (use fgets_shorter [of "MAXLINE - 1"] in \<open>auto simp: get_line_def split: if_splits prod.splits\<close>,
     (metis snd_conv zero_less_numeral)+)

declare mainloop.simps [simp del]

text \<open>
  \<open>main\<close>: the options (\<open>cs\<close> are the rest of the letters of the current argument), then the
  command files, or standard input when there are none. The message about a file that
  cannot be opened lacks an argument, which is undefined.
\<close>

function options :: "byte list \<Rightarrow> byte list list \<Rightarrow> client \<Rightarrow> (byte list list, client) outcome" where
  "options [] [] s = Ret [] s"
| "options [] (a # as) s = (if take 1 a = [45] then options (tl a) as s else Ret (a # as) s)"
| "options (c # cs) as s =
     (if c = 104 then
        (case as of [] \<Rightarrow> Exit 1 s
         | h # as \<Rightarrow> if MAXHOSTNAME \<le> length h then Fault s else options cs as (s\<lparr>hostname := h\<rparr>))
      else if c = 116 then options cs as (s\<lparr>traceflag := True\<rparr>)
      else if c = 118 then options cs as (s\<lparr>verboseflag := True\<rparr>)
      else Exit 1 s)"
  by pat_completeness auto
termination
  by (relation "measure (\<lambda>(cs, as, s). length cs + sum_list (map (\<lambda>a. length a + 1) as))") auto

fun run_files :: "(byte list \<Rightarrow> byte list option) \<Rightarrow> byte list list \<Rightarrow> cmd_prog" where
  "run_files fopen [] s = Ret Done s"
| "run_files fopen (f # files) s = (case fopen f of
     None \<Rightarrow> Fault s
   | Some inp \<Rightarrow> obind (mainloop inp s) (\<lambda>r s. if r = Waiting then Ret r s else run_files fopen files s))"

definition main_cli :: "(byte list \<Rightarrow> byte list option) \<Rightarrow> byte list \<Rightarrow> byte list list \<Rightarrow> cmd_prog" where
  "main_cli fopen stdin args s = obind (options [] args s) (\<lambda>files s.
     obind (if files = [] then mainloop stdin s else run_files fopen files s) (\<lambda>r s.
       if r = Waiting then Ret r s else Exit 0 s))"

text \<open>The client before \<open>main\<close>.\<close>

definition init_client :: "fsys \<Rightarrow> (nat \<Rightarrow> timeval option) \<Rightarrow> netenv \<Rightarrow> rcv list list \<Rightarrow> client" where
  "init_client env clk net rs = \<lparr>eng = initvars env clk, hostname = [], port = 0, connected = False,
     verboseflag = False, traceflag = False, command = [], line = replicate MAXLINE 0, lineptr = 0,
     netenv = net, replies = rs\<rparr>"

end
