(* ===== verification/TftpSession.thy ===== *)
theory TftpSession
  imports TftpCommand
begin

text \<open>
  What the command interpreter does with a line: the binary search of the command table is a
  table lookup, a \<open>get\<close> line runs \<open>do_get\<close> on its two words, a \<open>host:\<close> prefix never
  works, and a command with an optional word left out looks at what an earlier line has left.
\<close>

section \<open>The command table\<close>

lemma strcmp_eq: "strcmp xs ys = 0 \<longleftrightarrow> xs = ys"
  by (induction xs ys rule: strcmp.induct) auto

lemma strcmp_swap: "strcmp ys xs = - strcmp xs ys"
  by (induction xs ys rule: strcmp.induct) auto

lemma strcmp_trans: "strcmp xs ys < 0 \<Longrightarrow> strcmp ys zs < 0 \<Longrightarrow> strcmp xs zs < 0"
proof (induction xs ys arbitrary: zs rule: strcmp.induct)
  case (2 y ys)
  then show ?case by (cases zs) auto
next
  case (4 x xs y ys)
  then show ?case by (cases zs) (auto split: if_splits)
qed auto

abbreviation cmd_name :: "int \<Rightarrow> byte list" where
  "cmd_name i \<equiv> fst (commands ! nat i)"

lemma commands_12: "length commands = 12"
  by (simp add: commands_def)

lemma adjacent_names: "list_all (\<lambda>i. strcmp (fst (commands ! i)) (fst (commands ! Suc i)) < 0) [0..<11]"
  by code_simp

lemma names_sorted:
  assumes "i < j" "j < 12"
  shows "strcmp (fst (commands ! i)) (fst (commands ! j)) < 0"
  using assms
proof (induction j)
  case (Suc j)
  have step: "strcmp (fst (commands ! j)) (fst (commands ! Suc j)) < 0"
    using list_all_upt [OF adjacent_names, of j] Suc.prems by simp
  show ?case
  proof (cases "i = j")
    case False
    with Suc strcmp_trans [OF _ step] show ?thesis by simp
  qed (use step in simp)
qed simp

text \<open>The invariant of the search: the names outside the interval are not the word.\<close>

lemma binary_loop_finds:
  assumes "0 \<le> low" "high < 12"
    "\<And>i. 0 \<le> i \<Longrightarrow> i < low \<Longrightarrow> cmd_name i \<noteq> w" "\<And>i. high < i \<Longrightarrow> i < 12 \<Longrightarrow> cmd_name i \<noteq> w"
  shows "let r = binary_loop w low high in
    0 \<le> r \<and> r < 12 \<and> cmd_name r = w \<or> r = - 1 \<and> (\<forall>i. 0 \<le> i \<and> i < 12 \<longrightarrow> cmd_name i \<noteq> w)"
  using assms
proof (induction w low high rule: binary_loop.induct)
  case (1 w low high)
  show ?case
  proof (cases "low \<le> high")
    case False
    with "1.prems" have "\<forall>i. 0 \<le> i \<and> i < 12 \<longrightarrow> cmd_name i \<noteq> w" by (metis not_le order_less_le_trans)
    with False show ?thesis by (subst binary_loop.simps) simp
  next
    case True
    define mid where "mid = (low + high) div 2"
    have mid: "low \<le> mid" "mid \<le> high" using True by (auto simp: mid_def)
    have lt: "strcmp (cmd_name i) (cmd_name j) < 0" if "0 \<le> i" "i < j" "j < 12" for i j
      using names_sorted [of "nat i" "nat j"] that by simp
    consider "strcmp w (cmd_name mid) < 0" | "strcmp w (cmd_name mid) > 0" | "strcmp w (cmd_name mid) = 0" by linarith
    then show ?thesis
    proof cases
      case 1
      have "cmd_name i \<noteq> w" if "mid - 1 < i" "i < 12" for i
        using lt [of mid i] that mid "1.prems"(1) 1 strcmp_swap [of w "cmd_name mid"] strcmp_eq [of w w]
        by (cases "i = mid") auto
      moreover have "binary_loop w low high = binary_loop w low (mid - 1)"
        using True 1 by (subst binary_loop.simps) (simp add: mid_def Let_def)
      ultimately show ?thesis
        using "1.IH"(1) [OF True mid_def refl 1] "1.prems" mid by simp
    next
      case 2
      have "cmd_name i \<noteq> w" if "0 \<le> i" "i < mid + 1" for i
        using lt [of i mid] that mid "1.prems"(2) 2 strcmp_eq [of w w] by (cases "i = mid") auto
      moreover have "binary_loop w low high = binary_loop w (mid + 1) high"
        using True 2 by (subst binary_loop.simps) (simp add: mid_def Let_def)
      ultimately show ?thesis
        using "1.IH"(2) [OF True mid_def refl _ 2] 2 "1.prems" mid by simp
    next
      case 3
      then have "binary_loop w low high = mid"
        using True by (subst binary_loop.simps) (simp add: mid_def Let_def)
      with 3 mid "1.prems"(1,2) show ?thesis by (simp add: strcmp_eq)
    qed
  qed
qed

lemma map_of_nth_distinct:
  "distinct (map fst xs) \<Longrightarrow> i < length xs \<Longrightarrow> map_of xs (fst (xs ! i)) = Some (snd (xs ! i))"
  by (metis map_of_is_SomeI nth_mem prod.collapse)

lemma commands_distinct: "distinct (map fst commands)"
  unfolding distinct_conv_nth using names_sorted strcmp_eq commands_12
  by (simp add: nth_map) (metis linorder_neq_iff less_irrefl)

lemma binary_lookup:
  "(if binary w 12 < 0 then None else Some (snd (commands ! nat (binary w 12)))) = map_of commands w"
proof -
  from binary_loop_finds [of 0 11 w] have "let r = binary w 12 in
    0 \<le> r \<and> r < 12 \<and> cmd_name r = w \<or> r = - 1 \<and> (\<forall>i. 0 \<le> i \<and> i < 12 \<longrightarrow> cmd_name i \<noteq> w)"
    by (simp add: binary_def)
  then consider "0 \<le> binary w 12" "binary w 12 < 12" "cmd_name (binary w 12) = w"
    | "binary w 12 = - 1" "\<forall>i. 0 \<le> i \<and> i < 12 \<longrightarrow> cmd_name i \<noteq> w" by (auto simp: Let_def)
  then show ?thesis
  proof cases
    case 1
    with map_of_nth_distinct [OF commands_distinct, of "nat (binary w 12)"] commands_12 show ?thesis by auto
  next
    case 2
    have "w \<notin> fst ` set commands"
    proof
      assume "w \<in> fst ` set commands"
      then obtain i where "i < 12" "fst (commands ! i) = w" by (auto simp: in_set_conv_nth commands_12)
      with 2(2) [rule_format, of "int i"] show False by simp
    qed
    then have "map_of commands w = None" by (simp add: map_of_eq_None_iff)
    with 2(1) show ?thesis by simp
  qed
qed

section \<open>Words of a line\<close>

text \<open>A word fits a token array; what is still unread of the line.\<close>

definition word_ok :: "byte list \<Rightarrow> bool" where
  "word_ok w \<longleftrightarrow> w \<noteq> [] \<and> length w < MAXTOKEN \<and> list_all (\<lambda>c. c \<notin> {32, 9, LF, NUL}) w"

abbreviation unread :: "client \<Rightarrow> byte list" where
  "unread s \<equiv> drop (lineptr s) (line s)"

lemma fgets_line:
  "LF \<notin> set l \<Longrightarrow> length l < n \<Longrightarrow> fgets n (l @ LF # rest) = (l @ [LF], rest)"
proof (induction l arbitrary: n)
  case Nil
  then show ?case by (cases n) auto
next
  case (Cons c l)
  then show ?case by (cases n) auto
qed

lemma get_line_line:
  assumes "LF \<notin> set l" "length l < 511"
  shows "get_line (l @ LF # rest) s =
    Some (rest, s\<lparr>line := l @ LF # NUL # drop (length l + 2) (line s), lineptr := 0\<rparr>)"
  using assms by (simp add: get_line_def fgets_line buf_put_def)

lemma take_token_word:
  "list_all (\<lambda>c. c \<notin> {32, 9, LF, NUL}) w \<Longrightarrow> c \<in> {32, 9, LF, NUL} \<Longrightarrow> take_token (w @ c # rest) = Some (w, rest)"
  by (induction w) auto

lemma drop_unread: "drop p l = a @ r \<Longrightarrow> drop (length l - length r) l = r"
  by (metis append.assoc append_eq_conv_conj append_take_drop_id length_append add_diff_cancel_right')

lemma gettoken_word:
  assumes "unread s = w @ c # rest" "word_ok w" "c \<in> {32, 9, LF, NUL}"
  obtains p where "gettoken s = Ret (Some w) (s\<lparr>lineptr := p\<rparr>)" "drop p (line s) = rest"
proof -
  from assms(2) obtain x xs where w: "w = x # xs" by (auto simp: word_ok_def neq_Nil_conv)
  have tok: "take_token (x # xs @ c # rest) = Some (w, rest)"
    using take_token_word [of w c rest] assms(2,3) w by (simp add: word_ok_def)
  have x: "x \<noteq> 32" "x \<noteq> 9" "x \<noteq> LF" "x \<noteq> NUL" using assms(2) w by (auto simp: word_ok_def)
  have "gettoken s = Ret (Some w) (s\<lparr>lineptr := length (line s) - length rest\<rparr>)"
    using assms(2) x tok unfolding gettoken_def assms(1) w by (simp add: word_ok_def)
  moreover have "drop (length (line s) - length rest) (line s) = rest"
    using drop_unread [of "lineptr s" "line s" "w @ [c]" rest] assms(1) by simp
  ultimately show thesis by (rule that)
qed

lemma gettoken_end:
  "unread s = c # rest \<Longrightarrow> c \<in> {LF, NUL} \<Longrightarrow> \<exists>p. gettoken s = Ret None (s\<lparr>lineptr := p\<rparr>)"
  by (auto simp: gettoken_def)

lemma checkend_done: "unread s = c # rest \<Longrightarrow> c \<in> {LF, NUL} \<Longrightarrow> \<exists>p. checkend s = Ret Done (s\<lparr>lineptr := p\<rparr>)"
  using gettoken_end by (fastforce simp: checkend_def)

section \<open>Running commands\<close>

lemma docmd_table:
  "docmd w s = (case map_of commands w of
     None \<Rightarrow> err_cmd s | Some f \<Rightarrow> then_cmd (run_cmd f s) checkend)"
proof -
  have "docmd w s = (case if binary w 12 < 0 then None else Some (snd (commands ! nat (binary w 12))) of
     None \<Rightarrow> err_cmd s | Some f \<Rightarrow> then_cmd (run_cmd f s) checkend)"
    by (simp add: docmd_def commands_12 Let_def)
  then show ?thesis unfolding binary_lookup .
qed

text \<open>
  \<open>docmd\<close> runs the command the table lists under the word and then checks that the line
  ends there; a word that is not in the table is an error. The binary search is the table lookup.
\<close>

theorem command_lookup:
  "docmd w s = (case map_of commands w of
     None \<Rightarrow> err_cmd s | Some f \<Rightarrow> then_cmd (run_cmd f s) checkend)"
  by (rule docmd_table)

lemma map_of_commands:
  "map_of commands (bytes ''get'') = Some Cmd_get" "map_of commands (bytes ''put'') = Some Cmd_put"
  "map_of commands (bytes ''connect'') = Some Cmd_connect"
  by code_simp+

lemma word_get: "word_ok (bytes ''get'')"
  by code_simp

text \<open>A line with \<open>get\<close> and two words reaches the transfer with those words.\<close>

lemma cmd_get_words:
  assumes "unread s = r @ 32 # l @ LF # rest" "word_ok r" "word_ok l"
  obtains p where "cmd_get s = named_transfer do_get r l (s\<lparr>lineptr := p\<rparr>)" "drop p (line s) = rest"
proof -
  from gettoken_word [OF assms(1,2)] obtain p where
    p: "gettoken s = Ret (Some r) (s\<lparr>lineptr := p\<rparr>)" "drop p (line s) = l @ LF # rest" by auto
  from p(2) gettoken_word [where s = "s\<lparr>lineptr := p\<rparr>" and w = l and c = LF and rest = rest] assms(3) obtain q
    where q: "gettoken (s\<lparr>lineptr := p\<rparr>) = Ret (Some l) (s\<lparr>lineptr := q\<rparr>)" "drop q (line s) = rest" by auto
  from p q have "cmd_get s = named_transfer do_get r l (s\<lparr>lineptr := q\<rparr>)" by (simp add: cmd_get_def)
  then show thesis using q(2) by (rule that)
qed

abbreviation (input) get_text :: "byte list \<Rightarrow> byte list \<Rightarrow> byte list" where
  "get_text r l \<equiv> bytes ''get'' @ 32 # r @ 32 # l @ [LF]"

lemma mainloop_get:
  assumes "word_ok r" "word_ok l" "length r + length l < 500"
    and run: "\<And>p st. drop p st = NUL # drop (length (get_text r l) + 1) (line s) \<Longrightarrow>
      \<exists>s'. named_transfer do_get r l (s\<lparr>line := st, lineptr := p, command := bytes ''get''\<rparr>) = Ret Done s' \<and>
        line s' = st \<and> lineptr s' = p \<and> P s'"
    and keep: "\<And>s' p. P s' \<Longrightarrow> P (s'\<lparr>lineptr := p\<rparr>)"
  shows "\<exists>s'. mainloop (get_text r l @ rest) s = mainloop rest s' \<and> P s'"
proof -
  define st where "st = bytes ''get'' @ 32 # r @ 32 # l @ LF # NUL # drop (length (get_text r l) + 1) (line s)"
  define s1 where "s1 = s\<lparr>line := st, lineptr := 0\<rparr>"
  have noLF: "LF \<notin> set (bytes ''get'' @ 32 # r @ 32 # l)"
    using assms(1,2) word_get by (auto simp: word_ok_def list_all_iff)
  have "get_line (get_text r l @ rest) s = Some (rest, s1)"
    using get_line_line [OF noLF, of rest s] assms(3) by (simp add: s1_def st_def)
  moreover from gettoken_word [where s = s1 and w = "bytes ''get''" and c = 32] word_get obtain p where
    p: "gettoken s1 = Ret (Some (bytes ''get'')) (s\<lparr>line := st, lineptr := p\<rparr>)"
      "drop p st = r @ 32 # l @ LF # NUL # drop (length (get_text r l) + 1) (line s)"
    by (auto simp: s1_def st_def)
  moreover define s2 where "s2 = s\<lparr>line := st, lineptr := p, command := bytes ''get''\<rparr>"
  have "unread s2 = r @ 32 # l @ LF # NUL # drop (length (get_text r l) + 1) (line s)" using p(2) by (simp add: s2_def)
  from cmd_get_words [OF this assms(1,2)] obtain q where q: "cmd_get s2 = named_transfer do_get r l (s2\<lparr>lineptr := q\<rparr>)"
    "drop q (line s2) = NUL # drop (length (get_text r l) + 1) (line s)" by blast
  have s2q: "s2\<lparr>lineptr := q\<rparr> = s\<lparr>line := st, lineptr := q, command := bytes ''get''\<rparr>" by (simp add: s2_def)
  have dq: "drop q st = NUL # drop (length (get_text r l) + 1) (line s)" using q(2) by (simp add: s2_def)
  from run [OF dq] obtain s3 where s3: "named_transfer do_get r l (s\<lparr>line := st, lineptr := q,
      command := bytes ''get''\<rparr>) = Ret Done s3" "line s3 = st" "lineptr s3 = q" "P s3" by blast
  from checkend_done [of s3 NUL] s3 dq obtain e where
    e: "checkend s3 = Ret Done (s3\<lparr>lineptr := e\<rparr>)" by auto
  have "docmd (bytes ''get'') s2 = Ret Done (s3\<lparr>lineptr := e\<rparr>)"
    by (simp add: docmd_table map_of_commands q(1) s2q s3(1) e then_cmd_def)
  ultimately have "mainloop (get_text r l @ rest) s = mainloop rest (s3\<lparr>lineptr := e\<rparr>)"
    by (subst mainloop.simps) (simp add: s2_def)
  with keep [OF s3(4)] show ?thesis by blast
qed

text \<open>
  A sample session for the witnesses: every host is at address 1, every file can be written,
  and the server answers a request with one short block.
\<close>

definition session_fs :: fsys where
  "session_fs = (let f = \<lparr>f_in = [], f_rderr = False, f_out = [], f_room = None, f_clserr = False,
       f_closed = False, f_std = False\<rparr>
     in \<lparr>fs_stat = \<lambda>_. None, fs_read = \<lambda>_. None, fs_write = \<lambda>_. Some f, fs_stdout = f\<rparr>)"

definition session_net :: netenv where
  "session_net = \<lparr>serv_port = Some 69, inet_addr = \<lambda>_. None,
     host_addr = \<lambda>h. if 58 \<in> set h then None else Some 1, socket_fd = 3, bind_ok = True\<rparr>"

definition session_client :: client where
  "session_client = init_client session_fs (\<lambda>_. Some (0, 0)) session_net [[Dgram (1, 2000) [0, 3, 0, 1, 65, 10]]]
     \<lparr>hostname := bytes ''h''\<rparr>"

lemma session_get:
  "\<exists>e. do_get (bytes ''/a'') (bytes ''b'') 3 (1, 69) [Dgram (1, 2000) [0, 3, 0, 1, 65, 10]] (eng session_client) =
     Ret (Some ()) e \<and> map_option f_out (localfp e) = Some [65, 10]"
proof -
  have "case do_get (bytes ''/a'') (bytes ''b'') 3 (1, 69) [Dgram (1, 2000) [0, 3, 0, 1, 65, 10]] (eng session_client) of
      Ret x e \<Rightarrow> x = Some () \<and> map_option f_out (localfp e) = Some [65, 10] | _ \<Rightarrow> False"
    by code_simp
  then show ?thesis by (auto split: outcome.splits)
qed

lemma session_facts:
  "udp_open (hostname session_client) True (port session_client) (netenv session_client) = Some (3, (1, 69))"
  "replies session_client = [[Dgram (1, 2000) [0, 3, 0, 1, 65, 10]]]" "hostname session_client = [104]"
  "\<And>h. 58 \<in> set h \<Longrightarrow> inet_addr (netenv session_client) h = None \<and> host_addr (netenv session_client) h = None"
  by (simp_all add: session_client_def init_client_def session_net_def udp_open_def bytes_def)

lemma session_words: "word_ok (bytes ''/a'')" "word_ok (bytes ''b'')" "word_ok (bytes ''x:a'')"
  by code_simp+

lemma mainloop_end: "mainloop [] s = Ret Done s"
  by (simp add: mainloop.simps get_line_def)

text \<open>
  C10. A line \<open>get r l\<close> runs \<open>do_get\<close> on its two words with the socket and the address that
  \<open>udp_open\<close> makes of the host and port in effect; once the transfer is over, the loop goes on
  with the next line, the host, the port and the connection unchanged.
\<close>

theorem get_line_transfers:
  assumes "word_ok r" "word_ok l" "length r + length l < 500" "58 \<notin> set r" "58 \<notin> set l" "hostname s \<noteq> []"
    and "udp_open (hostname s) True (port s) (netenv s) = Some (fd, addr)" "replies s = es # rs"
    and "do_get r l fd addr es (eng s) = Ret (Some ()) e"
  shows "\<exists>s'. mainloop (bytes ''get'' @ 32 # r @ 32 # l @ [LF] @ rest) s = mainloop rest s' \<and>
    eng s' = e \<and> replies s' = rs \<and> hostname s' = hostname s \<and> port s' = port s \<and> netenv s' = netenv s"
proof -
  have "\<exists>s'. mainloop (get_text r l @ rest) s = mainloop rest s' \<and> (eng s' = e \<and> replies s' = rs \<and>
      hostname s' = hostname s \<and> port s' = port s \<and> netenv s' = netenv s)"
    by (rule mainloop_get [OF assms(1-3)])
      (use assms in \<open>auto simp: named_transfer_def striphost_def transfer_cmd_def\<close>)
  then show ?thesis by simp
qed

theorem get_line_transfers_witness:
  "\<exists>s'. mainloop (bytes ''get /a b'' @ [LF]) session_client = Ret Done s' \<and>
     map_option f_out (localfp (eng s')) = Some [65, 10] \<and> hostname s' = bytes ''h''"
proof -
  from session_get obtain e where e: "do_get (bytes ''/a'') (bytes ''b'') 3 (1, 69)
    [Dgram (1, 2000) [0, 3, 0, 1, 65, 10]] (eng session_client) = Ret (Some ()) e"
    "map_option f_out (localfp e) = Some [65, 10]" by blast
  from get_line_transfers [OF session_words(1,2) _ _ _ _ session_facts(1,2) e(1), of "[]"] e(2) session_facts(3)
  show ?thesis by (auto simp: mainloop_end bytes_def)
qed

lemma named_transfer_host:
  assumes "58 \<in> set r" "58 \<notin> set l" "inet_addr (netenv s) r = None" "host_addr (netenv s) r = None"
  shows "\<exists>s'. named_transfer do_get r l s = Ret Done s' \<and> line s' = line s \<and> lineptr s' = lineptr s \<and>
    hostname s' = r \<and> sent (eng s') = sent (eng s) \<and> port s' = port s \<and> netenv s' = netenv s"
proof -
  have "\<exists>a. udp_open r True (port s) (netenv s) = Some (- 1, a)"
    using assms(3,4) by (auto simp: udp_open_def Let_def split: option.splits)
  with assms show ?thesis
    by (auto simp: named_transfer_def striphost_def transfer_cmd_def do_get_def get_start_def file_open_cli_def
        net_open_cli_def Let_def split: option.splits)
qed

text \<open>
  C11. A file name of the form \<open>host:file\<close>, which the comments allow, never works: the host
  name becomes the whole word, so when no host has a colon in its name nothing is sent, and
  the useless name stays in effect for the commands that follow.
\<close>

theorem host_prefix_fails:
  assumes "word_ok r" "word_ok l" "length r + length l < 500" "58 \<in> set r" "58 \<notin> set l"
    and "\<And>h. 58 \<in> set h \<Longrightarrow> inet_addr (netenv s) h = None \<and> host_addr (netenv s) h = None"
  shows "\<exists>s'. mainloop (bytes ''get'' @ 32 # r @ 32 # l @ [LF] @ rest) s = mainloop rest s' \<and>
    hostname s' = r \<and> sent (eng s') = sent (eng s)"
proof -
  have "\<exists>s'. mainloop (get_text r l @ rest) s = mainloop rest s' \<and> (hostname s' = r \<and> sent (eng s') = sent (eng s))"
  proof (rule mainloop_get [OF assms(1-3)])
    fix p st
    from named_transfer_host [OF assms(4,5), of "s\<lparr>line := st, lineptr := p, command := bytes ''get''\<rparr>"] assms(6) [OF assms(4)]
    show "\<exists>s'. named_transfer do_get r l (s\<lparr>line := st, lineptr := p, command := bytes ''get''\<rparr>) = Ret Done s' \<and>
      line s' = st \<and> lineptr s' = p \<and> hostname s' = r \<and> sent (eng s') = sent (eng s)" by auto
  qed simp
  then show ?thesis by simp
qed

theorem host_prefix_fails_witness:
  "\<exists>s'. mainloop (bytes ''get x:a b'' @ [LF]) session_client = Ret Done s' \<and>
     hostname s' = bytes ''x:a'' \<and> sent (eng s') = sent (eng session_client)"
  using host_prefix_fails [OF session_words(3,2) _ _ _ session_facts(4), of "[]"]
  by (auto simp: mainloop_end bytes_def)

section \<open>What an earlier line leaves\<close>

text \<open>
  After \<open>connect h\<close> the scan for the port starts behind the NUL that ends the line, in what is
  left of an earlier, longer line; with such a line the command is refused for trailing garbage.
\<close>

definition after_lines :: "byte list \<Rightarrow> byte list \<Rightarrow> client \<Rightarrow> (cmd_end, client) outcome" where
  "after_lines l1 l2 s = (case get_line l1 s of None \<Rightarrow> Fault s | Some (_, s) \<Rightarrow>
     (case get_line l2 s of None \<Rightarrow> Fault s | Some (_, s) \<Rightarrow>
        obind (gettoken s) (\<lambda>tok s. case tok of None \<Rightarrow> Fault s | Some w \<Rightarrow> docmd w s)))"

lemma connect_sees_old_line:
  "(case after_lines (bytes ''get /etc/hosts a'' @ [LF]) (bytes ''connect h'' @ [LF]) session_client of
      Ret r s \<Rightarrow> r = Jumped \<and> hostname s = bytes ''h'' \<and> port s = 0 | _ \<Rightarrow> False)"
  "(case after_lines (bytes ''mode'' @ [LF]) (bytes ''connect h'' @ [LF]) session_client of
      Ret r s \<Rightarrow> r = Done | _ \<Rightarrow> False)"
  by code_simp+

text \<open>A word of 128 bytes overruns the array it is copied to.\<close>

lemma long_word_overruns:
  assumes "unread s = w @ LF # rest" "list_all (\<lambda>c. c \<notin> {32, 9, LF, NUL}) w" "MAXTOKEN \<le> length w"
  shows "gettoken s = Fault s"
proof -
  from assms(3) obtain x xs where w: "w = x # xs" by (cases w) auto
  with take_token_word [OF assms(2), of LF rest] assms show ?thesis
    unfolding gettoken_def assms(1) w by simp
qed

end
