(* ===== verification/HashTable.thy ===== *)
theory HashTable
  imports CFloat
begin

text \<open>
  The hash table of \<open>coreutils/lib/hash.c\<close> with \<open>hash.h\<close>, and the functions of
  \<open>bitrotate.h\<close> and \<open>xalloc.h\<close> it uses. A \<open>void *\<close> is an \<open>'a option\<close>, \<open>None\<close> being
  \<open>NULL\<close>; a bucket is its head's data and the data of its overflow entries in order; the free
  list is the number of its entries. \<open>size_t\<close> is a natural number with its 64-bit
  wrap-around written out where the code can reach it.
\<close>

section \<open>Data\<close>

abbreviation (input) SIZE_MAX :: nat where "SIZE_MAX \<equiv> 18446744073709551615"

definition size_inc :: "nat \<Rightarrow> nat" where
  "size_inc n = (n + 1) mod 2 ^ 64"

definition size_dec :: "nat \<Rightarrow> nat" where
  "size_dec n = (if n = 0 then SIZE_MAX else n - 1)"

record hash_tuning =
  shrink_threshold :: rat
  shrink_factor :: rat
  growth_threshold :: rat
  growth_factor :: rat
  is_n_buckets :: bool

definition default_tuning :: hash_tuning where
  "default_tuning = \<lparr>shrink_threshold = flt 0, shrink_factor = flt 1,
     growth_threshold = flt (8 / 10), growth_factor = flt (1414 / 1000), is_n_buckets = False\<rparr>"

text \<open>The pointer \<open>table->tuning\<close>: to \<open>default_tuning\<close>, or to what the user passed.\<close>

datatype tuning_ptr = Default_tuning | User_tuning hash_tuning

fun tuning_of :: "tuning_ptr \<Rightarrow> hash_tuning" where
  "tuning_of Default_tuning = default_tuning"
| "tuning_of (User_tuning tn) = tn"

text \<open>
  The allocator: whether the \<open>k\<close>-th allocation succeeds, how many there have been, and how
  many overflow entries are allocated and not freed.
\<close>

record heap =
  h_ok :: "nat \<Rightarrow> bool"
  h_count :: nat
  h_nodes :: int

record 'a bucket =
  b_data :: "'a option"
  b_next :: "'a option list"

text \<open>
  \<open>hasher\<close> and \<open>comparator\<close> are the user's functions; \<open>None\<close> is a crash, as of a function that
  follows a null pointer. \<open>data_freer\<close> says whether there is one, \<open>freed\<close> logs its calls.
\<close>

record 'a htable =
  buckets :: "'a bucket list"
  n_buckets :: nat
  n_buckets_used :: nat
  n_entries :: nat
  tuning :: tuning_ptr
  hasher :: "'a option \<Rightarrow> nat \<Rightarrow> nat option"
  comparator :: "'a \<Rightarrow> 'a option \<Rightarrow> bool option"
  data_freer :: bool
  free_entry_list :: nat
  freed :: "'a option list"
  heap :: heap

abbreviation empty_bucket :: "'a bucket" where
  "empty_bucket \<equiv> \<lparr>b_data = None, b_next = []\<rparr>"

text \<open>The entries of a bucket, head first.\<close>

definition cells :: "'a bucket \<Rightarrow> 'a option list" where
  "cells b = b_data b # b_next b"

text \<open>\<open>abort ()\<close>, and the call of the hasher with the check behind it that the callers share.\<close>

abbreviation aborts :: "'s \<Rightarrow> ('r, 's) outcome" where
  "aborts s \<equiv> Exit 134 s"

definition slot :: "'a option \<Rightarrow> 'a htable \<Rightarrow> (nat, 'a htable) outcome" where
  "slot d t = (case hasher t d (n_buckets t) of
     None \<Rightarrow> Fault t
   | Some i \<Rightarrow> if \<not> i < length (buckets t) then aborts t else Ret i t)"

section \<open>Information and lookup\<close>

definition hash_get_n_buckets :: "'a htable \<Rightarrow> nat" where
  "hash_get_n_buckets t = n_buckets t"

definition hash_get_n_buckets_used :: "'a htable \<Rightarrow> nat" where
  "hash_get_n_buckets_used t = n_buckets_used t"

definition hash_get_n_entries :: "'a htable \<Rightarrow> nat" where
  "hash_get_n_entries t = n_entries t"

fun max_bucket_loop :: "'a bucket list \<Rightarrow> nat \<Rightarrow> nat" where
  "max_bucket_loop [] m = m"
| "max_bucket_loop (b # bs) m =
     (if b_data b \<noteq> None then
        let bucket_length = 1 + length (b_next b)
        in max_bucket_loop bs (if bucket_length > m then bucket_length else m)
      else max_bucket_loop bs m)"

definition hash_get_max_bucket_length :: "'a htable \<Rightarrow> nat" where
  "hash_get_max_bucket_length t = max_bucket_loop (buckets t) 0"

fun table_counts :: "'a bucket list \<Rightarrow> nat \<Rightarrow> nat \<Rightarrow> nat \<times> nat" where
  "table_counts [] used ents = (used, ents)"
| "table_counts (b # bs) used ents =
     (if b_data b \<noteq> None then table_counts bs (used + 1) (ents + 1 + length (b_next b))
      else table_counts bs used ents)"

definition hash_table_ok :: "'a htable \<Rightarrow> bool" where
  "hash_table_ok t = (table_counts (buckets t) 0 0 = (n_buckets_used t, n_entries t))"

text \<open>
  A chain scanned for \<open>entry\<close>, by pointer equality first: the index of the first match;
  \<open>None\<close> when the comparator crashes.
\<close>

fun find_cell :: "('a \<Rightarrow> 'a option \<Rightarrow> bool option) \<Rightarrow> 'a \<Rightarrow> 'a option list \<Rightarrow> nat option option" where
  "find_cell cmp entry [] = Some None"
| "find_cell cmp entry (c # cs) =
     (if c = Some entry then Some (Some 0)
      else case cmp entry c of
          None \<Rightarrow> None
        | Some True \<Rightarrow> Some (Some 0)
        | Some False \<Rightarrow> map_option (map_option Suc) (find_cell cmp entry cs))"

definition hash_lookup :: "'a \<Rightarrow> 'a htable \<Rightarrow> ('a option, 'a htable) outcome" where
  "hash_lookup entry t = obind (slot (Some entry) t) (\<lambda>i t.
     let b = buckets t ! i in
     if b_data b = None then Ret None t
     else (case find_cell (comparator t) entry (cells b) of
         None \<Rightarrow> Fault t
       | Some None \<Rightarrow> Ret None t
       | Some (Some k) \<Rightarrow> Ret (cells b ! k) t))"

section \<open>Walking\<close>

fun first_used :: "'a bucket list \<Rightarrow> 'a option" where
  "first_used [] = None"
| "first_used (b # bs) = (if b_data b \<noteq> None then b_data b else first_used bs)"

definition hash_get_first :: "'a htable \<Rightarrow> ('a option, 'a htable) outcome" where
  "hash_get_first t =
     (if n_entries t = 0 then Ret None t
      else if first_used (buckets t) = None then aborts t
      else Ret (first_used (buckets t)) t)"

text \<open>The entry behind the first cell that is \<open>entry\<close> and has one behind it.\<close>

fun next_cell :: "'a \<Rightarrow> 'a option list \<Rightarrow> 'a option option" where
  "next_cell entry (c # d # cs) = (if c = Some entry then Some d else next_cell entry (d # cs))"
| "next_cell entry _ = None"

definition hash_get_next :: "'a \<Rightarrow> 'a htable \<Rightarrow> ('a option, 'a htable) outcome" where
  "hash_get_next entry t = obind (slot (Some entry) t) (\<lambda>i t.
     case next_cell entry (cells (buckets t ! i)) of
       Some d \<Rightarrow> Ret d t
     | None \<Rightarrow> Ret (first_used (drop (i + 1) (buckets t))) t)"

text \<open>
  \<open>hash_get_entries\<close>: the loops with what they have copied so far; \<open>False\<close> is the return from
  inside, when the buffer is full.
\<close>

fun copy_cells :: "nat \<Rightarrow> 'a option list \<Rightarrow> 'a option list \<Rightarrow> bool \<times> 'a option list" where
  "copy_cells limit [] buffer = (True, buffer)"
| "copy_cells limit (c # cs) buffer =
     (if limit \<le> length buffer then (False, buffer) else copy_cells limit cs (buffer @ [c]))"

fun copy_buckets :: "nat \<Rightarrow> 'a bucket list \<Rightarrow> 'a option list \<Rightarrow> 'a option list" where
  "copy_buckets limit [] buffer = buffer"
| "copy_buckets limit (b # bs) buffer =
     (if b_data b \<noteq> None then
        (case copy_cells limit (cells b) buffer of
           (False, buffer) \<Rightarrow> buffer
         | (True, buffer) \<Rightarrow> copy_buckets limit bs buffer)
      else copy_buckets limit bs buffer)"

definition hash_get_entries :: "nat \<Rightarrow> 'a htable \<Rightarrow> nat \<times> 'a option list" where
  "hash_get_entries buffer_size t =
     (let buffer = copy_buckets buffer_size (buckets t) [] in (length buffer, buffer))"

text \<open>\<open>hash_do_for_each\<close>, with the data the processor works on threaded through.\<close>

fun each_cell :: "('a option \<Rightarrow> 'd \<Rightarrow> bool \<times> 'd) \<Rightarrow> 'a option list \<Rightarrow> nat \<Rightarrow> 'd \<Rightarrow> bool \<times> nat \<times> 'd" where
  "each_cell proc [] counter d = (True, counter, d)"
| "each_cell proc (c # cs) counter d =
     (case proc c d of
        (False, d) \<Rightarrow> (False, counter, d)
      | (True, d) \<Rightarrow> each_cell proc cs (counter + 1) d)"

fun each_bucket :: "('a option \<Rightarrow> 'd \<Rightarrow> bool \<times> 'd) \<Rightarrow> 'a bucket list \<Rightarrow> nat \<Rightarrow> 'd \<Rightarrow> nat \<times> 'd" where
  "each_bucket proc [] counter d = (counter, d)"
| "each_bucket proc (b # bs) counter d =
     (if b_data b \<noteq> None then
        (case each_cell proc (cells b) counter d of
           (False, counter, d) \<Rightarrow> (counter, d)
         | (True, counter, d) \<Rightarrow> each_bucket proc bs counter d)
      else each_bucket proc bs counter d)"

definition hash_do_for_each ::
  "('a option \<Rightarrow> 'd \<Rightarrow> bool \<times> 'd) \<Rightarrow> 'd \<Rightarrow> 'a htable \<Rightarrow> nat \<times> 'd" where
  "hash_do_for_each proc d t = each_bucket proc (buckets t) 0 d"

section \<open>Sizes\<close>

fun hash_string_loop :: "byte list \<Rightarrow> nat \<Rightarrow> nat \<Rightarrow> nat" where
  "hash_string_loop [] n value = value"
| "hash_string_loop (ch # cs) n value =
     hash_string_loop cs n ((value * 31 + unat ch) mod 2 ^ 64 mod n)"

text \<open>The string is given without its NUL.\<close>

definition hash_string :: "byte list \<Rightarrow> nat \<Rightarrow> nat" where
  "hash_string string n = hash_string_loop string n 0"

text \<open>
  The loop of \<open>is_prime\<close>, returning the last \<open>divisor\<close>. \<open>divisor\<close> is odd; when it wraps around
  it is 1, which divides everything. (0, by which the C code would divide, is not reached.)
\<close>

function is_prime_loop :: "nat \<Rightarrow> nat \<Rightarrow> nat \<Rightarrow> nat" where
  "is_prime_loop candidate divisor square =
     (if square < candidate \<and> 1 < divisor \<and> candidate mod divisor \<noteq> 0 then
        let divisor = size_inc divisor;
            square = (square + 4 * divisor) mod 2 ^ 64;
            divisor = size_inc divisor
        in is_prime_loop candidate divisor square
      else divisor)"
  by pat_completeness auto
termination
  by (relation "measure (\<lambda>(c, d, s). if d \<le> 1 then 0
       else if SIZE_MAX < d then SIZE_MAX + 3 else SIZE_MAX + 2 - d)")
     (auto simp: size_inc_def mod_Suc split: if_splits)

declare is_prime_loop.simps [simp del]

definition is_prime :: "nat \<Rightarrow> bool" where
  "is_prime candidate = (candidate mod is_prime_loop candidate 3 9 \<noteq> 0)"

text \<open>The candidate is odd, so it meets \<open>SIZE_MAX\<close>, which is odd too, before it wraps around.\<close>

function next_prime_loop :: "nat \<Rightarrow> nat" where
  "next_prime_loop candidate =
     (if SIZE_MAX \<le> candidate \<or> is_prime candidate then candidate
      else next_prime_loop (candidate + 2))"
  by pat_completeness auto
termination
  by (relation "measure (\<lambda>c. SIZE_MAX - c)") auto

declare next_prime_loop.simps [simp del]

definition next_prime :: "nat \<Rightarrow> nat" where
  "next_prime candidate =
     (let candidate = (if candidate < 10 then 10 else candidate);
          candidate = (if even candidate then candidate + 1 else candidate)
      in next_prime_loop candidate)"

text \<open>The default hasher and comparator, on addresses; \<open>NULL\<close> is address 0.\<close>

definition rotr_sz :: "64 word \<Rightarrow> nat \<Rightarrow> 64 word" where
  "rotr_sz x n = or (drop_bit n x) (push_bit (64 - n) x)"

definition raw_hasher :: "64 word option \<Rightarrow> nat \<Rightarrow> nat option" where
  "raw_hasher d n = (let val = rotr_sz (case d of None \<Rightarrow> 0 | Some p \<Rightarrow> p) 3
     in if n = 0 then None else Some (unat val mod n))"

definition raw_comparator :: "64 word \<Rightarrow> 64 word option \<Rightarrow> bool option" where
  "raw_comparator a b = Some (Some a = b)"

definition tuning_valid :: "hash_tuning \<Rightarrow> bool" where
  "tuning_valid tn =
     (let epsilon = flt (1 / 10)
      in epsilon < growth_threshold tn
         \<and> growth_threshold tn < flt (1 - epsilon)
         \<and> flt (1 + epsilon) < growth_factor tn
         \<and> 0 \<le> shrink_threshold tn
         \<and> flt (shrink_threshold tn + epsilon) < shrink_factor tn
         \<and> shrink_factor tn \<le> 1
         \<and> flt (shrink_threshold tn + epsilon) < growth_threshold tn)"

definition check_tuning :: "'a htable \<Rightarrow> bool \<times> 'a htable" where
  "check_tuning t = (case tuning t of
     Default_tuning \<Rightarrow> (True, t)
   | User_tuning tn \<Rightarrow> if tuning_valid tn then (True, t) else (False, t\<lparr>tuning := Default_tuning\<rparr>))"

text \<open>\<open>SIZE_MAX\<close> is \<open>2 ^ 64\<close> when it is converted to \<open>float\<close> for the comparison.\<close>

definition xalloc_oversized :: "nat \<Rightarrow> nat \<Rightarrow> bool" where
  "xalloc_oversized n s = (SIZE_MAX div s < n)"

definition compute_bucket_size :: "nat \<Rightarrow> hash_tuning \<Rightarrow> nat" where
  "compute_bucket_size candidate tn =
     (let new_candidate = flt (flt (of_nat candidate) / growth_threshold tn) in
      if \<not> is_n_buckets tn \<and> flt (of_nat SIZE_MAX) \<le> new_candidate then 0
      else let candidate = (if \<not> is_n_buckets tn then nat \<lfloor>new_candidate\<rfloor> else candidate);
               candidate = next_prime candidate
           in if xalloc_oversized candidate 8 then 0 else candidate)"

section \<open>Allocation and clean-up\<close>

definition alloc :: "heap \<Rightarrow> bool \<times> heap" where
  "alloc h = (h_ok h (h_count h), h\<lparr>h_count := h_count h + 1\<rparr>)"

text \<open>
  \<open>hash_initialize\<close>: \<open>None\<close> is \<open>NULL\<close>, with the heap as it is then. \<open>hs\<close> and \<open>cmp\<close> are the
  user's functions, or \<open>raw_hasher\<close> and \<open>raw_comparator\<close> for a null pointer.
\<close>

definition hash_initialize ::
  "nat \<Rightarrow> hash_tuning option \<Rightarrow> ('a option \<Rightarrow> nat \<Rightarrow> nat option) \<Rightarrow>
   ('a \<Rightarrow> 'a option \<Rightarrow> bool option) \<Rightarrow> bool \<Rightarrow> heap \<Rightarrow> 'a htable option \<times> heap" where
  "hash_initialize candidate tn hs cmp freer h =
     (case alloc h of (ok, h) \<Rightarrow>
      if \<not> ok then (None, h)
      else let ptr = (case tn of None \<Rightarrow> Default_tuning | Some tn \<Rightarrow> User_tuning tn);
               t = \<lparr>buckets = [], n_buckets = 0, n_buckets_used = 0, n_entries = 0, tuning = ptr,
                    hasher = hs, comparator = cmp, data_freer = freer, free_entry_list = 0,
                    freed = [], heap = h\<rparr>
           in if \<not> fst (check_tuning t) then (None, h)
              else let n = compute_bucket_size candidate (tuning_of ptr)
              in if n = 0 then (None, h)
              else (case alloc h of (ok, h) \<Rightarrow>
                if \<not> ok then (None, h)
                else (Some (t\<lparr>n_buckets := n, buckets := replicate n empty_bucket, heap := h\<rparr>), h)))"

text \<open>\<open>table->data_freer (data)\<close>, when there is one.\<close>

definition free_data :: "'a option \<Rightarrow> 'a htable \<Rightarrow> 'a htable" where
  "free_data d t = (if data_freer t then t\<lparr>freed := freed t @ [d]\<rparr> else t)"

text \<open>The loop of \<open>hash_clear\<close> over the overflow of one bucket, then over the buckets.\<close>

fun clear_chain :: "'a option list \<Rightarrow> 'a htable \<Rightarrow> 'a htable" where
  "clear_chain [] t = t"
| "clear_chain (d # ds) t =
     clear_chain ds ((free_data d t)\<lparr>free_entry_list := free_entry_list t + 1\<rparr>)"

fun clear_loop :: "nat \<Rightarrow> nat \<Rightarrow> 'a htable \<Rightarrow> 'a htable" where
  "clear_loop 0 i t = t"
| "clear_loop (Suc k) i t =
     (let b = buckets t ! i in
      clear_loop k (i + 1)
        (if b_data b \<noteq> None then
           let t = free_data (b_data b) (clear_chain (b_next b) t)
           in t\<lparr>buckets := (buckets t)[i := empty_bucket]\<rparr>
         else t))"

definition hash_clear :: "'a htable \<Rightarrow> 'a htable" where
  "hash_clear t = (clear_loop (length (buckets t)) 0 t)\<lparr>n_buckets_used := 0, n_entries := 0\<rparr>"

text \<open>
  \<open>hash_free\<close>: the calls of the freer, then the overflow entries and the free list are freed,
  and the table is gone.
\<close>

fun free_cells :: "'a option list \<Rightarrow> 'a htable \<Rightarrow> 'a htable" where
  "free_cells [] t = t"
| "free_cells (d # ds) t = free_cells ds (free_data d t)"

fun free_bucket_data :: "'a bucket list \<Rightarrow> 'a htable \<Rightarrow> 'a htable" where
  "free_bucket_data [] t = t"
| "free_bucket_data (b # bs) t =
     free_bucket_data bs (if b_data b \<noteq> None then free_cells (cells b) t else t)"

fun free_overflow :: "'a bucket list \<Rightarrow> heap \<Rightarrow> heap" where
  "free_overflow [] h = h"
| "free_overflow (b # bs) h = free_overflow bs (h\<lparr>h_nodes := h_nodes h - int (length (b_next b))\<rparr>)"

definition hash_free :: "'a htable \<Rightarrow> 'a option list \<times> heap" where
  "hash_free t =
     (let t = (if data_freer t \<and> n_entries t \<noteq> 0 then free_bucket_data (buckets t) t else t);
          h = free_overflow (buckets t) (heap t);
          h = h\<lparr>h_nodes := h_nodes h - int (free_entry_list t)\<rparr>
      in (freed t, h))"

section \<open>Insertion and deletion\<close>

text \<open>\<open>allocate_entry\<close>: whether there is a new entry.\<close>

definition allocate_entry :: "'a htable \<Rightarrow> bool \<times> 'a htable" where
  "allocate_entry t =
     (if free_entry_list t \<noteq> 0 then (True, t\<lparr>free_entry_list := free_entry_list t - 1\<rparr>)
      else (case alloc (heap t) of (ok, h) \<Rightarrow>
        (ok, t\<lparr>heap := if ok then h\<lparr>h_nodes := h_nodes h + 1\<rparr> else h\<rparr>)))"

definition free_entry :: "'a htable \<Rightarrow> 'a htable" where
  "free_entry t = t\<lparr>free_entry_list := free_entry_list t + 1\<rparr>"

definition set_bucket :: "nat \<Rightarrow> 'a bucket \<Rightarrow> 'a htable \<Rightarrow> 'a htable" where
  "set_bucket i b t = t\<lparr>buckets := (buckets t)[i := b]\<rparr>"

text \<open>
  \<open>hash_find_entry\<close>: the data found (which may be \<open>NULL\<close>) and the index of the bucket. The
  test meant to skip an empty bucket looks at \<open>bucket_head\<close> itself, which is never \<open>NULL\<close>, so
  the comparator is called with the \<open>NULL\<close> of an empty bucket's head.
\<close>

definition hash_find_entry ::
  "'a \<Rightarrow> bool \<Rightarrow> 'a htable \<Rightarrow> ('a option \<times> nat, 'a htable) outcome" where
  "hash_find_entry entry del t = obind (slot (Some entry) t) (\<lambda>i t.
     let b = buckets t ! i in
     case find_cell (comparator t) entry [b_data b] of
       None \<Rightarrow> Fault t
     | Some (Some _) \<Rightarrow>
         Ret (b_data b, i)
           (if del then
              (case b_next b of
                 d # ds \<Rightarrow> free_entry (set_bucket i \<lparr>b_data = d, b_next = ds\<rparr> t)
               | [] \<Rightarrow> set_bucket i (b\<lparr>b_data := None\<rparr>) t)
            else t)
     | Some None \<Rightarrow>
         (case find_cell (comparator t) entry (b_next b) of
            None \<Rightarrow> Fault t
          | Some None \<Rightarrow> Ret (None, i) t
          | Some (Some k) \<Rightarrow>
              Ret (b_next b ! k, i)
                (if del then free_entry (set_bucket i
                    (b\<lparr>b_next := take k (b_next b) @ drop (k + 1) (b_next b)\<rparr>) t)
                 else t)))"

text \<open>
  \<open>transfer_entries\<close>. The overflow of one source bucket goes first; it is read cell by cell
  while the cells move, and the source bucket is changed only when all have moved.
\<close>

fun transfer_chain :: "'a option list \<Rightarrow> 'a htable \<Rightarrow> (unit, 'a htable) outcome" where
  "transfer_chain [] dst = Ret () dst"
| "transfer_chain (d # ds) dst = obind (slot d dst) (\<lambda>j dst.
     let b = buckets dst ! j in
     transfer_chain ds
       (if b_data b \<noteq> None then set_bucket j (b\<lparr>b_next := d # b_next b\<rparr>) dst
        else free_entry ((set_bucket j (b\<lparr>b_data := d\<rparr>) dst)
               \<lparr>n_buckets_used := size_inc (n_buckets_used dst)\<rparr>)))"

text \<open>
  Then its head, whether or not there is data in it. \<open>None\<close> is a failing allocation.
\<close>

definition transfer_head :: "'a option \<Rightarrow> 'a htable \<Rightarrow> (unit option, 'a htable) outcome" where
  "transfer_head d dst = obind (slot d dst) (\<lambda>j dst.
     let b = buckets dst ! j in
     if b_data b \<noteq> None then
       (case allocate_entry dst of (ok, dst) \<Rightarrow>
          if \<not> ok then Ret None dst
          else Ret (Some ()) (set_bucket j (b\<lparr>b_next := d # b_next b\<rparr>) dst))
     else Ret (Some ()) ((set_bucket j (b\<lparr>b_data := d\<rparr>) dst)
            \<lparr>n_buckets_used := size_inc (n_buckets_used dst)\<rparr>))"

fun transfer_loop ::
  "bool \<Rightarrow> nat \<Rightarrow> nat \<Rightarrow> 'a htable \<Rightarrow> 'a htable \<Rightarrow> (bool \<times> 'a htable, 'a htable) outcome" where
  "transfer_loop safe 0 i src dst = Ret (True, src) dst"
| "transfer_loop safe (Suc k) i src dst =
     (let b = buckets src ! i in
      obind (transfer_chain (b_next b) dst) (\<lambda>_ dst.
        let src = set_bucket i (b\<lparr>b_next := []\<rparr>) src in
        if safe then transfer_loop safe k (i + 1) src dst
        else obind (transfer_head (b_data b) dst) (\<lambda>r dst.
          if r = None then Ret (False, src) dst
          else transfer_loop safe k (i + 1)
                 ((set_bucket i empty_bucket src)
                    \<lparr>n_buckets_used := size_dec (n_buckets_used src)\<rparr>) dst)))"

definition transfer_entries ::
  "'a htable \<Rightarrow> bool \<Rightarrow> 'a htable \<Rightarrow> (bool \<times> 'a htable, 'a htable) outcome" where
  "transfer_entries src safe dst = transfer_loop safe (length (buckets src)) 0 src dst"

text \<open>
  \<open>hash_rehash\<close>. \<open>!new_size == table->n_buckets\<close> compares 0 with the number of buckets, so the
  table is rebuilt even when its size stays. On a failed transfer the entries go back.
\<close>

definition hash_rehash :: "nat \<Rightarrow> 'a htable \<Rightarrow> (bool, 'a htable) outcome" where
  "hash_rehash candidate t =
     (let new_size = compute_bucket_size candidate (tuning_of (tuning t)) in
      if new_size = 0 then Ret False t
      else if (if new_size = 0 then 1 else 0) = n_buckets t then Ret True t
      else (case alloc (heap t) of (ok, h) \<Rightarrow>
        if \<not> ok then Ret False (t\<lparr>heap := h\<rparr>)
        else let new_table = t\<lparr>buckets := replicate new_size empty_bucket, n_buckets := new_size,
                               n_buckets_used := 0, n_entries := 0, heap := h\<rparr>
        in obind (transfer_entries t False new_table) (\<lambda>r new_table.
          if fst r then
            Ret True (t\<lparr>buckets := buckets new_table, n_buckets := n_buckets new_table,
                        n_buckets_used := n_buckets_used new_table,
                        free_entry_list := free_entry_list new_table, heap := heap new_table\<rparr>)
          else let t = (snd r)\<lparr>free_entry_list := free_entry_list new_table, heap := heap new_table\<rparr>
          in obind (transfer_entries new_table True t) (\<lambda>r t.
            if \<not> fst r then aborts t
            else obind (transfer_entries (snd r) False t) (\<lambda>r t.
              if \<not> fst r then aborts t else Ret False t)))))"

text \<open>
  The threshold tests and the sizes they lead to, in \<open>float\<close> (\<open>SIZE_MAX\<close> is converted too).
\<close>

definition over_growth :: "'a htable \<Rightarrow> bool" where
  "over_growth t \<longleftrightarrow>
     flt (of_nat (n_buckets_used t))
       > flt (growth_threshold (tuning_of (tuning t)) * flt (of_nat (n_buckets t)))"

definition under_shrink :: "'a htable \<Rightarrow> bool" where
  "under_shrink t \<longleftrightarrow>
     flt (of_nat (n_buckets_used t))
       < flt (shrink_threshold (tuning_of (tuning t)) * flt (of_nat (n_buckets t)))"

definition growth_candidate :: "'a htable \<Rightarrow> rat" where
  "growth_candidate t =
     (let tn = tuning_of (tuning t); n = flt (of_nat (n_buckets t))
      in if is_n_buckets tn then flt (n * growth_factor tn)
         else flt (flt (n * growth_factor tn) * growth_threshold tn))"

definition shrink_candidate :: "'a htable \<Rightarrow> rat" where
  "shrink_candidate t =
     (let tn = tuning_of (tuning t); n = flt (of_nat (n_buckets t))
      in if is_n_buckets tn then flt (n * shrink_factor tn)
         else flt (flt (n * shrink_factor tn) * growth_threshold tn))"

text \<open>The growth step of \<open>hash_insert\<close>: \<open>None\<close> when it returns \<open>NULL\<close>, else the bucket.\<close>

definition insert_grow :: "'a \<Rightarrow> nat \<Rightarrow> 'a htable \<Rightarrow> (nat option, 'a htable) outcome" where
  "insert_grow entry i t =
     (if \<not> over_growth t then Ret (Some i) t
      else let t = snd (check_tuning t) in
      if \<not> over_growth t then Ret (Some i) t
      else let candidate = growth_candidate t in
      if flt (of_nat SIZE_MAX) \<le> candidate then Ret None t
      else obind (hash_rehash (nat \<lfloor>candidate\<rfloor>) t) (\<lambda>ok t.
        if \<not> ok then Ret None t
        else obind (hash_find_entry entry False t) (\<lambda>r t.
          if fst r \<noteq> None then aborts t else Ret (Some (snd r)) t)))"

definition hash_insert :: "'a option \<Rightarrow> 'a htable \<Rightarrow> ('a option, 'a htable) outcome" where
  "hash_insert arg t = (case arg of
     None \<Rightarrow> aborts t
   | Some entry \<Rightarrow> obind (hash_find_entry entry False t) (\<lambda>r t.
       if fst r \<noteq> None then Ret (fst r) t
       else obind (insert_grow entry (snd r) t) (\<lambda>g t.
         case g of
           None \<Rightarrow> Ret None t
         | Some i \<Rightarrow>
             let b = buckets t ! i in
             if b_data b \<noteq> None then
               (case allocate_entry t of (ok, t) \<Rightarrow>
                  if \<not> ok then Ret None t
                  else Ret (Some entry)
                    ((set_bucket i (b\<lparr>b_next := Some entry # b_next b\<rparr>) t)
                       \<lparr>n_entries := size_inc (n_entries t)\<rparr>))
             else Ret (Some entry)
                    ((set_bucket i (b\<lparr>b_data := Some entry\<rparr>) t)
                       \<lparr>n_entries := size_inc (n_entries t),
                        n_buckets_used := size_inc (n_buckets_used t)\<rparr>))))"

text \<open>
  The shrink step of \<open>hash_delete\<close>; a failed rehash frees the free list. The candidate is a
  \<open>float\<close> converted to \<open>size_t\<close>, undefined when it does not fit.
\<close>

definition delete_shrink :: "'a htable \<Rightarrow> (unit, 'a htable) outcome" where
  "delete_shrink t =
     (if \<not> under_shrink t then Ret () t
      else let t = snd (check_tuning t) in
      if \<not> under_shrink t then Ret () t
      else let candidate = shrink_candidate t in
      if \<not> candidate < 2 ^ 64 then Fault t
      else obind (hash_rehash (nat \<lfloor>candidate\<rfloor>) t) (\<lambda>ok t.
        Ret () (if \<not> ok then
                  t\<lparr>heap := (heap t)\<lparr>h_nodes := h_nodes (heap t) - int (free_entry_list t)\<rparr>,
                    free_entry_list := 0\<rparr>
                else t)))"

definition hash_delete :: "'a \<Rightarrow> 'a htable \<Rightarrow> ('a option, 'a htable) outcome" where
  "hash_delete entry t = obind (hash_find_entry entry True t) (\<lambda>r t.
     if fst r = None then Ret None t
     else let t = t\<lparr>n_entries := size_dec (n_entries t)\<rparr> in
       if b_data (buckets t ! snd r) = None then
         obind (delete_shrink (t\<lparr>n_buckets_used := size_dec (n_buckets_used t)\<rparr>)) (\<lambda>_ t.
           Ret (fst r) t)
       else Ret (fst r) t)"

end
