(* ===== verification/HashFacts.thy ===== *)
theory HashFacts
  imports HashTable "HOL-Library.Multiset"
begin

text \<open>
  What the hash table promises as long as it is not rebuilt: the invariant of a table, lookup,
  insertion and deletion as operations on the set of entries, walking, and the account of the
  memory. What the user's functions have to satisfy is the locale \<open>hash_user\<close>.
\<close>

section \<open>The user's functions\<close>

text \<open>
  Entries compare equal when they have the same key, and then hash to the same bucket; a null
  pointer compares unequal to every entry.
\<close>

locale hash_user =
  fixes hs :: "'a option \<Rightarrow> nat \<Rightarrow> nat option"
    and cmp :: "'a \<Rightarrow> 'a option \<Rightarrow> bool option"
    and key :: "'a \<Rightarrow> 'k"
  assumes hs_range: "0 < n \<Longrightarrow> \<exists>i<n. hs (Some e) n = Some i"
    and hs_key: "key e = key d \<Longrightarrow> hs (Some e) n = hs (Some d) n"
    and cmp_data: "cmp e (Some d) = Some (key e = key d)"
    and cmp_null: "cmp e None = Some False"

interpretation raw: hash_user raw_hasher raw_comparator id
  by unfold_locales (auto simp: raw_hasher_def raw_comparator_def Let_def)

section \<open>The invariant\<close>

definition entries_of :: "'a bucket \<Rightarrow> 'a list" where
  "entries_of b = map the (filter (\<lambda>c. c \<noteq> None) (cells b))"

text \<open>All entries, in the order of the buckets.\<close>

definition stored :: "'a htable \<Rightarrow> 'a list" where
  "stored t = concat (map entries_of (buckets t))"

definition used_in :: "'a bucket list \<Rightarrow> nat" where
  "used_in bs = length (filter (\<lambda>b. b_data b \<noteq> None) bs)"

definition overflow :: "'a bucket list \<Rightarrow> nat" where
  "overflow bs = sum_list (map (\<lambda>b. length (b_next b)) bs)"

text \<open>
  A bucket holds no \<open>NULL\<close> in its overflow, and an overflow only behind a head; its entries
  hash to it, and no two have the same key.
\<close>

definition bucket_ok ::
  "('a \<Rightarrow> 'k) \<Rightarrow> ('a option \<Rightarrow> nat \<Rightarrow> nat option) \<Rightarrow> nat \<Rightarrow> nat \<Rightarrow> 'a bucket \<Rightarrow> bool" where
  "bucket_ok key hs n i b \<longleftrightarrow> (b_data b = None \<longrightarrow> b_next b = []) \<and> None \<notin> set (b_next b) \<and>
     (\<forall>e \<in> set (entries_of b). hs (Some e) n = Some i) \<and> distinct (map key (entries_of b))"

definition table_wf :: "('a \<Rightarrow> 'k) \<Rightarrow> 'a htable \<Rightarrow> bool" where
  "table_wf key t \<longleftrightarrow> length (buckets t) = n_buckets t \<and> 0 < n_buckets t \<and>
     (\<forall>i < n_buckets t. bucket_ok key (hasher t) (n_buckets t) i (buckets t ! i)) \<and>
     n_buckets_used t = used_in (buckets t) \<and> n_entries t = length (stored t) \<and>
     h_nodes (heap t) = int (overflow (buckets t)) + int (free_entry_list t)"

lemma entries_of_simps [simp]:
  "entries_of \<lparr>b_data = None, b_next = []\<rparr> = []"
  "entries_of \<lparr>b_data = Some e, b_next = cs\<rparr> = e # map the (filter (\<lambda>c. c \<noteq> None) cs)"
  by (simp_all add: entries_of_def cells_def)

lemma entries_of_iff: "e \<in> set (entries_of b) \<longleftrightarrow> Some e \<in> set (cells b)"
  by (force simp: entries_of_def image_iff)

lemma entries_of_split:
  "b_next b = p @ Some d # q \<Longrightarrow>
   mset (entries_of b) = add_mset d (mset (entries_of (b\<lparr>b_next := p @ q\<rparr>)))"
  by (cases "b_data b") (simp_all add: entries_of_def cells_def)

lemma stored_iff: "e \<in> set (stored t) \<longleftrightarrow> (\<exists>i < length (buckets t). e \<in> set (entries_of (buckets t ! i)))"
proof -
  have "e \<in> set (stored t) \<longleftrightarrow> (\<exists>b \<in> set (buckets t). e \<in> set (entries_of b))"
    by (simp add: stored_def)
  then show ?thesis by (metis in_set_conv_nth)
qed

text \<open>Changing one bucket.\<close>

lemma stored_update:
  "i < length bs \<Longrightarrow>
   mset (concat (map f (bs[i := b]))) + mset (f (bs ! i)) = mset (concat (map f bs)) + mset (f b)"
proof (induction bs arbitrary: i)
  case (Cons a bs)
  then show ?case by (cases i) (auto simp: ac_simps)
qed simp

lemma used_update:
  "i < length bs \<Longrightarrow> used_in (bs[i := b]) + (if b_data (bs ! i) \<noteq> None then 1 else 0) =
     used_in bs + (if b_data b \<noteq> None then 1 else 0)"
proof (induction bs arbitrary: i)
  case (Cons a bs)
  then show ?case by (cases i) (auto simp: used_in_def)
qed simp

lemma overflow_update:
  "i < length bs \<Longrightarrow> overflow (bs[i := b]) + length (b_next (bs ! i)) =
     overflow bs + length (b_next b)"
proof (induction bs arbitrary: i)
  case (Cons a bs)
  then show ?case by (cases i) (auto simp: overflow_def)
qed simp

lemma used_pos: "i < length bs \<Longrightarrow> b_data (bs ! i) \<noteq> None \<Longrightarrow> 0 < used_in bs"
  by (auto simp: used_in_def filter_empty_conv)

lemma stored_set_bucket:
  "i < length (buckets t) \<Longrightarrow> mset (stored (set_bucket i b t)) + mset (entries_of (buckets t ! i)) =
     mset (stored t) + mset (entries_of b)"
  unfolding stored_def set_bucket_def using stored_update [of i "buckets t" entries_of b] by simp

section \<open>Statistics\<close>

lemma table_counts_eq:
  "table_counts bs u n =
     (u + used_in bs, n + sum_list (map (\<lambda>b. if b_data b \<noteq> None then 1 + length (b_next b) else 0) bs))"
  by (induction bs arbitrary: u n) (auto simp: used_in_def)

lemma bucket_ok_cells:
  assumes "bucket_ok key hs n i b"
  shows "entries_of b = (if b_data b = None then [] else map the (cells b))"
    and "\<forall>c \<in> set (b_next b). c \<noteq> None"
proof -
  show n: "\<forall>c \<in> set (b_next b). c \<noteq> None" using assms by (metis bucket_ok_def)
  show "entries_of b = (if b_data b = None then [] else map the (cells b))"
  proof (cases "b_data b")
    case None
    with assms show ?thesis by (simp add: bucket_ok_def entries_of_def cells_def)
  next
    case (Some e)
    have "filter (\<lambda>c. c \<noteq> None) (b_next b) = b_next b" using n by (simp add: filter_id_conv)
    with Some show ?thesis by (simp add: entries_of_def cells_def)
  qed
qed

lemma table_wf_ok: "table_wf key t \<Longrightarrow> hash_table_ok t"
proof -
  assume wf: "table_wf key t"
  have "length (concat (map entries_of bs)) =
      sum_list (map (\<lambda>b. if b_data b \<noteq> None then 1 + length (b_next b) else 0) bs)"
    if "\<forall>b \<in> set bs. \<exists>i. bucket_ok key (hasher t) (n_buckets t) i b" for bs
    using that
  proof (induction bs)
    case (Cons b bs)
    then obtain i where "bucket_ok key (hasher t) (n_buckets t) i b" by auto
    from bucket_ok_cells(1) [OF this] Cons show ?case by (simp add: cells_def)
  qed simp
  moreover have "\<forall>b \<in> set (buckets t). \<exists>i. bucket_ok key (hasher t) (n_buckets t) i b"
    using wf by (metis table_wf_def in_set_conv_nth)
  ultimately show ?thesis
    using wf by (simp add: hash_table_ok_def table_counts_eq table_wf_def stored_def)
qed

text \<open>A new entry comes from the free list or from the heap; either way the account goes up by one.\<close>

lemma allocate_entry_ok:
  assumes "allocate_entry t = (True, v)"
  shows "\<exists>f h. v = t\<lparr>free_entry_list := f, heap := h\<rparr> \<and>
    h_nodes h - int f = h_nodes (heap t) - int (free_entry_list t) + 1"
proof (cases "free_entry_list t = 0")
  case True
  let ?h = "(heap t)\<lparr>h_count := h_count (heap t) + 1, h_nodes := h_nodes (heap t) + 1\<rparr>"
  have "v = t\<lparr>heap := ?h\<rparr>" using assms True by (auto simp: allocate_entry_def alloc_def)
  with True show ?thesis by (intro exI [of _ 0] exI [of _ ?h]) simp
next
  case False
  then have "v = t\<lparr>free_entry_list := free_entry_list t - 1\<rparr>"
    using assms by (simp add: allocate_entry_def)
  with False show ?thesis
    by (intro exI [of _ "free_entry_list t - 1"] exI [of _ "heap t"]) (simp add: of_nat_diff)
qed

context hash_user
begin

section \<open>Finding\<close>

lemma find_cell_some: "\<exists>r. find_cell cmp e cs = Some r"
proof (induction cs)
  case (Cons c cs)
  then show ?case by (cases c) (auto simp: cmp_data cmp_null split: bool.splits)
qed simp

lemma found_none: "map_option (map_option Suc) x = Some None \<longleftrightarrow> x = Some None"
  by (cases x) auto

lemma find_cell_none:
  "find_cell cmp e cs = Some None \<longleftrightarrow> (\<forall>d. Some d \<in> set cs \<longrightarrow> key e \<noteq> key d)"
proof (induction cs)
  case (Cons c cs)
  show ?case
  proof (cases c)
    case None
    then show ?thesis by (simp add: cmp_null found_none Cons.IH)
  next
    case (Some d)
    show ?thesis
    proof (cases "key e = key d")
      case True
      then have "find_cell cmp e (c # cs) \<noteq> Some None" using Some by (simp add: cmp_data)
      moreover have "Some d \<in> set (c # cs)" using Some by simp
      ultimately show ?thesis using True by metis
    next
      case False
      then have "d \<noteq> e" by auto
      with False Some have "find_cell cmp e (c # cs) = Some None \<longleftrightarrow> find_cell cmp e cs = Some None"
        by (simp add: cmp_data found_none)
      with Cons.IH False Some show ?thesis by (metis list.set_intros(2) option.inject set_ConsD)
    qed
  qed
qed simp

lemma find_cell_at:
  "find_cell cmp e cs = Some (Some k) \<Longrightarrow> k < length cs \<and> (\<exists>d. cs ! k = Some d \<and> key d = key e)"
proof (induction cs arbitrary: k)
  case (Cons c cs)
  show ?case
  proof (cases "c = Some e \<or> cmp e c = Some True")
    case True
    with Cons.prems have "k = 0" by (auto split: if_splits)
    with True show ?thesis by (cases c) (auto simp: cmp_data cmp_null)
  next
    case False
    then have "cmp e c = Some False" by (cases c) (auto simp: cmp_data cmp_null)
    with False Cons.prems obtain j where "find_cell cmp e cs = Some (Some j)" "k = Suc j"
      by (auto split: if_splits)
    with Cons.IH show ?thesis by auto
  qed
qed simp

text \<open>The bucket an entry belongs to, and what is in it.\<close>

lemma slot_wf:
  assumes "table_wf key t" "hasher t = hs"
  obtains i where "i < length (buckets t)" "hs (Some e) (n_buckets t) = Some i"
    "slot (Some e) t = Ret i t" "bucket_ok key hs (n_buckets t) i (buckets t ! i)"
proof -
  from assms hs_range [of "n_buckets t" e] obtain i where
    "i < n_buckets t" "hs (Some e) (n_buckets t) = Some i" by (auto simp: table_wf_def)
  with assms that show thesis by (simp add: table_wf_def slot_def)
qed

lemma same_bucket:
  assumes "table_wf key t" "hasher t = hs" "i < length (buckets t)" "hs (Some e) (n_buckets t) = Some i"
  shows "d \<in> set (stored t) \<and> key d = key e \<longleftrightarrow> d \<in> set (entries_of (buckets t ! i)) \<and> key d = key e"
proof
  assume d: "d \<in> set (stored t) \<and> key d = key e"
  then obtain j where j: "j < length (buckets t)" "d \<in> set (entries_of (buckets t ! j))"
    by (auto simp: stored_iff)
  with assms(1,2) have "hs (Some d) (n_buckets t) = Some j" by (simp add: table_wf_def bucket_ok_def)
  with d assms(4) hs_key [of d e "n_buckets t"] have "j = i" by simp
  with j d show "d \<in> set (entries_of (buckets t ! i)) \<and> key d = key e" by simp
qed (use assms(3) in \<open>auto simp: stored_iff\<close>)

lemma lookup_correct:
  assumes "table_wf key t" "hasher t = hs" "comparator t = cmp"
  shows "\<exists>r. hash_lookup e t = Ret r t \<and>
    (case r of None \<Rightarrow> \<forall>d \<in> set (stored t). key d \<noteq> key e
     | Some d \<Rightarrow> d \<in> set (stored t) \<and> key d = key e)"
proof -
  obtain i where i: "i < length (buckets t)" "hs (Some e) (n_buckets t) = Some i"
    "slot (Some e) t = Ret i t" "bucket_ok key hs (n_buckets t) i (buckets t ! i)"
    using slot_wf [OF assms(1,2)] .
  let ?b = "buckets t ! i"
  note here = same_bucket [OF assms(1,2) i(1,2)]
  show ?thesis
  proof (cases "b_data ?b = None")
    case True
    with bucket_ok_cells(1) [OF i(4)] have "entries_of ?b = []" by simp
    with here have "\<forall>d \<in> set (stored t). key d \<noteq> key e" by auto
    with True i(3) show ?thesis by (intro exI [of _ None]) (simp add: hash_lookup_def Let_def)
  next
    case False
    obtain r where r: "find_cell cmp e (cells ?b) = Some r" using find_cell_some by blast
    show ?thesis
    proof (cases r)
      case None
      with r find_cell_none [of e "cells ?b"] entries_of_iff [of _ ?b] here
      have "\<forall>d \<in> set (stored t). key d \<noteq> key e" by metis
      with False i(3) r None assms(3) show ?thesis
        by (intro exI [of _ None]) (simp add: hash_lookup_def Let_def)
    next
      case (Some k)
      with r find_cell_at [of e "cells ?b" k] obtain d where d:
        "cells ?b ! k = Some d" "key d = key e" "k < length (cells ?b)" by auto
      then have "d \<in> set (entries_of ?b)" by (metis entries_of_iff nth_mem)
      with here d(2) have "d \<in> set (stored t)" by blast
      with False i(3) r Some d assms(3) show ?thesis
        by (intro exI [of _ "Some d"]) (simp add: hash_lookup_def Let_def)
    qed
  qed
qed

text \<open>Searching one bucket, as \<open>hash_find_entry\<close> does it: the head, then the overflow.\<close>

lemma find_head:
  "find_cell cmp e [b_data b] =
     Some (if \<exists>d. b_data b = Some d \<and> key d = key e then Some 0 else None)"
  by (cases "b_data b") (auto simp: cmp_data cmp_null split: bool.splits)

lemma find_miss:
  "\<nexists>d. b_data b = Some d \<and> key d = key e \<Longrightarrow> find_cell cmp e [b_data b] = Some None"
  by (simp only: find_head if_False)

lemma absent_cells:
  assumes "\<nexists>d. b_data b = Some d \<and> key d = key e" "\<forall>d. Some d \<in> set (b_next b) \<longrightarrow> key e \<noteq> key d"
  shows "\<forall>d \<in> set (entries_of b). key d \<noteq> key e"
proof
  fix d assume "d \<in> set (entries_of b)"
  then consider "b_data b = Some d" | "Some d \<in> set (b_next b)" by (auto simp: entries_of_iff cells_def)
  then show "key d \<noteq> key e" using assms by cases metis+
qed

lemma find_entry_keeps:
  assumes "table_wf key t" "hasher t = hs" "comparator t = cmp"
  shows "\<exists>i r. i < length (buckets t) \<and> hs (Some e) (n_buckets t) = Some i \<and>
    hash_find_entry e False t = Ret (r, i) t \<and>
    (case r of None \<Rightarrow> \<forall>d \<in> set (stored t). key d \<noteq> key e
     | Some d \<Rightarrow> d \<in> set (stored t) \<and> key d = key e)"
proof -
  obtain i where i: "i < length (buckets t)" "hs (Some e) (n_buckets t) = Some i"
    "slot (Some e) t = Ret i t" "bucket_ok key hs (n_buckets t) i (buckets t ! i)"
    using slot_wf [OF assms(1,2)] .
  let ?b = "buckets t ! i"
  note here = same_bucket [OF assms(1,2) i(1,2)]
  show ?thesis
  proof (cases "\<exists>d. b_data ?b = Some d \<and> key d = key e")
    case True
    then obtain d where d: "b_data ?b = Some d" "key d = key e" by blast
    then have "d \<in> set (entries_of ?b)" by (simp add: entries_of_iff cells_def)
    with here d(2) have "d \<in> set (stored t)" by blast
    with i d assms(3) show ?thesis
      by (intro exI [of _ i] exI [of _ "Some d"]) (simp add: hash_find_entry_def cmp_data Let_def)
  next
    case False
    obtain r where r: "find_cell cmp e (b_next ?b) = Some r" using find_cell_some by blast
    show ?thesis
    proof (cases r)
      case None
      with r find_cell_none [of e "b_next ?b"] have "\<forall>d. Some d \<in> set (b_next ?b) \<longrightarrow> key e \<noteq> key d"
        by simp
      with absent_cells [OF False] have "\<forall>d \<in> set (entries_of ?b). key d \<noteq> key e"
        by blast
      with here have "\<forall>d \<in> set (stored t). key d \<noteq> key e" by blast
      with i False r None assms(3) show ?thesis
        by (intro exI [of _ i] exI [of _ None]) (simp add: hash_find_entry_def find_miss [OF False] Let_def del: find_cell.simps)
    next
      case (Some k)
      with r find_cell_at [of e "b_next ?b" k] obtain d where d:
        "b_next ?b ! k = Some d" "key d = key e" "k < length (b_next ?b)" by auto
      then have "Some d \<in> set (b_next ?b)" by (metis nth_mem)
      then have "d \<in> set (entries_of ?b)" by (simp add: entries_of_iff cells_def)
      with here d(2) have "d \<in> set (stored t)" by blast
      with i False r Some d assms(3) show ?thesis
        by (intro exI [of _ i] exI [of _ "Some d"]) (simp add: hash_find_entry_def find_miss [OF False] Let_def del: find_cell.simps)
    qed
  qed
qed

text \<open>
  With \<open>delete\<close>: the entry leaves its bucket, and its cell (or the head's successor's) goes to
  the free list.
\<close>

definition removed :: "nat \<Rightarrow> 'a \<Rightarrow> 'a htable \<Rightarrow> 'a htable \<Rightarrow> bool" where
  "removed i d t u \<longleftrightarrow> (\<exists>b n. u = t\<lparr>buckets := (buckets t)[i := b], free_entry_list := n\<rparr> \<and>
     bucket_ok key hs (n_buckets t) i b \<and> b_data (buckets t ! i) \<noteq> None \<and>
     mset (entries_of (buckets t ! i)) = add_mset d (mset (entries_of b)) \<and>
     length (b_next b) + n = length (b_next (buckets t ! i)) + free_entry_list t)"

lemma bucket_ok_sub:
  assumes ok: "bucket_ok key hs n i b" and sub: "mset (entries_of b) = add_mset d (mset (entries_of c))"
    and c: "b_data c = None \<longrightarrow> b_next c = []" "None \<notin> set (b_next c)"
  shows "bucket_ok key hs n i c"
proof -
  have "mset (map key (entries_of b)) = add_mset (key d) (mset (map key (entries_of c)))"
    using sub by simp
  then have "distinct (map key (entries_of c))"
    using ok by (metis bucket_ok_def mset_append distinct_append mset.simps(2) append_Cons
        append_Nil add_mset_add_single union_commute distinct.simps(2) mset_eq_imp_distinct_iff)
  moreover have "set (entries_of c) \<subseteq> set (entries_of b)"
    using arg_cong [OF sub, of set_mset] by auto
  ultimately show ?thesis using ok c by (auto simp: bucket_ok_def)
qed

lemma find_entry_removes:
  assumes "table_wf key t" "hasher t = hs" "comparator t = cmp"
  shows "(\<exists>i d u. i < length (buckets t) \<and> d \<in> set (stored t) \<and> key d = key e \<and>
      hash_find_entry e True t = Ret (Some d, i) u \<and> removed i d t u) \<or>
    (\<exists>i. hash_find_entry e True t = Ret (None, i) t \<and> (\<forall>d \<in> set (stored t). key d \<noteq> key e))"
proof -
  obtain i where i: "i < length (buckets t)" "hs (Some e) (n_buckets t) = Some i"
    "slot (Some e) t = Ret i t" "bucket_ok key hs (n_buckets t) i (buckets t ! i)"
    using slot_wf [OF assms(1,2)] .
  let ?b = "buckets t ! i"
  note here = same_bucket [OF assms(1,2) i(1,2)]
  note nonull = bucket_ok_cells(2) [OF i(4)]
  show ?thesis
  proof (cases "\<exists>d. b_data ?b = Some d \<and> key d = key e")
    case True
    then obtain d where d: "b_data ?b = Some d" "key d = key e" by blast
    then have "d \<in> set (entries_of ?b)" by (simp add: entries_of_iff cells_def)
    with here d(2) have din: "d \<in> set (stored t)" by blast
    show ?thesis
    proof (cases "b_next ?b")
      case Nil
      let ?u = "set_bucket i (?b\<lparr>b_data := None\<rparr>) t"
      have r: "hash_find_entry e True t = Ret (Some d, i) ?u"
        using i(3) d assms(3) Nil by (simp add: hash_find_entry_def cmp_data Let_def)
      have m: "mset (entries_of ?b) = add_mset d (mset (entries_of (?b\<lparr>b_data := None\<rparr>)))"
        using d(1) Nil by (simp add: entries_of_def cells_def)
      from bucket_ok_sub [OF i(4) m] Nil have "bucket_ok key hs (n_buckets t) i (?b\<lparr>b_data := None\<rparr>)"
        by simp
      with m d(1) have "removed i d t ?u"
        unfolding removed_def
        by (intro exI [of _ "?b\<lparr>b_data := None\<rparr>"] exI [of _ "free_entry_list t"])
           (simp add: set_bucket_def)
      with i(1) din d(2) r show ?thesis by blast
    next
      case (Cons c cs)
      with nonull obtain f where f: "c = Some f" by auto
      let ?c = "\<lparr>b_data = c, b_next = cs\<rparr>"
      let ?u = "free_entry (set_bucket i ?c t)"
      have r: "hash_find_entry e True t = Ret (Some d, i) ?u"
        using i(3) d assms(3) Cons by (simp add: hash_find_entry_def cmp_data Let_def)
      have m: "mset (entries_of ?b) = add_mset d (mset (entries_of ?c))"
        using d(1) Cons f by (simp add: entries_of_def cells_def)
      from bucket_ok_sub [OF i(4) m] Cons nonull f have "bucket_ok key hs (n_buckets t) i ?c" by auto
      with m d(1) Cons have "removed i d t ?u"
        unfolding removed_def
        by (intro exI [of _ ?c] exI [of _ "free_entry_list t + 1"])
           (simp add: set_bucket_def free_entry_def)
      with i(1) din d(2) r show ?thesis by blast
    qed
  next
    case False
    obtain r where r: "find_cell cmp e (b_next ?b) = Some r" using find_cell_some by blast
    show ?thesis
    proof (cases r)
      case None
      with r find_cell_none [of e "b_next ?b"] have "\<forall>d. Some d \<in> set (b_next ?b) \<longrightarrow> key e \<noteq> key d"
        by simp
      with absent_cells [OF False] have "\<forall>d \<in> set (entries_of ?b). key d \<noteq> key e"
        by blast
      with here have "\<forall>d \<in> set (stored t). key d \<noteq> key e" by blast
      with i False r None assms(3) show ?thesis
        by (intro disjI2 exI [of _ i]) (simp add: hash_find_entry_def find_miss [OF False] Let_def del: find_cell.simps)
    next
      case (Some k)
      with r find_cell_at [of e "b_next ?b" k] obtain d where d:
        "b_next ?b ! k = Some d" "key d = key e" "k < length (b_next ?b)" by auto
      then have "Some d \<in> set (b_next ?b)" by (metis nth_mem)
      then have "d \<in> set (entries_of ?b)" by (simp add: entries_of_iff cells_def)
      with here d(2) have din: "d \<in> set (stored t)" by blast
      let ?next = "take k (b_next ?b) @ drop (k + 1) (b_next ?b)"
      let ?u = "free_entry (set_bucket i (?b\<lparr>b_next := ?next\<rparr>) t)"
      have ret: "hash_find_entry e True t = Ret (Some d, i) ?u"
        using i(3) r Some d(1) assms(3)
        by (simp add: hash_find_entry_def find_miss [OF False] Let_def del: find_cell.simps)
      have split: "b_next ?b = take k (b_next ?b) @ Some d # drop (k + 1) (b_next ?b)"
        using id_take_nth_drop [OF d(3)] d(1) by simp
      have m: "mset (entries_of ?b) = add_mset d (mset (entries_of (?b\<lparr>b_next := ?next\<rparr>)))"
        by (rule entries_of_split [OF split])
      have head: "b_data ?b \<noteq> None" using i(4) d(3) by (auto simp: bucket_ok_def)
      have "set ?next \<subseteq> set (b_next ?b)" by (simp add: set_take_subset set_drop_subset)
      then have nn: "None \<notin> set ?next" using nonull by blast
      have "bucket_ok key hs (n_buckets t) i (?b\<lparr>b_next := ?next\<rparr>)"
      proof (rule bucket_ok_sub [OF i(4) m])
        show "b_data (?b\<lparr>b_next := ?next\<rparr>) = None \<longrightarrow> b_next (?b\<lparr>b_next := ?next\<rparr>) = []"
          using head by auto
        show "None \<notin> set (b_next (?b\<lparr>b_next := ?next\<rparr>))" using nn by simp
      qed
      moreover have "length ?next + 1 = length (b_next ?b)" using d(3) by simp
      ultimately have "removed i d t ?u"
        using m head unfolding removed_def
        by (intro exI [of _ "?b\<lparr>b_next := ?next\<rparr>"] exI [of _ "free_entry_list t + 1"])
           (simp add: set_bucket_def free_entry_def)
      with i(1) din d(2) ret show ?thesis by blast
    qed
  qed
qed

section \<open>Insertion and deletion\<close>

text \<open>
  Replacing bucket \<open>i\<close>: what the statistics become, when the new bucket holds the entries of
  the old one and \<open>e\<close>, or all of them but \<open>d\<close>.
\<close>

lemma wf_add:
  assumes wf: "table_wf key t" "hasher t = hs" and i: "i < length (buckets t)" "hs (Some e) (n_buckets t) = Some i"
    and b: "mset (entries_of b) = add_mset e (mset (entries_of (buckets t ! i)))"
      "b_data b \<noteq> None" "None \<notin> set (b_next b)"
    and new: "\<forall>d \<in> set (stored t). key d \<noteq> key e" and small: "n_entries t < SIZE_MAX"
    and u: "u = t\<lparr>buckets := (buckets t)[i := b], n_entries := n, n_buckets_used := m,
                 free_entry_list := f, heap := h\<rparr>"
      "n = size_inc (n_entries t)"
      "m = (if b_data (buckets t ! i) = None then size_inc (n_buckets_used t) else n_buckets_used t)"
      "h_nodes h - int f - int (length (b_next b)) =
         h_nodes (heap t) - int (free_entry_list t) - int (length (b_next (buckets t ! i)))"
  shows "table_wf key u \<and> mset (stored u) = add_mset e (mset (stored t))"
proof -
  let ?b = "buckets t ! i"
  have st: "mset (stored u) + mset (entries_of ?b) = mset (stored t) + mset (entries_of b)"
    using stored_set_bucket [OF i(1), of b] by (simp add: u(1) stored_def set_bucket_def)
  with b(1) have ms: "mset (stored u) = add_mset e (mset (stored t))" by simp
  have ok: "bucket_ok key hs (n_buckets t) i ?b" using wf i(1) by (simp add: table_wf_def)
  have "set (entries_of ?b) \<subseteq> set (stored t)" using i(1) by (auto simp: stored_iff)
  with new have nk: "key e \<notin> key ` set (entries_of ?b)" by (metis imageE subsetD)
  have mk: "mset (map key (entries_of b)) = add_mset (key e) (mset (map key (entries_of ?b)))"
    using b(1) by simp
  have "distinct (key e # map key (entries_of ?b))" using nk ok by (simp add: bucket_ok_def)
  with mk have "distinct (map key (entries_of b))"
    using mset_eq_imp_distinct_iff [of "map key (entries_of b)" "key e # map key (entries_of ?b)"] by simp
  moreover have "set (entries_of b) = insert e (set (entries_of ?b))"
    using arg_cong [OF b(1), of set_mset] by simp
  ultimately have okb: "bucket_ok key hs (n_buckets t) i b"
    using ok b(2,3) i(2) by (auto simp: bucket_ok_def)
  have used: "used_in ((buckets t)[i := b]) = used_in (buckets t) + (if b_data ?b = None then 1 else 0)"
    using used_update [OF i(1), of b] b(2) by (auto split: if_splits)
  have le: "used_in (buckets t) \<le> length (stored t)"
  proof -
    have "used_in bs \<le> length (concat (map entries_of bs))" for bs :: "'a bucket list"
      by (induction bs) (auto simp: used_in_def entries_of_def cells_def)
    then show ?thesis by (simp add: stored_def)
  qed
  have over: "int (overflow ((buckets t)[i := b])) + int (length (b_next ?b)) =
      int (overflow (buckets t)) + int (length (b_next b))"
    using overflow_update [OF i(1), of b] by presburger
  have len: "length (stored u) = Suc (length (stored t))"
    using arg_cong [OF ms, of size] by simp
  have wfu: "length (buckets t) = n_buckets t" "0 < n_buckets t" "n_buckets_used t = used_in (buckets t)"
    "n_entries t = length (stored t)"
    "h_nodes (heap t) = int (overflow (buckets t)) + int (free_entry_list t)"
    "\<forall>j<n_buckets t. bucket_ok key hs (n_buckets t) j (buckets t ! j)"
    using wf by (auto simp: table_wf_def)
  have nn: "n = length (stored u)" using u(2) small wfu(4) len by (simp add: size_inc_def)
  have mm: "m = used_in ((buckets t)[i := b])"
    using u(3) small wfu(3,4) le used by (simp add: size_inc_def)
  have hh: "h_nodes h = int (overflow ((buckets t)[i := b])) + int f" using u(4) over wfu(5) by linarith
  have all: "\<forall>j<n_buckets t. bucket_ok key hs (n_buckets t) j ((buckets t)[i := b] ! j)"
    using wfu(1,6) okb i(1) by (simp add: nth_list_update)
  have proj: "buckets u = (buckets t)[i := b]" "n_buckets u = n_buckets t" "hasher u = hs"
    "n_buckets_used u = m" "n_entries u = n" "free_entry_list u = f" "heap u = h"
    by (simp_all add: u(1) wf(2))
  show ?thesis
    unfolding table_wf_def proj using ms nn mm hh all wfu(1,2) by simp
qed

lemma wf_remove:
  assumes wf: "table_wf key t" "hasher t = hs" and i: "i < length (buckets t)" and rm: "removed i d t v"
    and u: "u = v\<lparr>n_entries := n, n_buckets_used := m\<rparr>" "n = size_dec (n_entries t)"
      "m = (if b_data (buckets v ! i) = None then size_dec (n_buckets_used t) else n_buckets_used t)"
    and small: "n_entries t \<le> SIZE_MAX"
  shows "table_wf key u \<and> mset (stored t) = add_mset d (mset (stored u))"
proof -
  let ?b = "buckets t ! i"
  from rm obtain b f where v: "v = t\<lparr>buckets := (buckets t)[i := b], free_entry_list := f\<rparr>"
    and ok: "bucket_ok key hs (n_buckets t) i b" and head: "b_data ?b \<noteq> None"
    and ms: "mset (entries_of ?b) = add_mset d (mset (entries_of b))"
    and len: "length (b_next b) + f = length (b_next ?b) + free_entry_list t"
    unfolding removed_def by blast
  have uv: "u = t\<lparr>buckets := (buckets t)[i := b], free_entry_list := f, n_entries := n, n_buckets_used := m\<rparr>"
    by (simp add: u(1) v)
  have vi: "buckets v ! i = b" using i by (simp add: v)
  have "mset (stored u) + mset (entries_of ?b) = mset (stored t) + mset (entries_of b)"
    using stored_set_bucket [OF i, of b] by (simp add: uv stored_def set_bucket_def)
  with ms have st: "mset (stored t) = add_mset d (mset (stored u))" by simp
  have wfu: "length (buckets t) = n_buckets t" "0 < n_buckets t" "n_buckets_used t = used_in (buckets t)"
    "n_entries t = length (stored t)"
    "h_nodes (heap t) = int (overflow (buckets t)) + int (free_entry_list t)"
    "\<forall>j<n_buckets t. bucket_ok key hs (n_buckets t) j (buckets t ! j)"
    using wf by (auto simp: table_wf_def)
  have ls: "length (stored t) = Suc (length (stored u))" using arg_cong [OF st, of size] by simp
  then have nn: "n = length (stored u)" using u(2) small wfu(4) by (simp add: size_dec_def)
  have used: "used_in ((buckets t)[i := b]) + 1 = used_in (buckets t) + (if b_data b \<noteq> None then 1 else 0)"
    using used_update [OF i, of b] head by simp
  then have mm: "m = used_in ((buckets t)[i := b])"
    using u(3) wfu(3) vi by (auto simp: size_dec_def split: if_splits)
  have "int (overflow ((buckets t)[i := b])) + int (length (b_next ?b)) =
      int (overflow (buckets t)) + int (length (b_next b))"
    using overflow_update [OF i, of b] by presburger
  then have hh: "h_nodes (heap t) = int (overflow ((buckets t)[i := b])) + int f"
    using len wfu(5) by linarith
  have all: "\<forall>j<n_buckets t. bucket_ok key hs (n_buckets t) j ((buckets t)[i := b] ! j)"
    using wfu(1,6) ok i by (simp add: nth_list_update)
  have proj: "buckets u = (buckets t)[i := b]" "n_buckets u = n_buckets t" "hasher u = hs"
    "n_buckets_used u = m" "n_entries u = n" "free_entry_list u = f" "heap u = heap t"
    by (simp_all add: uv wf(2))
  show ?thesis
    unfolding table_wf_def proj using st nn mm hh all wfu(1,2) by simp
qed

text \<open>The insertion of an entry that is not there, once its bucket is known.\<close>

lemma insert_at:
  assumes wf: "table_wf key t" "hasher t = hs" and i: "i < length (buckets t)" "hs (Some e) (n_buckets t) = Some i"
    and new: "\<forall>d \<in> set (stored t). key d \<noteq> key e" and small: "n_entries t < SIZE_MAX"
  defines "R \<equiv> (let b = buckets t ! i in
     if b_data b \<noteq> None then
       (case allocate_entry t of (ok, t) \<Rightarrow>
          if \<not> ok then Ret None t
          else Ret (Some e) ((set_bucket i (b\<lparr>b_next := Some e # b_next b\<rparr>) t)
                  \<lparr>n_entries := size_inc (n_entries t)\<rparr>))
     else Ret (Some e) ((set_bucket i (b\<lparr>b_data := Some e\<rparr>) t)
            \<lparr>n_entries := size_inc (n_entries t), n_buckets_used := size_inc (n_buckets_used t)\<rparr>))"
  shows "(\<exists>u. R = Ret (Some e) u \<and> table_wf key u \<and> mset (stored u) = add_mset e (mset (stored t))) \<or>
    (\<exists>u. R = Ret None u \<and> table_wf key u \<and> stored u = stored t \<and> free_entry_list t = 0 \<and>
       \<not> h_ok (heap t) (h_count (heap t)))"
proof (cases "b_data (buckets t ! i) = None")
  case True
  let ?b = "(buckets t ! i)\<lparr>b_data := Some e\<rparr>"
  let ?u = "(set_bucket i ?b t)\<lparr>n_entries := size_inc (n_entries t),
              n_buckets_used := size_inc (n_buckets_used t)\<rparr>"
  have nil: "b_next (buckets t ! i) = []" using wf i(1) True by (auto simp: table_wf_def bucket_ok_def)
  have u: "?u = t\<lparr>buckets := (buckets t)[i := ?b], n_entries := size_inc (n_entries t),
      n_buckets_used := size_inc (n_buckets_used t), free_entry_list := free_entry_list t, heap := heap t\<rparr>"
    by (simp add: set_bucket_def)
  have m: "mset (entries_of ?b) = add_mset e (mset (entries_of (buckets t ! i)))"
    using True nil by (simp add: entries_of_def cells_def)
  have "table_wf key ?u \<and> mset (stored ?u) = add_mset e (mset (stored t))"
    by (rule wf_add [OF wf i m _ _ new small u]) (simp_all add: True nil)
  moreover have "R = Ret (Some e) ?u" using True by (simp add: R_def)
  ultimately show ?thesis by blast
next
  case False
  let ?b = "(buckets t ! i)\<lparr>b_next := Some e # b_next (buckets t ! i)\<rparr>"
  have nn: "None \<notin> set (b_next (buckets t ! i))" using wf i(1) by (auto simp: table_wf_def bucket_ok_def)
  have m: "mset (entries_of ?b) = add_mset e (mset (entries_of (buckets t ! i)))"
    using False by (auto simp: entries_of_def cells_def)
  show ?thesis
  proof (cases "fst (allocate_entry t)")
    case True
    then obtain v where v: "allocate_entry t = (True, v)" by (metis prod.collapse)
    obtain f h where vf: "v = t\<lparr>free_entry_list := f, heap := h\<rparr>"
      "h_nodes h - int f = h_nodes (heap t) - int (free_entry_list t) + 1"
      using allocate_entry_ok [OF v] by blast
    let ?u = "(set_bucket i ?b v)\<lparr>n_entries := size_inc (n_entries v)\<rparr>"
    have u: "?u = t\<lparr>buckets := (buckets t)[i := ?b], n_entries := size_inc (n_entries t),
        n_buckets_used := n_buckets_used t, free_entry_list := f, heap := h\<rparr>"
      by (simp add: set_bucket_def vf(1))
    have "table_wf key ?u \<and> mset (stored ?u) = add_mset e (mset (stored t))"
      by (rule wf_add [OF wf i m _ _ new small u]) (use False nn vf(2) in auto)
    moreover have "R = Ret (Some e) ?u" using False v by (simp add: R_def Let_def)
    ultimately show ?thesis by blast
  next
    case no: False
    then obtain v where v: "allocate_entry t = (False, v)" by (metis prod.collapse)
    then have f: "free_entry_list t = 0" "\<not> h_ok (heap t) (h_count (heap t))"
      "v = t\<lparr>heap := (heap t)\<lparr>h_count := h_count (heap t) + 1\<rparr>\<rparr>"
      by (auto simp: allocate_entry_def alloc_def split: if_splits)
    have "table_wf key v \<and> stored v = stored t" using wf by (simp add: f(3) table_wf_def stored_def)
    moreover have "R = Ret None v" using False v by (simp add: R_def)
    ultimately show ?thesis using f by blast
  qed
qed

lemma insert_correct:
  assumes wf: "table_wf key t" "hasher t = hs" "comparator t = cmp"
    and grow: "\<not> over_growth t" and small: "n_entries t < SIZE_MAX"
  shows "(\<exists>d \<in> set (stored t). key d = key e \<and> hash_insert (Some e) t = Ret (Some d) t) \<or>
    (\<forall>d \<in> set (stored t). key d \<noteq> key e) \<and>
      ((\<exists>u. hash_insert (Some e) t = Ret (Some e) u \<and> table_wf key u \<and>
          mset (stored u) = add_mset e (mset (stored t))) \<or>
       (\<exists>u. hash_insert (Some e) t = Ret None u \<and> table_wf key u \<and> stored u = stored t \<and>
          free_entry_list t = 0 \<and> \<not> h_ok (heap t) (h_count (heap t))))"
proof -
  from find_entry_keeps [OF wf, of e] obtain i r where i: "i < length (buckets t)"
    "hs (Some e) (n_buckets t) = Some i" and f: "hash_find_entry e False t = Ret (r, i) t"
    and r: "case r of None \<Rightarrow> \<forall>d \<in> set (stored t). key d \<noteq> key e
      | Some d \<Rightarrow> d \<in> set (stored t) \<and> key d = key e" by blast
  show ?thesis
  proof (cases r)
    case (Some d)
    with f have "hash_insert (Some e) t = Ret (Some d) t" by (simp add: hash_insert_def)
    with r Some show ?thesis by auto
  next
    case None
    with r have new: "\<forall>d \<in> set (stored t). key d \<noteq> key e" by simp
    have eq: "hash_insert (Some e) t = (let b = buckets t ! i in
     if b_data b \<noteq> None then
       (case allocate_entry t of (ok, t) \<Rightarrow>
          if \<not> ok then Ret None t
          else Ret (Some e) ((set_bucket i (b\<lparr>b_next := Some e # b_next b\<rparr>) t)
                  \<lparr>n_entries := size_inc (n_entries t)\<rparr>))
     else Ret (Some e) ((set_bucket i (b\<lparr>b_data := Some e\<rparr>) t)
            \<lparr>n_entries := size_inc (n_entries t), n_buckets_used := size_inc (n_buckets_used t)\<rparr>))"
      using f None grow by (simp add: hash_insert_def insert_grow_def Let_def cong: prod.case_cong)
    show ?thesis using insert_at [OF wf(1,2) i new small] new unfolding eq by blast
  qed
qed

lemma delete_correct:
  assumes wf: "table_wf key t" "hasher t = hs" "comparator t = cmp"
    and small: "n_entries t \<le> SIZE_MAX" and shrink: "shrink_threshold (tuning_of (tuning t)) = 0"
  shows "(\<exists>d u. d \<in> set (stored t) \<and> key d = key e \<and> hash_delete e t = Ret (Some d) u \<and>
      table_wf key u \<and> mset (stored t) = add_mset d (mset (stored u))) \<or>
    (\<forall>d \<in> set (stored t). key d \<noteq> key e) \<and> hash_delete e t = Ret None t"
  using find_entry_removes [OF wf, of e]
proof (elim disjE exE conjE)
  fix i d v
  assume i: "i < length (buckets t)" and d: "d \<in> set (stored t)" "key d = key e"
    and f: "hash_find_entry e True t = Ret (Some d, i) v" and rm: "removed i d t v"
  have v: "n_entries v = n_entries t" "n_buckets_used v = n_buckets_used t" "tuning v = tuning t"
    using rm by (auto simp: removed_def)
  let ?m = "if b_data (buckets v ! i) = None then size_dec (n_buckets_used t) else n_buckets_used t"
  let ?u = "v\<lparr>n_entries := size_dec (n_entries t), n_buckets_used := ?m\<rparr>"
  have ns: "\<not> under_shrink ?u" using v(3) shrink by (simp add: under_shrink_def fl_nonneg not_less)
  have "hash_delete e t = Ret (Some d) ?u"
  proof (cases "b_data (buckets v ! i) = None")
    case True
    then have "delete_shrink ?u = Ret () ?u" using ns by (simp add: delete_shrink_def)
    with True show ?thesis using f v by (simp add: hash_delete_def Let_def)
  next
    case False
    then have "?u = v\<lparr>n_entries := size_dec (n_entries t)\<rparr>" using v(2) by auto
    with False show ?thesis using f v by (simp add: hash_delete_def Let_def del: not_None_eq)
  qed
  with d wf_remove [OF wf(1,2) i rm refl refl refl small] show ?thesis by blast
next
  fix i assume "hash_find_entry e True t = Ret (None, i) t" "\<forall>d \<in> set (stored t). key d \<noteq> key e"
  then show ?thesis by (simp add: hash_delete_def)
qed

end

section \<open>Walking, and the end of a table\<close>

text \<open>
  The three ways of visiting all entries agree with \<open>stored\<close>: copying, the processor, and
  following \<open>hash_get_next\<close> from \<open>hash_get_first\<close>.
\<close>

lemma copy_cells_eq:
  "copy_cells n cs buf = (length buf + length cs \<le> n, buf @ take (n - length buf) cs)" if "length buf \<le> n"
  using that
proof (induction cs arbitrary: buf)
  case (Cons c cs)
  show ?case
  proof (cases "n \<le> length buf")
    case True
    with Cons.prems show ?thesis by simp
  next
    case False
    then have "copy_cells n (c # cs) buf = copy_cells n cs (buf @ [c])" by simp
    also have "\<dots> = (length (buf @ [c]) + length cs \<le> n, (buf @ [c]) @ take (n - length (buf @ [c])) cs)"
      using False by (intro Cons.IH) simp
    finally show ?thesis using False by (cases "n - length buf") (auto simp: diff_Suc split: nat.splits)
  qed
qed simp

definition all_cells :: "'a bucket list \<Rightarrow> 'a option list" where
  "all_cells bs = concat (map cells (filter (\<lambda>b. b_data b \<noteq> None) bs))"

lemma copy_buckets_eq:
  "length buf \<le> n \<Longrightarrow> copy_buckets n bs buf = buf @ take (n - length buf) (all_cells bs)"
proof (induction bs arbitrary: buf)
  case Nil
  then show ?case by (simp add: all_cells_def)
next
  case (Cons b bs)
  show ?case
  proof (cases "b_data b = None")
    case True
    with Cons show ?thesis by (simp add: all_cells_def)
  next
    case False
    let ?cs = "cells b"
    have c: "copy_cells n ?cs buf = (length buf + length ?cs \<le> n, buf @ take (n - length buf) ?cs)"
      by (rule copy_cells_eq) (rule Cons.prems)
    have all: "all_cells (b # bs) = ?cs @ all_cells bs" using False by (simp add: all_cells_def)
    show ?thesis
    proof (cases "length buf + length ?cs \<le> n")
      case True
      then have "copy_buckets n (b # bs) buf = copy_buckets n bs (buf @ ?cs)" using False c by simp
      also have "\<dots> = (buf @ ?cs) @ take (n - length (buf @ ?cs)) (all_cells bs)"
        by (rule Cons.IH) (use True in simp)
      finally show ?thesis using True all by (simp add: take_append)
    next
      case no: False
      then have "copy_buckets n (b # bs) buf = buf @ take (n - length buf) ?cs" using False c by simp
      with no all show ?thesis by (simp add: take_append)
    qed
  qed
qed

lemma all_cells_stored:
  assumes "\<forall>b \<in> set bs. \<exists>i. bucket_ok key hs n i b"
  shows "all_cells bs = map Some (concat (map entries_of bs))"
  using assms
proof (induction bs)
  case (Cons b bs)
  then obtain i where ok: "bucket_ok key hs n i b" by auto
  have "map Some (entries_of b) = (if b_data b = None then [] else cells b)"
  proof (cases "b_data b = None")
    case False
    have "\<forall>c \<in> set (cells b). c \<noteq> None"
      using False bucket_ok_cells(2) [OF ok] by (simp add: cells_def)
    then have "map (\<lambda>c. Some (the c)) (cells b) = cells b" by (simp add: map_idI)
    with False bucket_ok_cells(1) [OF ok] show ?thesis by (simp add: comp_def del: not_None_eq)
  qed (use bucket_ok_cells(1) [OF ok] in simp)
  with Cons show ?case by (auto simp: all_cells_def)
qed (simp add: all_cells_def)

lemma wf_buckets: "table_wf key t \<Longrightarrow> \<forall>b \<in> set (buckets t). \<exists>i. bucket_ok key (hasher t) (n_buckets t) i b"
  by (metis table_wf_def in_set_conv_nth)

text \<open>The processor sees the entries in the same order, until it says stop.\<close>

fun visit :: "('a \<Rightarrow> 'd \<Rightarrow> bool \<times> 'd) \<Rightarrow> 'a list \<Rightarrow> nat \<Rightarrow> 'd \<Rightarrow> bool \<times> nat \<times> 'd" where
  "visit proc [] n d = (True, n, d)"
| "visit proc (x # xs) n d =
     (case proc x d of (False, d) \<Rightarrow> (False, n, d) | (True, d) \<Rightarrow> visit proc xs (n + 1) d)"

lemma each_cell_visit: "each_cell proc cs n d = visit proc cs n d"
  by (induction cs arbitrary: n d) (auto split: prod.splits bool.splits)

lemma visit_append:
  "visit proc (xs @ ys) n d =
     (case visit proc xs n d of (False, r) \<Rightarrow> (False, r) | (True, n, d) \<Rightarrow> visit proc ys n d)"
  by (induction xs arbitrary: n d) (auto split: prod.splits bool.splits)

lemma each_bucket_visit: "each_bucket proc bs n d = snd (visit proc (all_cells bs) n d)"
proof (induction bs arbitrary: n d)
  case (Cons b bs)
  then show ?case
    by (auto simp: all_cells_def each_cell_visit visit_append split: prod.splits bool.splits)
qed (simp add: all_cells_def)

lemma visit_map_Some: "visit proc (map Some xs) n d = visit (\<lambda>x. proc (Some x)) xs n d"
  by (induction xs arbitrary: n d) (auto split: prod.splits bool.splits)

text \<open>\<open>hash_get_next\<close> walks along \<open>stored\<close>.\<close>

lemma first_used_stored:
  assumes "\<forall>b \<in> set bs. \<exists>i. bucket_ok key hs n i b"
  shows "first_used bs = (case concat (map entries_of bs) of [] \<Rightarrow> None | e # es \<Rightarrow> Some e)"
  using assms
proof (induction bs)
  case (Cons b bs)
  then obtain i where ok: "bucket_ok key hs n i b" by auto
  show ?case
  proof (cases "b_data b")
    case None
    with Cons bucket_ok_cells(1) [OF ok] show ?thesis by simp
  next
    case (Some e)
    with bucket_ok_cells(1) [OF ok] show ?thesis by (simp add: cells_def)
  qed
qed simp

lemma next_cell_at:
  "distinct cs \<Longrightarrow> k < length cs \<Longrightarrow> cs ! k = Some e \<Longrightarrow>
   next_cell e cs = (if k + 1 < length cs then Some (cs ! (k + 1)) else None)"
proof (induction e cs arbitrary: k rule: next_cell.induct)
  case (1 entry c d cs)
  then show ?case
  proof (cases k)
    case 0
    with 1 show ?thesis by simp
  next
    case (Suc j)
    with 1 have "(d # cs) ! j = Some entry" "j < length (d # cs)" by simp_all
    then have "Some entry \<in> set (d # cs)" by (metis nth_mem)
    with 1 have "c \<noteq> Some entry" by auto
    with 1 Suc show ?thesis by auto
  qed
qed (auto simp: less_Suc_eq)

text \<open>The position of an entry in \<open>stored\<close>, from its bucket and its cell there.\<close>

lemma concat_nth_split:
  assumes "i < length xss" "k < length (xss ! i)"
  shows "length (concat (take i xss)) + k < length (concat xss)"
    and "concat xss ! (length (concat (take i xss)) + k) = xss ! i ! k"
    and "drop (length (concat (take i xss)) + k + 1) (concat xss) =
      drop (k + 1) (xss ! i) @ concat (drop (i + 1) xss)"
proof -
  have s: "concat xss = concat (take i xss) @ xss ! i @ concat (drop (i + 1) xss)"
    using id_take_nth_drop [OF assms(1)] by (metis Suc_eq_plus1 concat.simps(2) concat_append)
  show "length (concat (take i xss)) + k < length (concat xss)"
    by (subst s) (use assms(2) in simp)
  show "concat xss ! (length (concat (take i xss)) + k) = xss ! i ! k"
    by (subst s) (use assms(2) in \<open>simp add: nth_append\<close>)
  show "drop (length (concat (take i xss)) + k + 1) (concat xss) =
      drop (k + 1) (xss ! i) @ concat (drop (i + 1) xss)"
    by (subst s) (use assms(2) in simp)
qed

context hash_user
begin

text \<open>Entries with different keys are different, so the list of all entries has no duplicates.\<close>

lemma stored_distinct:
  assumes "table_wf key t" "hasher t = hs"
  shows "distinct (stored t)"
proof -
  let ?n = "n_buckets t"
  have "distinct (concat (map entries_of (take m (buckets t))))" if "m \<le> length (buckets t)" for m
    using that
  proof (induction m)
    case (Suc m)
    then have m: "m < length (buckets t)" by simp
    have ok: "bucket_ok key hs ?n m (buckets t ! m)" using assms m by (simp add: table_wf_def)
    have "set (entries_of (buckets t ! m)) \<inter> set (concat (map entries_of (take m (buckets t)))) = {}"
    proof (rule ccontr)
      assume "\<not> ?thesis"
      then obtain e b where e: "e \<in> set (entries_of (buckets t ! m))" "b \<in> set (take m (buckets t))"
        "e \<in> set (entries_of b)" by auto
      then obtain j where j: "j < m" "b = buckets t ! j"
        using m by (auto simp: in_set_conv_nth)
      then have "bucket_ok key hs ?n j b" using assms m by (simp add: table_wf_def)
      with e ok j(1) show False by (auto simp: bucket_ok_def)
    qed
    moreover have "distinct (entries_of (buckets t ! m))"
      using ok by (auto simp: bucket_ok_def distinct_map)
    ultimately show ?case using Suc m by (auto simp: take_Suc_conv_app_nth)
  qed simp
  from this [of "length (buckets t)"] show ?thesis by (simp add: stored_def)
qed

lemma walk_correct:
  assumes wf: "table_wf key t" "hasher t = hs"
  shows "hash_get_first t = Ret (case stored t of [] \<Rightarrow> None | e # es \<Rightarrow> Some e) t"
    and "k < length (stored t) \<Longrightarrow> hash_get_next (stored t ! k) t =
      Ret (if k + 1 < length (stored t) then Some (stored t ! (k + 1)) else None) t"
proof -
  have fu: "first_used (buckets t) = (case stored t of [] \<Rightarrow> None | e # es \<Rightarrow> Some e)"
    using first_used_stored [OF wf_buckets [OF wf(1)]] by (simp add: stored_def)
  have n: "n_entries t = length (stored t)" using wf(1) by (simp add: table_wf_def)
  show "hash_get_first t = Ret (case stored t of [] \<Rightarrow> None | e # es \<Rightarrow> Some e) t"
    using fu n by (auto simp: hash_get_first_def split: list.splits)
  assume k: "k < length (stored t)"
  let ?e = "stored t ! k" and ?n = "n_buckets t"
  have "?e \<in> set (stored t)" using k by simp
  then obtain i where i: "i < length (buckets t)" "?e \<in> set (entries_of (buckets t ! i))"
    by (auto simp: stored_iff)
  let ?b = "buckets t ! i"
  have ok: "bucket_ok key hs ?n i ?b" using wf i(1) by (simp add: table_wf_def)
  have slot: "slot (Some ?e) t = Ret i t"
    using ok i wf(2) by (simp add: bucket_ok_def slot_def)
  obtain j where j: "j < length (entries_of ?b)" "entries_of ?b ! j = ?e"
    using i(2) by (auto simp: in_set_conv_nth)
  have cells: "cells ?b = map Some (entries_of ?b)"
    using all_cells_stored [of "[?b]" key hs ?n] ok j(1) bucket_ok_cells(1) [OF ok]
    by (auto simp: all_cells_def split: if_splits)
  have dist: "distinct (cells ?b)"
    using ok by (simp add: cells distinct_map bucket_ok_def)
  have nx: "next_cell ?e (cells ?b) =
      (if j + 1 < length (entries_of ?b) then Some (Some (entries_of ?b ! (j + 1))) else None)"
    using next_cell_at [OF dist, of j ?e] j by (simp add: cells)
  let ?xss = "map entries_of (buckets t)"
  have ix: "i < length ?xss" "j < length (?xss ! i)" using i(1) j(1) by simp_all
  let ?p = "length (concat (take i ?xss)) + j"
  have p: "?p < length (stored t)" "stored t ! ?p = ?e"
    "drop (?p + 1) (stored t) = drop (j + 1) (entries_of ?b) @ concat (drop (i + 1) ?xss)"
    using concat_nth_split [OF ix] i(1) j(2) by (simp_all add: stored_def)
  then have pk: "?p = k" using stored_distinct [OF wf] k nth_eq_iff_index_eq by blast
  have rest: "first_used (drop (i + 1) (buckets t)) =
      (case concat (drop (i + 1) ?xss) of [] \<Rightarrow> None | e # es \<Rightarrow> Some e)"
    using first_used_stored [of "drop (i + 1) (buckets t)" key hs ?n] wf_buckets [OF wf(1)] wf(2)
    by (auto simp: drop_map dest: in_set_dropD)
  have "hash_get_next ?e t = Ret (case drop (k + 1) (stored t) of [] \<Rightarrow> None | e # es \<Rightarrow> Some e) t"
  proof (cases "j + 1 < length (entries_of ?b)")
    case True
    then have "drop (j + 1) (entries_of ?b) = entries_of ?b ! (j + 1) # drop (j + 2) (entries_of ?b)"
      by (metis Cons_nth_drop_Suc add_2_eq_Suc' Suc_eq_plus1)
    with True nx slot p(3) pk show ?thesis by (simp add: hash_get_next_def)
  next
    case False
    with nx slot p(3) pk rest show ?thesis by (simp add: hash_get_next_def)
  qed
  moreover have "(case drop (k + 1) (stored t) of [] \<Rightarrow> None | e # es \<Rightarrow> Some e) =
      (if k + 1 < length (stored t) then Some (stored t ! (k + 1)) else None)"
    by (cases "k + 1 < length (stored t)") (auto simp: Cons_nth_drop_Suc [symmetric])
  ultimately show "hash_get_next ?e t =
      Ret (if k + 1 < length (stored t) then Some (stored t ! (k + 1)) else None) t" by simp
qed

end

end
