(* ===== verification/HashRehash.thy ===== *)
theory HashRehash
  imports HashFacts
begin

text \<open>
  Table sizes and rebuilding: \<open>is_prime\<close> and \<open>next_prime\<close> are right, and \<open>hash_rehash\<close>, whether
  it succeeds or has to take its work back, keeps the entries. What it does not keep is the
  rest of the invariant: \<open>transfer_entries\<close> moves the heads of empty buckets too, and the
  last section shows on a concrete table what comes of it.
\<close>

section \<open>Primes\<close>

definition prime :: "nat \<Rightarrow> bool" where
  "prime p \<longleftrightarrow> 1 < p \<and> (\<forall>m. m dvd p \<longrightarrow> m = 1 \<or> m = p)"

lemma prime_by_small_divisors:
  assumes "1 < c" "c < d * d" "\<forall>m. 1 < m \<and> m < d \<longrightarrow> \<not> m dvd c"
  shows "prime c"
  unfolding prime_def
proof (intro conjI allI impI)
  fix m assume "m dvd c"
  then obtain e where e: "c = m * e" by blast
  have "m < d \<or> e < d" using assms(2) e by (metis mult_le_mono linorder_not_less)
  moreover have "e dvd c" using e by simp
  ultimately have "\<not> 1 < m \<or> \<not> 1 < e" using assms(3) \<open>m dvd c\<close> by blast
  moreover have "m \<noteq> 0" "e \<noteq> 0" using e assms(1) by (metis mult_0 mult_0_right not_less_zero)+
  ultimately have "m = 1 \<or> e = 1" by linarith
  then show "m = 1 \<or> m = c" using e by auto
qed (rule assms(1))

text \<open>The loop, from an odd divisor on whose square is right and below which nothing divides.\<close>

lemma is_prime_loop_correct:
  assumes "odd c" "c < 2 ^ 62" "odd d" "3 \<le> d" "d < c" "\<forall>m. 1 < m \<and> m < d \<longrightarrow> \<not> m dvd c"
  shows "c mod is_prime_loop c d (d * d) \<noteq> 0 \<longleftrightarrow> prime c"
  using assms
proof (induction "c - d" arbitrary: d rule: less_induct)
  case less
  show ?case
  proof (cases "d * d < c \<and> c mod d \<noteq> 0")
    case False
    then have "is_prime_loop c d (d * d) = d" by (subst is_prime_loop.simps) (auto simp: Let_def)
    moreover have "prime c" if "c mod d \<noteq> 0"
    proof (rule prime_by_small_divisors [of c d])
      have "c \<noteq> d * d" using that by auto
      with False that show "c < d * d" by linarith
      show "1 < c" using less.prems(4,5) by linarith
    qed (rule less.prems(6))
    moreover have "\<not> prime c" if "c mod d = 0"
    proof -
      have "d dvd c" "d \<noteq> 1" "d \<noteq> c" using that less.prems(4,5) by (auto simp: dvd_eq_mod_eq_0)
      then show ?thesis by (metis prime_def)
    qed
    ultimately show ?thesis by metis
  next
    case True
    have "d < 2 ^ 31"
    proof (rule ccontr)
      assume "\<not> ?thesis"
      then have "2 ^ 31 * 2 ^ 31 \<le> d * d" by (intro mult_le_mono) simp_all
      with True less.prems(2) show False by simp
    qed
    then have arith: "size_inc d = d + 1" "size_inc (d + 1) = d + 2"
      "(d * d + 4 * (d + 1)) mod 2 ^ 64 = (d + 2) * (d + 2)"
      using True less.prems(2) by (simp_all add: size_inc_def algebra_simps)
    have step: "is_prime_loop c d (d * d) = is_prime_loop c (d + 2) ((d + 2) * (d + 2))"
      using True less.prems(4) arith by (subst is_prime_loop.simps) (simp add: Let_def)
    have "3 * d \<le> d * d" using less.prems(4) by simp
    then have lt: "d + 2 < c" using True less.prems(4) by linarith
    have "\<not> m dvd c" if m: "1 < m \<and> m < d + 2" for m
    proof -
      from m have "m < d \<or> m = d \<or> m = d + 1" by linarith
      then consider "m < d" | "m = d" | "m = d + 1" by blast
      then show ?thesis
      proof cases
        case 3
        then have "even m" using less.prems(3) by simp
        then show ?thesis using less.prems(1) by (meson dvd_trans)
      qed (use less.prems(6) m True in \<open>auto simp: dvd_eq_mod_eq_0\<close>)
    qed
    with less.hyps [of "d + 2"] less.prems lt step show ?thesis by simp
  qed
qed

lemma is_prime_correct:
  assumes "odd c" "11 \<le> c" "c < 2 ^ 62"
  shows "is_prime c \<longleftrightarrow> prime c"
proof -
  have "\<not> m dvd c" if "1 < m \<and> m < 3" for m
  proof -
    have "m = 2" using that by linarith
    with assms(1) show ?thesis by simp
  qed
  with is_prime_loop_correct [of c 3] assms show ?thesis by (simp add: is_prime_def)
qed

lemma next_prime_loop_correct:
  assumes "odd c" "11 \<le> c" "c \<le> q" "prime q" "odd q" "q < 2 ^ 62"
  shows "prime (next_prime_loop c) \<and> c \<le> next_prime_loop c \<and> odd (next_prime_loop c) \<and>
    (\<forall>p. prime p \<and> odd p \<and> c \<le> p \<longrightarrow> next_prime_loop c \<le> p)"
  using assms
proof (induction "q - c" arbitrary: c rule: less_induct)
  case less
  then have ip: "is_prime c \<longleftrightarrow> prime c" by (intro is_prime_correct) simp_all
  show ?case
  proof (cases "prime c")
    case True
    with ip have "next_prime_loop c = c" by (subst next_prime_loop.simps) simp
    with True less.prems show ?thesis by simp
  next
    case False
    with ip less.prems have step: "next_prime_loop c = next_prime_loop (c + 2)"
      by (subst next_prime_loop.simps) simp
    have "c \<noteq> q" using False less.prems by auto
    with less.prems have le: "c + 2 \<le> q" by presburger
    with less.hyps [of "c + 2"] less.prems have IH: "prime (next_prime_loop (c + 2))"
      "c + 2 \<le> next_prime_loop (c + 2)" "odd (next_prime_loop (c + 2))"
      "\<forall>p. prime p \<and> odd p \<and> c + 2 \<le> p \<longrightarrow> next_prime_loop (c + 2) \<le> p"
      by simp_all
    have "next_prime_loop (c + 2) \<le> p" if "prime p \<and> odd p \<and> c \<le> p" for p
    proof -
      have "p \<noteq> c" using that False by auto
      moreover have "p \<noteq> c + 1" using that less.prems(1) by auto
      ultimately have "c + 2 \<le> p" using that by linarith
      with IH(4) that show ?thesis by simp
    qed
    with IH step show ?thesis by simp
  qed
qed

lemma prime_odd: "prime p \<Longrightarrow> 2 < p \<Longrightarrow> odd p"
  by (auto simp: prime_def)

lemma next_prime_correct:
  assumes "prime q" "c \<le> q" "11 \<le> q" "q < 2 ^ 62"
  shows "prime (next_prime c) \<and> c \<le> next_prime c \<and> 11 \<le> next_prime c \<and>
    (\<forall>p. prime p \<and> c \<le> p \<and> 11 \<le> p \<longrightarrow> next_prime c \<le> p)"
proof -
  let ?c = "if c < 10 then 10 else c"
  let ?d = "if even ?c then ?c + 1 else ?c"
  have np: "next_prime c = next_prime_loop ?d" by (simp add: next_prime_def Let_def)
  have oq: "odd q" using prime_odd assms by simp
  have ge: "?d \<le> p" if "odd p" "c \<le> p" "11 \<le> p" for p
    using that by (auto) presburger+
  have "odd ?d" "11 \<le> ?d" "c \<le> ?d" by (auto) presburger
  with next_prime_loop_correct [of ?d q] assms oq ge [of q] have r:
    "prime (next_prime_loop ?d)" "?d \<le> next_prime_loop ?d"
    "\<forall>p. prime p \<and> odd p \<and> ?d \<le> p \<longrightarrow> next_prime_loop ?d \<le> p" by simp_all
  have "next_prime_loop ?d \<le> p" if "prime p \<and> c \<le> p \<and> 11 \<le> p" for p
    using r(3) that ge [of p] prime_odd [of p] by simp
  with r(1,2) \<open>11 \<le> ?d\<close> \<open>c \<le> ?d\<close> show ?thesis unfolding np by simp
qed

section \<open>Rebuilding keeps the entries\<close>

text \<open>
  A table in which every entry is in the bucket it hashes to; it may hold \<open>NULL\<close>s.
\<close>

definition tidy :: "'a htable \<Rightarrow> bool" where
  "tidy t \<longleftrightarrow> length (buckets t) = n_buckets t \<and> 0 < n_buckets t \<and>
     (\<forall>i < n_buckets t. \<forall>e \<in> set (entries_of (buckets t ! i)). hasher t (Some e) (n_buckets t) = Some i)"

definition somes :: "'a option list \<Rightarrow> 'a list" where
  "somes cs = map the (filter (\<lambda>c. c \<noteq> None) cs)"

lemma somes_simps [simp]:
  "somes [] = []" "somes (None # cs) = somes cs" "somes (Some e # cs) = e # somes cs"
  by (simp_all add: somes_def)

lemma entries_of_somes: "entries_of b = somes (cells b)"
  by (simp add: entries_of_def somes_def)

lemma somes_iff: "e \<in> set (somes cs) \<longleftrightarrow> Some e \<in> set cs"
  by (force simp: somes_def image_iff)

text \<open>What moving cells changes in the table that gets them.\<close>

definition same_table :: "'a htable \<Rightarrow> 'a htable \<Rightarrow> bool" where
  "same_table t u \<longleftrightarrow> n_buckets u = n_buckets t \<and> n_entries u = n_entries t \<and> tuning u = tuning t \<and>
     hasher u = hasher t \<and> comparator u = comparator t \<and> data_freer u = data_freer t \<and>
     freed u = freed t"

definition gained :: "'a list \<Rightarrow> 'a htable \<Rightarrow> 'a htable \<Rightarrow> bool" where
  "gained es t u \<longleftrightarrow> tidy u \<and> same_table t u \<and> mset (stored u) = mset (stored t) + mset es"

lemma gained_refl: "tidy t \<Longrightarrow> gained [] t t"
  by (simp add: gained_def same_table_def)

lemma gained_trans: "gained es t u \<Longrightarrow> gained fs u v \<Longrightarrow> gained (es @ fs) t v"
  by (simp add: gained_def same_table_def)

lemma gained_heap:
  "gained es t (u\<lparr>free_entry_list := f\<rparr>) = gained es t u"
  "gained es t (u\<lparr>heap := h\<rparr>) = gained es t u"
  "gained es t (u\<lparr>n_buckets_used := m\<rparr>) = gained es t u"
  by (simp_all add: gained_def same_table_def tidy_def stored_def)

lemma gained_cell:
  assumes t: "tidy t" and j: "j < length (buckets t)" "hasher t d (n_buckets t) = Some j"
    and b: "mset (somes (cells b)) = mset (somes [d]) + mset (entries_of (buckets t ! j))"
  shows "gained (somes [d]) t (set_bucket j b t)"
proof -
  have st: "mset (stored (set_bucket j b t)) = mset (stored t) + mset (somes [d])"
    using stored_set_bucket [OF j(1), of b] b by (simp add: entries_of_somes)
  have sets: "set (entries_of b) = set (somes [d]) \<union> set (entries_of (buckets t ! j))"
    using arg_cong [OF b, of set_mset] by (simp add: entries_of_somes)
  have "tidy (set_bucket j b t)"
    unfolding tidy_def
  proof (intro conjI allI ballI impI)
    fix i e assume i: "i < n_buckets (set_bucket j b t)"
      and e: "e \<in> set (entries_of (buckets (set_bucket j b t) ! i))"
    show "hasher (set_bucket j b t) (Some e) (n_buckets (set_bucket j b t)) = Some i"
    proof (cases "i = j")
      case True
      with e j(1) have "e \<in> set (entries_of b)" by (simp add: set_bucket_def)
      with sets consider "d = Some e" | "e \<in> set (entries_of (buckets t ! j))"
        by (auto simp: somes_iff)
      then show ?thesis using t j True by cases (auto simp: tidy_def set_bucket_def)
    next
      case False
      with e i t show ?thesis by (simp add: tidy_def set_bucket_def)
    qed
  qed (use t in \<open>simp_all add: tidy_def set_bucket_def\<close>)
  with st show ?thesis by (simp add: gained_def same_table_def set_bucket_def)
qed

text \<open>One cell into the table: behind a head that is there, or as the head.\<close>

lemma gained_overflow:
  assumes "tidy t" "slot d t = Ret j u" "b_data (buckets t ! j) \<noteq> None"
  shows "gained (somes [d]) t (set_bucket j ((buckets t ! j)\<lparr>b_next := d # b_next (buckets t ! j)\<rparr>) t)"
proof (rule gained_cell)
  show "j < length (buckets t)" "hasher t d (n_buckets t) = Some j"
    using assms(2) by (auto simp: slot_def split: option.splits if_splits)
  obtain e where "b_data (buckets t ! j) = Some e" using assms(3) by blast
  then show "mset (somes (cells ((buckets t ! j)\<lparr>b_next := d # b_next (buckets t ! j)\<rparr>))) =
      mset (somes [d]) + mset (entries_of (buckets t ! j))"
    by (cases d) (simp_all add: entries_of_somes cells_def)
qed (rule assms(1))

lemma gained_head:
  assumes "tidy t" "slot d t = Ret j u" "b_data (buckets t ! j) = None"
  shows "gained (somes [d]) t (set_bucket j ((buckets t ! j)\<lparr>b_data := d\<rparr>) t)"
proof (rule gained_cell)
  show "j < length (buckets t)" "hasher t d (n_buckets t) = Some j"
    using assms(2) by (auto simp: slot_def split: option.splits if_splits)
  show "mset (somes (cells ((buckets t ! j)\<lparr>b_data := d\<rparr>))) =
      mset (somes [d]) + mset (entries_of (buckets t ! j))"
    using assms(3) by (cases d) (simp_all add: entries_of_somes cells_def)
qed (rule assms(1))

lemma slot_state: "slot d t = Ret j u \<Longrightarrow> u = t"
  by (auto simp: slot_def split: option.splits if_splits)

lemma transfer_chain_gained:
  "tidy t \<Longrightarrow> transfer_chain ds t = Ret x u \<Longrightarrow> gained (somes ds) t u"
proof (induction ds t rule: transfer_chain.induct)
  case (1 t)
  then show ?case by (simp add: gained_refl)
next
  case (2 d ds t)
  from "2.prems"(2) obtain j v where s: "slot d t = Ret j v" and r: "transfer_chain ds
       (if b_data (buckets v ! j) \<noteq> None
        then set_bucket j ((buckets v ! j)\<lparr>b_next := d # b_next (buckets v ! j)\<rparr>) v
        else free_entry ((set_bucket j ((buckets v ! j)\<lparr>b_data := d\<rparr>) v)
               \<lparr>n_buckets_used := size_inc (n_buckets_used v)\<rparr>)) = Ret x u"
    (is "transfer_chain ds ?w = _")
    by (auto simp: Let_def)
  have v: "v = t" by (rule slot_state [OF s])
  have g: "gained (somes [d]) t ?w"
    using gained_overflow [OF "2.prems"(1) s] gained_head [OF "2.prems"(1) s]
    by (simp add: v free_entry_def gained_heap)
  then have "tidy ?w" by (simp add: gained_def)
  from gained_trans [OF g "2.IH" [OF refl this r]] have "gained (somes [d] @ somes ds) t u" .
  then show ?case by (cases d) simp_all
qed

lemma transfer_head_gained:
  assumes "tidy t" "transfer_head d t = Ret r u"
  shows "gained (if r = None then [] else somes [d]) t u"
proof -
  from assms(2) obtain j v where s: "slot d t = Ret j v" and r: "
     (let b = buckets v ! j in
     if b_data b \<noteq> None then
       (case allocate_entry v of (ok, dst) \<Rightarrow>
          if \<not> ok then Ret None dst
          else Ret (Some ()) (set_bucket j (b\<lparr>b_next := d # b_next b\<rparr>) dst))
     else Ret (Some ()) ((set_bucket j (b\<lparr>b_data := d\<rparr>) v)
            \<lparr>n_buckets_used := size_inc (n_buckets_used v)\<rparr>)) = Ret r u"
    by (auto simp: transfer_head_def)
  have v: "v = t" by (rule slot_state [OF s])
  show ?thesis
  proof (cases "b_data (buckets t ! j) = None")
    case True
    with r v gained_head [OF assms(1) s] show ?thesis by (auto simp: Let_def gained_heap)
  next
    case False
    obtain ok w where a: "allocate_entry t = (ok, w)" by fastforce
    then obtain f h where w: "w = t\<lparr>free_entry_list := f, heap := h\<rparr>"
      by (auto simp: allocate_entry_def alloc_def split: if_splits)
        (metis htable.surjective htable.update_convs(9,11))+
    have sw: "set_bucket j b w = (set_bucket j b t)\<lparr>free_entry_list := f, heap := h\<rparr>" for b
      by (simp add: w set_bucket_def)
    show ?thesis
    proof (cases ok)
      case True
      with r v a False gained_overflow [OF assms(1) s] show ?thesis
        by (auto simp: Let_def sw gained_heap)
    next
      case no: False
      with r v a False gained_refl [OF assms(1)] show ?thesis
        by (auto simp: Let_def w gained_heap)
    qed
  qed
qed

text \<open>The source loses what the destination gains, whether the transfer ends or is cut short.\<close>

lemma tidy_shrink:
  assumes "tidy t" "i < length (buckets t)" "set (entries_of b) \<subseteq> set (entries_of (buckets t ! i))"
  shows "tidy (set_bucket i b t)"
  using assms by (auto simp: tidy_def set_bucket_def nth_list_update)

lemma tidy_frame [simp]:
  "tidy (t\<lparr>n_buckets_used := m\<rparr>) = tidy t" "tidy (t\<lparr>free_entry_list := f\<rparr>) = tidy t"
  "tidy (t\<lparr>heap := h\<rparr>) = tidy t"
  "stored (t\<lparr>n_buckets_used := m\<rparr>) = stored t" "stored (t\<lparr>free_entry_list := f\<rparr>) = stored t"
  "stored (t\<lparr>heap := h\<rparr>) = stored t"
  by (simp_all add: tidy_def stored_def)

lemma same_table_frame [simp]:
  "same_table s (t\<lparr>n_buckets_used := m\<rparr>) = same_table s t"
  "same_table s (t\<lparr>free_entry_list := f\<rparr>) = same_table s t"
  "same_table s (t\<lparr>heap := h\<rparr>) = same_table s t"
  "same_table s (set_bucket i b t) = same_table s t"
  by (simp_all add: same_table_def set_bucket_def)

lemma same_table_refl [simp]: "same_table t t"
  by (simp add: same_table_def)

lemma same_table_trans: "same_table s t \<Longrightarrow> same_table t u \<Longrightarrow> same_table s u"
  by (simp add: same_table_def)

definition conserved :: "'a htable \<Rightarrow> 'a htable \<Rightarrow> 'a htable \<Rightarrow> 'a htable \<Rightarrow> bool" where
  "conserved src dst src' dst' \<longleftrightarrow> tidy src' \<and> same_table src src' \<and>
     length (buckets src') = length (buckets src) \<and> tidy dst' \<and> same_table dst dst' \<and>
     mset (stored src') + mset (stored dst') = mset (stored src) + mset (stored dst)"

lemma conserved_trans:
  "conserved s d s1 d1 \<Longrightarrow> conserved s1 d1 s2 d2 \<Longrightarrow> conserved s d s2 d2"
  unfolding conserved_def by (metis same_table_trans)

lemma conserved_step:
  assumes "tidy src" "i < length (buckets src)" "gained es dst dst'"
    "mset (entries_of (buckets src ! i)) = mset es + mset (entries_of b)"
  shows "conserved src dst (set_bucket i b src) dst'"
proof -
  have "set (entries_of b) \<subseteq> set (entries_of (buckets src ! i))"
    using arg_cong [OF assms(4), of set_mset] by simp
  from tidy_shrink [OF assms(1,2) this] show ?thesis
    using assms(3,4) stored_set_bucket [OF assms(2), of b]
    by (simp add: conserved_def gained_def set_bucket_def same_table_def)
qed

lemma transfer_loop_conserves:
  assumes "tidy src" "tidy dst" "i + k = length (buckets src)"
    "transfer_loop safe k i src dst = Ret (ok, src') dst'"
  shows "conserved src dst src' dst' \<and>
    (ok \<and> \<not> safe \<longrightarrow> (\<forall>j. i \<le> j \<and> j < length (buckets src) \<longrightarrow> entries_of (buckets src' ! j) = [])) \<and>
    (\<forall>j < i. buckets src' ! j = buckets src ! j) \<and> (safe \<longrightarrow> ok)"
  using assms
proof (induction safe k i src dst arbitrary: ok src' dst' rule: transfer_loop.induct)
  case (1 safe i src dst)
  then show ?case by (auto simp: conserved_def)
next
  case (2 safe k i src dst)
  let ?b = "buckets src ! i"
  let ?c = "?b\<lparr>b_next := []\<rparr>"
  have i: "i < length (buckets src)" using "2.prems"(3) by simp
  from "2.prems"(4) obtain dst1 where c: "transfer_chain (b_next ?b) dst = Ret () dst1"
    and rest: "(if safe then transfer_loop safe k (i + 1) (set_bucket i ?c src) dst1
        else obind (transfer_head (b_data ?b) dst1) (\<lambda>r dst.
          if r = None then Ret (False, set_bucket i ?c src) dst
          else transfer_loop safe k (i + 1)
                 ((set_bucket i empty_bucket (set_bucket i ?c src))
                    \<lparr>n_buckets_used := size_dec (n_buckets_used (set_bucket i ?c src))\<rparr>) dst))
      = Ret (ok, src') dst'"
    by (auto simp: Let_def)
  have g: "gained (somes (b_next ?b)) dst dst1" by (rule transfer_chain_gained [OF "2.prems"(2) c])
  have split: "mset (entries_of ?b) = mset (somes (b_next ?b)) + mset (entries_of ?c)"
    by (cases "b_data ?b") (simp_all add: entries_of_somes cells_def)
  have con: "conserved src dst (set_bucket i ?c src) dst1"
    by (rule conserved_step [OF "2.prems"(1) i g split])
  then have t1: "tidy (set_bucket i ?c src)" "tidy dst1" by (simp_all add: conserved_def)
  show ?case
  proof (cases safe)
    case True
    with rest have r: "transfer_loop safe k (i + 1) (set_bucket i ?c src) dst1 = Ret (ok, src') dst'" by simp
    have "i + 1 + k = length (buckets (set_bucket i ?c src))" using "2.prems"(3) by (simp add: set_bucket_def)
    from "2.IH"(1) [OF refl refl True t1 this r] con True show ?thesis
      by (auto intro: conserved_trans simp: set_bucket_def)
  next
    case False
    with rest obtain r dst2 where h: "transfer_head (b_data ?b) dst1 = Ret r dst2"
      and rest': "(if r = None then Ret (False, set_bucket i ?c src) dst2
          else transfer_loop safe k (i + 1)
                 ((set_bucket i empty_bucket (set_bucket i ?c src))
                    \<lparr>n_buckets_used := size_dec (n_buckets_used (set_bucket i ?c src))\<rparr>) dst2)
        = Ret (ok, src') dst'" by auto
    have g2: "gained (if r = None then [] else somes [b_data ?b]) dst1 dst2"
      by (rule transfer_head_gained [OF t1(2) h])
    show ?thesis
    proof (cases r)
      case None
      then have e: "ok = False" "src' = set_bucket i ?c src" "dst' = dst2" using rest' by auto
      from g2 None con have "conserved src dst (set_bucket i ?c src) dst2"
        by (auto simp: conserved_def gained_def intro: same_table_trans)
      with e False show ?thesis by (simp add: set_bucket_def)
    next
      case (Some x)
      let ?s = "set_bucket i empty_bucket (set_bucket i ?c src)"
      have i': "i < length (buckets (set_bucket i ?c src))" using i by (simp add: set_bucket_def)
      have "buckets (set_bucket i ?c src) ! i = ?c" using i by (simp add: set_bucket_def)
      then have "conserved (set_bucket i ?c src) dst1 ?s dst2"
        using conserved_step [OF t1(1) i', of "somes [b_data ?b]" dst1 dst2 empty_bucket] g2 Some
        by (simp add: entries_of_somes cells_def)
      with con have con2: "conserved src dst ?s dst2" by (rule conserved_trans)
      let ?t = "?s\<lparr>n_buckets_used := size_dec (n_buckets_used (set_bucket i ?c src))\<rparr>"
      have con3: "conserved src dst ?t dst2" using con2 by (simp add: conserved_def)
      then have t2: "tidy ?t" "tidy dst2" by (simp_all add: conserved_def)
      have r2: "transfer_loop safe k (i + 1) ?t dst2 = Ret (ok, src') dst'" using rest' Some by simp
      have len: "i + 1 + k = length (buckets ?t)" using "2.prems"(3) by (simp add: set_bucket_def)
      have "r \<noteq> None" using Some by simp
      from "2.IH"(2) [OF refl refl False this t2 len r2] have IH: "conserved ?t dst2 src' dst'"
        "ok \<and> \<not> safe \<longrightarrow> (\<forall>j. i + 1 \<le> j \<and> j < length (buckets ?t) \<longrightarrow> entries_of (buckets src' ! j) = [])"
        "\<forall>j < i + 1. buckets src' ! j = buckets ?t ! j" "safe \<longrightarrow> ok" by auto
      have at: "buckets src' ! i = empty_bucket" using IH(3) i by (simp add: set_bucket_def)
      have "entries_of (buckets src' ! j) = []"
        if "ok" "i \<le> j" "j < length (buckets src)" for j
        using that IH(2) False at by (cases "j = i") (auto simp: set_bucket_def)
      moreover have "\<forall>j < i. buckets src' ! j = buckets src ! j" using IH(3) by (simp add: set_bucket_def)
      ultimately show ?thesis using conserved_trans [OF con3 IH(1)] False by blast
    qed
  qed
qed

lemma transfer_entries_conserves:
  assumes "tidy src" "tidy dst" "transfer_entries src safe dst = Ret (ok, src') dst'"
  shows "conserved src dst src' dst'" and "ok \<Longrightarrow> \<not> safe \<Longrightarrow> stored src' = []"
proof -
  from transfer_loop_conserves [OF assms(1,2) _ assms(3) [unfolded transfer_entries_def]]
  have r: "conserved src dst src' dst'" "ok \<and> \<not> safe \<longrightarrow>
    (\<forall>j < length (buckets src). entries_of (buckets src' ! j) = [])" by auto
  show "conserved src dst src' dst'" by (rule r(1))
  assume "ok" "\<not> safe"
  with r have "\<forall>e. e \<notin> set (stored src')" by (auto simp: stored_iff conserved_def)
  then show "stored src' = []" by (metis list.set_intros(1) neq_Nil_conv)
qed

text \<open>The two parts of \<open>hash_rehash\<close>: what can stop it early, and what follows the first move.\<close>

definition new_table :: "nat \<Rightarrow> heap \<Rightarrow> 'a htable \<Rightarrow> 'a htable" where
  "new_table n h t = t\<lparr>buckets := replicate n empty_bucket, n_buckets := n, n_buckets_used := 0,
                     n_entries := 0, heap := h\<rparr>"

lemma new_table_simps [simp]:
  "stored (new_table n h t) = []" "hasher (new_table n h t) = hasher t"
  "tidy (new_table n h t) = (0 < n)"
  by (simp_all add: new_table_def stored_def tidy_def)

definition rehash_end :: "'a htable \<Rightarrow> bool \<times> 'a htable \<Rightarrow> 'a htable \<Rightarrow> (bool, 'a htable) outcome" where
  "rehash_end t r new =
     (if fst r then
        Ret True (t\<lparr>buckets := buckets new, n_buckets := n_buckets new,
                    n_buckets_used := n_buckets_used new,
                    free_entry_list := free_entry_list new, heap := heap new\<rparr>)
      else let t = (snd r)\<lparr>free_entry_list := free_entry_list new, heap := heap new\<rparr>
        in obind (transfer_entries new True t) (\<lambda>r t.
          if \<not> fst r then aborts t
          else obind (transfer_entries (snd r) False t) (\<lambda>r t.
            if \<not> fst r then aborts t else Ret False t)))"

lemma hash_rehash_parts:
  assumes "0 < n_buckets t" "alloc (heap t) = (a, h)"
    "n = compute_bucket_size candidate (tuning_of (tuning t))"
  shows "hash_rehash candidate t =
    (if n = 0 then Ret False t else if \<not> a then Ret False (t\<lparr>heap := h\<rparr>)
     else obind (transfer_entries t False (new_table n h t)) (rehash_end t))"
  using assms unfolding hash_rehash_def rehash_end_def [abs_def] new_table_def Let_def
  by (simp cong: if_cong)

end
