(* ===== verification/HashScenario.thy ===== *)
theory HashScenario
  imports HashRehash
begin

text \<open>
  What the two slips in \<open>hash_find_entry\<close> and \<open>transfer_entries\<close> come to. A comparator that
  cannot take a null pointer crashes on the first insertion; a hasher that cannot, at the first
  growth; and with the default functions, which can, a table that has grown once miscounts its
  buckets and can lose an entry that was never deleted.
\<close>

section \<open>Evaluation\<close>

lemma is_prime_loop_values:
  "is_prime_loop 11 3 9 = 5" "is_prime_loop 15 3 9 = 3" "is_prime_loop 17 3 9 = 5"
  by (simp_all add: is_prime_loop.simps [of 11 3 9] is_prime_loop.simps [of 11 5 25]
    is_prime_loop.simps [of 15 3 9] is_prime_loop.simps [of 17 3 9] is_prime_loop.simps [of 17 5 25]
    size_inc_def Let_def)

lemma next_prime_values: "next_prime 15 = 17" "next_prime (Suc 0) = 11"
  by (simp_all add: next_prime_def Let_def next_prime_loop.simps [of 11] next_prime_loop.simps [of 15]
    next_prime_loop.simps [of 17] is_prime_def is_prime_loop_values)

lemma float_values:
  "flt (4 / 5) = 13421773 / 16777216" "flt (707 / 500) = 2965373 / 2097152"
  "flt 18446744073709551615 = 18446744073709551616" "flt 1 = 1" "flt 11 = 11" "flt 12 = 12"
  "\<lfloor>flt (16777216 / 13421773)\<rfloor> = 1" "\<lfloor>flt (201326592 / 13421773)\<rfloor> = 15"
  "\<lfloor>flt (flt (32619103 / 2097152) * 13421773 / 16777216)\<rfloor> = 12"
  "flt (16777216 / 13421773) < 18446744073709551616"
  "flt (201326592 / 13421773) < 18446744073709551616"
  "flt (flt (32619103 / 2097152) * 13421773 / 16777216) < 18446744073709551616"
  "8 < flt (147639503 / 16777216)" "flt (147639503 / 16777216) < 9"
  by code_simp+

lemma default_values:
  "growth_threshold default_tuning = 13421773 / 16777216"
  "growth_factor default_tuning = 2965373 / 2097152"
  "shrink_threshold default_tuning = 0" "\<not> is_n_buckets default_tuning"
  by (simp_all add: default_tuning_def float_values)

lemma default_sizes: "compute_bucket_size (Suc 0) default_tuning = 11" "compute_bucket_size 12 default_tuning = 17"
  by (simp_all add: compute_bucket_size_def default_values float_values next_prime_values
      xalloc_oversized_def Let_def linorder_not_le)

text \<open>A table of the default functions, as the scenario's steps leave it.\<close>

definition memory :: heap where
  "memory = \<lparr>h_ok = (\<lambda>_. True), h_count = 0, h_nodes = 0\<rparr>"

definition default_table :: "nat \<Rightarrow> 64 word bucket list \<Rightarrow> nat \<Rightarrow> nat \<Rightarrow> nat \<Rightarrow> int \<Rightarrow> nat \<Rightarrow> 64 word htable" where
  "default_table k bs used n allocs nodes free = \<lparr>buckets = bs, n_buckets = k,
     n_buckets_used = used, n_entries = n, tuning = Default_tuning, hasher = raw_hasher,
     comparator = raw_comparator, data_freer = False, free_entry_list = free, freed = [],
     heap = \<lparr>h_ok = (\<lambda>_. True), h_count = allocs, h_nodes = nodes\<rparr>\<rparr>"

abbreviation single :: "'a \<Rightarrow> 'a bucket" where
  "single p \<equiv> \<lparr>b_data = Some p, b_next = []\<rparr>"

lemma initial_table:
  "hash_initialize 1 None raw_hasher raw_comparator False memory =
     (Some (default_table 11 (replicate 11 empty_bucket) 0 0 2 0 0), \<lparr>h_ok = (\<lambda>_. True), h_count = 2, h_nodes = 0\<rparr>)"
  by (simp add: hash_initialize_def memory_def alloc_def check_tuning_def default_sizes
      default_table_def Let_def)

lemma under_threshold:
  "u \<le> 8 \<Longrightarrow> \<not> over_growth (default_table 11 bs u n a m f)"
proof -
  assume "u \<le> 8"
  then have "flt (of_nat u) = of_nat u" by (intro fl_of_nat) simp
  moreover have "(of_nat u :: rat) \<le> 8" using \<open>u \<le> 8\<close> by (metis of_nat_le_iff of_nat_numeral)
  ultimately have "\<not> flt (147639503 / 16777216) < flt (of_nat u)" using float_values(13) by linarith
  then show ?thesis
    by (simp add: over_growth_def default_table_def default_values float_values)
qed

lemma insert_single:
  assumes "raw_hasher (Some p) 11 = Some i" "bs ! i = empty_bucket" "length bs = 11" "i < 11"
    "u \<le> 8" "n \<le> 8"
  shows "hash_insert (Some p) (default_table 11 bs u n a m f) =
    Ret (Some p) (default_table 11 (bs[i := single p]) (u + 1) (n + 1) a m f)"
proof -
  let ?t = "default_table 11 bs u n a m f"
  have f: "hash_find_entry p False ?t = Ret (None, i) ?t"
    using assms by (simp add: hash_find_entry_def slot_def default_table_def raw_comparator_def Let_def)
  have g: "insert_grow p i ?t = Ret (Some i) ?t"
    using under_threshold assms by (simp add: insert_grow_def)
  show ?thesis
    using f g assms by (simp add: hash_insert_def Let_def)
      (simp add: default_table_def set_bucket_def size_inc_def)
qed

text \<open>The addresses used, with their slots in a table of 11 and of 17 buckets.\<close>

lemma slots_11:
  "raw_hasher (Some 272) 11 = Some 1" "raw_hasher (Some 136) 11 = Some 6"
  "raw_hasher (Some 16) 11 = Some 2" "raw_hasher (Some 24) 11 = Some 3"
  "raw_hasher (Some 32) 11 = Some 4" "raw_hasher (Some 40) 11 = Some 5"
  "raw_hasher (Some 56) 11 = Some 7" "raw_hasher (Some 64) 11 = Some 8"
  "raw_hasher (Some 88) 11 = Some 0" "raw_hasher (Some 160) 11 = Some 9"
  by (simp_all add: raw_hasher_def rotr_sz_def)

lemma slots_17:
  "raw_hasher (Some 272) 17 = Some 0" "raw_hasher (Some 136) 17 = Some 0"
  "raw_hasher (Some 16) 17 = Some 2" "raw_hasher (Some 24) 17 = Some 3"
  "raw_hasher (Some 32) 17 = Some 4" "raw_hasher (Some 40) 17 = Some 5"
  "raw_hasher (Some 56) 17 = Some 7" "raw_hasher (Some 64) 17 = Some 8"
  "raw_hasher (Some 88) 17 = Some 11" "raw_hasher (Some 160) 17 = Some 3"
  "raw_hasher None 17 = Some 0"
  by (simp_all add: raw_hasher_def rotr_sz_def)

section \<open>A grown table\<close>

fun insert_all :: "'a list \<Rightarrow> 'a htable \<Rightarrow> (unit, 'a htable) outcome" where
  "insert_all [] t = Ret () t"
| "insert_all (p # ps) t = obind (hash_insert (Some p) t) (\<lambda>_. insert_all ps)"

definition full_buckets :: "64 word bucket list" where
  "full_buckets = [single 88, single 272, single 16, single 24, single 32, single 40, single 136,
     single 56, single 64, empty_bucket, empty_bucket]"

text \<open>Lists of the length of a table, for the simplifier.\<close>

lemma list_update_numeral [simp]: "(x # xs)[numeral v := y] = x # xs[pred_numeral v := y]"
  by (simp add: numeral_eq_Suc)

lemma replicate_11: "replicate 11 (x :: 'a) = [x, x, x, x, x, x, x, x, x, x, x]"
  and replicate_17: "replicate 17 (x :: 'a) = [x, x, x, x, x, x, x, x, x, x, x, x, x, x, x, x, x]"
  by (simp_all add: numeral_eq_Suc)

lemma insert_nine:
  "insert_all [272, 136, 16, 24, 32, 40, 56, 64, 88] (default_table 11 (replicate 11 empty_bucket) 0 0 2 0 0) =
     Ret () (default_table 11 full_buckets 9 9 2 0 0)"
  by (simp add: insert_single slots_11 full_buckets_def replicate_11) (simp add: numeral_eq_Suc)

text \<open>The operations on a table of this form, and the loops unrolled.\<close>

lemma default_table_sel [simp]:
  "buckets (default_table k bs u n a m f) = bs" "n_buckets (default_table k bs u n a m f) = k"
  "n_buckets_used (default_table k bs u n a m f) = u" "n_entries (default_table k bs u n a m f) = n"
  "tuning (default_table k bs u n a m f) = Default_tuning"
  "hasher (default_table k bs u n a m f) = raw_hasher"
  "comparator (default_table k bs u n a m f) = raw_comparator"
  "free_entry_list (default_table k bs u n a m f) = f"
  "heap (default_table k bs u n a m f) = \<lparr>h_ok = (\<lambda>_. True), h_count = a, h_nodes = m\<rparr>"
  by (simp_all add: default_table_def)

lemma default_table_upd [simp]:
  "set_bucket i b (default_table k bs u n a m f) = default_table k (bs[i := b]) u n a m f"
  "(default_table k bs u n a m f)\<lparr>n_buckets_used := v\<rparr> = default_table k bs v n a m f"
  "(default_table k bs u n a m f)\<lparr>n_entries := v\<rparr> = default_table k bs u v a m f"
  "free_entry (default_table k bs u n a m f) = default_table k bs u n a m (f + 1)"
  "allocate_entry (default_table k bs u n a m 0) = (True, default_table k bs u n (a + 1) (m + 1) 0)"
  by (simp_all add: default_table_def set_bucket_def free_entry_def allocate_entry_def alloc_def)

lemma slot_default [simp]:
  "raw_hasher d k = Some i \<Longrightarrow> i < length bs \<Longrightarrow>
   slot d (default_table k bs u n a m f) = Ret i (default_table k bs u n a m f)"
  by (simp add: slot_def)

lemma transfer_loop_numeral [simp]:
  "transfer_loop False (numeral v) i src dst =
     (let b = buckets src ! i in
      obind (transfer_chain (b_next b) dst) (\<lambda>_ dst.
        let src = set_bucket i (b\<lparr>b_next := []\<rparr>) src in
        obind (transfer_head (b_data b) dst) (\<lambda>r dst.
          if r = None then Ret (False, src) dst
          else transfer_loop False (pred_numeral v) (i + 1)
                 ((set_bucket i empty_bucket src)
                    \<lparr>n_buckets_used := size_dec (n_buckets_used src)\<rparr>) dst)))"
  by (simp add: numeral_eq_Suc)

definition grown_buckets :: "64 word bucket list" where
  "grown_buckets = [\<lparr>b_data = Some 272, b_next = [None, None, Some 136]\<rparr>, empty_bucket, single 16,
     single 24, single 32, single 40, empty_bucket, single 56, single 64, empty_bucket, empty_bucket,
     single 88, empty_bucket, empty_bucket, empty_bucket, empty_bucket, empty_bucket]"

lemma transfer_full:
  "\<exists>src. transfer_entries (default_table 11 full_buckets 9 9 2 0 0) False
      (default_table 17 (replicate 17 empty_bucket) 0 0 3 0 0) =
    Ret (True, src) (default_table 17 grown_buckets 8 0 6 3 0)"
  by (simp add: transfer_entries_def full_buckets_def replicate_17 transfer_head_def slots_17 Let_def
      size_inc_def grown_buckets_def)

text \<open>The tenth insertion grows the table; the new entry goes behind 24.\<close>

definition grown_ten :: "64 word bucket list" where
  "grown_ten = grown_buckets[3 := \<lparr>b_data = Some 24, b_next = [Some 160]\<rparr>]"

lemma full_over: "over_growth (default_table 11 full_buckets 9 9 2 0 0)"
proof -
  have "flt (9 :: rat) = 9" using fl_of_int [of 9 24] by simp
  then show ?thesis using float_values(14) by (simp add: over_growth_def default_values float_values)
qed

lemma rehash_full:
  "hash_rehash 12 (default_table 11 full_buckets 9 9 2 0 0) = Ret True (default_table 17 grown_buckets 8 9 6 3 0)"
proof -
  let ?t = "default_table 11 full_buckets 9 9 2 0 0"
  let ?h = "\<lparr>h_ok = (\<lambda>_. True), h_count = 3, h_nodes = 0\<rparr>"
  have n: "17 = compute_bucket_size 12 (tuning_of (tuning ?t))" by (simp add: default_sizes)
  have a: "alloc (heap ?t) = (True, ?h)" by (simp add: alloc_def)
  have new: "new_table 17 ?h ?t = default_table 17 (replicate 17 empty_bucket) 0 0 3 0 0"
    by (simp add: new_table_def default_table_def)
  obtain src where "transfer_entries ?t False (new_table 17 ?h ?t) =
      Ret (True, src) (default_table 17 grown_buckets 8 0 6 3 0)"
    unfolding new using transfer_full by blast
  then show ?thesis
    using hash_rehash_parts [OF _ a n] by (simp add: rehash_end_def) (simp add: default_table_def)
qed

lemma insert_tenth:
  "hash_insert (Some 160) (default_table 11 full_buckets 9 9 2 0 0) =
     Ret (Some 160) (default_table 17 grown_ten 8 10 7 4 0)"
proof -
  let ?t = "default_table 11 full_buckets 9 9 2 0 0" and ?u = "default_table 17 grown_buckets 8 9 6 3 0"
  have f: "hash_find_entry 160 False ?t = Ret (None, 9) ?t"
    by (simp add: hash_find_entry_def slots_11 full_buckets_def raw_comparator_def Let_def)
  have c: "nat \<lfloor>growth_candidate ?t\<rfloor> = 12" "\<not> flt (of_nat SIZE_MAX) \<le> growth_candidate ?t"
    by (simp_all add: growth_candidate_def default_values float_values Let_def linorder_not_le)
  have g: "hash_find_entry 160 False ?u = Ret (None, 3) ?u"
    by (simp add: hash_find_entry_def slots_17 grown_buckets_def raw_comparator_def Let_def)
  have "insert_grow 160 9 ?t = Ret (Some 3) ?u"
    using full_over c rehash_full g by (simp add: insert_grow_def check_tuning_def Let_def)
  with f have "hash_insert (Some 160) ?t = (let b = buckets ?u ! 3 in
             if b_data b \<noteq> None then
               (case allocate_entry ?u of (ok, t) \<Rightarrow>
                  if \<not> ok then Ret None t
                  else Ret (Some 160)
                    ((set_bucket 3 (b\<lparr>b_next := Some 160 # b_next b\<rparr>) t)
                       \<lparr>n_entries := size_inc (n_entries t)\<rparr>))
             else Ret (Some 160)
                    ((set_bucket 3 (b\<lparr>b_data := Some 160\<rparr>) ?u)
                       \<lparr>n_entries := size_inc (n_entries ?u),
                        n_buckets_used := size_inc (n_buckets_used ?u)\<rparr>))"
    by (simp add: hash_insert_def)
  also have "\<dots> = Ret (Some 160) (default_table 17 grown_ten 8 10 7 4 0)"
    by (simp add: grown_ten_def grown_buckets_def Let_def size_inc_def)
  finally show ?thesis .
qed

lemma delete_first:
  "hash_delete 272 (default_table 17 grown_ten 8 10 7 4 0) =
     Ret (Some 272) (default_table 17 (grown_ten[0 := \<lparr>b_data = None, b_next = [None, Some 136]\<rparr>]) 7 9 7 4 1)"
proof -
  let ?t = "default_table 17 grown_ten 8 10 7 4 0"
  let ?v = "default_table 17 (grown_ten[0 := \<lparr>b_data = None, b_next = [None, Some 136]\<rparr>]) 8 10 7 4 1"
  let ?u = "default_table 17 (grown_ten[0 := \<lparr>b_data = None, b_next = [None, Some 136]\<rparr>]) 7 9 7 4 1"
  have f: "hash_find_entry 272 True ?t = Ret (Some 272, 0) ?v"
    by (simp add: hash_find_entry_def slots_17 grown_ten_def grown_buckets_def Let_def)
  have "\<not> under_shrink ?u"
    by (simp add: under_shrink_def default_values fl_nonneg linorder_not_less)
  then have d: "delete_shrink ?u = Ret () ?u" by (simp add: delete_shrink_def)
  have z: "b_data (buckets ?v ! 0) = None" by (simp add: grown_ten_def grown_buckets_def)
  show ?thesis using f z d by (simp add: hash_delete_def size_dec_def Let_def)
qed

text \<open>
  C13. Ten insertions into a new table of the default functions, all of them successful, and
  one deletion: the growth at the tenth insertion makes \<open>hash_table_ok\<close> fail, and after the
  deletion of address 272 the table no longer finds 136, which was inserted and never deleted.
\<close>

theorem growth_loses_entry:
  "\<exists>t0 t1 t2. fst (hash_initialize 1 None raw_hasher raw_comparator False memory) = Some t0 \<and>
     insert_all [272, 136, 16, 24, 32, 40, 56, 64, 88, 160] t0 = Ret () t1 \<and>
     \<not> hash_table_ok t1 \<and> hash_lookup 136 t1 = Ret (Some 136) t1 \<and>
     hash_delete 272 t1 = Ret (Some 272) t2 \<and> hash_lookup 136 t2 = Ret None t2"
proof -
  let ?t0 = "default_table 11 (replicate 11 empty_bucket) 0 0 2 0 0"
  let ?t1 = "default_table 17 grown_ten 8 10 7 4 0"
  let ?t2 = "default_table 17 (grown_ten[0 := \<lparr>b_data = None, b_next = [None, Some 136]\<rparr>]) 7 9 7 4 1"
  have split: "insert_all (ps @ [p]) t = obind (insert_all ps t) (\<lambda>_ u. obind (hash_insert (Some p) u) (\<lambda>_. Ret ()))"
    for ps and p :: "64 word" and t
    by (induction ps arbitrary: t) (auto simp: obind_assoc intro!: obind_cong)
  have "insert_all ([272, 136, 16, 24, 32, 40, 56, 64, 88] @ [160]) ?t0 = Ret () ?t1"
    unfolding split insert_nine by (simp add: insert_tenth)
  then have i: "insert_all [272, 136, 16, 24, 32, 40, 56, 64, 88, 160] ?t0 = Ret () ?t1" by simp
  have ok: "\<not> hash_table_ok ?t1"
    by (simp add: hash_table_ok_def table_counts_eq used_in_def grown_ten_def grown_buckets_def)
  have l1: "hash_lookup 136 ?t1 = Ret (Some 136) ?t1"
    by (simp add: hash_lookup_def slots_17 cells_def grown_ten_def grown_buckets_def raw_comparator_def Let_def)
  have l2: "hash_lookup 136 ?t2 = Ret None ?t2"
    by (simp add: hash_lookup_def slots_17 grown_ten_def grown_buckets_def Let_def)
  show ?thesis using initial_table i ok l1 delete_first l2 by auto
qed

section \<open>Functions that do not take a null pointer\<close>

text \<open>
  With a comparator that crashes on a null pointer, the first insertion into a new table
  crashes: \<open>hash_find_entry\<close> compares with the data of the empty bucket's head.
\<close>

theorem first_insert_crashes:
  assumes "hash_initialize candidate tn hs cmp freer h = (Some t, h')"
    and "hs (Some e) (n_buckets t) = Some i" "i < n_buckets t" "cmp e None = None"
  shows "hash_insert (Some e) t = Fault t"
proof -
  from assms(1) have "comparator t = cmp" "hasher t = hs" "buckets t = replicate (n_buckets t) empty_bucket"
    by (auto simp: hash_initialize_def Let_def split: prod.splits if_splits)
  with assms(2-4) show ?thesis by (simp add: hash_insert_def hash_find_entry_def slot_def Let_def)
qed

theorem first_insert_crashes_witness:
  "\<exists>t. fst (hash_initialize 1 None raw_hasher (\<lambda>a. map_option (\<lambda>b. a = b)) False memory) = Some t \<and>
     hash_insert (Some 272) t = Fault t"
proof -
  let ?cmp = "\<lambda>(a :: 64 word). map_option (\<lambda>b. a = b)"
  obtain t h where t: "hash_initialize 1 None raw_hasher ?cmp False memory = (Some t, h)"
    "n_buckets t = 11"
    by (simp add: hash_initialize_def memory_def alloc_def check_tuning_def default_sizes Let_def)
  from first_insert_crashes [OF t(1), of 272 1] t slots_11(1) show ?thesis by simp
qed

end
