(* ===== verification/HashProps.thy ===== *)
theory HashProps
  imports HashScenario
begin

text \<open>
  The properties of the hash table's operations: each is stated over the functions of
  \<open>HashTable\<close>, for tables whose user functions satisfy \<open>hash_user\<close>.
\<close>

section \<open>Clearing and freeing\<close>

lemma free_data_eq: "free_data d t = t\<lparr>freed := freed t @ (if data_freer t then [d] else [])\<rparr>"
  by (simp add: free_data_def)

lemma clear_chain_eq:
  "clear_chain ds t = t\<lparr>freed := freed t @ (if data_freer t then ds else []),
     free_entry_list := free_entry_list t + length ds\<rparr>"
  by (induction ds t rule: clear_chain.induct) (simp_all add: free_data_eq)

text \<open>The order in which one bucket's entries are given to the freer.\<close>

definition clear_order :: "'a bucket \<Rightarrow> 'a option list" where
  "clear_order b = (if b_data b = None then [] else b_next b @ [b_data b])"

lemma clear_loop_eq:
  assumes "i + k = length (buckets t)" "\<forall>b \<in> set (buckets t). b_data b = None \<longrightarrow> b_next b = []"
  shows "clear_loop k i t = t\<lparr>buckets := take i (buckets t) @ replicate k empty_bucket,
    freed := freed t @ (if data_freer t then concat (map clear_order (drop i (buckets t))) else []),
    free_entry_list := free_entry_list t + overflow (drop i (buckets t))\<rparr>"
  using assms
proof (induction k arbitrary: i t)
  case 0
  then show ?case by (simp add: overflow_def)
next
  case (Suc k)
  then have i: "i < length (buckets t)" by simp
  let ?b = "buckets t ! i"
  have d: "drop i (buckets t) = ?b # drop (i + 1) (buckets t)" using i by (simp add: Cons_nth_drop_Suc)
  have tk: "take (i + 1) ((buckets t)[i := empty_bucket]) = take i (buckets t) @ [empty_bucket]"
    using i by (simp add: take_Suc_conv_app_nth)
  show ?case
  proof (cases "b_data ?b = None")
    case True
    with Suc.prems(2) i have e: "?b = empty_bucket" by simp
    then have "(buckets t)[i := empty_bucket] = buckets t" using i by (metis list_update_id)
    with tk have "take (i + 1) (buckets t) = take i (buckets t) @ [empty_bucket]" by simp
    with True Suc.IH [of "i + 1" t] Suc.prems d e show ?thesis
      by (simp add: Let_def clear_order_def overflow_def)
  next
    case False
    let ?u = "t\<lparr>buckets := (buckets t)[i := empty_bucket],
      freed := freed t @ (if data_freer t then clear_order ?b else []),
      free_entry_list := free_entry_list t + length (b_next ?b)\<rparr>"
    have "(free_data (b_data ?b) (clear_chain (b_next ?b) t))\<lparr>buckets :=
        (buckets (free_data (b_data ?b) (clear_chain (b_next ?b) t)))[i := empty_bucket]\<rparr> = ?u"
      by (rule htable.equality) (use False in \<open>simp_all add: clear_chain_eq free_data_eq clear_order_def del: not_None_eq\<close>)
    then have "clear_loop (Suc k) i t = clear_loop k (i + 1) ?u"
      using False by (simp add: Let_def)
    also have "\<forall>b \<in> set (buckets ?u). b_data b = None \<longrightarrow> b_next b = []"
      using Suc.prems(2) set_update_subset_insert [of "buckets t" i empty_bucket] by auto
    then have "clear_loop k (i + 1) ?u = ?u\<lparr>buckets := take (i + 1) (buckets ?u) @ replicate k empty_bucket,
        freed := freed ?u @ (if data_freer ?u then concat (map clear_order (drop (i + 1) (buckets ?u))) else []),
        free_entry_list := free_entry_list ?u + overflow (drop (i + 1) (buckets ?u))\<rparr>"
      using Suc.IH [of "i + 1" ?u] Suc.prems(1) by simp
    finally show ?thesis using d tk by (simp add: overflow_def)
  qed
qed

lemma clear_order_entries:
  "bucket_ok key hs n i b \<Longrightarrow> mset (clear_order b) = mset (map Some (entries_of b))"
proof -
  assume ok: "bucket_ok key hs n i b"
  show ?thesis
  proof (cases "b_data b = None")
    case True
    with bucket_ok_cells(1) [OF ok] show ?thesis by (simp add: clear_order_def)
  next
    case False
    have "\<forall>c \<in> set [b]. \<exists>i. bucket_ok key hs n i c" using ok by auto
    from all_cells_stored [OF this] False have "map Some (entries_of b) = cells b"
      by (auto simp: all_cells_def)
    with False show ?thesis by (simp add: clear_order_def cells_def)
  qed
qed

lemma hash_clear_wf:
  assumes wf: "table_wf key t"
  shows "table_wf key (hash_clear t) \<and> stored (hash_clear t) = [] \<and>
    n_buckets (hash_clear t) = n_buckets t \<and>
    (\<exists>log. freed (hash_clear t) = freed t @ log \<and>
       mset log = (if data_freer t then mset (map Some (stored t)) else {#}))"
proof -
  have ok: "\<forall>b \<in> set (buckets t). \<exists>i. bucket_ok key (hasher t) (n_buckets t) i b"
    by (rule wf_buckets [OF wf])
  then have nn: "\<forall>b \<in> set (buckets t). b_data b = None \<longrightarrow> b_next b = []" by (auto simp: bucket_ok_def)
  let ?log = "if data_freer t then concat (map clear_order (buckets t)) else []"
  let ?n = "length (buckets t)"
  have c: "hash_clear t = t\<lparr>buckets := replicate ?n empty_bucket, freed := freed t @ ?log,
      free_entry_list := free_entry_list t + overflow (buckets t), n_buckets_used := 0, n_entries := 0\<rparr>"
    using clear_loop_eq [of 0 ?n t] nn by (simp add: hash_clear_def)
  have "mset (concat (map clear_order bs)) = mset (map Some (concat (map entries_of bs)))"
    if "\<forall>b \<in> set bs. \<exists>i. bucket_ok key (hasher t) (n_buckets t) i b" for bs
    using that by (induction bs) (auto dest: clear_order_entries)
  with ok have log: "mset ?log = (if data_freer t then mset (map Some (stored t)) else {#})"
    by (simp add: stored_def)
  have "stored (hash_clear t) = []" by (simp add: c stored_def)
  moreover have "table_wf key (hash_clear t)"
    using wf by (simp add: c table_wf_def bucket_ok_def stored_def used_in_def overflow_def)
  moreover have "\<exists>log. freed (hash_clear t) = freed t @ log \<and>
       mset log = (if data_freer t then mset (map Some (stored t)) else {#})"
    using log by (intro exI [of _ ?log]) (simp add: c)
  ultimately show ?thesis by (simp add: c)
qed

lemma free_cells_eq: "free_cells cs t = t\<lparr>freed := freed t @ (if data_freer t then cs else [])\<rparr>"
  by (induction cs t rule: free_cells.induct) (simp_all add: free_data_eq)

lemma free_bucket_data_eq:
  "free_bucket_data bs t = t\<lparr>freed := freed t @ (if data_freer t then all_cells bs else [])\<rparr>"
  by (induction bs t rule: free_bucket_data.induct) (simp_all add: free_cells_eq all_cells_def)

lemma free_overflow_nodes: "h_nodes (free_overflow bs h) = h_nodes h - int (overflow bs)"
  by (induction bs h rule: free_overflow.induct) (simp_all add: overflow_def)

section \<open>A table to evaluate on\<close>

abbreviation sample :: "64 word htable" where
  "sample \<equiv> default_table 11 full_buckets 9 9 2 0 0"

lemma sample_stored: "stored sample = [88, 272, 16, 24, 32, 40, 136, 56, 64]"
  by (simp add: stored_def full_buckets_def)

lemma sample_wf: "table_wf id sample"
proof -
  have "bucket_ok id raw_hasher 11 i (full_buckets ! i)" if "i < 11" for i
  proof -
    from that have "i = 0 \<or> i = 1 \<or> i = 2 \<or> i = 3 \<or> i = 4 \<or> i = 5 \<or> i = 6 \<or> i = 7 \<or>
      i = 8 \<or> i = 9 \<or> i = 10" by presburger
    then show ?thesis by (auto simp: bucket_ok_def full_buckets_def slots_11)
  qed
  then show ?thesis
    using sample_stored
    by (simp add: table_wf_def) (simp add: full_buckets_def used_in_def overflow_def)
qed

lemma sample_user: "hash_user (hasher sample) (comparator sample) id"
  using raw.hash_user_axioms by simp




section \<open>Properties\<close>







text \<open>
  A walk from \<open>hash_get_first\<close> along \<open>hash_get_next\<close> meets the entries one after the other,
  each once, and ends.
\<close>

theorem hash_walk_correct:
  assumes "hash_user (hasher t) (comparator t) key" "table_wf key t"
  shows "distinct (stored t) \<and>
    hash_get_first t = Ret (case stored t of [] \<Rightarrow> None | e # es \<Rightarrow> Some e) t \<and>
    (\<forall>k < length (stored t). hash_get_next (stored t ! k) t =
       Ret (if k + 1 < length (stored t) then Some (stored t ! (k + 1)) else None) t)"
  using hash_user.walk_correct [OF assms(1,2) refl] hash_user.stored_distinct [OF assms(1,2) refl] by blast

theorem hash_walk_correct_witness:
  "hash_get_first sample = Ret (Some 88) sample \<and> hash_get_next 24 sample = Ret (Some 32) sample \<and>
   hash_get_next 64 sample = Ret None sample"
proof -
  have k: "stored sample ! 3 = 24" "stored sample ! 8 = 64" "length (stored sample) = 9"
    "stored sample ! 4 = 32" by (simp_all add: sample_stored)
  have w: "hash_get_first sample = Ret (case stored sample of [] \<Rightarrow> None | e # es \<Rightarrow> Some e) sample"
    "\<forall>k < length (stored sample). hash_get_next (stored sample ! k) sample =
       Ret (if k + 1 < length (stored sample) then Some (stored sample ! (k + 1)) else None) sample"
    using hash_walk_correct [OF sample_user sample_wf] by blast+
  from w(1) have "hash_get_first sample = Ret (Some 88) sample" by (simp add: sample_stored)
  moreover from w(2) [rule_format, of 3] k have "hash_get_next 24 sample = Ret (Some 32) sample" by simp
  moreover from w(2) [rule_format, of 8] k have "hash_get_next 64 sample = Ret None sample" by simp
  ultimately show ?thesis by blast
qed

text \<open>
  \<open>hash_get_entries\<close> copies the entries in the order of the walk, as many as the buffer
  takes, and \<open>hash_do_for_each\<close> gives them to the processor in that order until it says stop.
\<close>

theorem hash_iterate_correct:
  assumes "table_wf key t"
  shows "hash_get_entries n t = (min n (n_entries t), map Some (take n (stored t))) \<and>
    hash_do_for_each proc d t = snd (visit (\<lambda>e. proc (Some e)) (stored t) 0 d)"
proof -
  have all: "all_cells (buckets t) = map Some (stored t)"
    unfolding stored_def by (rule all_cells_stored) (rule wf_buckets [OF assms])
  have "n_entries t = length (stored t)" using assms by (simp add: table_wf_def)
  then show ?thesis
    using copy_buckets_eq [of "[]" n "buckets t"]
    by (simp add: hash_get_entries_def hash_do_for_each_def each_bucket_visit all visit_map_Some
        take_map Let_def min.commute)
qed

theorem hash_iterate_correct_witness:
  "hash_get_entries 3 sample = (3, [Some 88, Some 272, Some 16]) \<and>
   hash_do_for_each (\<lambda>e d. (e \<noteq> Some 24, e # d)) [] sample = (3, [Some 24, Some 16, Some 272, Some 88])"
  using hash_iterate_correct [OF sample_wf, of 3 "\<lambda>e d. (e \<noteq> Some 24, e # d)" "[]"]
  unfolding sample_stored by (simp add: numeral_3_eq_3)

text \<open>
  The statistics a table keeps are right: \<open>hash_table_ok\<close> holds, and \<open>hash_clear\<close> leaves an
  empty table of the same size in which they are right again, after giving every entry to the
  freer exactly once.
\<close>

theorem hash_clear_correct:
  assumes "table_wf key t"
  shows "hash_table_ok t \<and> table_wf key (hash_clear t) \<and> stored (hash_clear t) = [] \<and>
    n_buckets (hash_clear t) = n_buckets t \<and>
    (\<exists>log. freed (hash_clear t) = freed t @ log \<and>
       mset log = (if data_freer t then mset (map Some (stored t)) else {#}))"
  using table_wf_ok [OF assms] hash_clear_wf [OF assms] by blast

theorem hash_clear_correct_witness:
  "hash_table_ok (sample\<lparr>data_freer := True\<rparr>) \<and> stored (hash_clear (sample\<lparr>data_freer := True\<rparr>)) = []"
proof -
  have "table_wf id (sample\<lparr>data_freer := True\<rparr>)" using sample_wf by (simp add: table_wf_def stored_def)
  from hash_clear_correct [OF this] show ?thesis by blast
qed

text \<open>
  \<open>hash_free\<close> gives every entry to the freer once, in the order of the walk, and gives back
  every overflow entry the table ever allocated.
\<close>

theorem hash_free_correct:
  assumes "table_wf key t"
  shows "fst (hash_free t) = freed t @ (if data_freer t then map Some (stored t) else []) \<and>
    h_nodes (snd (hash_free t)) = 0"
proof -
  have all: "all_cells (buckets t) = map Some (stored t)"
    unfolding stored_def by (rule all_cells_stored) (rule wf_buckets [OF assms])
  have "n_entries t = length (stored t)"
    "h_nodes (heap t) = int (overflow (buckets t)) + int (free_entry_list t)"
    using assms by (simp_all add: table_wf_def)
  then show ?thesis
    by (auto simp: hash_free_def Let_def free_bucket_data_eq free_overflow_nodes all)
qed

theorem hash_free_correct_witness:
  "fst (hash_free sample) = [] \<and> h_nodes (snd (hash_free sample)) = 0"
  using hash_free_correct [OF sample_wf] by (simp add: default_table_def)

text \<open>
  \<open>next_prime\<close> returns the least prime that is neither below its argument nor below 11,
  whenever there is such a prime below \<open>2 ^ 62\<close>.
\<close>

theorem next_prime_is_least:
  assumes "prime q" "c \<le> q" "11 \<le> q" "q < 2 ^ 62"
  shows "prime (next_prime c) \<and> c \<le> next_prime c \<and> 11 \<le> next_prime c \<and>
    (\<forall>p. prime p \<and> c \<le> p \<and> 11 \<le> p \<longrightarrow> next_prime c \<le> p)"
  by (rule next_prime_correct [OF assms])

lemma prime_17: "prime 17"
  using is_prime_correct [of 17] by (simp add: is_prime_def is_prime_loop_values)

theorem next_prime_is_least_witness: "next_prime 15 \<le> 17 \<and> prime (next_prime 15)"
  using next_prime_is_least [of 17 15] prime_17 by simp

text \<open>The two transfers back after a failed move put every entry into the old table again.\<close>

lemma rehash_undone:
  assumes con: "conserved t new0 src new" and st0: "stored new0 = []"
    and fin: "rehash_end t (False, src) new = Ret ok u"
  shows "tidy u \<and> mset (stored u) = mset (stored t) \<and> n_entries u = n_entries t \<and>
    hasher u = hasher t \<and> comparator u = comparator t"
proof -
  let ?t = "src\<lparr>free_entry_list := free_entry_list new, heap := heap new\<rparr>"
  from fin obtain r1 t1 r2 where m:
    "transfer_entries new True ?t = Ret r1 t1" "fst r1"
    "transfer_entries (snd r1) False t1 = Ret r2 u" "fst r2"
    by (auto simp: rehash_end_def Let_def split: if_splits)
  have c0: "tidy ?t" "tidy new" using con by (simp_all add: conserved_def)
  obtain n1 where r1: "r1 = (True, n1)" using m(2) by (metis prod.collapse)
  obtain n2 where r2: "r2 = (True, n2)" using m(4) by (metis prod.collapse)
  have c1: "conserved new ?t n1 t1"
    by (rule transfer_entries_conserves(1) [OF c0(2,1) m(1) [unfolded r1]])
  then have t1: "tidy n1" "tidy t1" by (simp_all add: conserved_def)
  have m3: "transfer_entries n1 False t1 = Ret (True, n2) u" using m(3) by (simp add: r1 r2)
  have c2: "conserved n1 t1 n2 u" "stored n2 = []"
    using transfer_entries_conserves [OF t1 m3] by simp_all
  have "mset (stored src) + mset (stored new) = mset (stored t)"
    using con st0 by (simp add: conserved_def)
  moreover have "mset (stored n1) + mset (stored t1) = mset (stored new) + mset (stored src)"
    using c1 by (simp add: conserved_def)
  moreover have "mset (stored u) = mset (stored n1) + mset (stored t1)" "tidy u"
    using c2 by (simp_all add: conserved_def)
  moreover have "same_table t src" "same_table src t1" "same_table t1 u"
    using con c1 c2(1) by (simp_all add: conserved_def same_table_def)
  ultimately show ?thesis by (simp add: same_table_def add.commute)
qed

text \<open>
  C12. \<open>hash_rehash\<close> never loses or invents an entry: when it reports success, when it fails
  for want of memory before or in the middle of the move, every entry is there and in the
  bucket it hashes to.
\<close>

theorem hash_rehash_keeps_entries:
  assumes "tidy t" "hash_rehash candidate t = Ret ok u"
  shows "tidy u \<and> mset (stored u) = mset (stored t) \<and> n_entries u = n_entries t \<and>
    hasher u = hasher t \<and> comparator u = comparator t"
proof -
  let ?n = "compute_bucket_size candidate (tuning_of (tuning t))"
  obtain a h where al: "alloc (heap t) = (a, h)" by fastforce
  let ?new = "new_table ?n h t"
  have pos: "0 < n_buckets t" using assms(1) by (simp add: tidy_def)
  note eq = assms(2) [unfolded hash_rehash_parts [OF pos al refl]]
  consider "u = t" | "u = t\<lparr>heap := h\<rparr>" |
    (move) r new where "?n \<noteq> 0" "transfer_entries t False ?new = Ret r new" "rehash_end t r new = Ret ok u"
  proof (cases "?n = 0 \<or> \<not> a")
    case True
    with eq have "u = t \<or> u = t\<lparr>heap := h\<rparr>" by (metis outcome.inject(1))
    with that(1,2) show thesis by blast
  next
    case False
    with eq have "obind (transfer_entries t False ?new) (rehash_end t) = Ret ok u" by simp
    then obtain r new where "transfer_entries t False ?new = Ret r new" "rehash_end t r new = Ret ok u"
      by (rule obind_RetE)
    with that(3) False show thesis by blast
  qed
  then show ?thesis
  proof cases
    case 1
    with assms(1) show ?thesis by simp
  next
    case 2
    with assms(1) show ?thesis by simp
  next
    case move
    have tn: "tidy ?new" using move(1) by simp
    obtain b src where r: "r = (b, src)" by fastforce
    note con = transfer_entries_conserves [OF assms(1) tn move(2) [unfolded r]]
    show ?thesis
    proof (cases b)
      case True
      with con have "tidy new" "hasher new = hasher t" "mset (stored new) = mset (stored t)"
        by (simp_all add: conserved_def same_table_def)
      with move(3) r True show ?thesis by (auto simp: rehash_end_def tidy_def stored_def)
    next
      case False
      with con(1) move(3) r show ?thesis by (intro rehash_undone [of t ?new src new]) simp_all
    qed
  qed
qed

theorem hash_rehash_keeps_entries_witness:
  "\<exists>u. hash_rehash 12 sample = Ret True u \<and> mset (stored u) = mset (stored sample) \<and> n_buckets u = 17"
proof -
  have "raw_hasher (Some d) 11 = Some i" if "i < 11" "d \<in> set (entries_of (full_buckets ! i))" for i d
    using sample_wf that by (auto simp: table_wf_def bucket_ok_def)
  moreover have "length full_buckets = 11" by (simp add: full_buckets_def)
  ultimately have "tidy sample" by (simp add: tidy_def)
  from hash_rehash_keeps_entries [OF this rehash_full] rehash_full show ?thesis by auto
qed

end
