(* ===== verification/FileSet.thy ===== *)
theory FileSet
  imports HashScenario
begin

text \<open>
  Sets of files: the hash functions \<open>coreutils/lib/hash-pjw.c\<close> and \<open>hash-triple.c\<close>, and
  \<open>file-set.c\<close>, which keeps them in a hash table. An entry carries its address \<open>loc\<close>, so that
  equal entries are the same object.
\<close>

section \<open>Hashing and comparing\<close>

record f_triple =
  loc :: nat
  fname :: "byte list"
  st_ino :: "64 word"
  st_dev :: "64 word"

text \<open>\<open>char\<close> is signed; a table of size 0 divides by zero (\<open>None\<close>).\<close>

definition hash_pjw :: "byte list \<Rightarrow> nat \<Rightarrow> nat option" where
  "hash_pjw s tablesize =
     (let h = foldl (\<lambda>h c. scast c + or (push_bit 9 h) (drop_bit 55 h)) (0 :: 64 word) s
      in if tablesize = 0 then None else Some (unat h mod tablesize))"

text \<open>Neither function looks whether its argument is null (\<open>None\<close> then is a crash).\<close>

definition triple_hash :: "f_triple option \<Rightarrow> nat \<Rightarrow> nat option" where
  "triple_hash x table_size = (case x of
     None \<Rightarrow> None
   | Some p \<Rightarrow> (case hash_pjw (fname p) table_size of
       None \<Rightarrow> None
     | Some tmp \<Rightarrow> Some (unat (xor (of_nat tmp) (st_ino p)) mod table_size)))"

definition triple_compare_ino_str :: "f_triple \<Rightarrow> f_triple option \<Rightarrow> bool option" where
  "triple_compare_ino_str a y = (case y of
     None \<Rightarrow> None
   | Some b \<Rightarrow> Some (st_ino a = st_ino b \<and> st_dev a = st_dev b \<and> fname a = fname b))"

section \<open>Sets of files\<close>

text \<open>
  \<open>record_file\<close>, with the address \<open>xmalloc\<close> gives the new entry. \<open>xmalloc\<close> and \<open>xstrdup\<close> exit
  when there is no memory, and so does a failing \<open>hash_insert\<close>. No table means nothing to do.
\<close>

type_synonym file_table = "f_triple htable"

definition xmalloc :: "file_table \<Rightarrow> (unit, file_table) outcome" where
  "xmalloc ht = (case alloc (heap ht) of (ok, h) \<Rightarrow>
     if ok then Ret () (ht\<lparr>heap := h\<rparr>) else Exit 1 (ht\<lparr>heap := h\<rparr>))"

definition on_table :: "(file_table \<Rightarrow> ('a, file_table) outcome) \<Rightarrow> file_table \<Rightarrow> ('a, file_table option) outcome" where
  "on_table f ht = (case f ht of Ret x t \<Rightarrow> Ret x (Some t) | Exit c t \<Rightarrow> Exit c (Some t) | Fault t \<Rightarrow> Fault (Some t))"

definition record_file ::
  "nat \<Rightarrow> byte list \<Rightarrow> 64 word \<Rightarrow> 64 word \<Rightarrow> file_table option \<Rightarrow> (unit, file_table option) outcome" where
  "record_file p file ino dev ht = (case ht of
     None \<Rightarrow> Ret () None
   | Some ht \<Rightarrow> on_table (\<lambda>ht.
       obind (xmalloc ht) (\<lambda>_ ht. obind (xmalloc ht) (\<lambda>_ ht.
         obind (hash_insert (Some \<lparr>loc = p, fname = file, st_ino = ino, st_dev = dev\<rparr>) ht) (\<lambda>r ht.
           if r = None then Exit 1 ht else Ret () ht)))) ht)"

definition seen_file ::
  "nat \<Rightarrow> byte list \<Rightarrow> 64 word \<Rightarrow> 64 word \<Rightarrow> file_table option \<Rightarrow> (bool, file_table option) outcome" where
  "seen_file p file ino dev ht = (case ht of
     None \<Rightarrow> Ret False None
   | Some ht \<Rightarrow> on_table (\<lambda>ht.
       obind (hash_lookup \<lparr>loc = p, fname = file, st_ino = ino, st_dev = dev\<rparr> ht) (\<lambda>r ht. Ret (r \<noteq> None) ht)) ht)"

section \<open>The contract of the hash table\<close>

text \<open>
  What identifies a file. The comparison on entries that are there, completed for null pointers,
  satisfies the contract of the table's users.
\<close>

definition triple_key :: "f_triple \<Rightarrow> byte list \<times> 64 word \<times> 64 word" where
  "triple_key a = (fname a, st_ino a, st_dev a)"

definition triple_equal :: "f_triple \<Rightarrow> f_triple option \<Rightarrow> bool option" where
  "triple_equal a y = (if y = None then Some False else triple_compare_ino_str a y)"

interpretation files: hash_user triple_hash triple_equal triple_key
proof unfold_locales
  fix n :: nat and e :: f_triple
  assume "0 < n"
  then show "\<exists>i<n. triple_hash (Some e) n = Some i" by (simp add: triple_hash_def hash_pjw_def Let_def)
next
  show "triple_hash (Some e) n = triple_hash (Some d) n" if "triple_key e = triple_key d" for e d n
    using that by (simp add: triple_hash_def triple_key_def cong: option.case_cong)
qed (auto simp: triple_equal_def triple_compare_ino_str_def triple_key_def)

lemma find_cell_equal: "None \<notin> set cs \<Longrightarrow> find_cell triple_compare_ino_str e cs = find_cell triple_equal e cs"
  by (induction cs) (auto simp: triple_equal_def split: option.splits bool.splits)

text \<open>Looking up never compares with a null pointer in a well-formed table.\<close>

lemma hash_lookup_equal:
  assumes "table_wf triple_key t" "hasher t = triple_hash" "comparator t = triple_compare_ino_str"
  shows "hash_lookup e t = (case hash_lookup e (t\<lparr>comparator := triple_equal\<rparr>) of
    Ret r _ \<Rightarrow> Ret r t | Exit c _ \<Rightarrow> Exit c t | Fault _ \<Rightarrow> Fault t)"
proof -
  obtain i where i: "i < length (buckets t)" "slot (Some e) t = Ret i t"
    "bucket_ok triple_key triple_hash (n_buckets t) i (buckets t ! i)"
    using files.slot_wf [OF assms(1,2)] .
  from i(2) have slot: "slot (Some e) (t\<lparr>comparator := triple_equal\<rparr>) = Ret i (t\<lparr>comparator := triple_equal\<rparr>)"
    by (auto simp: slot_def split: option.splits if_splits)
  show ?thesis
  proof (cases "b_data (buckets t ! i) = None")
    case True
    with i(2) slot show ?thesis by (simp add: hash_lookup_def Let_def)
  next
    case False
    with i(3) have "None \<notin> set (cells (buckets t ! i))" by (auto simp: bucket_ok_def cells_def)
    with i(2) slot False assms(3) show ?thesis
      by (auto simp: hash_lookup_def Let_def find_cell_equal split: option.splits)
  qed
qed

text \<open>
  C31. \<open>seen_file\<close> answers whether a file with the name, inode and device has been recorded, and
  changes nothing.
\<close>

theorem seen_file_correct:
  assumes "table_wf triple_key t" "hasher t = triple_hash" "comparator t = triple_compare_ino_str"
  shows "seen_file p file ino dev (Some t) =
    Ret (\<exists>d \<in> set (stored t). fname d = file \<and> st_ino d = ino \<and> st_dev d = dev) (Some t)"
proof -
  define e where "e = \<lparr>loc = p, fname = file, st_ino = ino, st_dev = dev\<rparr>"
  have wf: "table_wf triple_key (t\<lparr>comparator := triple_equal\<rparr>)" "stored (t\<lparr>comparator := triple_equal\<rparr>) = stored t"
    using assms(1) by (simp_all add: table_wf_def stored_def)
  from files.lookup_correct [OF wf(1), of e] assms(2) obtain r where
    r: "hash_lookup e (t\<lparr>comparator := triple_equal\<rparr>) = Ret r (t\<lparr>comparator := triple_equal\<rparr>)"
    "case r of None \<Rightarrow> \<forall>d \<in> set (stored t). triple_key d \<noteq> triple_key e
     | Some d \<Rightarrow> d \<in> set (stored t) \<and> triple_key d = triple_key e" unfolding wf(2) by auto
  from r(1) hash_lookup_equal [OF assms, of e] have "hash_lookup e t = Ret r t" by simp
  then have "seen_file p file ino dev (Some t) = Ret (r \<noteq> None) (Some t)"
    by (simp add: seen_file_def on_table_def e_def [symmetric])
  moreover have "r \<noteq> None \<longleftrightarrow> (\<exists>d \<in> set (stored t). fname d = file \<and> st_ino d = ino \<and> st_dev d = dev)"
    using r(2) by (cases r) (auto simp: triple_key_def e_def)
  ultimately show ?thesis by simp
qed

definition one_file :: "file_table" where
  "one_file = \<lparr>buckets = [\<lparr>b_data = Some \<lparr>loc = 1, fname = [97], st_ino = 7, st_dev = 2\<rparr>, b_next = []\<rparr>],
     n_buckets = 1, n_buckets_used = 1, n_entries = 1, tuning = Default_tuning, hasher = triple_hash,
     comparator = triple_compare_ino_str, data_freer = True, free_entry_list = 0, freed = [], heap = memory\<rparr>"

lemma one_file_wf: "table_wf triple_key one_file"
  by (simp add: table_wf_def one_file_def bucket_ok_def entries_of_def cells_def stored_def used_in_def overflow_def
      triple_hash_def hash_pjw_def memory_def Let_def)

theorem seen_file_correct_witness:
  "seen_file 9 [97] 7 2 (Some one_file) = Ret True (Some one_file) \<and> seen_file 9 [97] 7 3 (Some one_file) = Ret False (Some one_file)"
proof -
  have "hasher one_file = triple_hash" "comparator one_file = triple_compare_ino_str"
    "stored one_file = [\<lparr>loc = 1, fname = [97], st_ino = 7, st_dev = 2\<rparr>]"
    by (simp_all add: one_file_def stored_def entries_of_def cells_def)
  with seen_file_correct [OF one_file_wf, of 9 "[97]" 7 2] seen_file_correct [OF one_file_wf, of 9 "[97]" 7 3]
  show ?thesis by simp
qed

text \<open>
  C32. Recording the first file in a new table crashes: \<open>hash_insert\<close> compares it with the null
  data of an empty bucket, and \<open>triple_compare_ino_str\<close> follows the null pointer.
\<close>

theorem first_record_crashes:
  assumes "hash_initialize candidate tn triple_hash triple_compare_ino_str freer h = (Some t, h')"
    and "\<forall>k. h_ok h k"
  shows "\<exists>u. record_file p file ino dev (Some t) = Fault u"
proof -
  from assms have t: "comparator t = triple_compare_ino_str" "hasher t = triple_hash"
    "buckets t = replicate (n_buckets t) empty_bucket" "n_buckets t \<noteq> 0" "\<forall>k. h_ok (heap t) k"
    by (auto simp: hash_initialize_def alloc_def Let_def split: prod.splits if_splits)
  define u where "u = t\<lparr>heap := heap t\<lparr>h_count := h_count (heap t) + 1 + 1\<rparr>\<rparr>"
  define e where "e = \<lparr>loc = p, fname = file, st_ino = ino, st_dev = dev\<rparr>"
  obtain i where i: "i < n_buckets t" "triple_hash (Some e) (n_buckets t) = Some i"
    using files.hs_range [of "n_buckets t" e] t(4) by auto
  have "hash_insert (Some e) u = Fault u"
    using i t by (simp add: hash_insert_def hash_find_entry_def slot_def Let_def u_def triple_compare_ino_str_def)
  then have "record_file p file ino dev (Some t) = Fault (Some u)"
    using t(5) by (simp add: record_file_def on_table_def xmalloc_def alloc_def u_def e_def)
  then show ?thesis by blast
qed

theorem first_record_crashes_witness:
  "\<exists>t u. fst (hash_initialize 1 None triple_hash triple_compare_ino_str True memory) = Some t \<and>
     record_file 1 [97] 7 2 (Some t) = Fault u"
proof -
  obtain t h where t: "hash_initialize 1 None triple_hash triple_compare_ino_str True memory = (Some t, h)"
    by (simp add: hash_initialize_def memory_def alloc_def check_tuning_def default_sizes Let_def)
  have "\<forall>k. h_ok memory k" by (simp add: memory_def)
  from first_record_crashes [OF t this] t show ?thesis by auto
qed

end
