(* ===== verification/Encoding.thy ===== *)
theory Encoding
  imports Prelude
begin

unbundle bit_operations_syntax

text \<open>
  The character-encoding detection of the \<open>file\<close> command (\<open>file/encoding.c\<close>). A buffer of
  \<open>nbytes\<close> bytes is a byte list; a \<open>unichar\<close> (an \<open>unsigned long\<close>) is a natural number, at
  most 31 bits of which are ever used; \<open>ubuf\<close> with its length \<open>*ulen\<close> is the list of the
  characters stored so far. Each test returns its result and what it leaves in \<open>ubuf\<close>.
\<close>

section \<open>The tables\<close>

text \<open>The classes \<open>F\<close>, \<open>T\<close>, \<open>I\<close> and \<open>X\<close> of \<open>text_chars\<close>.\<close>

datatype text_class = CF | CT | CI | CX

definition text_chars :: "text_class list" where
  "text_chars =
    [CF, CF, CF, CF, CF, CF, CF, CT, CT, CT, CT, CF, CT, CT, CF, CF,
     CF, CF, CF, CF, CF, CF, CF, CF, CF, CF, CF, CT, CF, CF, CF, CF,
     CT, CT, CT, CT, CT, CT, CT, CT, CT, CT, CT, CT, CT, CT, CT, CT,
     CT, CT, CT, CT, CT, CT, CT, CT, CT, CT, CT, CT, CT, CT, CT, CT,
     CT, CT, CT, CT, CT, CT, CT, CT, CT, CT, CT, CT, CT, CT, CT, CT,
     CT, CT, CT, CT, CT, CT, CT, CT, CT, CT, CT, CT, CT, CT, CT, CT,
     CT, CT, CT, CT, CT, CT, CT, CT, CT, CT, CT, CT, CT, CT, CT, CT,
     CT, CT, CT, CT, CT, CT, CT, CT, CT, CT, CT, CT, CT, CT, CT, CF,
     CX, CX, CX, CX, CX, CT, CX, CX, CX, CX, CX, CX, CX, CX, CX, CX,
     CX, CX, CX, CX, CX, CX, CX, CX, CX, CX, CX, CX, CX, CX, CX, CX,
     CI, CI, CI, CI, CI, CI, CI, CI, CI, CI, CI, CI, CI, CI, CI, CI,
     CI, CI, CI, CI, CI, CI, CI, CI, CI, CI, CI, CI, CI, CI, CI, CI,
     CI, CI, CI, CI, CI, CI, CI, CI, CI, CI, CI, CI, CI, CI, CI, CI,
     CI, CI, CI, CI, CI, CI, CI, CI, CI, CI, CI, CI, CI, CI, CI, CI,
     CI, CI, CI, CI, CI, CI, CI, CI, CI, CI, CI, CI, CI, CI, CI, CI,
     CI, CI, CI, CI, CI, CI, CI, CI, CI, CI, CI, CI, CI, CI, CI, CI]"

definition ebcdic_to_ascii :: "byte list" where
  "ebcdic_to_ascii =
    [0,   1,   2,   3, 156,   9, 134, 127, 151, 141, 142,  11,  12,  13,  14,  15,
     16,  17,  18,  19, 157, 133,   8, 135,  24,  25, 146, 143,  28,  29,  30,  31,
     128, 129, 130, 131, 132,  10,  23,  27, 136, 137, 138, 139, 140,   5,   6,   7,
     144, 145,  22, 147, 148, 149, 150,   4, 152, 153, 154, 155,  20,  21, 158,  26,
     32, 160, 161, 162, 163, 164, 165, 166, 167, 168, 213, 46, 60, 40, 43, 124,
     38, 169, 170, 171, 172, 173, 174, 175, 176, 177, 33, 36, 42, 41, 59, 126,
     45, 47, 178, 179, 180, 181, 182, 183, 184, 185, 203, 44, 37, 95, 62, 63,
     186, 187, 188, 189, 190, 191, 192, 193, 194, 96, 58, 35, 64, 39, 61, 34,
     195, 97, 98, 99, 100, 101, 102, 103, 104, 105, 196, 197, 198, 199, 200, 201,
     202, 106, 107, 108, 109, 110, 111, 112, 113, 114, 94, 204, 205, 206, 207, 208,
     209, 229, 115, 116, 117, 118, 119, 120, 121, 122, 210, 211, 212, 91, 214, 215,
     216, 217, 218, 219, 220, 221, 222, 223, 224, 225, 226, 227, 228, 93, 230, 231,
     123, 65, 66, 67, 68, 69, 70, 71, 72, 73, 232, 233, 234, 235, 236, 237,
     125, 74, 75, 76, 77, 78, 79, 80, 81, 82, 238, 239, 240, 241, 242, 243,
     92, 159, 83, 84, 85, 86, 87, 88, 89, 90, 244, 245, 246, 247, 248, 249,
     48, 49, 50, 51, 52, 53, 54, 55, 56, 57, 250, 251, 252, 253, 254, 255]"

definition from_ebcdic :: "byte list \<Rightarrow> byte list" where
  "from_ebcdic buf = map (\<lambda>b. ebcdic_to_ascii ! unat b) buf"

section \<open>UTF-8\<close>

text \<open>
  A first byte with its top two bits set: the bits of the character in it and the number of
  bytes that follow.
\<close>

definition utf8_lead :: "byte \<Rightarrow> (nat \<times> nat) option" where
  "utf8_lead b =
     (if b AND 0x20 = 0 then Some (unat (b AND 0x1f), 1)
      else if b AND 0x10 = 0 then Some (unat (b AND 0x0f), 2)
      else if b AND 0x08 = 0 then Some (unat (b AND 0x07), 3)
      else if b AND 0x04 = 0 then Some (unat (b AND 0x03), 4)
      else if b AND 0x02 = 0 then Some (unat (b AND 0x01), 5)
      else None)"

text \<open>
  The loop over the bytes that follow: the character and the rest of the buffer, the end of
  the buffer (\<open>goto done\<close>), or a byte that does not belong there.
\<close>

datatype utf8_seq = Char nat "byte list" | At_end | Invalid

fun utf8_follow :: "nat \<Rightarrow> nat \<Rightarrow> byte list \<Rightarrow> utf8_seq" where
  "utf8_follow 0 c bs = Char c bs"
| "utf8_follow (Suc n) c [] = At_end"
| "utf8_follow (Suc n) c (b # bs) =
     (if b AND 0x80 = 0 \<or> b AND 0x40 \<noteq> 0 then Invalid
      else utf8_follow n (push_bit 6 c + unat (b AND 0x3f)) bs)"

lemma utf8_follow_shorter: "utf8_follow n c bs = Char c' bs' \<Longrightarrow> length bs' \<le> length bs"
  by (induction n c bs rule: utf8_follow.induct) (auto split: if_splits)

definition utf8_result :: "bool \<Rightarrow> bool \<Rightarrow> int" where
  "utf8_result ctrl gotone = (if ctrl then 0 else if gotone then 2 else 1)"

function utf8_loop :: "byte list \<Rightarrow> bool \<Rightarrow> bool \<Rightarrow> nat list \<Rightarrow> int \<times> nat list" where
  "utf8_loop [] ctrl gotone u = (utf8_result ctrl gotone, u)"
| "utf8_loop (b # bs) ctrl gotone u =
     (if b AND 0x80 = 0 then
        utf8_loop bs (ctrl \<or> text_chars ! unat b \<noteq> CT) gotone (u @ [unat b])
      else if b AND 0x40 = 0 then (- 1, u)
      else case utf8_lead b of
        None \<Rightarrow> (- 1, u)
      | Some (c, following) \<Rightarrow>
          (case utf8_follow following c bs of
             At_end \<Rightarrow> (utf8_result ctrl gotone, u)
           | Invalid \<Rightarrow> (- 1, u)
           | Char c rest \<Rightarrow> utf8_loop rest ctrl True (u @ [c])))"
  by pat_completeness auto
termination
  by (relation "measure (\<lambda>(bs, _, _, _). length bs)")
     (auto dest: utf8_follow_shorter simp: less_Suc_eq_le)

definition file_looks_utf8 :: "byte list \<Rightarrow> int \<times> nat list" where
  "file_looks_utf8 buf = utf8_loop buf False False []"

text \<open>Without a byte-order mark \<open>ubuf\<close> is not touched.\<close>

definition looks_utf8_with_BOM :: "byte list \<Rightarrow> nat list \<Rightarrow> int \<times> nat list" where
  "looks_utf8_with_BOM buf u =
     (if length buf > 3 \<and> buf ! 0 = 0xef \<and> buf ! 1 = 0xbb \<and> buf ! 2 = 0xbf
      then file_looks_utf8 (drop 3 buf) else (- 1, u))"

section \<open>One-byte encodings\<close>

fun looks_ascii_loop :: "byte list \<Rightarrow> nat list \<Rightarrow> int \<times> nat list" where
  "looks_ascii_loop [] u = (1, u)"
| "looks_ascii_loop (b # bs) u =
     (let t = text_chars ! unat b in
      if t \<noteq> CT then (0, u) else looks_ascii_loop bs (u @ [unat b]))"

definition looks_ascii :: "byte list \<Rightarrow> int \<times> nat list" where
  "looks_ascii buf = looks_ascii_loop buf []"

fun looks_latin1_loop :: "byte list \<Rightarrow> nat list \<Rightarrow> int \<times> nat list" where
  "looks_latin1_loop [] u = (1, u)"
| "looks_latin1_loop (b # bs) u =
     (let t = text_chars ! unat b in
      if t \<noteq> CT \<and> t \<noteq> CI then (0, u) else looks_latin1_loop bs (u @ [unat b]))"

definition looks_latin1 :: "byte list \<Rightarrow> int \<times> nat list" where
  "looks_latin1 buf = looks_latin1_loop buf []"

fun looks_extended_loop :: "byte list \<Rightarrow> nat list \<Rightarrow> int \<times> nat list" where
  "looks_extended_loop [] u = (1, u)"
| "looks_extended_loop (b # bs) u =
     (let t = text_chars ! unat b in
      if t \<noteq> CT \<and> t \<noteq> CI \<and> t \<noteq> CX then (0, u) else looks_extended_loop bs (u @ [unat b]))"

definition looks_extended :: "byte list \<Rightarrow> int \<times> nat list" where
  "looks_extended buf = looks_extended_loop buf []"

section \<open>UTF-16\<close>

text \<open>The loop stops before a last odd byte; the rejected character is in \<open>ubuf\<close> already.\<close>

fun ucs16_loop :: "bool \<Rightarrow> byte list \<Rightarrow> nat list \<Rightarrow> int \<times> nat list" where
  "ucs16_loop bigend (b0 # b1 # bs) u =
     (let c = (if bigend then unat b1 + 256 * unat b0 else unat b0 + 256 * unat b1);
          u = u @ [c]
      in if c = 0xfffe then (0, u)
         else if c < 128 \<and> text_chars ! c \<noteq> CT then (0, u)
         else ucs16_loop bigend bs u)"
| "ucs16_loop bigend bs u = (1 + (if bigend then 1 else 0), u)"

definition looks_ucs16 :: "byte list \<Rightarrow> nat list \<Rightarrow> int \<times> nat list" where
  "looks_ucs16 buf u =
     (if length buf < 2 then (0, u)
      else if buf ! 0 = 0xff \<and> buf ! 1 = 0xfe then ucs16_loop False (drop 2 buf) []
      else if buf ! 0 = 0xfe \<and> buf ! 1 = 0xff then ucs16_loop True (drop 2 buf) []
      else (0, u))"

section \<open>The detection\<close>

text \<open>
  What \<open>file_encoding\<close> returns and stores; a string it does not set is \<open>None\<close>, and so is
  \<open>ubuf\<close> when it has not been allocated. \<open>nbuf_ok\<close> and \<open>ubuf_ok\<close> are the two results of
  \<open>calloc\<close>.
\<close>

record encoding =
  rv :: int
  code :: "string option"
  code_mime :: "string option"
  type_text :: string
  ubuf :: "nat list option"

definition found :: "string \<Rightarrow> string \<Rightarrow> nat list \<Rightarrow> encoding" where
  "found cd mime u =
     \<lparr>rv = 1, code = Some cd, code_mime = Some mime, type_text = ''text'', ubuf = Some u\<rparr>"

definition file_encoding :: "bool \<Rightarrow> bool \<Rightarrow> byte list \<Rightarrow> encoding" where
  "file_encoding nbuf_ok ubuf_ok buf =
     (if \<not> nbuf_ok \<or> \<not> ubuf_ok
      then \<lparr>rv = 1, code = None, code_mime = None, type_text = ''text'', ubuf = None\<rparr>
      else case looks_ascii buf of (r, u) \<Rightarrow> if r \<noteq> 0 then found ''ASCII'' ''us-ascii'' u
      else case looks_utf8_with_BOM buf u of (r, u) \<Rightarrow>
        if r > 0 then found ''UTF-8 Unicode (with BOM)'' ''utf-8'' u
      else case file_looks_utf8 buf of (r, u) \<Rightarrow>
        if r > 1 then found ''UTF-8 Unicode'' ''utf-8'' u
      else case looks_ucs16 buf u of (r, u) \<Rightarrow>
        if r = 1 then found ''Little-endian UTF-16 Unicode'' ''utf-16le'' u
        else if r \<noteq> 0 then found ''Big-endian UTF-16 Unicode'' ''utf-16be'' u
      else case looks_latin1 buf of (r, u) \<Rightarrow>
        if r \<noteq> 0 then found ''ISO-8859'' ''iso-8859-1'' u
      else case looks_extended buf of (r, u) \<Rightarrow>
        if r \<noteq> 0 then found ''Non-ISO extended-ASCII'' ''unknown-8bit'' u
      else let nbuf = from_ebcdic buf in
        case looks_ascii nbuf of (r, u) \<Rightarrow> if r \<noteq> 0 then found ''EBCDIC'' ''ebcdic'' u
      else case looks_latin1 nbuf of (r, u) \<Rightarrow>
        if r \<noteq> 0 then found ''International EBCDIC'' ''ebcdic'' u
      else \<lparr>rv = 0, code = None, code_mime = None, type_text = ''binary'', ubuf = Some u\<rparr>)"

end
