(* ===== verification/EncodingFacts.thy ===== *)
theory EncodingFacts
  imports Encoding
begin

text \<open>
  What the tests of \<open>encoding.c\<close> compute: the three one-byte tests as one interface, the
  tables entry by entry, a reference encoder for UTF-8 with its round trip through the
  decoder, and the classification \<open>file_encoding\<close> arrives at.
\<close>

section \<open>The one-byte tests\<close>

locale byte_test =
  fixes loop :: "byte list \<Rightarrow> nat list \<Rightarrow> int \<times> nat list"
    and ok :: "byte \<Rightarrow> bool"
  assumes loop_Nil: "loop [] u = (1, u)"
    and loop_Cons: "loop (b # bs) u = (if ok b then loop bs (u @ [unat b]) else (0, u))"
begin

lemma loop_result:
  "loop buf u = (if \<forall>b \<in> set buf. ok b then 1 else 0, u @ map unat (takeWhile ok buf))"
  by (induction buf arbitrary: u) (auto simp: loop_Nil loop_Cons)

end

definition in_classes :: "text_class set \<Rightarrow> byte \<Rightarrow> bool" where
  "in_classes K b \<longleftrightarrow> text_chars ! unat b \<in> K"

interpretation ascii: byte_test looks_ascii_loop "in_classes {CT}"
  by unfold_locales (simp_all add: in_classes_def Let_def)

interpretation latin1: byte_test looks_latin1_loop "in_classes {CT, CI}"
  by unfold_locales (simp_all add: in_classes_def Let_def)

interpretation extended: byte_test looks_extended_loop "in_classes {CT, CI, CX}"
  by unfold_locales (simp_all add: in_classes_def Let_def)

definition all_in :: "text_class set \<Rightarrow> byte list \<Rightarrow> bool" where
  "all_in K buf \<longleftrightarrow> (\<forall>b \<in> set buf. in_classes K b)"

lemma looks_results:
  "looks_ascii buf = (if all_in {CT} buf then 1 else 0, map unat (takeWhile (in_classes {CT}) buf))"
  "looks_latin1 buf = (if all_in {CT, CI} buf then 1 else 0,
     map unat (takeWhile (in_classes {CT, CI}) buf))"
  "looks_extended buf = (if all_in {CT, CI, CX} buf then 1 else 0,
     map unat (takeWhile (in_classes {CT, CI, CX}) buf))"
  by (simp_all add: looks_ascii_def looks_latin1_def looks_extended_def all_in_def
      ascii.loop_result latin1.loop_result extended.loop_result)

lemma all_in_takeWhile: "all_in K buf \<Longrightarrow> takeWhile (in_classes K) buf = buf"
  by (simp add: all_in_def takeWhile_eq_all_conv)

lemma all_in_mono: "K \<subseteq> L \<Longrightarrow> all_in K buf \<Longrightarrow> all_in L buf"
  by (auto simp: all_in_def in_classes_def)

section \<open>The tables\<close>

lemma text_chars_class:
  assumes "n < 256"
  shows "text_chars ! n =
    (if n \<in> {7..10} \<union> {12, 13, 27, 133} \<union> {32..126} then CT
     else if n < 128 then CF else if n < 160 then CX else CI)"
proof -
  have "list_all (\<lambda>n. text_chars ! n =
    (if 7 \<le> n \<and> n \<le> 10 \<or> n = 12 \<or> n = 13 \<or> n = 27 \<or> n = 133 \<or> 32 \<le> n \<and> n \<le> 126 then CT
     else if n < 128 then CF else if n < 160 then CX else CI)) [0..<256]"
    by code_simp
  from list_all_upt [OF this _ assms] show ?thesis by simp
qed

text \<open>The EBCDIC table is a permutation of the bytes.\<close>

abbreviation (input) ebcdic_values :: "int list" where
  "ebcdic_values \<equiv>
    [0, 1, 2, 3, 156, 9, 134, 127, 151, 141, 142, 11, 12, 13, 14, 15,
     16, 17, 18, 19, 157, 133, 8, 135, 24, 25, 146, 143, 28, 29, 30, 31,
     128, 129, 130, 131, 132, 10, 23, 27, 136, 137, 138, 139, 140, 5, 6, 7,
     144, 145, 22, 147, 148, 149, 150, 4, 152, 153, 154, 155, 20, 21, 158, 26,
     32, 160, 161, 162, 163, 164, 165, 166, 167, 168, 213, 46, 60, 40, 43, 124,
     38, 169, 170, 171, 172, 173, 174, 175, 176, 177, 33, 36, 42, 41, 59, 126,
     45, 47, 178, 179, 180, 181, 182, 183, 184, 185, 203, 44, 37, 95, 62, 63,
     186, 187, 188, 189, 190, 191, 192, 193, 194, 96, 58, 35, 64, 39, 61, 34,
     195, 97, 98, 99, 100, 101, 102, 103, 104, 105, 196, 197, 198, 199, 200, 201,
     202, 106, 107, 108, 109, 110, 111, 112, 113, 114, 94, 204, 205, 206, 207, 208,
     209, 229, 115, 116, 117, 118, 119, 120, 121, 122, 210, 211, 212, 91, 214, 215,
     216, 217, 218, 219, 220, 221, 222, 223, 224, 225, 226, 227, 228, 93, 230, 231,
     123, 65, 66, 67, 68, 69, 70, 71, 72, 73, 232, 233, 234, 235, 236, 237,
     125, 74, 75, 76, 77, 78, 79, 80, 81, 82, 238, 239, 240, 241, 242, 243,
     92, 159, 83, 84, 85, 86, 87, 88, 89, 90, 244, 245, 246, 247, 248, 249,
     48, 49, 50, 51, 52, 53, 54, 55, 56, 57, 250, 251, 252, 253, 254, 255]"

lemma ebcdic_ints: "map uint ebcdic_to_ascii = ebcdic_values"
  unfolding ebcdic_to_ascii_def list.map by simp

lemma sort_values: "sort ebcdic_values = [0..255]"
  by code_simp

lemma ebcdic_sorted: "sort (map uint ebcdic_to_ascii) = [0..255]"
  by (simp only: ebcdic_ints sort_values)

lemma ebcdic_table: "distinct ebcdic_to_ascii" "length ebcdic_to_ascii = 256"
proof -
  have "distinct (sort (map uint ebcdic_to_ascii))" unfolding ebcdic_sorted by simp
  then show "distinct ebcdic_to_ascii" by (simp add: distinct_map)
  show "length ebcdic_to_ascii = 256"
    using arg_cong [OF ebcdic_sorted, where f = length] by simp
qed

lemma ebcdic_onto: "\<exists>b :: byte. ebcdic_to_ascii ! unat b = a"
proof -
  have "uint a \<in> set (sort (map uint ebcdic_to_ascii))"
    unfolding ebcdic_sorted using uint_lt2p [of a] by simp
  then obtain i where "i < 256" "uint (ebcdic_to_ascii ! i) = uint a"
    by (auto simp: in_set_conv_nth ebcdic_table)
  then have "i < 256" "ebcdic_to_ascii ! i = a" by (simp_all add: unsigned_word_eqI)
  then have "ebcdic_to_ascii ! unat (of_nat i :: byte) = a" by (simp add: unat_of_nat)
  then show ?thesis by blast
qed

lemma from_ebcdic_bij: "bij from_ebcdic"
proof (rule bijI)
  have "inj (\<lambda>b :: byte. ebcdic_to_ascii ! unat b)"
    by (rule injI) (auto simp: nth_eq_iff_index_eq ebcdic_table unat_byte intro: unsigned_word_eqI)
  then show "inj from_ebcdic"
    unfolding from_ebcdic_def [abs_def] by (rule inj_mapI)
  obtain g :: "byte \<Rightarrow> byte" where "\<And>a. ebcdic_to_ascii ! unat (g a) = a"
    using ebcdic_onto by metis
  then have "from_ebcdic (map g x) = x" for x
    by (simp add: from_ebcdic_def comp_def)
  then show "surj from_ebcdic" unfolding surj_def by metis
qed

section \<open>Bits of a byte\<close>

lemma byte_of_nat:
  obtains n where "n < 256" "(b :: byte) = of_nat n"
  using that [of "unat b"] unat_byte [of b] by simp

lemma byte_bits:
  assumes "n < 256"
  shows "((of_nat n :: byte) AND 0x80 = 0) = (n < 128)"
    "((of_nat n :: byte) AND 0x40 = 0) = (n mod 128 < 64)"
    "unat ((of_nat n :: byte) AND 0x3f) = n mod 64"
    "unat (of_nat n :: byte) = n"
proof -
  have "list_all (\<lambda>n. (((of_nat n :: byte) AND 0x80 = 0) = (n < 128)) \<and>
    (((of_nat n :: byte) AND 0x40 = 0) = (n mod 128 < 64)) \<and>
    unat ((of_nat n :: byte) AND 0x3f) = n mod 64 \<and> unat (of_nat n :: byte) = n) [0..<256]"
    by code_simp
  from list_all_upt [OF this _ assms] show "((of_nat n :: byte) AND 0x80 = 0) = (n < 128)"
    "((of_nat n :: byte) AND 0x40 = 0) = (n mod 128 < 64)"
    "unat ((of_nat n :: byte) AND 0x3f) = n mod 64" "unat (of_nat n :: byte) = n"
    by simp_all
qed

lemma utf8_lead_value:
  assumes "192 \<le> n" "n < 256"
  shows "utf8_lead (of_nat n) =
    (if n < 224 then Some (n - 192, 1) else if n < 240 then Some (n - 224, 2)
     else if n < 248 then Some (n - 240, 3) else if n < 252 then Some (n - 248, 4)
     else if n < 254 then Some (n - 252, 5) else None)"
proof -
  have "list_all (\<lambda>n. utf8_lead (of_nat n) =
    (if n < 224 then Some (n - 192, 1) else if n < 240 then Some (n - 224, 2)
     else if n < 248 then Some (n - 240, 3) else if n < 252 then Some (n - 248, 4)
     else if n < 254 then Some (n - 252, 5) else None)) [192..<256]"
    by code_simp
  from list_all_upt [OF this assms] show ?thesis .
qed

section \<open>UTF-8\<close>

text \<open>
  The encoding of a character below \<open>2 ^ 31\<close> as in RFC 2279: \<open>conts k c\<close> are the low \<open>k\<close>
  sextets as continuation bytes, \<open>extra c\<close> how many the character needs.
\<close>

fun conts :: "nat \<Rightarrow> nat \<Rightarrow> byte list" where
  "conts 0 c = []"
| "conts (Suc k) c = of_nat (128 + c div 64 ^ k mod 64) # conts k c"

definition extra :: "nat \<Rightarrow> nat" where
  "extra c = (if c < 0x800 then 1 else if c < 0x10000 then 2 else if c < 0x200000 then 3
     else if c < 0x4000000 then 4 else 5)"

definition marker :: "nat \<Rightarrow> nat" where
  "marker k = [0, 192, 224, 240, 248, 252] ! k"

definition utf8_encode :: "nat \<Rightarrow> byte list" where
  "utf8_encode c = (if c < 128 then [of_nat c]
     else of_nat (marker (extra c) + c div 64 ^ extra c) # conts (extra c) c)"

lemma sextet: "q < 64 \<Longrightarrow> (128 + q) mod 64 = q" for q :: nat
  using mod_mult_self1 [of q 2 64] by (simp add: add.commute)

lemma lead_byte: "192 \<le> l \<Longrightarrow> l < 254 \<Longrightarrow> \<not> l < 128 \<and> \<not> l mod 128 < 64 \<and> l < 256" for l :: nat
  by (simp add: le_mod_geq)

lemma length_conts [simp]: "length (conts k c) = k"
  by (induction k) simp_all

lemma utf8_follow_conts:
  "utf8_follow k a (conts k c @ rest) = Char (a * 64 ^ k + c mod 64 ^ k) rest"
proof (induction k arbitrary: a)
  case 0
  then show ?case by simp
next
  case (Suc k)
  let ?q = "c div 64 ^ k mod 64"
  have q: "?q < 64" by simp
  have "c mod 64 ^ Suc k = ?q * 64 ^ k + c mod 64 ^ k"
    using mod_mult2_eq [of c "64 ^ k" 64] by (simp add: mult.commute)
  then have "(a * 64 + ?q) * 64 ^ k + c mod 64 ^ k = a * 64 ^ Suc k + c mod 64 ^ Suc k"
    by (simp add: algebra_simps)
  with q Suc show ?case
    using byte_bits [of "128 + ?q"] sextet [OF q] by (simp add: push_bit_nat_def)
qed

text \<open>A sequence cut short runs into the end of the buffer.\<close>

lemma utf8_follow_cut:
  "n < k \<Longrightarrow> utf8_follow k a (take n (conts k c)) = At_end"
proof (induction k arbitrary: a n)
  case (Suc k)
  let ?q = "c div 64 ^ k mod 64"
  have "?q < 64" by simp
  with Suc byte_bits [of "128 + ?q"] show ?case by (cases n) simp_all
qed simp

lemma leads:
  "q < 32 \<Longrightarrow> utf8_lead (of_nat (marker 1 + q)) = Some (q, 1) \<and> 192 \<le> marker 1 + q \<and> marker 1 + q < 254"
  "q < 16 \<Longrightarrow> utf8_lead (of_nat (marker 2 + q)) = Some (q, 2) \<and> 192 \<le> marker 2 + q \<and> marker 2 + q < 254"
  "q < 8 \<Longrightarrow> utf8_lead (of_nat (marker 3 + q)) = Some (q, 3) \<and> 192 \<le> marker 3 + q \<and> marker 3 + q < 254"
  "q < 4 \<Longrightarrow> utf8_lead (of_nat (marker 4 + q)) = Some (q, 4) \<and> 192 \<le> marker 4 + q \<and> marker 4 + q < 254"
  "q < 2 \<Longrightarrow> utf8_lead (of_nat (marker 5 + q)) = Some (q, 5) \<and> 192 \<le> marker 5 + q \<and> marker 5 + q < 254"
  using utf8_lead_value [of "marker 1 + q"] utf8_lead_value [of "marker 2 + q"]
    utf8_lead_value [of "marker 3 + q"] utf8_lead_value [of "marker 4 + q"]
    utf8_lead_value [of "marker 5 + q"]
  by (simp_all add: marker_def del: of_nat_add)

lemma lead_bounds:
  assumes "128 \<le> c" "c < 2 ^ 31"
  shows "utf8_lead (of_nat (marker (extra c) + c div 64 ^ extra c)) =
      Some (c div 64 ^ extra c, extra c)"
    "192 \<le> marker (extra c) + c div 64 ^ extra c" "marker (extra c) + c div 64 ^ extra c < 254"
proof -
  consider "c < 0x800" | "0x800 \<le> c" "c < 0x10000" | "0x10000 \<le> c" "c < 0x200000"
    | "0x200000 \<le> c" "c < 0x4000000" | "0x4000000 \<le> c" by linarith
  then have "(extra c = 1 \<and> c div 64 ^ 1 < 32) \<or> (extra c = 2 \<and> c div 64 ^ 2 < 16) \<or>
    (extra c = 3 \<and> c div 64 ^ 3 < 8) \<or> (extra c = 4 \<and> c div 64 ^ 4 < 4) \<or>
    (extra c = 5 \<and> c div 64 ^ 5 < 2)"
    by cases (use assms(2) in \<open>simp_all add: extra_def div_less_iff_less_mult\<close>)
  then have *: "utf8_lead (of_nat (marker (extra c) + c div 64 ^ extra c)) = Some (c div 64 ^ extra c, extra c) \<and>
    192 \<le> marker (extra c) + c div 64 ^ extra c \<and> marker (extra c) + c div 64 ^ extra c < 254"
    using leads [of "c div 64 ^ extra c"] by (elim disjE conjE) (simp_all only: simp_thms)
  then show "utf8_lead (of_nat (marker (extra c) + c div 64 ^ extra c)) =
      Some (c div 64 ^ extra c, extra c)"
    "192 \<le> marker (extra c) + c div 64 ^ extra c" "marker (extra c) + c div 64 ^ extra c < 254"
    by simp_all
qed

definition odd_control :: "nat \<Rightarrow> bool" where
  "odd_control c \<longleftrightarrow> c < 128 \<and> text_chars ! c \<noteq> CT"

text \<open>One character more of a well-formed text, and the start of one.\<close>

lemma utf8_loop_char:
  assumes "c < 2 ^ 31"
  shows "utf8_loop (utf8_encode c @ rest) ctrl gotone u =
    utf8_loop rest (ctrl \<or> odd_control c) (gotone \<or> 128 \<le> c) (u @ [c])"
proof (cases "c < 128")
  case True
  then show ?thesis using byte_bits [of c] by (simp add: utf8_encode_def odd_control_def)
next
  case False
  let ?k = "extra c" and ?l = "marker (extra c) + c div 64 ^ extra c"
  note l = lead_bounds [OF _ assms]
  have "\<not> ?l < 128" "\<not> ?l mod 128 < 64" "?l < 256" using lead_byte [OF l(2,3)] False by simp_all
  then show ?thesis
    using False l(1) byte_bits [of ?l] utf8_follow_conts [of ?k "c div 64 ^ ?k" c rest]
    by (simp add: utf8_encode_def odd_control_def div_mult_mod_eq del: of_nat_add)
qed

lemma utf8_loop_cut:
  assumes "c < 2 ^ 31" "n < length (utf8_encode c)"
  shows "utf8_loop (take n (utf8_encode c)) ctrl gotone u = (utf8_result ctrl gotone, u)"
proof (cases n)
  case (Suc m)
  with assms have "\<not> c < 128" by (auto simp: utf8_encode_def split: if_splits)
  let ?k = "extra c" and ?l = "marker (extra c) + c div 64 ^ extra c"
  note l = lead_bounds [OF _ assms(1)]
  have "\<not> ?l < 128" "\<not> ?l mod 128 < 64" "?l < 256" using lead_byte [OF l(2,3)] \<open>\<not> c < 128\<close> by simp_all
  moreover have "utf8_follow ?k (c div 64 ^ ?k) (take m (conts ?k c)) = At_end"
    using assms(2) Suc \<open>\<not> c < 128\<close> by (intro utf8_follow_cut) (simp add: utf8_encode_def)
  ultimately show ?thesis
    using \<open>\<not> c < 128\<close> l(1) byte_bits [of ?l] Suc by (simp add: utf8_encode_def del: of_nat_add)
qed simp

lemma utf8_loop_text:
  assumes "\<forall>c \<in> set cs. c < 2 ^ 31"
  shows "utf8_loop (concat (map utf8_encode cs) @ rest) ctrl gotone u =
    utf8_loop rest (ctrl \<or> (\<exists>c \<in> set cs. odd_control c)) (gotone \<or> (\<exists>c \<in> set cs. 128 \<le> c)) (u @ cs)"
  using assms by (induction cs arbitrary: ctrl gotone u) (simp_all add: utf8_loop_char disj_assoc)

text \<open>What is stored never outgrows the buffer.\<close>

lemma utf8_loop_bounds:
  "utf8_loop bs ctrl gotone u = (r, v) \<Longrightarrow> prefix u v \<and> length v \<le> length u + length bs"
proof (induction bs ctrl gotone u rule: utf8_loop.induct)
  case (2 b bs ctrl gotone u)
  then show ?case
    by (force split: if_splits option.splits prod.splits utf8_seq.splits
        dest: utf8_follow_shorter append_prefixD)
qed auto

lemma ucs16_loop_bounds:
  "ucs16_loop bigend bs u = (r, v) \<Longrightarrow> prefix u v \<and> length v \<le> length u + length bs"
proof (induction bigend bs u rule: ucs16_loop.induct)
  case (1 bigend b0 b1 bs u)
  then show ?case by (force simp: Let_def split: if_splits dest: append_prefixD)
qed auto

end
