(* ===== verification/EncodingProps.thy ===== *)
theory EncodingProps
  imports EncodingFacts
begin

text \<open>
  The properties of the encoding detection: the decoders invert the encoders, text is
  reported as what it is, cutting UTF-8 text short does no harm, \<open>ubuf\<close> is never overrun.
\<close>

section \<open>Lemmas for the properties\<close>

lemma file_looks_utf8_text:
  assumes "\<forall>c \<in> set cs. c < 2 ^ 31"
  shows "file_looks_utf8 (concat (map utf8_encode cs)) =
    (utf8_result (\<exists>c \<in> set cs. odd_control c) (\<exists>c \<in> set cs. 128 \<le> c), cs)"
  using utf8_loop_text [OF assms, of "[]" False False "[]"] by (simp add: file_looks_utf8_def)

lemma utf8_loop_prefix:
  assumes "\<forall>c \<in> set cs. c < 2 ^ 31 \<and> \<not> odd_control c"
  shows "\<exists>k. utf8_loop (take n (concat (map utf8_encode cs))) False g u =
    (utf8_result False (g \<or> (\<exists>c \<in> set (take k cs). 128 \<le> c)), u @ take k cs)"
  using assms
proof (induction cs arbitrary: n g u)
  case (Cons c cs)
  have c: "c < 2 ^ 31" "\<not> odd_control c" using Cons.prems by simp_all
  show ?case
  proof (cases "n < length (utf8_encode c)")
    case True
    with c have "utf8_loop (take n (concat (map utf8_encode (c # cs)))) False g u = (utf8_result False g, u)"
      by (simp add: utf8_loop_cut)
    then show ?thesis by (intro exI [of _ 0]) simp
  next
    case False
    let ?m = "n - length (utf8_encode c)"
    from Cons.IH [of ?m "g \<or> 128 \<le> c" "u @ [c]"] Cons.prems obtain k where
      "utf8_loop (take ?m (concat (map utf8_encode cs))) False (g \<or> 128 \<le> c) (u @ [c]) =
        (utf8_result False ((g \<or> 128 \<le> c) \<or> (\<exists>c \<in> set (take k cs). 128 \<le> c)), (u @ [c]) @ take k cs)"
      by auto
    with False c show ?thesis
      by (intro exI [of _ "Suc k"]) (simp add: utf8_loop_char disj_assoc)
  qed
qed simp

text \<open>A byte of class \<open>F\<close> anywhere keeps a buffer from looking like UTF-8 text.\<close>

lemma follow_high:
  "utf8_follow n c bs = Char d rest \<Longrightarrow> b \<in> set bs \<Longrightarrow> b AND 0x80 = 0 \<Longrightarrow> b \<in> set rest"
  "utf8_follow n c bs = At_end \<Longrightarrow> b \<in> set bs \<Longrightarrow> b AND 0x80 \<noteq> 0"
  by (induction n c bs rule: utf8_follow.induct) (auto split: if_splits)

lemma class_F_low: "in_classes {CF} b \<Longrightarrow> b AND 0x80 = 0"
proof -
  obtain n where n: "n < 256" "b = of_nat n" by (rule byte_of_nat)
  assume "in_classes {CF} b"
  then have "text_chars ! n = CF" using n byte_bits(4) [OF n(1)] by (simp add: in_classes_def)
  then have "n < 128" by (rule contrapos_pp) (simp add: text_chars_class [OF n(1)])
  then show "b AND 0x80 = 0" using n byte_bits(1) [OF n(1)] by simp
qed

lemma utf8_loop_control:
  "utf8_loop bs ctrl gotone u = (r, v) \<Longrightarrow> 0 < r \<Longrightarrow> \<not> ctrl \<and> (\<forall>b \<in> set bs. \<not> in_classes {CF} b)"
proof (induction bs ctrl gotone u arbitrary: r v rule: utf8_loop.induct)
  case (1 ctrl gotone u)
  then show ?case by (auto simp: utf8_result_def split: if_splits)
next
  case (2 b bs ctrl gotone u)
  show ?case
  proof (cases "b AND 0x80 = 0")
    case True
    with 2 show ?thesis by (auto simp: in_classes_def)
  next
    case False
    with 2(3,4) obtain c k where l: "b AND 0x40 \<noteq> 0" "utf8_lead b = Some (c, k)"
      by (auto split: if_splits option.splits)
    have b: "\<not> in_classes {CF} b" using False class_F_low by blast
    show ?thesis
    proof (cases "utf8_follow k c bs")
      case (Char d rest)
      with 2(3) False l have "utf8_loop rest ctrl True (u @ [d]) = (r, v)" by simp
      from 2(2) [OF False l(1,2) refl Char this 2(4)] show ?thesis
        using b follow_high(1) [OF Char] class_F_low by auto
    next
      case At_end
      with 2(3,4) False l have "\<not> ctrl" by (auto simp: utf8_result_def split: if_splits)
      then show ?thesis using b follow_high(2) [OF At_end] class_F_low by auto
    next
      case Invalid
      with 2(3,4) False l show ?thesis by simp
    qed
  qed
qed

lemma not_ascii: "b \<in> set buf \<Longrightarrow> \<not> in_classes {CT} b \<Longrightarrow> fst (looks_ascii buf) = 0"
  by (auto simp: looks_results all_in_def)

lemma ucs16_text:
  assumes "\<forall>c \<in> set cs. c < 0x10000 \<and> c \<noteq> 0xfffe \<and> \<not> odd_control c"
  shows "ucs16_loop False (concat (map (\<lambda>c. [of_nat (c mod 256), of_nat (c div 256)]) cs)) u = (1, u @ cs)"
    "ucs16_loop True (concat (map (\<lambda>c. [of_nat (c div 256), of_nat (c mod 256)]) cs)) u = (2, u @ cs)"
  using assms
proof (induction cs arbitrary: u)
  case (Cons c cs)
  { case 1
    then have "c div 256 < 256" "\<not> (c < 128 \<and> text_chars ! c \<noteq> CT)" "c \<noteq> 0xfffe"
      by (auto simp: odd_control_def)
    with 1 Cons.IH(1) show ?case by (simp add: byte_bits Let_def) }
  { case 2
    then have "c div 256 < 256" "\<not> (c < 128 \<and> text_chars ! c \<noteq> CT)" "c \<noteq> 0xfffe"
      by (auto simp: odd_control_def)
    with 2 Cons.IH(2) show ?case by (simp add: byte_bits Let_def) }
qed simp_all

lemma not_all_in: "b \<in> set buf \<Longrightarrow> in_classes {CF} b \<Longrightarrow> CF \<notin> K \<Longrightarrow> \<not> all_in K buf"
  unfolding all_in_def in_classes_def by (rule notI, drule (1) bspec) simp

text \<open>\<open>file_encoding\<close> as a chain of conditions on the buffer.\<close>

lemma file_encoding_chain:
  "file_encoding True True buf =
    (let w = looks_utf8_with_BOM buf (snd (looks_ascii buf));
         v = file_looks_utf8 buf; x = looks_ucs16 buf (snd v); nbuf = from_ebcdic buf
     in if all_in {CT} buf then found ''ASCII'' ''us-ascii'' (map unat buf)
        else if 0 < fst w then found ''UTF-8 Unicode (with BOM)'' ''utf-8'' (snd w)
        else if 1 < fst v then found ''UTF-8 Unicode'' ''utf-8'' (snd v)
        else if fst x = 1 then found ''Little-endian UTF-16 Unicode'' ''utf-16le'' (snd x)
        else if fst x \<noteq> 0 then found ''Big-endian UTF-16 Unicode'' ''utf-16be'' (snd x)
        else if all_in {CT, CI} buf then found ''ISO-8859'' ''iso-8859-1'' (map unat buf)
        else if all_in {CT, CI, CX} buf
        then found ''Non-ISO extended-ASCII'' ''unknown-8bit'' (map unat buf)
        else if all_in {CT} nbuf then found ''EBCDIC'' ''ebcdic'' (map unat nbuf)
        else if all_in {CT, CI} nbuf then found ''International EBCDIC'' ''ebcdic'' (map unat nbuf)
        else \<lparr>rv = 0, code = None, code_mime = None, type_text = ''binary'',
               ubuf = Some (snd (looks_latin1 nbuf))\<rparr>)"
proof -
  have l: "fst (looks_ascii b) \<noteq> 0 \<longleftrightarrow> all_in {CT} b" "fst (looks_latin1 b) \<noteq> 0 \<longleftrightarrow> all_in {CT, CI} b"
    "fst (looks_extended b) \<noteq> 0 \<longleftrightarrow> all_in {CT, CI, CX} b"
    "all_in {CT} b \<Longrightarrow> snd (looks_ascii b) = map unat b"
    "all_in {CT, CI} b \<Longrightarrow> snd (looks_latin1 b) = map unat b"
    "all_in {CT, CI, CX} b \<Longrightarrow> snd (looks_extended b) = map unat b" for b
    by (simp_all add: looks_results all_in_takeWhile)
  show ?thesis
    unfolding file_encoding_def case_prod_beta Let_def l(1-3) by (simp add: l(4-6) cong: if_cong)
qed

lemma first_three: "3 < length xs \<Longrightarrow> \<exists>ys. xs = xs ! 0 # xs ! 1 # xs ! 2 # ys"
  by (auto simp: numeral_3_eq_3 numeral_2_eq_2 Suc_less_eq2 length_Suc_conv less_Suc_eq_le Suc_le_length_iff)

lemma bom_encoded: "utf8_encode 0xfeff = [0xef, 0xbb, 0xbf]"
proof -
  have "extra 0xfeff = Suc (Suc 0)" by (simp add: extra_def)
  then show ?thesis by (simp add: utf8_encode_def marker_def)
qed

section \<open>Properties\<close>

text \<open>
  C27. The UTF-8 decoder inverts the encoding of every text of characters below \<open>2 ^ 31\<close>; it
  reports 7-bit text, UTF-8 text, or odd control characters, exactly when they are there.
\<close>

theorem utf8_roundtrip:
  assumes "\<forall>c \<in> set cs. c < 2 ^ 31"
  shows "file_looks_utf8 (concat (map utf8_encode cs)) =
    (if \<exists>c \<in> set cs. odd_control c then 0 else if \<exists>c \<in> set cs. 128 \<le> c then 2 else 1, cs)"
  using file_looks_utf8_text [OF assms] by (simp add: utf8_result_def)

theorem utf8_roundtrip_witness:
  "file_looks_utf8 (concat (map utf8_encode [72, 233, 8364, 128512])) = (2, [72, 233, 8364, 128512])"
  by (subst utf8_roundtrip) (simp_all add: odd_control_def text_chars_class)

text \<open>
  UTF-8 text cut short at any byte, even inside a character, still looks like text, and
  what is decoded is the beginning of it.
\<close>

theorem utf8_cut:
  assumes "\<forall>c \<in> set cs. c < 2 ^ 31 \<and> \<not> odd_control c"
  shows "\<exists>k. file_looks_utf8 (take n (concat (map utf8_encode cs))) =
    (if \<exists>c \<in> set (take k cs). 128 \<le> c then 2 else 1, take k cs)"
  using utf8_loop_prefix [OF assms, of n False "[]"]
  by (simp add: file_looks_utf8_def utf8_result_def)

theorem utf8_cut_witness:
  "\<exists>k. file_looks_utf8 (take 3 (concat (map utf8_encode [233, 8364]))) =
    (if \<exists>c \<in> set (take k [233 :: nat, 8364]). 128 \<le> c then 2 else 1, take k [233, 8364])"
  by (rule utf8_cut) (simp add: odd_control_def)

text \<open>
  C28. Text of printable characters, at least one of them outside ASCII, encoded in UTF-8 is
  reported as UTF-8 with its characters in \<open>ubuf\<close>, unless it begins with a byte-order mark.
\<close>

theorem file_encoding_utf8:
  assumes "\<forall>c \<in> set cs. c < 2 ^ 31 \<and> \<not> odd_control c" "\<exists>c \<in> set cs. 128 \<le> c" "hd cs \<noteq> 0xfeff"
  shows "file_encoding True True (concat (map utf8_encode cs)) =
    found ''UTF-8 Unicode'' ''utf-8'' cs"
proof -
  let ?buf = "concat (map utf8_encode cs)"
  have r: "file_looks_utf8 ?buf = (2, cs)"
    using file_looks_utf8_text [of cs] assms(1,2) by (auto simp: utf8_result_def)
  from assms(2) obtain c where c: "c \<in> set cs" "128 \<le> c" by blast
  let ?l = "marker (extra c) + c div 64 ^ extra c"
  have l: "192 \<le> ?l" "?l < 254" using lead_bounds [OF c(2)] c(1) assms(1) by simp_all
  have "of_nat ?l \<in> set ?buf" using c by (force simp: utf8_encode_def)
  moreover have "\<not> in_classes {CT} (of_nat ?l)"
    using l by (simp add: in_classes_def byte_bits text_chars_class del: of_nat_add)
  ultimately have a: "fst (looks_ascii ?buf) = 0" by (rule not_ascii)
  have "looks_utf8_with_BOM ?buf u = (- 1, u)" for u
  proof (rule ccontr)
    assume "looks_utf8_with_BOM ?buf u \<noteq> (- 1, u)"
    then have "3 < length ?buf" "?buf ! 0 = 0xef" "?buf ! 1 = 0xbb" "?buf ! 2 = 0xbf"
      by (auto simp: looks_utf8_with_BOM_def split: if_splits)
    then obtain rest where "?buf = 0xef # 0xbb # 0xbf # rest"
      using first_three [of ?buf] by auto
    moreover have "0xef # 0xbb # 0xbf # rest = utf8_encode 0xfeff @ rest"
      by (simp add: bom_encoded)
    ultimately have "(2, cs) = utf8_loop rest False True [0xfeff]"
      using utf8_loop_char [of "0xfeff" rest False False "[]"] r
      by (simp add: file_looks_utf8_def odd_control_def)
    from utf8_loop_bounds [OF this [symmetric]] assms(3) show False
      by (auto simp: prefix_def)
  qed
  with a r show ?thesis by (simp add: file_encoding_def case_prod_beta)
qed

theorem file_encoding_utf8_witness:
  "file_encoding True True (concat (map utf8_encode [72, 233])) = found ''UTF-8 Unicode'' ''utf-8'' [72, 233]"
  by (rule file_encoding_utf8) (simp_all add: odd_control_def text_chars_class)

text \<open>
  The same for UTF-16 with a byte-order mark, in either byte order, as far as the decoder
  goes: units below \<open>0x10000\<close>.
\<close>

theorem file_encoding_utf16:
  assumes "\<forall>c \<in> set cs. c < 0x10000 \<and> c \<noteq> 0xfffe \<and> \<not> odd_control c"
  shows "file_encoding True True
      (0xff # 0xfe # concat (map (\<lambda>c. [of_nat (c mod 256), of_nat (c div 256)]) cs)) =
    found ''Little-endian UTF-16 Unicode'' ''utf-16le'' cs \<and>
    file_encoding True True
      (0xfe # 0xff # concat (map (\<lambda>c. [of_nat (c div 256), of_nat (c mod 256)]) cs)) =
    found ''Big-endian UTF-16 Unicode'' ''utf-16be'' cs"
proof -
  have "fst (looks_ascii (0xff # xs)) = 0" "fst (looks_ascii (0xfe # xs)) = 0" for xs
    by (rule not_ascii [of "0xff"] not_ascii [of "0xfe"], simp,
        simp add: in_classes_def text_chars_class)+
  moreover have "file_looks_utf8 (0xff # xs) = (- 1, [])" "file_looks_utf8 (0xfe # xs) = (- 1, [])" for xs
    by (simp_all add: file_looks_utf8_def utf8_lead_def)
  moreover have "looks_utf8_with_BOM (0xff # xs) u = (- 1, u)" "looks_utf8_with_BOM (0xfe # xs) u = (- 1, u)" for xs u
    by (simp_all add: looks_utf8_with_BOM_def)
  ultimately show ?thesis
    using ucs16_text [OF assms, of "[]"]
    by (simp add: file_encoding_def looks_ucs16_def case_prod_beta)
qed

theorem file_encoding_utf16_witness:
  "file_encoding True True
      (0xff # 0xfe # concat (map (\<lambda>c. [of_nat (c mod 256), of_nat (c div 256)]) [65, 8364])) =
    found ''Little-endian UTF-16 Unicode'' ''utf-16le'' [65, 8364]"
  by (rule file_encoding_utf16 [THEN conjunct1]) (simp add: odd_control_def text_chars_class)

text \<open>
  What is not text in a multi-byte encoding is classified by its bytes alone: the code
  reported says exactly which classes of \<open>text_chars\<close> they are in, before or after the
  translation from EBCDIC, and the characters stored are the bytes.
\<close>

theorem file_encoding_one_byte:
  assumes "fst (looks_utf8_with_BOM buf []) \<le> 0" "fst (file_looks_utf8 buf) \<le> 1"
    "fst (looks_ucs16 buf []) = 0"
  shows "code (file_encoding True True buf) =
     (if all_in {CT} buf then Some ''ASCII''
      else if all_in {CT, CI} buf then Some ''ISO-8859''
      else if all_in {CT, CI, CX} buf then Some ''Non-ISO extended-ASCII''
      else if all_in {CT} (from_ebcdic buf) then Some ''EBCDIC''
      else if all_in {CT, CI} (from_ebcdic buf) then Some ''International EBCDIC'' else None) \<and>
    (if all_in {CT, CI, CX} buf then ubuf (file_encoding True True buf) = Some (map unat buf)
     else if all_in {CT, CI} (from_ebcdic buf)
     then ubuf (file_encoding True True buf) = Some (map unat (from_ebcdic buf))
     else rv (file_encoding True True buf) = 0)"
proof -
  have b: "(0 < fst (looks_utf8_with_BOM buf u)) = False" "fst (looks_ucs16 buf u) = 0"
    "(1 < fst (file_looks_utf8 buf)) = False" for u
    using assms by (auto simp: looks_utf8_with_BOM_def looks_ucs16_def split: if_splits)
  have m: "all_in {CT} x \<Longrightarrow> all_in {CT, CI} x" "all_in {CT, CI} x \<Longrightarrow> all_in {CT, CI, CX} x" for x
    by (erule all_in_mono [rotated], blast)+
  have c: "file_encoding True True buf =
    (if all_in {CT} buf then found ''ASCII'' ''us-ascii'' (map unat buf)
     else if all_in {CT, CI} buf then found ''ISO-8859'' ''iso-8859-1'' (map unat buf)
     else if all_in {CT, CI, CX} buf then found ''Non-ISO extended-ASCII'' ''unknown-8bit'' (map unat buf)
     else if all_in {CT} (from_ebcdic buf) then found ''EBCDIC'' ''ebcdic'' (map unat (from_ebcdic buf))
     else if all_in {CT, CI} (from_ebcdic buf)
     then found ''International EBCDIC'' ''ebcdic'' (map unat (from_ebcdic buf))
     else \<lparr>rv = 0, code = None, code_mime = None, type_text = ''binary'',
            ubuf = Some (snd (looks_latin1 (from_ebcdic buf)))\<rparr>)"
    unfolding file_encoding_chain Let_def b by simp
  show ?thesis
    unfolding c found_def using m [of buf] m [of "from_ebcdic buf"] by (simp cong: if_cong)
qed

theorem file_encoding_one_byte_witness:
  "code (file_encoding True True [72, 0xe9]) = Some ''ISO-8859''"
proof -
  have "looks_utf8_with_BOM [72, 0xe9] [] = (- 1, [])" "file_looks_utf8 [72, 0xe9] = (1, [72])"
    "looks_ucs16 [72, 0xe9] [] = (0, [])" "\<not> all_in {CT} [72, 0xe9]" "all_in {CT, CI} [72, 0xe9]"
    by code_simp+
  then show ?thesis using file_encoding_one_byte [of "[72, 0xe9]"] by simp
qed

text \<open>
  Text in EBCDIC that uses a byte which never appears in ASCII text (its line ends do) is
  reported as EBCDIC, with the translated characters, and the translation loses nothing.
\<close>

theorem file_encoding_ebcdic:
  assumes "all_in {CT} (from_ebcdic buf)" "b \<in> set buf" "in_classes {CF} b"
  shows "file_encoding True True buf = found ''EBCDIC'' ''ebcdic'' (map unat (from_ebcdic buf)) \<and>
    (\<forall>buf'. from_ebcdic buf' = from_ebcdic buf \<longrightarrow> buf' = buf)"
proof
  have F: "\<not> all_in {CT} buf" "\<not> all_in {CT, CI} buf" "\<not> all_in {CT, CI, CX} buf"
    using not_all_in [OF assms(2,3)] by simp_all
  have u: "fst (file_looks_utf8 bs) \<le> 0" if "b \<in> set bs" for bs
    using utf8_loop_control [of bs False False "[]"] that assms(3)
    by (metis file_looks_utf8_def linorder_not_le prod.collapse)
  have w: "(0 < fst (looks_utf8_with_BOM buf v)) = False" for v
  proof (cases "buf ! 0 = 0xef \<and> 3 < length buf \<and> buf ! 1 = 0xbb \<and> buf ! 2 = 0xbf")
    case True
    then obtain rest where r: "buf = 0xef # 0xbb # 0xbf # rest" using first_three [of buf] by auto
    have "b \<noteq> 0xef" "b \<noteq> 0xbb" "b \<noteq> 0xbf" using class_F_low [OF assms(3)] by auto
    with assms(2) r have "b \<in> set (drop 3 buf)" by simp
    with u [of "drop 3 buf"] show ?thesis by (simp add: looks_utf8_with_BOM_def linorder_not_less)
  qed (auto simp: looks_utf8_with_BOM_def)
  have "\<not> in_classes {CT} (ebcdic_to_ascii ! 255)"
    by (simp add: in_classes_def ebcdic_to_ascii_def text_chars_class)
  then have "0xff \<notin> set buf"
    using assms(1) by (force simp: all_in_def from_ebcdic_def)
  then have "looks_ucs16 buf v = (0, v)" for v
    by (cases buf; cases "tl buf") (auto simp: looks_ucs16_def)
  moreover have "(1 < fst (file_looks_utf8 buf)) = False" using u [OF assms(2)] by simp
  ultimately show "file_encoding True True buf = found ''EBCDIC'' ''ebcdic'' (map unat (from_ebcdic buf))"
    unfolding file_encoding_chain Let_def using F assms(1) by (simp add: w)
  show "\<forall>buf'. from_ebcdic buf' = from_ebcdic buf \<longrightarrow> buf' = buf"
    using from_ebcdic_bij by (auto simp: bij_def dest: injD)
qed

theorem file_encoding_ebcdic_witness:
  "file_encoding True True [0x81, 0x15] = found ''EBCDIC'' ''ebcdic'' [97, 133]"
proof -
  have "from_ebcdic [0x81, 0x15] = [97, 133]" by (simp add: from_ebcdic_def ebcdic_to_ascii_def)
  moreover have "in_classes {CF} 0x15" "all_in {CT} [97, 133]"
    by (simp_all add: all_in_def in_classes_def text_chars_class)
  ultimately show ?thesis using file_encoding_ebcdic [THEN conjunct1, of "[0x81, 0x15]" "0x15"] by simp
qed

text \<open>No test stores more characters than the buffer has bytes, so \<open>ubuf\<close> is never overrun.\<close>

theorem file_encoding_bounds:
  "case ubuf (file_encoding nbuf_ok ubuf_ok buf) of None \<Rightarrow> \<not> (nbuf_ok \<and> ubuf_ok)
   | Some u \<Rightarrow> length u \<le> length buf"
proof -
  have t: "length (takeWhile P buf) \<le> length buf" "length (takeWhile P (from_ebcdic buf)) \<le> length buf" for P
    using length_takeWhile_le [of P buf] length_takeWhile_le [of P "from_ebcdic buf"]
    by (simp_all add: from_ebcdic_def)
  have u: "length (snd (file_looks_utf8 bs)) \<le> length bs" for bs
    using utf8_loop_bounds [of bs False False "[]"]
    by (metis add_0 file_looks_utf8_def list.size(3) prod.collapse)
  have x: "length (snd (ucs16_loop bigend bs [])) \<le> length bs" for bigend bs
    using ucs16_loop_bounds [of bigend bs "[]"] by (metis add_0 list.size(3) prod.collapse)
  have y: "length (snd (ucs16_loop bigend (drop 2 buf) [])) \<le> length buf" for bigend
    using x [of bigend "drop 2 buf"] by simp
  have s: "length (snd (looks_ucs16 buf v)) \<le> length buf" if "length v \<le> length buf" for v
    using y that by (simp add: looks_ucs16_def)
  have w: "length (snd (looks_utf8_with_BOM buf v)) \<le> length buf" if "length v \<le> length buf" for v
    using u [of "drop 3 buf"] that by (auto simp: looks_utf8_with_BOM_def)
  have r: "length (snd (looks_latin1 (from_ebcdic buf))) \<le> length buf"
    "length (snd (looks_ascii buf)) \<le> length buf" "length (from_ebcdic buf) = length buf"
    by (simp_all add: looks_results t) (simp add: from_ebcdic_def)
  have "\<exists>u. ubuf (file_encoding True True buf) = Some u \<and> length u \<le> length buf"
    unfolding file_encoding_chain Let_def found_def using u s w r by simp
  moreover have "ubuf (file_encoding nbuf_ok ubuf_ok buf) = None" if "\<not> (nbuf_ok \<and> ubuf_ok)"
    using that by (auto simp: file_encoding_def)
  ultimately show ?thesis by (cases "nbuf_ok \<and> ubuf_ok") auto
qed

end
