(* ===== verification/ModeChange.thy ===== *)
theory ModeChange
  imports Prelude
begin

unbundle bit_operations_syntax

text \<open>
  \<open>coreutils/lib/modechange.c\<close>: mode strings compiled into lists of changes, and changes
  applied to a mode. A \<open>mode_t\<close> is a 32-bit word with the file mode bits of \<open>sys/stat.h\<close>; an
  array of changes is the list of the changes before its \<open>MODE_DONE\<close> sentinel. \<open>xmalloc\<close> and
  \<open>xnmalloc\<close> return memory or end the process, so their failure is not seen here.
\<close>

section \<open>Mode bits\<close>

type_synonym mode_t = "32 word"

text \<open>The traditional octal values, which are those of \<open>sys/stat.h\<close> too.\<close>

abbreviation (input) SUID :: mode_t where "SUID \<equiv> 0x800"
abbreviation (input) SGID :: mode_t where "SGID \<equiv> 0x400"
abbreviation (input) SVTX :: mode_t where "SVTX \<equiv> 0x200"
abbreviation (input) RUSR :: mode_t where "RUSR \<equiv> 0x100"
abbreviation (input) WUSR :: mode_t where "WUSR \<equiv> 0x80"
abbreviation (input) XUSR :: mode_t where "XUSR \<equiv> 0x40"
abbreviation (input) RGRP :: mode_t where "RGRP \<equiv> 0x20"
abbreviation (input) WGRP :: mode_t where "WGRP \<equiv> 0x10"
abbreviation (input) XGRP :: mode_t where "XGRP \<equiv> 0x8"
abbreviation (input) ROTH :: mode_t where "ROTH \<equiv> 0x4"
abbreviation (input) WOTH :: mode_t where "WOTH \<equiv> 0x2"
abbreviation (input) XOTH :: mode_t where "XOTH \<equiv> 0x1"
abbreviation (input) ALLM :: nat where "ALLM \<equiv> 0xfff"

abbreviation (input) S_ISUID :: mode_t where "S_ISUID \<equiv> SUID"
abbreviation (input) S_ISGID :: mode_t where "S_ISGID \<equiv> SGID"
abbreviation (input) S_ISVTX :: mode_t where "S_ISVTX \<equiv> SVTX"
abbreviation (input) S_IRUSR :: mode_t where "S_IRUSR \<equiv> RUSR"
abbreviation (input) S_IWUSR :: mode_t where "S_IWUSR \<equiv> WUSR"
abbreviation (input) S_IXUSR :: mode_t where "S_IXUSR \<equiv> XUSR"
abbreviation (input) S_IRGRP :: mode_t where "S_IRGRP \<equiv> RGRP"
abbreviation (input) S_IWGRP :: mode_t where "S_IWGRP \<equiv> WGRP"
abbreviation (input) S_IXGRP :: mode_t where "S_IXGRP \<equiv> XGRP"
abbreviation (input) S_IROTH :: mode_t where "S_IROTH \<equiv> ROTH"
abbreviation (input) S_IWOTH :: mode_t where "S_IWOTH \<equiv> WOTH"
abbreviation (input) S_IXOTH :: mode_t where "S_IXOTH \<equiv> XOTH"
abbreviation (input) S_IRWXU :: mode_t where "S_IRWXU \<equiv> S_IRUSR OR S_IWUSR OR S_IXUSR"
abbreviation (input) S_IRWXG :: mode_t where "S_IRWXG \<equiv> S_IRGRP OR S_IWGRP OR S_IXGRP"
abbreviation (input) S_IRWXO :: mode_t where "S_IRWXO \<equiv> S_IROTH OR S_IWOTH OR S_IXOTH"
abbreviation (input) S_IRWXUGO :: mode_t where "S_IRWXUGO \<equiv> S_IRWXU OR S_IRWXG OR S_IRWXO"

definition CHMOD_MODE_BITS :: mode_t where
  "CHMOD_MODE_BITS = S_ISUID OR S_ISGID OR S_ISVTX OR S_IRWXU OR S_IRWXG OR S_IRWXO"

definition octal_to_mode :: "mode_t \<Rightarrow> mode_t" where
  "octal_to_mode octal =
     (if S_ISUID = SUID \<and> S_ISGID = SGID \<and> S_ISVTX = SVTX
       \<and> S_IRUSR = RUSR \<and> S_IWUSR = WUSR \<and> S_IXUSR = XUSR
       \<and> S_IRGRP = RGRP \<and> S_IWGRP = WGRP \<and> S_IXGRP = XGRP
       \<and> S_IROTH = ROTH \<and> S_IWOTH = WOTH \<and> S_IXOTH = XOTH
      then octal
      else (if octal AND SUID \<noteq> 0 then S_ISUID else 0)
        OR (if octal AND SGID \<noteq> 0 then S_ISGID else 0)
        OR (if octal AND SVTX \<noteq> 0 then S_ISVTX else 0)
        OR (if octal AND RUSR \<noteq> 0 then S_IRUSR else 0)
        OR (if octal AND WUSR \<noteq> 0 then S_IWUSR else 0)
        OR (if octal AND XUSR \<noteq> 0 then S_IXUSR else 0)
        OR (if octal AND RGRP \<noteq> 0 then S_IRGRP else 0)
        OR (if octal AND WGRP \<noteq> 0 then S_IWGRP else 0)
        OR (if octal AND XGRP \<noteq> 0 then S_IXGRP else 0)
        OR (if octal AND ROTH \<noteq> 0 then S_IROTH else 0)
        OR (if octal AND WOTH \<noteq> 0 then S_IWOTH else 0)
        OR (if octal AND XOTH \<noteq> 0 then S_IXOTH else 0))"

section \<open>Changes\<close>

datatype mode_flag = MODE_DONE | MODE_ORDINARY_CHANGE | MODE_X_IF_ANY_X | MODE_COPY_EXISTING

record mode_change =
  op :: char
  flag :: mode_flag
  affected :: mode_t
  val :: mode_t
  mentioned :: mode_t

definition make_node_op_equals :: "mode_t \<Rightarrow> mode_t \<Rightarrow> mode_change list" where
  "make_node_op_equals new_mode mention =
     [\<lparr>op = CHR ''='', flag = MODE_ORDINARY_CHANGE, affected = CHMOD_MODE_BITS, val = new_mode,
       mentioned = mention\<rparr>]"

section \<open>Compiling a mode string\<close>

text \<open>
  A position in the string is a number; past the last character there is the NUL. The results:
  an array of changes, \<open>NULL\<close>, or an access outside the string or the array.
\<close>

datatype compiled = Compiled "mode_change list" | Null | Outside

definition char_at :: "string \<Rightarrow> nat \<Rightarrow> char" where
  "char_at s p = (if p < length s then s ! p else CHR 0x00)"

definition is_octal :: "char \<Rightarrow> bool" where
  "is_octal c \<longleftrightarrow> 48 \<le> (of_char c :: nat) \<and> (of_char c :: nat) < 56"

definition is_op :: "char \<Rightarrow> bool" where
  "is_op c \<longleftrightarrow> c = CHR ''='' \<or> c = CHR ''+'' \<or> c = CHR ''-''"

text \<open>The digits of an octal mode: \<open>None\<close> when the number exceeds \<open>ALLM\<close>.\<close>

fun octal_loop :: "string \<Rightarrow> nat \<Rightarrow> (nat \<times> string) option" where
  "octal_loop [] octal_mode = Some (octal_mode, [])"
| "octal_loop (c # cs) octal_mode =
     (if is_octal c then
        let octal_mode = 8 * octal_mode + of_char c - 48
        in if ALLM < octal_mode then None else octal_loop cs octal_mode
      else Some (octal_mode, c # cs))"

text \<open>The letters before an operator.\<close>

function affected_loop :: "string \<Rightarrow> nat \<Rightarrow> mode_t \<Rightarrow> (nat \<times> mode_t) option" where
  "affected_loop s p aff =
     (let c = char_at s p in
      if c = CHR ''u'' then affected_loop s (p + 1) (aff OR (S_ISUID OR S_IRWXU))
      else if c = CHR ''g'' then affected_loop s (p + 1) (aff OR (S_ISGID OR S_IRWXG))
      else if c = CHR ''o'' then affected_loop s (p + 1) (aff OR (S_ISVTX OR S_IRWXO))
      else if c = CHR ''a'' then affected_loop s (p + 1) (aff OR CHMOD_MODE_BITS)
      else if is_op c then Some (p, aff)
      else None)"
  by pat_completeness auto
termination
  by (relation "measure (\<lambda>(s, p, _). length s - p)") (auto simp: char_at_def split: if_splits)

declare affected_loop.simps [simp del]

text \<open>The letters of the permissions.\<close>

function value_loop :: "string \<Rightarrow> nat \<Rightarrow> mode_t \<Rightarrow> mode_flag \<Rightarrow> nat \<times> mode_t \<times> mode_flag" where
  "value_loop s p v fl =
     (let c = char_at s p in
      if c = CHR ''r'' then value_loop s (p + 1) (v OR (S_IRUSR OR S_IRGRP OR S_IROTH)) fl
      else if c = CHR ''w'' then value_loop s (p + 1) (v OR (S_IWUSR OR S_IWGRP OR S_IWOTH)) fl
      else if c = CHR ''x'' then value_loop s (p + 1) (v OR (S_IXUSR OR S_IXGRP OR S_IXOTH)) fl
      else if c = CHR ''X'' then value_loop s (p + 1) v MODE_X_IF_ANY_X
      else if c = CHR ''s'' then value_loop s (p + 1) (v OR (S_ISUID OR S_ISGID)) fl
      else if c = CHR ''t'' then value_loop s (p + 1) (v OR S_ISVTX) fl
      else (p, v, fl))"
  by pat_completeness auto
termination
  by (relation "measure (\<lambda>(s, p, _, _). length s - p)") (auto simp: char_at_def split: if_splits)

declare value_loop.simps [simp del]

text \<open>
  The body of the inner loop at an operator: it switches on the operator itself, which has not
  been stepped over, and the scan for permissions starts one character before it. \<open>None\<close> is an
  access before the string.
\<close>

definition directive :: "string \<Rightarrow> nat \<Rightarrow> mode_t \<Rightarrow> (nat \<times> mode_change) option" where
  "directive s p aff =
     (let c = char_at s p;
          scan = (if c = CHR ''u'' then Some (p, S_IRWXU, MODE_COPY_EXISTING)
                  else if c = CHR ''g'' then Some (p, S_IRWXG, MODE_COPY_EXISTING)
                  else if c = CHR ''o'' then Some (p, S_IRWXO, MODE_COPY_EXISTING)
                  else if p = 0 then None
                  else Some (value_loop s (p - 1) 0 MODE_ORDINARY_CHANGE))
      in case scan of None \<Rightarrow> None
         | Some (q, v, fl) \<Rightarrow> Some (q, \<lparr>op = c, flag = fl, affected = aff, val = v,
             mentioned = (if aff \<noteq> 0 then aff AND v else v)\<rparr>))"

text \<open>
  The inner loop over the operators, and the outer loop over the clauses, into an array of
  \<open>needed\<close> elements. Neither is bound to end for every string and position.
\<close>

partial_function (option) op_loop ::
  "nat \<Rightarrow> string \<Rightarrow> nat \<Rightarrow> mode_t \<Rightarrow> mode_change list \<Rightarrow> (nat \<times> mode_change list) option option" where
  "op_loop needed s p aff mc =
     (case directive s p aff of
        None \<Rightarrow> Some None
      | Some (q, ch) \<Rightarrow>
          if \<not> length mc < needed then Some None
          else if is_op (char_at s q) then op_loop needed s q aff (mc @ [ch])
          else Some (Some (q, mc @ [ch])))"

partial_function (option) clause_loop ::
  "nat \<Rightarrow> string \<Rightarrow> nat \<Rightarrow> mode_change list \<Rightarrow> compiled option" where
  "clause_loop needed s p mc =
     (case affected_loop s p 0 of
        None \<Rightarrow> Some Null
      | Some (q, aff) \<Rightarrow>
          Option.bind (op_loop needed s q aff mc) (\<lambda>r.
            case r of None \<Rightarrow> Some Outside
            | Some (q, mc) \<Rightarrow>
                if char_at s q = CHR '','' then clause_loop needed s (q + 1) mc
                else if char_at s q = CHR 0x00 then
                  (if length mc < needed then Some (Compiled mc) else Some Outside)
                else Some Null))"

definition mode_compile :: "string \<Rightarrow> compiled option" where
  "mode_compile s =
     (if is_octal (char_at s 0) then
        (case octal_loop s 0 of
           None \<Rightarrow> Some Null
         | Some (octal_mode, rest) \<Rightarrow>
             if rest \<noteq> [] then Some Null
             else let mode = octal_to_mode (of_nat octal_mode);
                      mention = (mode AND (S_ISUID OR S_ISGID)) OR S_ISVTX OR S_IRWXUGO
                  in Some (Compiled (make_node_op_equals mode mention)))
      else clause_loop (1 + length (filter is_op s)) s 0 [])"

section \<open>Applying changes\<close>

text \<open>
  One change: the bits to use, then the operation. The second component is \<open>mode_bits\<close>, the
  mask of the bits the changes care about.
\<close>

definition change_value :: "bool \<Rightarrow> mode_t \<Rightarrow> mode_change \<Rightarrow> mode_t \<Rightarrow> mode_t" where
  "change_value dir umask_value ch newmode =
     (let omit_change = (if dir then S_ISUID OR S_ISGID else 0) AND NOT (mentioned ch);
          v = val ch;
          v = (case flag ch of
                 MODE_COPY_EXISTING \<Rightarrow>
                   let v = v AND newmode
                   in v OR ((if v AND (S_IRUSR OR S_IRGRP OR S_IROTH) \<noteq> 0
                             then S_IRUSR OR S_IRGRP OR S_IROTH else 0)
                        OR (if v AND (S_IWUSR OR S_IWGRP OR S_IWOTH) \<noteq> 0
                             then S_IWUSR OR S_IWGRP OR S_IWOTH else 0)
                        OR (if v AND (S_IXUSR OR S_IXGRP OR S_IXOTH) \<noteq> 0
                             then S_IXUSR OR S_IXGRP OR S_IXOTH else 0))
               | MODE_X_IF_ANY_X \<Rightarrow>
                   if newmode AND (S_IXUSR OR S_IXGRP OR S_IXOTH) \<noteq> 0 \<or> dir
                   then v OR (S_IXUSR OR S_IXGRP OR S_IXOTH) else v
               | _ \<Rightarrow> v)
      in v AND (if affected ch \<noteq> 0 then affected ch else NOT umask_value) AND NOT omit_change)"

fun adjust_loop ::
  "bool \<Rightarrow> mode_t \<Rightarrow> mode_change list \<Rightarrow> mode_t \<Rightarrow> mode_t \<Rightarrow> mode_t \<times> mode_t" where
  "adjust_loop dir umask_value [] newmode mode_bits = (newmode, mode_bits)"
| "adjust_loop dir umask_value (ch # changes) newmode mode_bits =
     (if flag ch = MODE_DONE then (newmode, mode_bits)
      else
        let omit_change = (if dir then S_ISUID OR S_ISGID else 0) AND NOT (mentioned ch);
            v = change_value dir umask_value ch newmode
        in if op ch = CHR ''='' then
             let preserved = (if affected ch \<noteq> 0 then NOT (affected ch) else 0) OR omit_change
             in adjust_loop dir umask_value changes ((newmode AND preserved) OR v)
                  (mode_bits OR (CHMOD_MODE_BITS AND NOT preserved))
           else if op ch = CHR ''+'' then
             adjust_loop dir umask_value changes v (mode_bits OR v)
           else if op ch = CHR ''-'' then
             adjust_loop dir umask_value changes (newmode AND NOT v) (mode_bits OR v)
           else adjust_loop dir umask_value changes newmode mode_bits)"

definition mode_adjust :: "mode_t \<Rightarrow> bool \<Rightarrow> mode_t \<Rightarrow> mode_change list \<Rightarrow> mode_t \<times> mode_t" where
  "mode_adjust oldmode dir umask_value changes =
     adjust_loop dir umask_value changes (oldmode AND CHMOD_MODE_BITS) 0"

end
