(* ===== verification/ModeProps.thy ===== *)
theory ModeProps
  imports ModeChange
begin

text \<open>
  The properties of mode strings and mode changes: octal modes compile to what they say and
  set it, every symbolic mode is refused, and the changes with \<open>=\<close> and \<open>-\<close> touch no bit
  outside the mask they report, which those with \<open>+\<close> do.
\<close>

section \<open>Octal modes\<close>

fun octal :: "nat \<Rightarrow> string" where
  "octal n = (if n < 8 then [char_of (48 + n)] else octal (n div 8) @ [char_of (48 + n mod 8)])"

declare octal.simps [simp del]

text \<open>The value of a string of digits behind the digits of \<open>a\<close>.\<close>

definition digits :: "nat \<Rightarrow> string \<Rightarrow> nat" where
  "digits a ds = foldl (\<lambda>a c. 8 * a + (of_char c - 48)) a ds"

lemma digits_ge: "a \<le> digits a ds"
proof (induction ds arbitrary: a)
  case (Cons d ds)
  have "a \<le> 8 * a + (of_char d - 48)" by simp
  also have "\<dots> \<le> digits a (d # ds)" using Cons.IH by (simp add: digits_def)
  finally show ?case .
qed (simp add: digits_def)

lemma octal_loop_digits:
  "\<forall>c \<in> set ds. is_octal c \<Longrightarrow> a \<le> ALLM \<Longrightarrow>
   octal_loop ds a = (if digits a ds \<le> ALLM then Some (digits a ds, []) else None)"
proof (induction ds arbitrary: a)
  case (Cons d ds)
  let ?b = "8 * a + (of_char d - 48)"
  have d: "is_octal d" "8 * a + of_char d - 48 = ?b" using Cons.prems by (auto simp: is_octal_def)
  have v: "digits a (d # ds) = digits ?b ds" by (simp add: digits_def)
  have e: "octal_loop (d # ds) a = (if ALLM < ?b then None else octal_loop ds ?b)"
    using d(1) by (simp only: octal_loop.simps Let_def d(2) if_True)
  show ?case
  proof (cases "ALLM < ?b")
    case True
    then have "\<not> digits ?b ds \<le> ALLM" using digits_ge [of ?b ds] by linarith
    with True show ?thesis unfolding e v by simp
  next
    case False
    then have "?b \<le> ALLM" by linarith
    from Cons.IH [OF _ this] Cons.prems False show ?thesis unfolding e v by simp
  qed
qed (simp add: digits_def)

lemma octal_digits: "digits 0 (octal n) = n" "\<forall>c \<in> set (octal n). is_octal c" "octal n \<noteq> []"
proof -
  have "digits 0 (octal n) = n \<and> (\<forall>c \<in> set (octal n). is_octal c) \<and> octal n \<noteq> []"
  proof (induction n rule: octal.induct)
    case (1 n)
    have d: "of_char (char_of (48 + k) :: char) = 48 + k" if "k < 8" for k :: nat
      using that by (simp add: of_char_of)
    show ?case
    proof (cases "n < 8")
      case True
      then show ?thesis using d [of n] by (subst (1 2 3) octal.simps) (simp add: digits_def is_octal_def)
    next
      case False
      note IH = 1 [OF False]
      have "octal n = octal (n div 8) @ [char_of (48 + n mod 8)]"
        using False by (subst octal.simps) simp
      then show ?thesis using IH d [of "n mod 8"] by (simp add: digits_def is_octal_def)
    qed
  qed
  then show "digits 0 (octal n) = n" "\<forall>c \<in> set (octal n). is_octal c" "octal n \<noteq> []" by blast+
qed

lemma zeros_digits: "digits 0 (replicate z (CHR ''0'') @ ds) = digits 0 ds"
  by (induction z) (simp_all add: digits_def)

section \<open>Symbolic modes\<close>

lemma affected_loop_stops:
  "affected_loop s p aff = Some (q, aff') \<Longrightarrow>
   p \<le> q \<and> is_op (char_at s q) \<and> (\<forall>i. p \<le> i \<and> i < q \<longrightarrow> s ! i \<in> set ''ugoa'' \<and> i < length s)"
proof (induction s p aff rule: affected_loop.induct)
  case (1 s p aff)
  have step: ?case if "affected_loop s (p + 1) a = Some (q, aff')" "char_at s p \<in> set ''ugoa''"
    "p + 1 \<le> q \<and> is_op (char_at s q) \<and>
       (\<forall>i. p + 1 \<le> i \<and> i < q \<longrightarrow> s ! i \<in> set ''ugoa'' \<and> i < length s)" for a
  proof -
    have "s ! p \<in> set ''ugoa''" "p < length s" using that(2) by (auto simp: char_at_def split: if_splits)
    moreover have "i = p \<or> p + 1 \<le> i" if "p \<le> i" for i using that by linarith
    ultimately show ?thesis using that(3) by fastforce
  qed
  note eq = affected_loop.simps [of s p aff]
  consider (u) "char_at s p = CHR ''u''" | (g) "char_at s p = CHR ''g''" | (o) "char_at s p = CHR ''o''"
    | (a) "char_at s p = CHR ''a''" | (stop) "char_at s p \<notin> set ''ugoa''" by auto
  then show ?case
  proof cases
    case u
    with 1(1,5) eq show ?thesis by (intro step) simp_all
  next
    case g
    with 1(2,5) eq show ?thesis by (intro step) simp_all
  next
    case o
    with 1(3,5) eq show ?thesis by (intro step) simp_all
  next
    case a
    with 1(4,5) eq show ?thesis by (intro step) simp_all
  next
    case stop
    with 1(5) eq show ?thesis by (auto split: if_splits)
  qed
qed

lemma value_loop_stops:
  "char_at s p \<in> set ''ugoa'' \<Longrightarrow> value_loop s p v fl = (p, v, fl)"
  by (subst value_loop.simps) (auto simp: Let_def)

lemma op_not_affected: "is_op c \<Longrightarrow> c \<notin> set ''ugoa'' \<and> c \<noteq> CHR 0x00"
  by (auto simp: is_op_def)

section \<open>Bits\<close>

text \<open>
  \<open>outside old u\<close>: a mode \<open>fst u\<close> differs from \<open>old\<close> in bits of the mask \<open>snd u\<close> only.
\<close>

definition agrees_outside :: "mode_t \<Rightarrow> mode_t \<times> mode_t \<Rightarrow> bool" where
  "agrees_outside old u \<longleftrightarrow> fst u AND NOT (snd u) = old AND NOT (snd u)"

lemma agrees_outside_bits:
  "agrees_outside old (new, bits) \<longleftrightarrow> (\<forall>n < 32. \<not> bit bits n \<longrightarrow> bit new n = bit old n)"
proof
  assume "agrees_outside old (new, bits)"
  then have "bit (new AND NOT bits) n = bit (old AND NOT bits) n" for n
    by (simp add: agrees_outside_def)
  then show "\<forall>n < 32. \<not> bit bits n \<longrightarrow> bit new n = bit old n" by (simp add: bit_simps) blast
next
  assume "\<forall>n < 32. \<not> bit bits n \<longrightarrow> bit new n = bit old n"
  then show "agrees_outside old (new, bits)"
    unfolding agrees_outside_def by (intro bit_word_eqI) (auto simp: bit_simps)
qed

text \<open>The permission bits of one kind are mode bits.\<close>

lemma permission_bits:
  assumes "n < 32" "\<not> bit CHMOD_MODE_BITS n"
  shows "\<not> bit (0x124 :: mode_t) n" "\<not> bit (0x92 :: mode_t) n" "\<not> bit (0x49 :: mode_t) n"
proof -
  have "list_all (\<lambda>n. \<not> bit CHMOD_MODE_BITS n \<longrightarrow>
    \<not> bit (0x124 :: mode_t) n \<and> \<not> bit (0x92 :: mode_t) n \<and> \<not> bit (0x49 :: mode_t) n) [0..<32]"
    by code_simp
  from list_all_upt [OF this _ assms(1)] assms(2)
  show "\<not> bit (0x124 :: mode_t) n" "\<not> bit (0x92 :: mode_t) n" "\<not> bit (0x49 :: mode_t) n"
    by simp_all
qed

lemma change_value_bits:
  assumes "n < 32" "bit (change_value dir um ch new) n"
  shows "affected ch \<noteq> 0 \<Longrightarrow> bit (affected ch) n"
    "\<not> bit ((if dir then S_ISUID OR S_ISGID else 0) AND NOT (mentioned ch)) n"
  using assms by (auto simp: change_value_def Let_def bit_simps)

lemma change_value_mode:
  assumes "n < 32" "bit (change_value dir um ch new) n" "val ch AND NOT CHMOD_MODE_BITS = 0"
  shows "bit CHMOD_MODE_BITS n"
proof (rule ccontr)
  assume n: "\<not> bit CHMOD_MODE_BITS n"
  have "\<not> bit (val ch) n"
    using arg_cong [OF assms(3), of "\<lambda>w. bit w n"] n assms(1) by (simp add: bit_simps)
  with permission_bits [OF assms(1) n] show False
    using assms(2) by (auto simp: change_value_def Let_def bit_simps split: mode_flag.splits if_splits)
qed

definition mode_only :: "mode_t \<Rightarrow> bool" where
  "mode_only w \<longleftrightarrow> (\<forall>n < 32. bit w n \<longrightarrow> bit CHMOD_MODE_BITS n)"

lemma mode_only_and: "mode_only (w AND CHMOD_MODE_BITS)" "mode_only v \<Longrightarrow> mode_only (v AND w)"
  by (simp_all add: mode_only_def bit_simps)

lemma change_value_only: "val ch AND NOT CHMOD_MODE_BITS = 0 \<Longrightarrow> mode_only (change_value dir um ch new)"
  using change_value_mode by (simp add: mode_only_def)

lemma adjust_loop_agrees:
  assumes "\<forall>ch \<in> set changes. op ch \<noteq> CHR ''+'' \<and> val ch AND NOT CHMOD_MODE_BITS = 0"
    and "mode_only new" "agrees_outside old (new, bits)"
  shows "mode_only (fst (adjust_loop dir um changes new bits)) \<and>
    agrees_outside old (adjust_loop dir um changes new bits)"
  using assms
proof (induction changes arbitrary: new bits)
  case (Cons ch changes)
  define om :: mode_t where "om = (if dir then S_ISUID OR S_ISGID else 0) AND NOT (mentioned ch)"
  define v where "v = change_value dir um ch new"
  define pres where "pres = (if affected ch \<noteq> 0 then NOT (affected ch) else 0) OR om"
  have v: "mode_only v" using Cons.prems(1) change_value_only by (simp add: v_def)
  have vp: "\<not> bit pres n" if "n < 32" "bit v n" for n
    using change_value_bits [OF that(1)] that by (auto simp: v_def pres_def om_def bit_simps)
  have eq: "agrees_outside old ((new AND pres) OR v, bits OR (CHMOD_MODE_BITS AND NOT pres))"
    "mode_only ((new AND pres) OR v)"
    using Cons.prems(2,3) v vp by (auto simp: agrees_outside_bits mode_only_def bit_simps)
  have minus: "agrees_outside old (new AND NOT v, bits OR v)" "mode_only (new AND NOT v)"
    using Cons.prems(2,3) by (auto simp: agrees_outside_bits mode_only_def bit_simps)
  have rest: "\<forall>ch \<in> set changes. op ch \<noteq> CHR ''+'' \<and> val ch AND NOT CHMOD_MODE_BITS = 0"
    "op ch \<noteq> CHR ''+''" using Cons.prems(1) by simp_all
  have step: "adjust_loop dir um (ch # changes) new bits =
    (if flag ch = MODE_DONE then (new, bits)
     else if op ch = CHR ''='' then adjust_loop dir um changes ((new AND pres) OR v)
       (bits OR (CHMOD_MODE_BITS AND NOT pres))
     else if op ch = CHR ''-'' then adjust_loop dir um changes (new AND NOT v) (bits OR v)
     else adjust_loop dir um changes new bits)"
    using rest(2) by (simp add: om_def v_def pres_def Let_def)
  show ?case
    unfolding step using Cons.IH [OF rest(1) eq(2,1)] Cons.IH [OF rest(1) minus(2,1)]
      Cons.IH [OF rest(1) Cons.prems(2,3)] Cons.prems(2,3) by simp
qed simp

lemma mode_bits_of:
  assumes "n < 32"
  shows "bit CHMOD_MODE_BITS n = (n < 12)" "bit (0xC00 :: mode_t) n = (n = 10 \<or> n = 11)"
    "bit (0x3FF :: mode_t) n = (n < 10)" "bit (0xFFF :: mode_t) n = (n < 12)"
proof -
  have "list_all (\<lambda>n. bit CHMOD_MODE_BITS n = (n < 12) \<and> bit (0xC00 :: mode_t) n = (n = 10 \<or> n = 11) \<and>
    bit (0x3FF :: mode_t) n = (n < 10) \<and> bit (0xFFF :: mode_t) n = (n < 12)) [0..<32]"
    by code_simp
  from list_all_upt [OF this _ assms]
  show "bit CHMOD_MODE_BITS n = (n < 12)" "bit (0xC00 :: mode_t) n = (n = 10 \<or> n = 11)"
    "bit (0x3FF :: mode_t) n = (n < 10)" "bit (0xFFF :: mode_t) n = (n < 12)"
    by simp_all
qed

lemma CHMOD_nonzero: "CHMOD_MODE_BITS \<noteq> 0"
  by (simp add: CHMOD_MODE_BITS_def)

lemmas adjust_simps = mode_adjust_def make_node_op_equals_def change_value_def Let_def CHMOD_nonzero

section \<open>Properties\<close>

text \<open>
  An octal mode, with any number of leading zeros, compiles to the change that sets it,
  and to nothing when it is above 7777.
\<close>

theorem mode_compile_octal:
  "mode_compile (replicate z (CHR ''0'') @ octal m) =
    Some (if m \<le> ALLM
      then Compiled (make_node_op_equals (of_nat m)
        ((of_nat m AND (S_ISUID OR S_ISGID)) OR S_ISVTX OR S_IRWXUGO))
      else Null)"
proof -
  let ?s = "replicate z (CHR ''0'') @ octal m"
  have all: "\<forall>c \<in> set ?s. is_octal c" using octal_digits(2) [of m] by (auto simp: is_octal_def)
  have "?s \<noteq> []" using octal_digits(3) [of m] by simp
  then have "is_octal (char_at ?s 0)" using all by (metis char_at_def length_greater_0_conv nth_mem)
  moreover have "octal_loop ?s 0 = (if m \<le> ALLM then Some (m, []) else None)"
    using octal_loop_digits [OF all, of 0] by (simp add: zeros_digits octal_digits(1))
  ultimately show ?thesis
    by (simp add: mode_compile_def octal_to_mode_def Let_def del: replicate_add)
qed

text \<open>
  Setting an octal mode gives a file that mode, whatever it was and whatever the umask; a
  directory keeps its set-user-id and set-group-id bits, and gets those of the mode.
\<close>

theorem mode_adjust_octal:
  assumes "m \<le> ALLM"
  shows "\<exists>ch. mode_compile (octal m) = Some (Compiled ch) \<and>
    fst (mode_adjust oldmode False umask_value ch) = of_nat m \<and>
    fst (mode_adjust oldmode True umask_value ch) = of_nat m OR (oldmode AND (S_ISUID OR S_ISGID))"
proof -
  have "(of_nat m :: mode_t) = take_bit 12 (of_nat m)"
    using assms by (simp add: take_bit_of_nat take_bit_nat_eq_self)
  then have m: "bit (of_nat m :: mode_t) n \<Longrightarrow> n < 12" for n by (metis bit_take_bit_iff)
  let ?w = "of_nat m :: mode_t"
  let ?ch = "make_node_op_equals ?w ((?w AND (S_ISUID OR S_ISGID)) OR S_ISVTX OR S_IRWXUGO)"
  have "mode_compile (octal m) = Some (Compiled ?ch)"
    using mode_compile_octal [of 0 m] assms by simp
  moreover have "fst (mode_adjust oldmode False umask_value ?ch) = ?w"
    by (rule bit_word_eqI) (use m in \<open>auto simp: adjust_simps bit_simps mode_bits_of simp del: bit_numeral_word_iff\<close>)
  moreover have "fst (mode_adjust oldmode True umask_value ?ch) = ?w OR (oldmode AND (S_ISUID OR S_ISGID))"
    by (rule bit_word_eqI) (use m in \<open>auto simp: adjust_simps bit_simps mode_bits_of simp del: bit_numeral_word_iff\<close>)
  ultimately show ?thesis by blast
qed

theorem mode_adjust_octal_witness:
  "\<exists>ch. mode_compile (octal 493) = Some (Compiled ch) \<and>
    fst (mode_adjust 0xC3F False 0x12 ch) = 493 \<and> fst (mode_adjust 0xC3F True 0x12 ch) = 493 OR 0xC00"
  using mode_adjust_octal [of 493 "0xC3F" "0x12"] by simp

text \<open>
  C29. \<open>mode_compile\<close> returns for every string, and no symbolic mode is ever compiled: a string
  that does not begin with an octal digit gives \<open>NULL\<close>, or makes the parser read before the
  string when it begins with an operator.
\<close>

theorem symbolic_modes_refused:
  "mode_compile s \<noteq> None \<and>
   (\<not> is_octal (char_at s 0) \<longrightarrow>
      mode_compile s = Some (if is_op (char_at s 0) then Outside else Null))"
proof (cases "is_octal (char_at s 0)")
  case True
  then show ?thesis by (auto simp: mode_compile_def Let_def split: option.splits)
next
  case False
  let ?n = "1 + length (filter is_op s)"
  have r: "clause_loop ?n s 0 [] = Some (if is_op (char_at s 0) then Outside else Null)"
  proof (cases "affected_loop s 0 0")
    case None
    moreover from None have "\<not> is_op (char_at s 0)"
      by (subst (asm) affected_loop.simps) (auto simp: Let_def is_op_def split: if_splits)
    ultimately show ?thesis by (subst clause_loop.simps) simp
  next
    case (Some r)
    then obtain q aff where r: "affected_loop s 0 0 = Some (q, aff)" by (cases r) auto
    from affected_loop_stops [OF r] have q: "is_op (char_at s q)"
      "\<forall>i < q. s ! i \<in> set ''ugoa'' \<and> i < length s" by auto
    note op = op_not_affected [OF q(1)]
    show ?thesis
    proof (cases q)
      case 0
      then have "directive s q aff = None" using op by (simp add: directive_def)
      then have "op_loop ?n s q aff [] = Some None" by (subst op_loop.simps) simp
      with r 0 q(1) show ?thesis by (subst clause_loop.simps) simp
    next
      case (Suc p)
      have p: "char_at s p \<in> set ''ugoa''" and c0: "char_at s 0 \<in> set ''ugoa''"
        using q(2) [THEN spec, of p] q(2) [THEN spec, of 0] Suc by (auto simp: char_at_def)
      obtain ch where "directive s q aff = Some (p, ch)"
        using op Suc value_loop_stops [OF p] by (simp add: directive_def)
      moreover have "\<not> is_op (char_at s p)" using op_not_affected p by blast
      ultimately have "op_loop ?n s q aff [] = Some (Some (p, [ch]))"
        by (subst op_loop.simps) simp
      with r p c0 show ?thesis
        using op_not_affected [of "char_at s 0"] by (subst clause_loop.simps) auto
    qed
  qed
  with False show ?thesis by (simp add: mode_compile_def)
qed

theorem symbolic_modes_refused_witness: "mode_compile ''u+x'' = Some Null"
  using symbolic_modes_refused [of "''u+x''"] by (simp add: is_octal_def is_op_def char_at_def)

text \<open>
  C30. Changes with \<open>=\<close> and \<open>-\<close> give a mode made of file mode bits only, which differs from
  the old one in bits of the reported mask only.
\<close>

theorem mode_adjust_mask:
  assumes "\<forall>ch \<in> set changes. op ch \<noteq> CHR ''+'' \<and> val ch AND NOT CHMOD_MODE_BITS = 0"
  shows "mode_only (fst (mode_adjust oldmode dir umask_value changes)) \<and>
    agrees_outside (oldmode AND CHMOD_MODE_BITS) (mode_adjust oldmode dir umask_value changes)"
  unfolding mode_adjust_def
  by (rule adjust_loop_agrees [OF assms mode_only_and(1)]) (simp add: agrees_outside_def)

theorem mode_adjust_mask_witness:
  "agrees_outside (0x1FF AND CHMOD_MODE_BITS) (mode_adjust 0x1FF False 0x12
     [\<lparr>op = CHR ''-'', flag = MODE_ORDINARY_CHANGE, affected = 0x1C0, val = 0x92, mentioned = 0x80\<rparr>])"
  by (rule mode_adjust_mask [THEN conjunct2]) (simp add: CHMOD_MODE_BITS_def)

text \<open>
  A change with \<open>+\<close> forgets the mode it is added to: adding a permission gives the same
  result for every old mode, and clears bits that the mask does not report.
\<close>

theorem plus_forgets:
  assumes "op ch = CHR ''+''" "flag ch = MODE_ORDINARY_CHANGE"
  shows "mode_adjust oldmode dir umask_value [ch] = mode_adjust 0 dir umask_value [ch] \<and>
    fst (mode_adjust oldmode dir umask_value [ch]) = snd (mode_adjust oldmode dir umask_value [ch])"
  using assms by (simp add: mode_adjust_def change_value_def Let_def)

theorem plus_forgets_witness:
  "fst (mode_adjust 0x1A4 False 0x12
     [\<lparr>op = CHR ''+'', flag = MODE_ORDINARY_CHANGE, affected = CHMOD_MODE_BITS, val = 0x49, mentioned = 0x49\<rparr>]) = 0x49"
  using plus_forgets [of "\<lparr>op = CHR ''+'', flag = MODE_ORDINARY_CHANGE, affected = CHMOD_MODE_BITS,
     val = 0x49, mentioned = 0x49\<rparr>" "0x1A4" False "0x12"]
  by (simp add: mode_adjust_def change_value_def Let_def CHMOD_MODE_BITS_def)

end
