(* ===== verification/Sorting.thy ===== *)
theory Sorting
  imports Prelude "HOL-Library.Multiset"
begin

text \<open>
  The two sorting exercises: \<open>algorithms/quicksort.c\<close>, with a median of three as pivot, and
  \<open>algorithms/simple_quicksort.c\<close>, with the first element as pivot and two ways to partition.
  The state is the array; an access outside it is a fault.
\<close>

type_synonym 'a arr_prog = "int list \<Rightarrow> ('a, int list) outcome"

section \<open>Accesses\<close>

definition elem :: "nat \<Rightarrow> int arr_prog" where
  "elem i a = (if i < length a then Ret (a ! i) a else Fault a)"

definition store :: "nat \<Rightarrow> int \<Rightarrow> unit arr_prog" where
  "store i x a = (if i < length a then Ret () (a[i := x]) else Fault a)"

definition swap :: "nat \<Rightarrow> nat \<Rightarrow> unit arr_prog" where
  "swap i j a = obind (elem i a) (\<lambda>tmp a. obind (elem j a) (\<lambda>y a. obind (store i y a) (\<lambda>_ a. store j tmp a)))"

lemma elem_Ret [simp]: "elem i a = Ret x b \<longleftrightarrow> i < length a \<and> x = a ! i \<and> b = a"
  by (auto simp: elem_def)

lemma store_Ret [simp]: "store i x a = Ret u b \<longleftrightarrow> i < length a \<and> b = a[i := x]"
  by (auto simp: store_def)

lemma swap_Ret: "swap i j a = Ret u b \<longleftrightarrow> i < length a \<and> j < length a \<and> b = a[i := a ! j, j := a ! i]"
  by (auto simp: swap_def elem_def store_def)

declare obind_cong [fundef_cong]

section \<open>Median of three\<close>

definition order2 :: "nat \<Rightarrow> nat \<Rightarrow> unit arr_prog" where
  "order2 i j a = obind (elem i a) (\<lambda>x a. obind (elem j a) (\<lambda>y a. if x > y then swap i j a else Ret () a))"

text \<open>\<open>left + right\<close> is an \<open>int\<close>, and \<open>right - 1\<close> must not be negative.\<close>

definition media3 :: "nat \<Rightarrow> nat \<Rightarrow> int arr_prog" where
  "media3 left right a =
     (if 2 ^ 31 \<le> left + right then Fault a
      else let center = (left + right) div 2
      in obind (order2 left center a) (\<lambda>_ a.
         obind (order2 left right a) (\<lambda>_ a.
         obind (order2 center right a) (\<lambda>_ a.
         if right = 0 then Fault a
         else obind (swap center (right - 1) a) (\<lambda>_ a. elem (right - 1) a)))))"

text \<open>\<open>while(a[++i] < pivot)\<close> and \<open>while(a[--j] > pivot)\<close>; they return the index they stop at.\<close>

function scan_up :: "int \<Rightarrow> nat \<Rightarrow> nat arr_prog" where
  "scan_up pivot i a = obind (elem (i + 1) a) (\<lambda>x a.
     if x < pivot then scan_up pivot (i + 1) a else Ret (i + 1) a)"
  by pat_completeness auto
termination by (relation "measure (\<lambda>(pivot, i, a). length a - i)") auto

fun scan_down :: "int \<Rightarrow> nat \<Rightarrow> nat arr_prog" where
  "scan_down pivot 0 a = Fault a"
| "scan_down pivot (Suc j) a = obind (elem j a) (\<lambda>x a.
     if x > pivot then scan_down pivot j a else Ret j a)"

declare scan_up.simps [simp del]

lemma scan_up_Ret:
  "scan_up p i a = Ret k b \<Longrightarrow> b = a \<and> i < k \<and> k < length a \<and> p \<le> a ! k \<and> (\<forall>m. i < m \<and> m < k \<longrightarrow> a ! m < p)"
proof (induction p i a rule: scan_up.induct)
  case (1 p i a)
  from "1.prems" have i: "i + 1 < length a"
    by (subst (asm) scan_up.simps) auto
  show ?case
  proof (cases "a ! (i + 1) < p")
    case True
    with "1.prems" i have "scan_up p (i + 1) a = Ret k b" by (subst (asm) scan_up.simps) (auto simp: elem_def)
    with "1.IH" [of "a ! (i + 1)" a] i True have
      IH: "b = a \<and> i + 1 < k \<and> k < length a \<and> p \<le> a ! k \<and> (\<forall>m. i + 1 < m \<and> m < k \<longrightarrow> a ! m < p)"
      by simp
    with True show ?thesis by (metis Suc_eq_plus1 Suc_lessI add_lessD1)
  next
    case False
    with "1.prems" i show ?thesis by (subst (asm) scan_up.simps) (auto simp: elem_def)
  qed
qed

lemma scan_down_Ret:
  "scan_down p j a = Ret k b \<Longrightarrow> b = a \<and> k < j \<and> k < length a \<and> a ! k \<le> p \<and> (\<forall>m. k < m \<and> m < j \<longrightarrow> p < a ! m)"
proof (induction j)
  case (Suc j)
  show ?case
  proof (cases "p < a ! j")
    case True
    with Suc.prems have "scan_down p j a = Ret k b" by (auto simp: elem_def split: if_splits)
    with Suc.IH have
      IH: "b = a \<and> k < j \<and> k < length a \<and> a ! k \<le> p \<and> (\<forall>m. k < m \<and> m < j \<longrightarrow> p < a ! m)" by simp
    with True show ?thesis by (metis less_Suc_eq)
  next
    case False
    with Suc.prems show ?thesis by (auto simp: elem_def split: if_splits)
  qed
qed simp

function partition_loop :: "int \<Rightarrow> nat \<Rightarrow> nat \<Rightarrow> nat arr_prog" where
  "partition_loop pivot i j a = obind (scan_up pivot i a) (\<lambda>i a. obind (scan_down pivot j a) (\<lambda>j a.
     if i < j then obind (swap i j a) (\<lambda>_ a. partition_loop pivot i j a) else Ret i a))"
  by pat_completeness auto
termination
  by (relation "measure (\<lambda>(pivot, i, j, a). j - i)") (auto dest!: scan_up_Ret scan_down_Ret)

declare partition_loop.simps [simp del]

definition median_partition :: "nat \<Rightarrow> nat \<Rightarrow> nat arr_prog" where
  "median_partition left right a = obind (media3 left right a) (\<lambda>pivot a.
     obind (partition_loop pivot left (right - 1) a) (\<lambda>i a.
     obind (swap i (right - 1) a) (\<lambda>_ a. Ret i a)))"

section \<open>What partitioning does\<close>

text \<open>\<open>b\<close> is \<open>a\<close> with the elements from \<open>l\<close> to \<open>r\<close> permuted.\<close>

definition perm_in :: "nat \<Rightarrow> nat \<Rightarrow> int list \<Rightarrow> int list \<Rightarrow> bool" where
  "perm_in l r a b \<longleftrightarrow> length b = length a \<and> mset b = mset a \<and> (\<forall>m. m < l \<or> r < m \<longrightarrow> b ! m = a ! m)"

lemma perm_in_refl [simp]: "perm_in l r a a"
  by (simp add: perm_in_def)

lemma perm_in_length: "perm_in l r a b \<Longrightarrow> length b = length a"
  by (simp add: perm_in_def)

lemma perm_in_trans [trans]: "perm_in l r a b \<Longrightarrow> perm_in l r b c \<Longrightarrow> perm_in l r a c"
  by (simp add: perm_in_def)

lemma perm_in_mono: "perm_in l r a b \<Longrightarrow> l' \<le> l \<Longrightarrow> r \<le> r' \<Longrightarrow> perm_in l' r' a b"
  by (simp add: perm_in_def)

lemma perm_in_swap:
  "i < length a \<Longrightarrow> j < length a \<Longrightarrow> l \<le> i \<Longrightarrow> i \<le> r \<Longrightarrow> l \<le> j \<Longrightarrow> j \<le> r \<Longrightarrow>
   perm_in l r a (a[i := a ! j, j := a ! i])"
  by (auto simp: perm_in_def mset_swap nth_list_update)

lemma swap_perm: "swap i j a = Ret u b \<Longrightarrow> l \<le> i \<Longrightarrow> i \<le> r \<Longrightarrow> l \<le> j \<Longrightarrow> j \<le> r \<Longrightarrow> perm_in l r a b"
  by (auto simp: swap_Ret perm_in_swap)

text \<open>What holds of every element of the part before holds after.\<close>

lemma perm_in_slice:
  assumes "perm_in l r a b" "r < length a" "l \<le> Suc r"
  shows "mset (take (Suc r - l) (drop l b)) = mset (take (Suc r - l) (drop l a))"
proof -
  have split: "xs = take l xs @ take (Suc r - l) (drop l xs) @ drop (Suc r) xs" for xs :: "int list"
    using assms(3) by (metis append_take_drop_id drop_drop le_add_diff_inverse2)
  have "take l b = take l a" "drop (Suc r) b = drop (Suc r) a"
    using assms(1,2) by (auto simp: perm_in_def list_eq_iff_nth_eq)
  moreover have "mset b = mset a" using assms(1) by (simp add: perm_in_def)
  ultimately show ?thesis using split [of a] split [of b] by (metis add_left_cancel add_right_cancel mset_append)
qed

lemma perm_in_all:
  assumes "perm_in l r a b" "r < length a" "\<And>m. l \<le> m \<Longrightarrow> m \<le> r \<Longrightarrow> P (a ! m)" "l \<le> k" "k \<le> r"
  shows "P (b ! k)"
proof -
  have len: "length b = length a" using assms(1) by (rule perm_in_length)
  have "b ! k \<in> set (take (Suc r - l) (drop l b))"
    unfolding in_set_conv_nth using assms(2,4,5) len by (intro exI [of _ "k - l"]) auto
  also have "\<dots> = set (take (Suc r - l) (drop l a))"
    using perm_in_slice [OF assms(1,2)] assms(4,5) by (metis le_SucI order_trans mset_eq_setD)
  finally obtain m where "m < Suc r - l" "b ! k = a ! (l + m)"
    using assms(2) by (auto simp: in_set_conv_nth)
  with assms(3) [of "l + m"] show ?thesis by simp
qed

lemma order2_Ret:
  "order2 i j a = Ret u b \<Longrightarrow>
   i < length a \<and> j < length a \<and> b = (if a ! i > a ! j then a[i := a ! j, j := a ! i] else a)"
  by (auto simp: order2_def swap_Ret split: if_splits)

lemma order2_length: "order2 i j a = Ret u b \<Longrightarrow> length b = length a \<and> i < length a \<and> j < length a"
  by (auto dest!: order2_Ret)

lemma order2_values:
  "order2 i j a = Ret u b \<Longrightarrow>
   b ! i = min (a ! i) (a ! j) \<and> b ! j = max (a ! i) (a ! j) \<and> (\<forall>k. k \<noteq> i \<and> k \<noteq> j \<longrightarrow> b ! k = a ! k)"
  by (cases "i = j") (auto dest!: order2_Ret simp: min_def max_def)

lemma order2_ok: "i < length a \<Longrightarrow> j < length a \<Longrightarrow> \<exists>u b. order2 i j a = Ret u b \<and> length b = length a"
  by (auto simp: order2_def elem_def store_def swap_def)

lemma order2_perm: "order2 i j a = Ret u b \<Longrightarrow> l \<le> i \<Longrightarrow> i \<le> r \<Longrightarrow> l \<le> j \<Longrightarrow> j \<le> r \<Longrightarrow> perm_in l r a b"
  by (auto dest!: order2_Ret simp: perm_in_swap)

lemma media3_length: "media3 l r a = Ret p b \<Longrightarrow> length b = length a \<and> l < length a \<and> r < length a \<and> 0 < r"
  by (auto simp: media3_def Let_def swap_Ret dest!: order2_length split: if_splits)

lemma media3_Ret:
  assumes "media3 l r a = Ret p b" "l < r"
  shows "perm_in l r a b \<and> p = b ! (r - 1) \<and> b ! l \<le> p \<and> p \<le> b ! r"
proof -
  define c where "c = (l + r) div 2"
  have c: "l \<le> c" "c < r" "c = l \<longleftrightarrow> r = l + 1" using assms(2) by (auto simp: c_def)
  from assms obtain a1 a2 a3 where steps: "order2 l c a = Ret () a1" "order2 l r a1 = Ret () a2"
    "order2 c r a2 = Ret () a3" and b: "swap c (r - 1) a3 = Ret () b" and p: "p = b ! (r - 1)"
    by (auto simp: media3_def c_def Let_def split: if_splits)
  have "perm_in l r a a1" "perm_in l r a1 a2" "perm_in l r a2 a3" "perm_in l r a3 b"
    using order2_perm [OF steps(1)] order2_perm [OF steps(2)] order2_perm [OF steps(3)] swap_perm [OF b] c assms(2)
    by simp_all
  then have perm: "perm_in l r a b" by (blast intro: perm_in_trans)
  have len: "l < length a" "r < length a" using media3_length [OF assms(1)] by auto
  have ord: "a3 ! l \<le> a3 ! c \<and> a3 ! c \<le> a3 ! r"
  proof -
    note v = order2_values [OF steps(1)] order2_values [OF steps(2)] order2_values [OF steps(3)]
    have "a1 ! l \<le> a1 ! c" "a2 ! l \<le> a1 ! l" "a2 ! l \<le> a2 ! r" "a3 ! c \<le> a3 ! r"
      "a3 ! c = min (a2 ! c) (a2 ! r)" using v by (simp_all del: min_le_iff_disj add: min.coboundedI1)
    moreover have "c \<noteq> l \<Longrightarrow> a2 ! c = a1 ! c \<and> a3 ! l = a2 ! l" using v c assms(2) by simp
    ultimately show ?thesis by (cases "c = l") auto
  qed
  have bl: "b = a3[c := a3 ! (r - 1), r - 1 := a3 ! c]" "length a3 = length a"
    using b steps(1-3) by (auto simp: swap_Ret dest!: order2_length)
  have "b ! (r - 1) = a3 ! c" using bl len c by (simp add: nth_list_update)
  moreover have "b ! r = a3 ! r" using bl c assms(2) by (simp add: nth_list_update)
  moreover have "b ! l \<le> a3 ! c"
  proof (cases "c = l")
    case True
    then have "r - 1 = c" using c by simp
    with True bl len c show ?thesis by (simp add: nth_list_update)
  next
    case False
    then have "l \<noteq> r - 1" using c by auto
    with False bl ord show ?thesis by (simp add: nth_list_update)
  qed
  ultimately show ?thesis using perm p ord by simp
qed

lemma partition_loop_step:
  assumes "partition_loop p i j a = Ret k b"
  obtains i' j' where "scan_up p i a = Ret i' a" "scan_down p j a = Ret j' a"
    "(if i' < j' then obind (swap i' j' a) (\<lambda>_ a. partition_loop p i' j' a) else Ret i' a) = Ret k b"
proof -
  from assms obtain i' s1 where up: "scan_up p i a = Ret i' s1" and
    "obind (scan_down p j s1) (\<lambda>j a. if i' < j then obind (swap i' j a) (\<lambda>_ a. partition_loop p i' j a) else Ret i' a) = Ret k b"
    unfolding partition_loop.simps [of p i j a] by (rule obind_RetE) (rule that)
  from this(2) obtain j' s2 where "scan_down p j s1 = Ret j' s2" and
    "(if i' < j' then obind (swap i' j' s2) (\<lambda>_ a. partition_loop p i' j' a) else Ret i' s2) = Ret k b"
    by (rule obind_RetE) (rule that)
  with up scan_up_Ret [OF up] scan_down_Ret [of p j s1 j' s2] show thesis
    by (intro that [of i' j']) auto
qed

text \<open>
  The loop: from where everything up to \<open>i\<close> is at most, and from \<open>j\<close> on at least the pivot, it
  stops at the boundary.
\<close>

lemma partition_loop_Ret:
  assumes "partition_loop p i j a = Ret k b" "l \<le> i" "i \<le> j" "j < r" "a ! (r - 1) = p" "p \<le> a ! r"
    "\<And>m. l \<le> m \<Longrightarrow> m \<le> i \<Longrightarrow> a ! m \<le> p" "\<And>m. j \<le> m \<Longrightarrow> m \<le> r \<Longrightarrow> p \<le> a ! m"
  shows "perm_in l (r - 1) a b \<and> b ! (r - 1) = p \<and> b ! r = a ! r \<and> i < k \<and> k \<le> r \<and> (i < r - 1 \<longrightarrow> k < r) \<and>
    (\<forall>m. l \<le> m \<and> m < k \<longrightarrow> b ! m \<le> p) \<and> (\<forall>m. k \<le> m \<and> m \<le> r \<longrightarrow> p \<le> b ! m)"
  using assms
proof (induction p i j a rule: partition_loop.induct)
  case (1 p i j a)
  from "1.prems"(1) obtain i' j' where up: "scan_up p i a = Ret i' a" and
    down: "scan_down p j a = Ret j' a" and
    rest: "(if i' < j' then obind (swap i' j' a) (\<lambda>_ a. partition_loop p i' j' a) else Ret i' a) = Ret k b"
    by (rule partition_loop_step)
  from scan_up_Ret [OF up] have
    u: "i < i'" "p \<le> a ! i'" "\<And>m. i < m \<Longrightarrow> m < i' \<Longrightarrow> a ! m < p" "i' < length a" by auto
  from scan_down_Ret [OF down] have
    d: "j' < j" "a ! j' \<le> p" "\<And>m. j' < m \<Longrightarrow> m < j \<Longrightarrow> p < a ! m" "j' < length a" by auto
  have "i' \<le> r"
  proof (rule ccontr)
    assume "\<not> i' \<le> r"
    with u(3) [of r] "1.prems"(3,4,6) show False by simp
  qed
  have "i' < r" if "i < r - 1"
  proof (rule ccontr)
    assume "\<not> i' < r"
    then have "r - 1 < i'" using that by linarith
    with u(3) [of "r - 1"] that "1.prems"(5) show False by simp
  qed
  have low: "a ! m \<le> p" if "l \<le> m" "m < i'" for m
    using "1.prems"(7) [of m] u(3) [of m] that by (cases "m \<le> i") auto
  have high: "p \<le> a ! m" if "j' < m" "m \<le> r" for m
    using "1.prems"(8) [of m] d(3) [of m] that by (cases "j \<le> m") auto
  show ?case
  proof (cases "i' < j'")
    case False
    then have "k = i'" "b = a" using rest by auto
    moreover have "p \<le> a ! m" if "i' \<le> m" "m \<le> r" for m
      using high [of m] u(2) False that by (cases "m = i'") auto
    ultimately show ?thesis
      using \<open>i' \<le> r\<close> \<open>i < r - 1 \<Longrightarrow> i' < r\<close> low high False "1.prems"(5) u(1,2)
      by auto
  next
    case True
    define a' where "a' = a[i' := a ! j', j' := a ! i']"
    have sw: "swap i' j' a = Ret () a'" using u(4) d(4) by (simp add: swap_Ret a'_def)
    have "partition_loop p i' j' a' = Ret k b" using rest True sw by simp
    moreover have "a' ! (r - 1) = p" "a' ! r = a ! r"
      using True d(1) "1.prems"(4,5) by (auto simp: a'_def nth_list_update)
    moreover have "a' ! m \<le> p" if "l \<le> m" "m \<le> i'" for m
      using low [of m] that True d(2) u(4) by (cases "m = i'") (auto simp: a'_def nth_list_update)
    moreover have "p \<le> a' ! m" if "j' \<le> m" "m \<le> r" for m
      using high [of m] that True u(2) d(4) by (cases "m = j'") (auto simp: a'_def nth_list_update)
    ultimately have IH: "perm_in l (r - 1) a' b \<and> b ! (r - 1) = p \<and> b ! r = a' ! r \<and> i' < k \<and> k \<le> r \<and> (i' < r - 1 \<longrightarrow> k < r) \<and>
        (\<forall>m. l \<le> m \<and> m < k \<longrightarrow> b ! m \<le> p) \<and> (\<forall>m. k \<le> m \<and> m \<le> r \<longrightarrow> p \<le> b ! m)"
      using "1.IH" [OF up down True sw] u(1) True d(1) "1.prems"(2,4,6) by simp
    moreover have "perm_in l (r - 1) a a'"
      unfolding a'_def using perm_in_swap [of i' a j' l "r - 1"] u d True "1.prems"(2,4) by simp
    ultimately show ?thesis
      using \<open>a' ! r = a ! r\<close> u(1) True d(1) "1.prems"(4) by (auto intro: perm_in_trans)
  qed
qed

lemma scan_up_ok: "i < m \<Longrightarrow> m < length a \<Longrightarrow> p \<le> a ! m \<Longrightarrow> \<exists>k. scan_up p i a = Ret k a"
proof (induction "m - i" arbitrary: i)
  case (Suc n)
  show ?case
  proof (cases "a ! (i + 1) < p")
    case True
    then have "i + 1 < m" using Suc.prems by (metis Suc_eq_plus1 Suc_lessI not_less)
    moreover have "n = m - (i + 1)" using Suc.hyps(2) by simp
    ultimately have "\<exists>k. scan_up p (i + 1) a = Ret k a" using Suc.hyps(1) [of "i + 1"] Suc.prems by simp
    with True Suc.prems show ?thesis by (subst scan_up.simps) (simp add: elem_def)
  next
    case False
    with Suc.prems show ?thesis by (subst scan_up.simps) (simp add: elem_def)
  qed
qed simp

lemma scan_down_ok: "m < j \<Longrightarrow> j \<le> length a \<Longrightarrow> a ! m \<le> p \<Longrightarrow> \<exists>k. scan_down p j a = Ret k a"
proof (induction j)
  case (Suc j)
  show ?case
  proof (cases "m = j")
    case False
    with Suc show ?thesis by (cases "a ! j > p") (simp_all add: elem_def)
  qed (use Suc.prems in \<open>simp add: elem_def\<close>)
qed simp

lemma partition_loop_ok:
  assumes "i < r" "j < r" "r < length a" "p \<le> a ! r" "\<exists>m < j. a ! m \<le> p"
  shows "\<exists>k b. partition_loop p i j a = Ret k b"
  using assms
proof (induction p i j a rule: partition_loop.induct)
  case (1 p i j a)
  from scan_up_ok [of i r a p] "1.prems" obtain i' where up: "scan_up p i a = Ret i' a" by auto
  from scan_down_ok [of _ j a p] "1.prems" obtain j' where down: "scan_down p j a = Ret j' a" by fastforce
  note u = scan_up_Ret [OF up] and d = scan_down_Ret [OF down]
  show ?case
  proof (cases "i' < j'")
    case True
    define a' where "a' = a[i' := a ! j', j' := a ! i']"
    have sw: "swap i' j' a = Ret () a'" using u d by (simp add: swap_Ret a'_def)
    have "a' ! i' \<le> p" "a' ! r = a ! r" "length a' = length a"
      using True u d "1.prems"(2) by (auto simp: a'_def nth_list_update)
    with "1.IH" [OF up down True sw] True d "1.prems" have "\<exists>k b. partition_loop p i' j' a' = Ret k b" by auto
    with True up down sw show ?thesis by (subst partition_loop.simps) simp
  next
    case False
    with up down show ?thesis by (subst partition_loop.simps) simp
  qed
qed

lemma media3_ok:
  assumes "l < r" "r < length a" "l + r < 2 ^ 31"
  shows "\<exists>p b. media3 l r a = Ret p b"
proof -
  have c: "(l + r) div 2 < length a" using assms by simp
  from order2_ok [of l a "(l + r) div 2"] c assms obtain a1 where
    1: "order2 l ((l + r) div 2) a = Ret () a1" "length a1 = length a" by auto
  from order2_ok [of l a1 r] 1(2) assms obtain a2 where 2: "order2 l r a1 = Ret () a2" "length a2 = length a" by auto
  from order2_ok [of "(l + r) div 2" a2 r] 2(2) c assms obtain a3 where
    3: "order2 ((l + r) div 2) r a2 = Ret () a3" "length a3 = length a" by auto
  from c assms 3(2) have "\<exists>a4. swap ((l + r) div 2) (r - 1) a3 = Ret () a4 \<and> length a4 = length a"
    by (simp add: swap_Ret)
  with 1 2 3 assms show ?thesis by (auto simp: media3_def Let_def elem_def)
qed

text \<open>
  Partitioning at least three elements puts the pivot between the smaller and the greater ones.
  Two elements come out in descending order, and the boundary is the second of them.
\<close>

lemma median_partition_Ret:
  assumes "median_partition l r a = Ret k b" "l < r"
  shows "perm_in l r a b \<and> l < k \<and> k \<le> r \<and> (r = l + 1 \<longrightarrow> k = r \<and> b ! r \<le> b ! l) \<and>
    (l + 1 < r \<longrightarrow> k < r \<and> (\<forall>m. l \<le> m \<and> m < k \<longrightarrow> b ! m \<le> b ! k) \<and> (\<forall>m. k \<le> m \<and> m \<le> r \<longrightarrow> b ! k \<le> b ! m))"
proof -
  from assms(1) obtain p a1 a2 where m: "media3 l r a = Ret p a1" and
    lp: "partition_loop p l (r - 1) a1 = Ret k a2" and sw: "swap k (r - 1) a2 = Ret () b"
    by (auto simp: median_partition_def)
  from media3_Ret [OF m assms(2)] have
    m1: "perm_in l r a a1" "a1 ! (r - 1) = p" "a1 ! l \<le> p" "p \<le> a1 ! r" by auto
  have lo: "\<And>m. l \<le> m \<Longrightarrow> m \<le> l \<Longrightarrow> a1 ! m \<le> p" using m1(3) by (metis order_antisym)
  have hi: "\<And>m. r - 1 \<le> m \<Longrightarrow> m \<le> r \<Longrightarrow> p \<le> a1 ! m" using m1(2,4)
    by (metis One_nat_def Suc_pred assms(2) le_SucE le_antisym not_less_zero order_refl zero_less_iff_neq_zero)
  have "perm_in l (r - 1) a1 a2 \<and> a2 ! (r - 1) = p \<and> a2 ! r = a1 ! r \<and> l < k \<and> k \<le> r \<and> (l < r - 1 \<longrightarrow> k < r) \<and>
    (\<forall>m. l \<le> m \<and> m < k \<longrightarrow> a2 ! m \<le> p) \<and> (\<forall>m. k \<le> m \<and> m \<le> r \<longrightarrow> p \<le> a2 ! m)"
    by (rule partition_loop_Ret [OF lp]) (use assms(2) m1 lo hi in auto)
  then have l2: "perm_in l (r - 1) a1 a2" "a2 ! (r - 1) = p" "a2 ! r = a1 ! r" "l < k" "k \<le> r" "l < r - 1 \<Longrightarrow> k < r"
    "\<And>m. l \<le> m \<Longrightarrow> m < k \<Longrightarrow> a2 ! m \<le> p" "\<And>m. k \<le> m \<Longrightarrow> m \<le> r \<Longrightarrow> p \<le> a2 ! m" by auto
  from sw have b: "b = a2[k := a2 ! (r - 1), r - 1 := a2 ! k]" "k < length a2" "r - 1 < length a2"
    by (simp_all add: swap_Ret)
  have "perm_in l r a1 a2" using l2(1) by (rule perm_in_mono) auto
  moreover have "perm_in l r a2 b" using swap_perm [OF sw] l2(4,5) assms(2) by simp
  ultimately have perm: "perm_in l r a b" using m1(1) by (blast intro: perm_in_trans)
  have bk: "b ! k = (if k = r - 1 then a2 ! k else p)" "b ! (r - 1) = a2 ! k"
    "\<And>m. m \<noteq> k \<Longrightarrow> m \<noteq> r - 1 \<Longrightarrow> b ! m = a2 ! m" using b l2(2) by (auto simp: nth_list_update)
  show ?thesis
  proof (cases "r = l + 1")
    case True
    then have "k = r" using l2(4,5) by simp
    with True perm bk(1,2) l2(2,4,8) assms(2) show ?thesis by simp
  next
    case False
    then have k: "k < r" using l2(6) assms(2) by simp
    have p: "b ! k = p" using bk(1) l2(2) by simp
    have "b ! m \<le> b ! k" if "l \<le> m" "m < k" for m
      using l2(7) [OF that] bk(3) [of m] that k p by simp
    moreover have "b ! k \<le> b ! m" if "k \<le> m" "m \<le> r" for m
      using l2(8) [OF that] l2(8) [of k] bk(2) bk(3) [of m] p k that
      by (cases "m = k"; cases "m = r - 1") auto
    ultimately show ?thesis using perm l2(4) k False by simp
  qed
qed

lemma partition_loop_length:
  "partition_loop p i j a = Ret k b \<Longrightarrow> length b = length a \<and> i < k \<and> k < length a"
proof (induction p i j a rule: partition_loop.induct)
  case (1 p i j a)
  from "1.prems" obtain i' j' where up: "scan_up p i a = Ret i' a" and down: "scan_down p j a = Ret j' a" and
    rest: "(if i' < j' then obind (swap i' j' a) (\<lambda>_ a. partition_loop p i' j' a) else Ret i' a) = Ret k b"
    by (rule partition_loop_step)
  show ?case
  proof (cases "i' < j'")
    case True
    with rest obtain a' where sw: "swap i' j' a = Ret () a'" "partition_loop p i' j' a' = Ret k b" by auto
    with "1.IH" [OF up down True sw] scan_up_Ret [OF up] show ?thesis by (auto simp: swap_Ret)
  next
    case False
    with rest scan_up_Ret [OF up] show ?thesis by auto
  qed
qed

lemma median_partition_ok:
  assumes "l < r" "r < length a" "l + r < 2 ^ 31" "l + 1 < r \<or> 1 \<le> l \<and> (\<forall>m. l \<le> m \<and> m \<le> r \<longrightarrow> a ! (l - 1) \<le> a ! m)"
  shows "\<exists>k b. median_partition l r a = Ret k b"
proof -
  from media3_ok [OF assms(1-3)] obtain p a1 where m: "media3 l r a = Ret p a1" by blast
  note m1 = media3_Ret [OF m assms(1)] and len = media3_length [OF m]
  have "\<exists>j < r - 1. a1 ! j \<le> p"
  proof (cases "l + 1 < r")
    case True
    then show ?thesis using m1 by (intro exI [of _ l]) auto
  next
    case False
    with assms(4) have l: "1 \<le> l" "\<And>m. l \<le> m \<Longrightarrow> m \<le> r \<Longrightarrow> a ! (l - 1) \<le> a ! m" by auto
    have "a ! (l - 1) \<le> a1 ! l" by (rule perm_in_all [of l r a a1]) (use m1 l assms in auto)
    moreover have "a1 ! (l - 1) = a ! (l - 1)" using m1 l(1) by (simp add: perm_in_def)
    ultimately show ?thesis using m1 l(1) False assms(1) by (intro exI [of _ "l - 1"]) auto
  qed
  with partition_loop_ok [of l r "r - 1" a1 p] assms(1,2) len m1 obtain k a2 where
    lp: "partition_loop p l (r - 1) a1 = Ret k a2" by auto
  from partition_loop_length [OF lp] len assms(1,2) have "\<exists>b. swap k (r - 1) a2 = Ret () b" by (simp add: swap_Ret)
  with m lp show ?thesis by (auto simp: median_partition_def)
qed

section \<open>Quicksort with the median of three\<close>

lemma median_partition_length:
  "median_partition l r a = Ret k b \<Longrightarrow> length b = length a \<and> l < k \<and> k < length a \<and> 0 < r"
  by (auto simp: median_partition_def swap_Ret dest!: partition_loop_length media3_length)

function quicksort :: "nat \<Rightarrow> nat \<Rightarrow> unit arr_prog" where
  "quicksort left right a =
     (if right = left then Ret () a
      else obind (median_partition left right a) (\<lambda>i a.
        obind (if i > left then quicksort left (i - 1) a else Ret () a) (\<lambda>_ a.
          if right > i then quicksort (i + 1) right a else Ret () a)))"
  by pat_completeness auto
termination
proof (relation "measure (\<lambda>(l, r, a). if r < l then Suc (length a) else r - l)", goal_cases)
  case (2 l r a k b)
  then show ?case using median_partition_length [OF 2(2)] median_partition_Ret [OF 2(2)] by auto
next
  case (3 l r a k b u c)
  then show ?case using median_partition_length [OF 3(2)] by auto
qed simp

declare quicksort.simps [simp del]

section \<open>The simple quicksort\<close>

text \<open>\<open>while(i < j && a[j] >= pivotValue) j--\<close> and its mirror image.\<close>

function seek_down :: "int \<Rightarrow> nat \<Rightarrow> nat \<Rightarrow> nat arr_prog" where
  "seek_down pivot i j a =
     (if i < j then obind (elem j a) (\<lambda>x a. if x \<ge> pivot then seek_down pivot i (j - 1) a else Ret j a)
      else Ret j a)"
  by pat_completeness auto
termination by (relation "measure (\<lambda>(pivot, i, j, a). j)") auto

function seek_up :: "int \<Rightarrow> nat \<Rightarrow> nat \<Rightarrow> nat arr_prog" where
  "seek_up pivot i j a =
     (if i < j then obind (elem i a) (\<lambda>x a. if x \<le> pivot then seek_up pivot (i + 1) j a else Ret i a)
      else Ret i a)"
  by pat_completeness auto
termination by (relation "measure (\<lambda>(pivot, i, j, a). j - i)") auto

declare seek_down.simps [simp del] seek_up.simps [simp del]

definition move :: "nat \<Rightarrow> nat \<Rightarrow> unit arr_prog" where
  "move i j a = obind (elem j a) (\<lambda>x a. store i x a)"

lemma move_Ret: "move i j a = Ret u b \<longleftrightarrow> j < length a \<and> i < length a \<and> b = a[i := a ! j]"
  by (auto simp: move_def elem_def store_def)

lemma seek_down_Ret:
  "seek_down p i j a = Ret k b \<Longrightarrow> i \<le> j \<Longrightarrow>
   b = a \<and> i \<le> k \<and> k \<le> j \<and> (i < k \<longrightarrow> k < length a \<and> a ! k < p) \<and> (\<forall>m. k < m \<and> m \<le> j \<longrightarrow> p \<le> a ! m)"
proof (induction p i j a rule: seek_down.induct)
  case (1 p i j a)
  show ?case
  proof (cases "i < j \<and> j < length a \<and> p \<le> a ! j")
    case True
    with "1.prems"(1) have "seek_down p i (j - 1) a = Ret k b"
      unfolding seek_down.simps [of p i j a] by (simp add: elem_def)
    moreover have "i \<le> j - 1" using True by linarith
    ultimately have "b = a \<and> i \<le> k \<and> k \<le> j - 1 \<and> (i < k \<longrightarrow> k < length a \<and> a ! k < p) \<and>
      (\<forall>m. k < m \<and> m \<le> j - 1 \<longrightarrow> p \<le> a ! m)" using "1.IH" [of "a ! j" a] True by simp
    moreover have "m \<le> j - 1 \<or> m = j" if "m \<le> j" for m using that by linarith
    ultimately show ?thesis using True by auto
  next
    case False
    with "1.prems" show ?thesis
      unfolding seek_down.simps [of p i j a] by (auto split: if_splits)
  qed
qed

lemma seek_up_Ret:
  "seek_up p i j a = Ret k b \<Longrightarrow> i \<le> j \<Longrightarrow>
   b = a \<and> i \<le> k \<and> k \<le> j \<and> (k < j \<longrightarrow> k < length a \<and> p < a ! k) \<and> (\<forall>m. i \<le> m \<and> m < k \<longrightarrow> a ! m \<le> p)"
proof (induction p i j a rule: seek_up.induct)
  case (1 p i j a)
  show ?case
  proof (cases "i < j \<and> i < length a \<and> a ! i \<le> p")
    case True
    with "1.prems"(1) have "seek_up p (i + 1) j a = Ret k b"
      unfolding seek_up.simps [of p i j a] by (simp add: elem_def)
    with "1.IH" [of "a ! i" a] True have "b = a \<and> i + 1 \<le> k \<and> k \<le> j \<and> (k < j \<longrightarrow> k < length a \<and> p < a ! k) \<and>
      (\<forall>m. i + 1 \<le> m \<and> m < k \<longrightarrow> a ! m \<le> p)" by simp
    moreover have "i + 1 \<le> m \<or> m = i" if "i \<le> m" for m using that by linarith
    ultimately show ?thesis using True by auto
  next
    case False
    with "1.prems" show ?thesis
      unfolding seek_up.simps [of p i j a] by (auto split: if_splits)
  qed
qed

text \<open>
  \<open>partition\<close> keeps a hole at \<open>i\<close> or at \<open>j\<close>; \<open>partition_swap\<close> keeps the pivot there. At the head
  of its loop \<open>pivotIndex\<close> is \<open>i\<close>, and \<open>j\<close> in the middle.
\<close>

function hole_loop :: "int \<Rightarrow> nat \<Rightarrow> nat \<Rightarrow> nat arr_prog" where
  "hole_loop pivot i j a =
     (if i < j then
        obind (seek_down pivot i j a) (\<lambda>j a. obind (move i j a) (\<lambda>_ a.
        obind (seek_up pivot i j a) (\<lambda>i a. obind (move j i a) (\<lambda>_ a. hole_loop pivot i j a))))
      else Ret i a)"
  by pat_completeness auto
termination
proof (relation "measure (\<lambda>(pivot, i, j, a). j - i)", goal_cases)
  case (2 p i j a j' a1 u a2 i' a3 v a4)
  have d: "a1 = a" "i \<le> j'" "j' \<le> j" "i < j' \<Longrightarrow> a ! j' < p" using seek_down_Ret [OF 2(2)] 2(1) by auto
  have a2: "a2 = a[i := a ! j']" "i < length a" using 2(3) d(1) by (simp_all add: move_Ret)
  have u: "i \<le> i'" "i' \<le> j'" "i' < j' \<Longrightarrow> p < a2 ! i'" using seek_up_Ret [OF 2(4)] d(2) by auto
  show ?case
  proof (cases "i' = i \<and> i < j'")
    case True
    with u(3) d(4) a2 show ?thesis by simp
  next
    case False
    with u(1,2) d(2,3) 2(1) show ?thesis by auto
  qed
qed simp

function swap_loop :: "int \<Rightarrow> nat \<Rightarrow> nat \<Rightarrow> nat arr_prog" where
  "swap_loop pivot i j a =
     (if i < j then
        obind (seek_down pivot i j a) (\<lambda>j a. obind (swap j i a) (\<lambda>_ a.
        obind (seek_up pivot i j a) (\<lambda>i a. obind (swap i j a) (\<lambda>_ a. swap_loop pivot i j a))))
      else Ret i a)"
  by pat_completeness auto
termination
proof (relation "measure (\<lambda>(pivot, i, j, a). j - i)", goal_cases)
  case (2 p i j a j' a1 u a2 i' a3 v a4)
  have d: "a1 = a" "i \<le> j'" "j' \<le> j" "i < j' \<Longrightarrow> a ! j' < p" using seek_down_Ret [OF 2(2)] 2(1) by auto
  have a2: "a2 = a[j' := a ! i, i := a ! j']" "i < length a" using 2(3) d(1) by (simp_all add: swap_Ret)
  have u: "i \<le> i'" "i' \<le> j'" "i' < j' \<Longrightarrow> p < a2 ! i'" using seek_up_Ret [OF 2(4)] d(2) by auto
  show ?case
  proof (cases "i' = i \<and> i < j'")
    case True
    with u(3) d(4) a2 show ?thesis by simp
  next
    case False
    with u(1,2) d(2,3) 2(1) show ?thesis by auto
  qed
qed simp

declare hole_loop.simps [simp del] swap_loop.simps [simp del]

definition partition_hole :: "nat \<Rightarrow> nat \<Rightarrow> nat arr_prog" where
  "partition_hole low high a = obind (elem low a) (\<lambda>pivot a.
     obind (hole_loop pivot low high a) (\<lambda>i a. obind (store i pivot a) (\<lambda>_ a. Ret i a)))"

definition partition_swap :: "nat \<Rightarrow> nat \<Rightarrow> nat arr_prog" where
  "partition_swap low high a = obind (elem low a) (\<lambda>pivot a. swap_loop pivot low high a)"

lemma swap_loop_bounds:
  "swap_loop p i j a = Ret k b \<Longrightarrow> i \<le> k \<and> k \<le> max i j"
proof (induction p i j a rule: swap_loop.induct)
  case (1 p i j a)
  show ?case
  proof (cases "i < j")
    case True
    with "1.prems" obtain j' a1 a2 i' a3 a4 where steps: "seek_down p i j a = Ret j' a1" "swap j' i a1 = Ret () a2"
      "seek_up p i j' a2 = Ret i' a3" "swap i' j' a3 = Ret () a4" "swap_loop p i' j' a4 = Ret k b"
      unfolding swap_loop.simps [of p i j a] by auto
    with "1.IH" [OF True steps(1-4) steps(5)] seek_down_Ret [OF steps(1)] seek_up_Ret [OF steps(3)] True
    show ?thesis by auto
  next
    case False
    with "1.prems" show ?thesis unfolding swap_loop.simps [of p i j a] by simp
  qed
qed

function simple_quicksort :: "nat \<Rightarrow> nat \<Rightarrow> unit arr_prog" where
  "simple_quicksort low high a =
     (if high = low then Ret () a
      else obind (partition_swap low high a) (\<lambda>loc a.
        obind (if loc > low then simple_quicksort low (loc - 1) a else Ret () a) (\<lambda>_ a.
          if loc < high then simple_quicksort (loc + 1) high a else Ret () a)))"
  by pat_completeness auto
termination
  by (relation "measure (\<lambda>(l, h, a). h - l)")
    (auto simp: partition_swap_def dest!: swap_loop_bounds split: if_splits)

declare simple_quicksort.simps [simp del]

end
