(* ===== verification/SortProps.thy ===== *)
theory SortProps
  imports Sorting
begin

text \<open>
  What the two sorting exercises do: \<open>quicksort\<close> terminates and permutes, but leaves pairs in
  descending order, so it only nearly sorts; the simple quicksort sorts, and its two ways of
  partitioning agree.
\<close>

section \<open>Quicksort with the median of three\<close>

definition nearly_sorted :: "nat \<Rightarrow> nat \<Rightarrow> int list \<Rightarrow> bool" where
  "nearly_sorted l r b \<longleftrightarrow> (\<forall>i j. l \<le> i \<and> i + 2 \<le> j \<and> j \<le> r \<longrightarrow> b ! i \<le> b ! j)"

lemma median_partition_pivot:
  assumes "median_partition l r a = Ret k b" "l < r"
  shows "k < r \<and> (\<forall>m. l \<le> m \<and> m < k \<longrightarrow> b ! m \<le> b ! k) \<and> (\<forall>m. k \<le> m \<and> m \<le> r \<longrightarrow> b ! k \<le> b ! m)
    \<or> k = r \<and> r = l + 1"
  using median_partition_Ret [OF assms] assms(2) by (cases "r = l + 1") auto

text \<open>A part nearly sorted on both sides of a pivot in its place is nearly sorted.\<close>

lemma nearly_sorted_join:
  assumes "nearly_sorted l (k - 1) b" "nearly_sorted (k + 1) r b"
    "\<And>m. l \<le> m \<Longrightarrow> m < k \<Longrightarrow> b ! m \<le> b ! k" "\<And>m. k < m \<Longrightarrow> m \<le> r \<Longrightarrow> b ! k \<le> b ! m"
  shows "nearly_sorted l r b"
  unfolding nearly_sorted_def
proof (intro allI impI)
  fix i j assume ij: "l \<le> i \<and> i + 2 \<le> j \<and> j \<le> r"
  consider "j < k" | "i < k" "k \<le> j" | "k = i" | "k < i" using ij by linarith
  then show "b ! i \<le> b ! j"
  proof cases
    case 1
    with assms(1) ij show ?thesis by (simp add: nearly_sorted_def)
  next
    case 2
    with assms(3) [of i] assms(4) [of j] ij show ?thesis by (cases "k = j") (auto intro: order_trans)
  next
    case 3
    with assms(4) [of j] ij show ?thesis by simp
  next
    case 4
    with assms(2) ij show ?thesis by (simp add: nearly_sorted_def)
  qed
qed

lemma perm_in_outside: "perm_in l r a b \<Longrightarrow> m < l \<or> r < m \<Longrightarrow> b ! m = a ! m"
  unfolding perm_in_def by blast

lemma nearly_sorted_cong: "(\<And>m. l \<le> m \<Longrightarrow> m \<le> r \<Longrightarrow> a ! m = b ! m) \<Longrightarrow> nearly_sorted l r a = nearly_sorted l r b"
  by (auto simp: nearly_sorted_def)

text \<open>The two recursive calls after a partition, for any slice of at least two elements.\<close>

lemma quicksort_step:
  assumes "l < r" "r < length a" "median_partition l r a = Ret k b"
    "quicksort l (k - 1) b = Ret () c" "perm_in l (k - 1) b c" "nearly_sorted l (k - 1) c"
    "k < r \<Longrightarrow> quicksort (k + 1) r c = Ret () d \<and> perm_in (k + 1) r c d \<and> nearly_sorted (k + 1) r d"
    "\<not> k < r \<Longrightarrow> d = c"
  shows "quicksort l r a = Ret () d \<and> perm_in l r a d \<and> nearly_sorted l r d"
proof -
  note mp = median_partition_Ret [OF assms(3,1)]
  have k: "l < k" "k \<le> r" using mp by auto
  have qs: "quicksort l r a = Ret () d"
    using assms(1,3,4,7,8) k by (subst quicksort.simps) auto
  have "perm_in l r b c" using assms(5) k by (auto intro: perm_in_mono)
  moreover have "perm_in l r c d" using assms(7,8) k by (cases "k < r") (auto intro: perm_in_mono)
  ultimately have perm: "perm_in l r a d" using mp by (blast intro: perm_in_trans)
  have near: "nearly_sorted l r d"
  proof (cases "k < r")
    case False
    with median_partition_pivot [OF assms(3,1)] show ?thesis by (auto simp: nearly_sorted_def)
  next
    case True
    then have le: "\<And>m. l \<le> m \<Longrightarrow> m < k \<Longrightarrow> b ! m \<le> b ! k" "\<And>m. k \<le> m \<Longrightarrow> m \<le> r \<Longrightarrow> b ! k \<le> b ! m"
      using median_partition_pivot [OF assms(3,1)] by auto
    have len: "length b = length a" "length c = length a"
      using mp assms(5) by (auto simp: perm_in_def)
    have 7: "perm_in (k + 1) r c d" "nearly_sorted (k + 1) r d" using assms(7) True by auto
    have ck: "c ! k = b ! k" and dk: "d ! k = b ! k"
      using perm_in_outside [OF assms(5), of k] perm_in_outside [OF 7(1), of k] k by auto
    have low: "d ! m \<le> d ! k" if "l \<le> m" "m < k" for m
    proof -
      have "c ! m \<le> b ! k"
        by (rule perm_in_all [OF assms(5)]) (use that k assms(2) len le(1) in auto)
      then show ?thesis using perm_in_outside [OF 7(1), of m] that dk by simp
    qed
    have high: "d ! k \<le> d ! m" if "k < m" "m \<le> r" for m
    proof -
      have "b ! k \<le> d ! m"
        by (rule perm_in_all [OF 7(1)])
          (use that assms(2) len le(2) perm_in_outside [OF assms(5)] k in auto)
      then show ?thesis by (simp add: dk)
    qed
    have "c ! m = d ! m" if "m \<le> k - 1" for m 
    proof -
      have "m < k + 1" using that by linarith
      then show ?thesis using perm_in_outside [OF 7(1), of m] by simp
    qed
    then have "nearly_sorted l (k - 1) d"
      using assms(6) nearly_sorted_cong [of l "k - 1" c d] by blast
    then show ?thesis using 7(2) low high by (rule nearly_sorted_join)
  qed
  show ?thesis using qs perm near by blast
qed

text \<open>With the least element in front of the slice, quicksort returns.\<close>

lemma quicksort_spec:
  assumes "l \<le> r" "r < length a" "length a \<le> 2 ^ 30" "l < r \<Longrightarrow> 1 \<le> l \<and> (\<forall>m. l \<le> m \<and> m \<le> r \<longrightarrow> a ! (l - 1) \<le> a ! m)"
  shows "\<exists>b. quicksort l r a = Ret () b \<and> perm_in l r a b \<and> nearly_sorted l r b"
  using assms
proof (induction "r - l" arbitrary: l r a rule: less_induct)
  case less
  show ?case
  proof (cases "l = r")
    case True
    then show ?thesis by (subst quicksort.simps) (simp add: nearly_sorted_def)
  next
    case False
    with less.prems have lr: "l < r" "1 \<le> l" "\<And>m. l \<le> m \<Longrightarrow> m \<le> r \<Longrightarrow> a ! (l - 1) \<le> a ! m" by auto
    from median_partition_ok [of l r a] lr less.prems obtain k b where mp: "median_partition l r a = Ret k b" by auto
    note m = median_partition_Ret [OF mp lr(1)]
    have b: "perm_in l r a b" "length b = length a" and k: "l < k" "k \<le> r" using m by (auto simp: perm_in_def)
    have sb: "b ! (l - 1) \<le> b ! j" if "l \<le> j" "j \<le> r" for j
    proof -
      have "a ! (l - 1) \<le> b ! j" by (rule perm_in_all [OF b(1)]) (use less.prems lr that in auto)
      then show ?thesis using perm_in_outside [OF b(1), of "l - 1"] lr(2) by simp
    qed
    from less.hyps [of "k - 1" l b] k b(2) lr sb less.prems obtain c where
      c: "quicksort l (k - 1) b = Ret () c" "perm_in l (k - 1) b c" "nearly_sorted l (k - 1) c" by fastforce
    show ?thesis
    proof (cases "k < r")
      case False
      then show ?thesis using quicksort_step [OF lr(1) less.prems(2) mp c, of c] by auto
    next
      case True
      have pv: "\<And>m. k \<le> m \<Longrightarrow> m \<le> r \<Longrightarrow> b ! k \<le> b ! m"
        using median_partition_pivot [OF mp lr(1)] True by auto
      have "c ! k \<le> c ! j" if "k < j" "j \<le> r" for j
        using pv [of j] perm_in_outside [OF c(2)] k that by simp
      moreover have "r - (k + 1) < r - l" using k True by linarith
      ultimately have IH: "\<exists>d. quicksort (k + 1) r c = Ret () d \<and> perm_in (k + 1) r c d \<and> nearly_sorted (k + 1) r d"
        using less.hyps [of r "k + 1" c] b(2) perm_in_length [OF c(2)] True less.prems by simp
      then obtain d where
        "quicksort (k + 1) r c = Ret () d \<and> perm_in (k + 1) r c d \<and> nearly_sorted (k + 1) r d" by blast
      then show ?thesis using quicksort_step [OF lr(1) less.prems(2) mp c, of d] True by auto
    qed
  qed
qed

text \<open>
  C33. \<open>quicksort\<close> on a slice that has an element before it which is at most all of its elements
  returns; it only permutes the slice, and every element is at most one place away from where
  sorting would put it: elements two or more places apart are in order.
\<close>

theorem quicksort_nearly_sorts:
  assumes "1 \<le> l" "l \<le> r" "r < length a" "length a \<le> 2 ^ 30" "\<And>m. l \<le> m \<Longrightarrow> m \<le> r \<Longrightarrow> a ! (l - 1) \<le> a ! m"
  shows "\<exists>b. quicksort l r a = Ret () b \<and> length b = length a \<and> mset b = mset a \<and>
    (\<forall>m. m < l \<or> r < m \<longrightarrow> b ! m = a ! m) \<and> (\<forall>i j. l \<le> i \<and> i + 2 \<le> j \<and> j \<le> r \<longrightarrow> b ! i \<le> b ! j)"
  using quicksort_spec [of l r a] assms by (auto simp: perm_in_def nearly_sorted_def)

theorem quicksort_nearly_sorts_witness:
  "\<exists>b. quicksort 1 4 [0, 3, 1, 4, 1] = Ret () b \<and> mset b = {#0, 3, 1, 4, 1#} \<and> b ! 1 \<le> b ! 3"
proof -
  have "[0, 3, 1, 4, 1] ! (1 - 1) \<le> ([0, 3, 1, 4, 1] :: int list) ! m" if "1 \<le> m" "m \<le> 4" for m
  proof -
    from that have "m \<in> {1, 2, 3, 4}" by auto
    then show ?thesis by auto
  qed
  from quicksort_nearly_sorts [OF _ _ _ _ this, of 4] obtain b where
    b: "quicksort 1 4 [0, 3, 1, 4, 1] = Ret () b" "mset b = mset [0, 3, 1, 4, 1]"
    "\<forall>i j. 1 \<le> i \<and> i + 2 \<le> j \<and> j \<le> 4 \<longrightarrow> b ! i \<le> b ! j" by auto
  then have "b ! 1 \<le> b ! 3" by simp
  with b show ?thesis by auto
qed

text \<open>
  C34. A slice of two elements comes out in descending order: \<open>i\<close> runs on to the second element
  and the last swap exchanges it with the pivot. At the start of the array \<open>j\<close> runs to index
  -1 instead, which is undefined.
\<close>

theorem quicksort_reverses_pair:
  assumes "l + 1 < length a" "length a \<le> 2 ^ 30" "l = 0 \<or> a ! (l - 1) \<le> min (a ! l) (a ! (l + 1))"
  shows "if l = 0 then \<exists>b. quicksort l (l + 1) a = Fault b
    else \<exists>b. quicksort l (l + 1) a = Ret () b \<and> mset b = mset a \<and>
      (\<forall>m. m < l \<or> l + 1 < m \<longrightarrow> b ! m = a ! m) \<and> b ! (l + 1) \<le> b ! l"
proof (cases "l = 0")
  case True
  from media3_ok [of l "l + 1" a] assms obtain p b where m: "media3 l (l + 1) a = Ret p b" by auto
  from media3_Ret [OF m] have "perm_in l (l + 1) a b" "p \<le> b ! (l + 1)" by auto
  with scan_up_ok [of l "l + 1" b p] assms(1) obtain k where "scan_up p l b = Ret k b" by (auto simp: perm_in_def)
  with m True have "median_partition l (l + 1) a = Fault b"
    by (simp add: median_partition_def partition_loop.simps)
  with True show ?thesis by (simp add: quicksort.simps)
next
  case False
  then have sent: "a ! (l - 1) \<le> a ! m" if "l \<le> m" "m \<le> l + 1" for m
    using assms(3) that by (cases "m = l") (auto simp: le_Suc_eq)
  from median_partition_ok [of l "l + 1" a] sent assms(1,2) False obtain k b where
    mp: "median_partition l (l + 1) a = Ret k b" by auto
  from median_partition_Ret [OF mp] have
    b: "perm_in l (l + 1) a b" "k = l + 1" "b ! (l + 1) \<le> b ! l" by auto
  have "quicksort l (l + 1) a = Ret () b"
    using mp b(2) by (subst quicksort.simps) (simp add: quicksort.simps [of l l])
  with b False show ?thesis by (auto simp: perm_in_def)
qed

theorem quicksort_reverses_pair_witness:
  "(\<exists>b. quicksort 0 1 [3, 5] = Fault b) \<and> (\<exists>b. quicksort 1 2 [0, 3, 5] = Ret () b \<and> b ! 2 \<le> b ! 1)"
proof
  show "\<exists>b. quicksort 0 1 [3, 5] = Fault b" using quicksort_reverses_pair [of 0 "[3, 5]"] by simp
  have two: "1 + 1 = (2 :: nat)" by simp
  from quicksort_reverses_pair [of 1 "[0, 3, 5]", unfolded two]
  show "\<exists>b. quicksort 1 2 [0, 3, 5] = Ret () b \<and> b ! 2 \<le> b ! 1" by simp blast
qed

section \<open>The simple quicksort\<close>

lemma seek_down_ok: "j < length a \<Longrightarrow> \<exists>k. seek_down p i j a = Ret k a"
proof (induction j)
  case (Suc j)
  then show ?case by (subst seek_down.simps) (auto simp: elem_def)
qed (simp add: seek_down.simps)

lemma seek_up_ok: "i \<le> j \<Longrightarrow> j < length a \<Longrightarrow> \<exists>k. seek_up p i j a = Ret k a"
proof (induction "j - i" arbitrary: i)
  case 0
  then show ?case by (simp add: seek_up.simps)
next
  case (Suc n)
  from Suc.hyps(1) [of "i + 1"] Suc.hyps(2) Suc.prems have "\<exists>k. seek_up p (i + 1) j a = Ret k a" by simp
  with Suc show ?case by (subst seek_up.simps) (auto simp: elem_def)
qed

text \<open>One round of \<open>partition_swap\<close>: where the two indices stop and what the array becomes.\<close>

lemma swap_round:
  assumes "i < j" "j < length a"
  obtains j' i' where "seek_down p i j a = Ret j' a" "i \<le> j'" "j' \<le> j" "i < j' \<Longrightarrow> a ! j' < p"
    "\<And>m. j' < m \<Longrightarrow> m \<le> j \<Longrightarrow> p \<le> a ! m"
    "seek_up p i j' (a[j' := a ! i, i := a ! j']) = Ret i' (a[j' := a ! i, i := a ! j'])" "i \<le> i'" "i' \<le> j'"
    "i' < j' \<Longrightarrow> p < (a[j' := a ! i, i := a ! j']) ! i'"
    "\<And>m. i \<le> m \<Longrightarrow> m < i' \<Longrightarrow> (a[j' := a ! i, i := a ! j']) ! m \<le> p"
proof -
  from seek_down_ok [OF assms(2)] obtain j' where d: "seek_down p i j a = Ret j' a" by blast
  note dd = seek_down_Ret [OF d less_imp_le [OF assms(1)]]
  from seek_up_ok [of i j' "a[j' := a ! i, i := a ! j']" p] dd assms(2) obtain i' where
    u: "seek_up p i j' (a[j' := a ! i, i := a ! j']) = Ret i' (a[j' := a ! i, i := a ! j'])" by auto
  note uu = seek_up_Ret [OF u]
  show thesis by (rule that [OF d _ _ _ _ u]) (use dd uu in auto)
qed

lemma swap_loop_spec:
  assumes "l \<le> i" "i \<le> j" "j \<le> r" "r < length a" "a ! i = p"
    "\<And>m. l \<le> m \<Longrightarrow> m < i \<Longrightarrow> a ! m \<le> p" "\<And>m. j < m \<Longrightarrow> m \<le> r \<Longrightarrow> p \<le> a ! m"
  shows "\<exists>k b. swap_loop p i j a = Ret k b \<and> perm_in l r a b \<and> i \<le> k \<and> k \<le> j \<and> b ! k = p \<and>
    (\<forall>m. l \<le> m \<and> m < k \<longrightarrow> b ! m \<le> p) \<and> (\<forall>m. k < m \<and> m \<le> r \<longrightarrow> p \<le> b ! m)"
  using assms
proof (induction "j - i" arbitrary: i j a rule: less_induct)
  case less
  show ?case
  proof (cases "i < j")
    case False
    then have "swap_loop p i j a = Ret i a" by (simp add: swap_loop.simps)
    with False less.prems show ?thesis by auto
  next
    case True
    have jl: "j < length a" using less.prems(3,4) by simp
    from swap_round [OF True jl, of p] obtain j' i' where
      d: "seek_down p i j a = Ret j' a" "i \<le> j'" "j' \<le> j" "i < j' \<Longrightarrow> a ! j' < p"
        "\<And>m. j' < m \<Longrightarrow> m \<le> j \<Longrightarrow> p \<le> a ! m" and
      u: "seek_up p i j' (a[j' := a ! i, i := a ! j']) = Ret i' (a[j' := a ! i, i := a ! j'])" "i \<le> i'" "i' \<le> j'"
        "i' < j' \<Longrightarrow> p < (a[j' := a ! i, i := a ! j']) ! i'"
        "\<And>m. i \<le> m \<Longrightarrow> m < i' \<Longrightarrow> (a[j' := a ! i, i := a ! j']) ! m \<le> p" by blast
    define a1 where "a1 = a[j' := a ! i, i := a ! j']"
    define a2 where "a2 = a1[i' := a1 ! j', j' := a1 ! i']"
    have len: "length a1 = length a" "length a2 = length a" by (simp_all add: a1_def a2_def)
    have s1: "swap j' i a = Ret () a1" and s2: "swap i' j' a1 = Ret () a2"
      using d(2,3) u(2,3) jl len by (simp_all add: swap_Ret a1_def a2_def)
    have loop: "swap_loop p i j a = swap_loop p i' j' a2"
      using True d(1) s1 u(1) s2 by (subst swap_loop.simps) (simp add: a1_def)
    have a1: "a1 ! j' = p" "\<And>m. m \<noteq> i \<Longrightarrow> m \<noteq> j' \<Longrightarrow> a1 ! m = a ! m"
      using less.prems(5) d(2,3) jl by (auto simp: a1_def nth_list_update)
    have a2: "a2 ! i' = p" "\<And>m. m < i' \<Longrightarrow> a2 ! m = a1 ! m" "\<And>m. j' < m \<Longrightarrow> a2 ! m = a1 ! m" "i' < j' \<Longrightarrow> a2 ! j' = a1 ! i'"
      using a1(1) u(2,3) d(2,3) jl len by (auto simp: a2_def nth_list_update)
    have progress: "j' - i' < j - i"
    proof (cases "i' = i \<and> i < j'")
      case True
      then have "a1 ! i = a ! j'" using d(3) jl by (simp add: a1_def nth_list_update)
      with True u(4) d(4) show ?thesis by (simp add: a1_def [symmetric])
    next
      case False
      with u(2,3) d(2,3) True show ?thesis by auto
    qed
    have low: "a2 ! m \<le> p" if "l \<le> m" "m < i'" for m
    proof (cases "m < i")
      case True
      with that a2(2) a1(2) [of m] d(2) less.prems(6) show ?thesis by simp
    next
      case False
      with that a2(2) u(5) [of m] show ?thesis by (simp add: a1_def [symmetric])
    qed
    have high: "p \<le> a2 ! m" if "j' < m" "m \<le> r" for m
    proof -
      have "a2 ! m = a ! m" using that a2(3) a1(2) [of m] d(2) by simp
      with that d(5) less.prems(7) show ?thesis by (cases "m \<le> j") auto
    qed
    have "perm_in l r a a1" "perm_in l r a1 a2"
      using swap_perm [OF s1] swap_perm [OF s2] less.prems(1,3) d(2,3) u(2,3) by simp_all
    then have perm: "perm_in l r a a2" by (rule perm_in_trans)
    have "\<exists>k b. swap_loop p i' j' a2 = Ret k b \<and> perm_in l r a2 b \<and> i' \<le> k \<and> k \<le> j' \<and> b ! k = p \<and>
        (\<forall>m. l \<le> m \<and> m < k \<longrightarrow> b ! m \<le> p) \<and> (\<forall>m. k < m \<and> m \<le> r \<longrightarrow> p \<le> b ! m)"
      by (rule less.hyps [OF progress _ u(3)]) (use less.prems d u len a2(1) low high in auto)
    then obtain k b where "swap_loop p i' j' a2 = Ret k b" "perm_in l r a2 b" "i' \<le> k" "k \<le> j'" "b ! k = p"
      "\<forall>m. l \<le> m \<and> m < k \<longrightarrow> b ! m \<le> p" "\<forall>m. k < m \<and> m \<le> r \<longrightarrow> p \<le> b ! m" by blast
    with perm u(2) d(3) show ?thesis unfolding loop by (intro exI [of _ k] exI [of _ b]) (auto intro: perm_in_trans)
  qed
qed

definition sorted_in :: "nat \<Rightarrow> nat \<Rightarrow> int list \<Rightarrow> bool" where
  "sorted_in l r b \<longleftrightarrow> (\<forall>i j. l \<le> i \<and> i \<le> j \<and> j \<le> r \<longrightarrow> b ! i \<le> b ! j)"

lemma sorted_in_join:
  assumes "k = l \<or> sorted_in l (k - 1) b" "k = r \<or> sorted_in (k + 1) r b"
    "\<And>m. l \<le> m \<Longrightarrow> m < k \<Longrightarrow> b ! m \<le> b ! k" "\<And>m. k < m \<Longrightarrow> m \<le> r \<Longrightarrow> b ! k \<le> b ! m"
  shows "sorted_in l r b"
  unfolding sorted_in_def
proof (intro allI impI)
  fix i j assume ij: "l \<le> i \<and> i \<le> j \<and> j \<le> r"
  consider "j < k" | "i < k" "k \<le> j" | "k = i" | "k < i" using ij by linarith
  then show "b ! i \<le> b ! j"
  proof cases
    case 1
    with assms(1) ij show ?thesis by (auto simp: sorted_in_def)
  next
    case 2
    with assms(3) [of i] assms(4) [of j] ij show ?thesis by (cases "k = j") (auto intro: order_trans)
  next
    case 3
    with assms(4) [of j] ij show ?thesis by (cases "i = j") auto
  next
    case 4
    with assms(2) ij show ?thesis by (auto simp: sorted_in_def)
  qed
qed

lemma sorted_in_single: "sorted_in l l b"
  unfolding sorted_in_def by (metis le_antisym le_trans order_refl)

lemma sorted_in_cong: "(\<And>m. l \<le> m \<Longrightarrow> m \<le> r \<Longrightarrow> a ! m = b ! m) \<Longrightarrow> sorted_in l r a = sorted_in l r b"
  by (auto simp: sorted_in_def)

lemma simple_quicksort_spec:
  assumes "l \<le> r" "r < length a"
  shows "\<exists>b. simple_quicksort l r a = Ret () b \<and> perm_in l r a b \<and> sorted_in l r b"
  using assms
proof (induction "r - l" arbitrary: l r a rule: less_induct)
  case less
  show ?case
  proof (cases "l = r")
    case True
    then show ?thesis by (subst simple_quicksort.simps) (simp add: sorted_in_single)
  next
    case False
    with less.prems have lr: "l < r" by simp
    have "\<exists>k b. swap_loop (a ! l) l r a = Ret k b \<and> perm_in l r a b \<and> l \<le> k \<and> k \<le> r \<and> b ! k = a ! l \<and>
      (\<forall>m. l \<le> m \<and> m < k \<longrightarrow> b ! m \<le> a ! l) \<and> (\<forall>m. k < m \<and> m \<le> r \<longrightarrow> a ! l \<le> b ! m)"
      by (rule swap_loop_spec) (use less.prems in auto)
    then obtain k b where sp: "swap_loop (a ! l) l r a = Ret k b" "perm_in l r a b" "l \<le> k" "k \<le> r"
      "\<And>m. l \<le> m \<Longrightarrow> m < k \<Longrightarrow> b ! m \<le> b ! k" "\<And>m. k < m \<Longrightarrow> m \<le> r \<Longrightarrow> b ! k \<le> b ! m" by auto
    have len: "length b = length a" using sp(2) by (rule perm_in_length)
    have "\<exists>c. (if k > l then simple_quicksort l (k - 1) b else Ret () b) = Ret () c \<and> perm_in l (k - 1) b c \<and>
      (k = l \<and> c = b \<or> sorted_in l (k - 1) c \<and> l < k)"
      using less.hyps [of "k - 1" l b] sp(3,4) lr less.prems len by (cases "k > l") auto
    then obtain c where c: "(if k > l then simple_quicksort l (k - 1) b else Ret () b) = Ret () c"
      "perm_in l (k - 1) b c" "k = l \<and> c = b \<or> sorted_in l (k - 1) c \<and> l < k" by blast
    have "\<exists>d. (if k < r then simple_quicksort (k + 1) r c else Ret () c) = Ret () d \<and> perm_in (k + 1) r c d \<and>
      (k = r \<or> sorted_in (k + 1) r d)"
      using less.hyps [of r "k + 1" c] sp(3,4) lr less.prems len perm_in_length [OF c(2)] by (cases "k < r") auto
    then obtain d where d: "(if k < r then simple_quicksort (k + 1) r c else Ret () c) = Ret () d"
      "perm_in (k + 1) r c d" "k = r \<or> sorted_in (k + 1) r d" by blast
    have run: "simple_quicksort l r a = Ret () d"
      using sp(1) c(1) d(1) False less.prems lr
      by (subst simple_quicksort.simps) (simp add: partition_swap_def elem_def)
    have "perm_in l r b c" "perm_in l r c d" using c(2) d(2) sp(3,4) lr by (auto elim: perm_in_mono)
    with sp(2) have perm: "perm_in l r a d" by (blast intro: perm_in_trans)
    have dlow: "d ! m = c ! m" if "m \<le> k" for m using perm_in_outside [OF d(2), of m] that by simp
    have chigh: "c ! m = b ! m" if "k \<le> m" for m
      using c(3) perm_in_outside [OF c(2), of m] that by (cases "k = l") auto
    have dk: "d ! k = b ! k" using dlow [of k] chigh [of k] by simp
    have low: "d ! m \<le> d ! k" if "l \<le> m" "m < k" for m
    proof -
      have "c ! m \<le> b ! k"
        by (rule perm_in_all [OF c(2)]) (use that sp(4,5) less.prems len in auto)
      with that dlow dk show ?thesis by simp
    qed
    have high: "d ! k \<le> d ! m" if "k < m" "m \<le> r" for m
    proof -
      have "b ! k \<le> d ! m"
        by (rule perm_in_all [OF d(2)])
          (use that less.prems len perm_in_length [OF c(2)] sp(6) chigh in auto)
      with dk show ?thesis by simp
    qed
    have "k = l \<or> sorted_in l (k - 1) d"
      using c(3) sorted_in_cong [of l "k - 1" c d] dlow by auto
    then have "sorted_in l r d" using d(3) low high by (rule sorted_in_join)
    with run perm show ?thesis by blast
  qed
qed

text \<open>
  C35. The simple quicksort sorts any slice of the array and touches nothing else, without an
  access outside the slice.
\<close>

theorem simple_quicksort_sorts:
  assumes "l \<le> r" "r < length a"
  shows "\<exists>b. simple_quicksort l r a = Ret () b \<and> length b = length a \<and> mset b = mset a \<and>
    (\<forall>m. m < l \<or> r < m \<longrightarrow> b ! m = a ! m) \<and> sorted (take (r + 1 - l) (drop l b))"
proof -
  from simple_quicksort_spec [OF assms] obtain b where
    b: "simple_quicksort l r a = Ret () b" "perm_in l r a b" "sorted_in l r b" by blast
  have "sorted (take (r + 1 - l) (drop l b))"
    using b(3) assms perm_in_length [OF b(2)] by (auto simp: sorted_in_def sorted_iff_nth_mono)
  with b show ?thesis by (auto simp: perm_in_def)
qed

theorem simple_quicksort_sorts_witness:
  "\<exists>b. simple_quicksort 0 3 [49, 38, 65, 38] = Ret () b \<and> mset b = {#49, 38, 65, 38#} \<and> sorted b"
proof -
  from simple_quicksort_sorts [of 0 3 "[49, 38, 65, 38]"] obtain b where
    "simple_quicksort 0 3 [49, 38, 65, 38] = Ret () b" "length b = 4" "mset b = {#49, 38, 65, 38#}"
    "sorted (take 4 b)" by auto
  then show ?thesis by auto
qed

section \<open>The two ways to partition\<close>

lemma seek_down_cong:
  assumes "seek_down p i j a = Ret k a" "length b = length a" "\<And>m. i < m \<Longrightarrow> m \<le> j \<Longrightarrow> b ! m = a ! m"
  shows "seek_down p i j b = Ret k b"
  using assms(1,3)
proof (induction j)
  case 0
  then show ?case by (simp add: seek_down.simps)
next
  case (Suc j)
  then show ?case using assms(2)
    by (auto simp: seek_down.simps [of p i "Suc j"] elem_def split: if_splits)
qed

lemma seek_up_cong:
  assumes "seek_up p i j a = Ret k a" "length b = length a" "\<And>m. i \<le> m \<Longrightarrow> m < j \<Longrightarrow> b ! m = a ! m"
  shows "seek_up p i j b = Ret k b"
  using assms(1,3)
proof (induction "j - i" arbitrary: i)
  case 0
  then show ?case by (simp add: seek_up.simps)
next
  case (Suc n)
  from Suc.hyps(1) [of "i + 1"] Suc.hyps(2) Suc.prems(2) have
    IH: "seek_up p (i + 1) j a = Ret k a \<Longrightarrow> seek_up p (i + 1) j b = Ret k b" by simp
  from Suc.prems(1) Suc.prems(2) [of i] IH Suc.hyps(2) assms(2) show ?case
    by (auto simp: seek_up.simps [of p i] elem_def split: if_splits)
qed

text \<open>The hole and the pivot: the two arrays differ only where the hole is.\<close>

lemma hole_loop_swap_loop:
  assumes "i \<le> j" "j < length a" "a ! i = p"
  shows "\<exists>k b. hole_loop p i j (a[i := x]) = Ret k b \<and> swap_loop p i j a = Ret k (b[k := p]) \<and> k < length b"
  using assms
proof (induction "j - i" arbitrary: i j a x rule: less_induct)
  case less
  show ?case
  proof (cases "i < j")
    case False
    with less.prems show ?thesis
      by (intro exI [of _ i] exI [of _ "a[i := x]"]) (auto simp: hole_loop.simps swap_loop.simps)
  next
    case True
    from swap_round [OF True less.prems(2), of p] obtain j' i' where
      d: "seek_down p i j a = Ret j' a" "i \<le> j'" "j' \<le> j" "i < j' \<Longrightarrow> a ! j' < p"
        "\<And>m. j' < m \<Longrightarrow> m \<le> j \<Longrightarrow> p \<le> a ! m" and
      u: "seek_up p i j' (a[j' := a ! i, i := a ! j']) = Ret i' (a[j' := a ! i, i := a ! j'])" "i \<le> i'" "i' \<le> j'"
        "i' < j' \<Longrightarrow> p < (a[j' := a ! i, i := a ! j']) ! i'"
        "\<And>m. i \<le> m \<Longrightarrow> m < i' \<Longrightarrow> (a[j' := a ! i, i := a ! j']) ! m \<le> p" by blast
    define a1 where "a1 = a[j' := a ! i, i := a ! j']"
    define a2 where "a2 = a1[i' := a1 ! j', j' := a1 ! i']"
    define h1 where "h1 = a[i := x, i := (a[i := x]) ! j']"
    define h2 where "h2 = h1[j' := h1 ! i']"
    have len: "length a1 = length a" "length a2 = length a" "length h1 = length a" "length h2 = length a"
      by (simp_all add: a1_def a2_def h1_def h2_def)
    have jl: "j' < length a" "i < length a" "i' < length a" using d(2,3) u(2,3) less.prems(2) by auto
    have dh: "seek_down p i j (a[i := x]) = Ret j' (a[i := x])"
      by (rule seek_down_cong [OF d(1)]) auto
    have a1j: "a1 ! j' = p" using less.prems(3) jl by (auto simp: a1_def nth_list_update)
    have h1: "h1 ! m = a1 ! m" if "m < j'" for m
      using that jl d(2) by (auto simp: h1_def a1_def nth_list_update)
    have uh: "seek_up p i j' h1 = Ret i' h1"
      by (rule seek_up_cong [OF u(1)]) (use len h1 in \<open>auto simp: a1_def\<close>)
    have "j' - i' < j - i"
    proof (cases "i' = i \<and> i < j'")
      case True
      then have "a1 ! i = a ! j'" using jl by (simp add: a1_def nth_list_update)
      with True u(4) d(4) show ?thesis by (simp add: a1_def [symmetric])
    next
      case False
      with u(2,3) d(2,3) True show ?thesis by auto
    qed
    moreover have "a2 ! i' = p" using a1j jl by (auto simp: a2_def nth_list_update len)
    moreover have h2: "h2 = a2[i' := h2 ! i']"
    proof (rule nth_equalityI)
      fix m assume "m < length h2"
      then have m: "m < length a" by (simp add: len)
      consider "m = i'" | "m = j'" "m \<noteq> i'" | "m \<noteq> i'" "m \<noteq> j'" by blast
      then show "h2 ! m = a2[i' := h2 ! i'] ! m"
      proof cases
        case 2
        then have "i' < j'" using u(3) by simp
        with 2 h1 [of i'] m jl show ?thesis by (simp add: h2_def a2_def len nth_list_update)
      next
        case 3
        have "h1 ! m = a1 ! m" using 3 jl by (cases "m = i") (auto simp: h1_def a1_def)
        with 3 show ?thesis by (simp add: h2_def a2_def)
      qed (use jl len in auto)
    qed (simp add: len)
    ultimately obtain k b where kb: "hole_loop p i' j' h2 = Ret k b" "swap_loop p i' j' a2 = Ret k (b[k := p])" "k < length b"
      using less.hyps [of j' i' a2 "h2 ! i'"] u(3) jl len by auto
    have "hole_loop p i j (a[i := x]) = hole_loop p i' j' h2"
      using True dh uh jl len by (subst hole_loop.simps) (simp add: move_def elem_def store_def h1_def h2_def)
    moreover have "swap_loop p i j a = swap_loop p i' j' a2"
      using True d(1) u(1) jl len
      by (subst swap_loop.simps) (simp add: swap_def elem_def store_def a1_def a2_def)
    ultimately show ?thesis using kb by auto
  qed
qed

text \<open>
  The two ways of partitioning, moving a hole and swapping the pivot, give the same array
  and the same boundary.
\<close>

theorem partitions_agree:
  assumes "low \<le> high" "high < length a"
  shows "partition_hole low high a = partition_swap low high a"
proof -
  from hole_loop_swap_loop [of low high a "a ! low" "a ! low"] assms obtain k b where
    "hole_loop (a ! low) low high a = Ret k b" "swap_loop (a ! low) low high a = Ret k (b[k := a ! low])" "k < length b"
    by auto
  with assms show ?thesis by (simp add: partition_hole_def partition_swap_def elem_def store_def)
qed

theorem partitions_agree_witness: "partition_hole 0 2 [2, 3, 1] = partition_swap 0 2 [2, 3, 1]"
  using partitions_agree [of 0 2 "[2, 3, 1]"] by simp

end
