(* ===== verification/Human.thy ===== *)
theory Human
  imports Prelude
begin

text \<open>
  \<open>coreutils/lib/human.c\<close>: printing a size in blocks, rounded and with a suffix. Numbers of type
  \<open>uintmax_t\<close> are naturals with the arithmetic modulo \<open>2 ^ 64\<close> written out. The fall back on
  \<open>long double\<close>, for conversions that integer arithmetic cannot do exactly, is not modelled
  (\<open>None\<close>).
\<close>

abbreviation (input) UINTMAX :: nat where "UINTMAX \<equiv> 2 ^ 64"

record lconv =
  decimal_point :: "byte list"
  grouping :: "byte list"
  thousands_sep :: "byte list"

section \<open>Options\<close>

datatype rounding_style = Ceiling | Nearest | Floor

text \<open>The options by their bits: 1 and 2 are the rounding styles; both together act like floor.\<close>

definition inexact_style :: "int \<Rightarrow> rounding_style" where
  "inexact_style opts = (if bit opts 1 then Floor else if bit opts 0 then Nearest else Ceiling)"

abbreviation "human_group_digits opts \<equiv> bit (opts :: int) 2"
abbreviation "human_suppress_point_zero opts \<equiv> bit (opts :: int) 3"
abbreviation "human_autoscale opts \<equiv> bit (opts :: int) 4"
abbreviation "human_base_1024 opts \<equiv> bit (opts :: int) 5"
abbreviation "human_space_before_unit opts \<equiv> bit (opts :: int) 6"
abbreviation "human_SI opts \<equiv> bit (opts :: int) 7"
abbreviation "human_B opts \<equiv> bit (opts :: int) 8"

definition base_of :: "int \<Rightarrow> nat" where
  "base_of opts = (if human_base_1024 opts then 1024 else 1000)"

definition power_letter :: "byte list" where
  "power_letter = 0 # map of_char ''KMGTPEZY''"

definition exponent_max :: nat where
  "exponent_max = length power_letter - 1"

section \<open>Grouping\<close>

text \<open>
  \<open>group_number\<close>, from the right. \<open>g\<close> is the current group size, which lasts when the list of sizes
  is used up; a group of size 0 would never end.
\<close>

function group_loop :: "byte list \<Rightarrow> byte list \<Rightarrow> byte list \<Rightarrow> nat \<Rightarrow> byte list \<Rightarrow> byte list option" where
  "group_loop buf groups sep grouplen acc =
     (let g = (case groups of [] \<Rightarrow> 0 | g # _ \<Rightarrow> unat g);
          grouplen = (if g \<noteq> 0 then if g < 127 then g else length buf else grouplen);
          groups = (if g \<noteq> 0 then tl groups else groups);
          grouplen = (if length buf < grouplen then length buf else grouplen);
          rest = take (length buf - grouplen) buf;
          acc = drop (length buf - grouplen) buf @ acc
      in if rest = [] then Some acc
         else if grouplen = 0 then None
         else group_loop rest groups sep grouplen (sep @ acc))"
  by pat_completeness auto
termination by (relation "measure (\<lambda>(buf, groups, sep, grouplen, acc). length buf)") (auto simp: Let_def split: if_splits)

declare group_loop.simps [simp del]

definition group_number :: "byte list \<Rightarrow> byte list \<Rightarrow> byte list \<Rightarrow> byte list option" where
  "group_number number groups sep = group_loop number groups sep (2 ^ 64 - 1) []"

section \<open>The number\<close>

text \<open>\<open>AMT.TENTHS\<close> and the rounding class, out of the block sizes by integer arithmetic.\<close>

definition convert :: "nat \<Rightarrow> nat \<Rightarrow> nat \<Rightarrow> (nat \<times> nat \<times> nat) option" where
  "convert n from to =
     (if to \<le> from then
        if from mod to = 0 then
          let multiplier = from div to; amt = n * multiplier mod UINTMAX
          in if amt div multiplier = n then Some (amt, 0, 0) else None
        else None
      else if from \<noteq> 0 \<and> to mod from = 0 then
        let divisor = to div from; r10 = (n mod divisor) * 10 mod UINTMAX;
            r2 = (r10 mod divisor) * 2 mod UINTMAX
        in Some (n div divisor, r10 div divisor,
                 if r2 < divisor then of_bool (0 < r2) else 2 + of_bool (divisor < r2))
      else None)"

text \<open>The loop that divides by the base, at least once.\<close>

function scale_loop :: "nat \<Rightarrow> nat \<Rightarrow> nat \<Rightarrow> nat \<Rightarrow> nat \<Rightarrow> nat \<times> nat \<times> nat \<times> nat" where
  "scale_loop base amt tenths rounding exponent =
     (let r10 = (amt mod base) * 10 + tenths; r2 = (r10 mod base) * 2 + rounding div 2;
          amt = amt div base; tenths = r10 div base;
          rounding = (if r2 < base then of_bool (r2 + rounding \<noteq> 0) else 2 + of_bool (base < r2 + rounding));
          exponent = exponent + 1
      in if base \<le> amt \<and> exponent < exponent_max then scale_loop base amt tenths rounding exponent
         else (amt, tenths, rounding, exponent))"
  by pat_completeness auto
termination by (relation "measure (\<lambda>(base, amt, tenths, rounding, exponent). exponent_max - exponent)") auto

declare scale_loop.simps [simp del]

text \<open>The one digit behind the point of a number below 10; it comes with what is left to round.\<close>

definition point_digit :: "rounding_style \<Rightarrow> bool \<Rightarrow> nat \<times> nat \<times> nat \<Rightarrow> (nat \<times> nat \<times> nat) \<times> nat option" where
  "point_digit style suppress = (\<lambda>(amt, tenths, rounding).
     if amt < 10 then
       let up = (if style = Nearest then 2 < rounding + tenths mod 2 else style = Ceiling \<and> 0 < rounding);
           tenths = (if up then tenths + 1 else tenths); rounding = (if up then 0 else rounding);
           (amt, tenths) = (if up \<and> tenths = 10 then (amt + 1, 0) else (amt, tenths))
       in if amt < 10 \<and> (tenths \<noteq> 0 \<or> \<not> suppress) then ((amt, 0, 0), Some tenths)
          else ((amt, tenths, rounding), None)
     else ((amt, tenths, rounding), None))"

definition autoscale :: "int \<Rightarrow> nat \<times> nat \<times> nat \<Rightarrow> (nat \<times> nat \<times> nat) \<times> nat option \<times> nat" where
  "autoscale opts = (\<lambda>(amt, tenths, rounding).
     if base_of opts \<le> amt then
       (case scale_loop (base_of opts) amt tenths rounding 0 of (amt, tenths, rounding, exponent) \<Rightarrow>
          (case point_digit (inexact_style opts) (human_suppress_point_zero opts) (amt, tenths, rounding) of
             (num, digit) \<Rightarrow> (num, digit, exponent)))
     else ((amt, tenths, rounding), None, 0))"

text \<open>The last rounding, to a whole number, which may carry into the next power.\<close>

definition round_units :: "int \<Rightarrow> (nat \<times> nat \<times> nat) \<times> nat option \<times> nat \<Rightarrow> nat \<times> nat option \<times> nat" where
  "round_units opts = (\<lambda>((amt, tenths, rounding), digit, exponent).
     if (if inexact_style opts = Nearest then 5 < tenths + of_bool (0 < rounding + amt mod 2)
         else inexact_style opts = Ceiling \<and> 0 < tenths + rounding) then
       let amt = (amt + 1) mod UINTMAX
       in if human_autoscale opts \<and> amt = base_of opts \<and> exponent < exponent_max
          then (1, if human_suppress_point_zero opts then digit else Some 0, exponent + 1)
          else (amt, digit, exponent)
     else (amt, digit, exponent))"

definition human_number :: "nat \<Rightarrow> int \<Rightarrow> nat \<Rightarrow> nat \<Rightarrow> (nat \<times> nat option \<times> nat) option" where
  "human_number n opts from to =
     map_option (\<lambda>num. round_units opts (if human_autoscale opts then autoscale opts num else (num, None, 0)))
       (convert n from to)"

section \<open>The text\<close>

fun decimal_digits :: "nat \<Rightarrow> byte list" where
  "decimal_digits amt = (if amt < 10 then [] else decimal_digits (amt div 10)) @ [of_nat (48 + amt mod 10)]"

declare decimal_digits.simps [simp del]

text \<open>
  The power of the base that is the output block size, starting from exponent 0; the test for an
  exponent beyond the last is never reached and makes the recursion total.
\<close>

function power_loop :: "nat \<Rightarrow> nat \<Rightarrow> nat \<Rightarrow> nat \<Rightarrow> nat" where
  "power_loop base to pw exponent =
     (if pw < to then
        if exponent + 1 = exponent_max then exponent + 1
        else if exponent_max \<le> exponent then exponent
        else power_loop base to (pw * base mod UINTMAX) (exponent + 1)
      else exponent)"
  by pat_completeness auto
termination by (relation "measure (\<lambda>(base, to, pw, exponent). exponent_max - exponent)") auto

declare power_loop.simps [simp del]

definition unit_suffix :: "int \<Rightarrow> nat \<Rightarrow> byte list" where
  "unit_suffix opts exponent =
     (if (exponent \<noteq> 0 \<or> human_B opts) \<and> human_space_before_unit opts then [32] else []) @
     (if exponent \<noteq> 0 then
        [if \<not> human_base_1024 opts \<and> exponent = 1 then of_char (CHR ''k'') else power_letter ! exponent] else []) @
     (if human_B opts then
        (if human_base_1024 opts \<and> exponent \<noteq> 0 then [of_char (CHR ''i'')] else []) @ [of_char (CHR ''B'')] else [])"

definition human_readable :: "lconv \<Rightarrow> nat \<Rightarrow> int \<Rightarrow> nat \<Rightarrow> nat \<Rightarrow> byte list option" where
  "human_readable l n opts from to =
     (let point = (if 0 < length (decimal_point l) \<and> length (decimal_point l) \<le> 16 then decimal_point l else [46]);
          sep = (if length (thousands_sep l) \<le> 16 then thousands_sep l else [])
      in case human_number n opts from to of
        None \<Rightarrow> None
      | Some (amt, digit, exponent) \<Rightarrow>
          (case if human_group_digits opts then group_number (decimal_digits amt) (grouping l) sep else Some (decimal_digits amt) of
             None \<Rightarrow> None
           | Some text \<Rightarrow>
               Some (text @ (case digit of None \<Rightarrow> [] | Some d \<Rightarrow> point @ [of_nat (48 + d)]) @
                 (if human_SI opts then
                    unit_suffix opts (if human_autoscale opts then exponent else power_loop (base_of opts) to 1 0)
                  else []))))"

end
