(* ===== verification/Decimal.thy ===== *)
theory Decimal
  imports Prelude
begin

text \<open>
  Decimal numerals as text: the reference that the printing and reading routines are compared
  with.
\<close>

fun decimal :: "nat \<Rightarrow> byte list" where
  "decimal n = (if n < 10 then [] else decimal (n div 10)) @ [of_nat (48 + n mod 10)]"

declare decimal.simps [simp del]

definition decimal_value :: "byte list \<Rightarrow> nat" where
  "decimal_value ds = foldl (\<lambda>v c. 10 * v + (unat c - 48)) 0 ds"

abbreviation is_digit :: "byte \<Rightarrow> bool" where
  "is_digit c \<equiv> 48 \<le> c \<and> c \<le> 57"

lemma decimal_value_snoc: "decimal_value (ds @ [c]) = 10 * decimal_value ds + (unat c - 48)"
  by (simp add: decimal_value_def)

lemma unat_digit: "unat (of_nat (48 + n mod 10) :: byte) = 48 + n mod 10"
proof -
  have "48 + n mod 10 < 256" using mod_less_divisor [of 10 n] by linarith
  then show ?thesis unfolding unsigned_of_nat take_bit_eq_mod by simp
qed

lemma is_digit_mod: "is_digit (of_nat (48 + n mod 10))"
  using unat_digit [of n] mod_less_divisor [of 10 n] by (simp add: word_le_nat_alt)

lemma decimal_numeral: "decimal n \<noteq> [] \<and> list_all is_digit (decimal n) \<and> decimal_value (decimal n) = n"
proof (induction n rule: decimal.induct)
  case (1 n)
  show ?case
  proof (cases "n < 10")
    case True
    with unat_digit [of n] is_digit_mod [of n] show ?thesis
      by (simp add: decimal.simps [of n] decimal_value_def)
  next
    case False
    then have "decimal n = decimal (n div 10) @ [of_nat (48 + n mod 10)]" by (simp add: decimal.simps [of n])
    with 1 [OF False] is_digit_mod [of n] show ?thesis
      by (simp add: decimal_value_snoc unat_digit del: of_nat_add)
  qed
qed

end
