(* ===== verification/HumanProps.thy ===== *)
theory HumanProps
  imports Human Decimal
begin

text \<open>
  What \<open>human_readable\<close> prints: the number before the suffix is the exact size, rounded once in
  the requested style, and grouping its digits loses nothing.
\<close>

section \<open>The rounding invariant\<close>











section \<open>Rounding\<close>








section \<open>The number printed\<close>








section \<open>The digits\<close>





section \<open>Grouping\<close>

fun join :: "byte list \<Rightarrow> byte list list \<Rightarrow> byte list" where
  "join sep [] = []"
| "join sep [p] = p"
| "join sep (p # ps) = p @ sep @ join sep ps"

lemma join_snoc: "ps \<noteq> [] \<Longrightarrow> join sep (ps @ [p]) = join sep ps @ sep @ p"
  by (induction sep ps rule: join.induct) auto

text \<open>The size of the \<open>i\<close>th group from the right: the last size lasts.\<close>

definition group_size :: "byte list \<Rightarrow> nat \<Rightarrow> nat \<Rightarrow> nat" where
  "group_size sizes cur i = (if i < length sizes then unat (sizes ! i) else if sizes = [] then cur else unat (last sizes))"

lemma group_loop_parts:
  assumes "list_all (\<lambda>g. 0 < g \<and> g < 127) sizes" "sizes = [] \<Longrightarrow> 0 < cur" "buf \<noteq> []"
  shows "\<exists>parts. group_loop buf sizes sep cur acc = Some (join sep parts @ acc) \<and> concat parts = buf \<and> parts \<noteq> [] \<and>
    (\<forall>i. i + 1 < length parts \<longrightarrow> length (rev parts ! i) = group_size sizes cur i) \<and>
    0 < length (hd parts) \<and> length (hd parts) \<le> group_size sizes cur (length parts - 1)"
  using assms
proof (induction "length buf" arbitrary: buf sizes cur acc rule: less_induct)
  case less
  define g where "g = group_size sizes cur 0"
  have g: "0 < g" using less.prems(1,2)
    by (cases sizes) (auto simp: g_def group_size_def unat_gt_0 word_gt_0)
  define len where "len = (if length buf < g then length buf else g)"
  define rest where "rest = take (length buf - len) buf"
  define chunk where "chunk = drop (length buf - len) buf"
  have loop: "group_loop buf sizes sep cur acc =
    (if rest = [] then Some (chunk @ acc) else if len = 0 then None
     else group_loop rest (tl sizes) sep len (sep @ chunk @ acc))"
  proof (cases sizes)
    case Nil
    then show ?thesis
      by (subst group_loop.simps) (simp add: Let_def rest_def chunk_def len_def g_def group_size_def)
  next
    case (Cons x xs)
    then have "unat x \<noteq> 0" "unat x < 127" "g = unat x" using less.prems(1)
      by (auto simp: g_def group_size_def unat_eq_zero word_less_nat_alt)
    with Cons show ?thesis
      by (subst group_loop.simps) (simp add: Let_def rest_def chunk_def len_def)
  qed
  have buf: "buf = rest @ chunk" by (simp add: rest_def chunk_def)
  have len_chunk: "length chunk = len" by (auto simp: chunk_def len_def)
  have len0: "0 < len" using g less.prems(3) by (simp add: len_def)
  show ?case
  proof (cases "rest = []")
    case True
    then have "length chunk \<le> g" "0 < length chunk" using len_chunk len0 by (auto simp: len_def)
    with True loop buf show ?thesis by (intro exI [of _ "[chunk]"]) (simp add: g_def)
  next
    case False
    then have lg: "len = g" by (auto simp: rest_def len_def split: if_splits)
    have next_size: "group_size (tl sizes) len i = group_size sizes cur (i + 1)" for i
      unfolding lg g_def group_size_def by (cases sizes) (auto simp: nth_tl last_tl)
    have "\<exists>parts. group_loop rest (tl sizes) sep len (sep @ chunk @ acc) = Some (join sep parts @ sep @ chunk @ acc) \<and>
      concat parts = rest \<and> parts \<noteq> [] \<and>
      (\<forall>i. i + 1 < length parts \<longrightarrow> length (rev parts ! i) = group_size (tl sizes) len i) \<and>
      0 < length (hd parts) \<and> length (hd parts) \<le> group_size (tl sizes) len (length parts - 1)"
    proof (rule less.hyps)
      show "length rest < length buf" using len0 less.prems(3) by (simp add: rest_def)
      show "list_all (\<lambda>g. 0 < g \<and> g < 127) (tl sizes)" using less.prems(1) by (cases sizes) auto
    qed (use len0 False in auto)
    then obtain parts where parts: "group_loop rest (tl sizes) sep len (sep @ chunk @ acc) = Some (join sep parts @ sep @ chunk @ acc)"
      "concat parts = rest" "parts \<noteq> []" "\<And>i. i + 1 < length parts \<Longrightarrow> length (rev parts ! i) = group_size (tl sizes) len i"
      "0 < length (hd parts)" "length (hd parts) \<le> group_size (tl sizes) len (length parts - 1)" by blast
    have "length (rev (parts @ [chunk]) ! i) = group_size sizes cur i" if "i + 1 < length (parts @ [chunk])" for i
      using that parts(4) [of "i - 1"] next_size [of "i - 1"] len_chunk lg by (cases i) (auto simp: g_def)
    moreover have "group_loop buf sizes sep cur acc = Some (join sep (parts @ [chunk]) @ acc)"
      using loop False len0 parts(1,3) by (simp add: join_snoc)
    moreover have "length (hd parts) \<le> group_size sizes cur (length (parts @ [chunk]) - 1)"
      using parts(3,6) next_size [of "length parts - 1"] by (cases parts) auto
    ultimately show ?thesis using parts buf by (intro exI [of _ "parts @ [chunk]"]) auto
  qed
qed

text \<open>
  Grouping puts separators between parts of the number, from the right of the sizes the
  locale gives, the last of which repeats; taken together the parts are the number.
\<close>

theorem group_number_parts:
  assumes "list_all (\<lambda>g. 0 < g \<and> g < 127) sizes" "number \<noteq> []" "length number < 2 ^ 64"
  shows "\<exists>parts. group_number number sizes sep = Some (join sep parts) \<and> concat parts = number \<and>
    (\<forall>i. i + 1 < length parts \<longrightarrow> length (rev parts ! i) =
       (if i < length sizes then unat (sizes ! i) else if sizes = [] then 2 ^ 64 - 1 else unat (last sizes)))"
  using group_loop_parts [of sizes "2 ^ 64 - 1" number sep "[]"] assms
  unfolding group_number_def group_size_def by auto

theorem group_number_parts_witness:
  "\<exists>parts. group_number [49, 50, 51, 52] [3] [44] = Some (join [44] parts) \<and> concat parts = [49, 50, 51, 52]"
  using group_number_parts [of "[3]" "[49, 50, 51, 52]" "[44]"] by auto

end
