(* ===== verification/Xstrtol.thy ===== *)
theory Xstrtol
  imports Prelude "HOL-Library.Signed_Division"
begin

text \<open>
  Numbers as text in \<open>coreutils/lib\<close>: \<open>inttostr.c\<close> prints them, \<open>xstrtol.c\<close> reads them with a
  multiplier suffix. \<open>xstrtol.c\<close> is compiled three times, for \<open>long\<close> and for two unsigned
  types of 64 bits; \<open>sg\<close> says whether the type is signed. A string is the bytes before its NUL.
\<close>

section \<open>Printing\<close>

lemma sdiv10_smaller: "i sdiv 10 \<noteq> 0 \<Longrightarrow> nat \<bar>i sdiv 10\<bar> < nat \<bar>i\<bar>" for i :: int
  by (cases "0 < i") (auto simp: signed_divide_int_def abs_mult sgn_if)

function print_loop :: "int \<Rightarrow> byte list \<Rightarrow> byte list" where
  "print_loop i p =
     (let p = of_int (48 + i smod 10) # p; i = i sdiv 10 in if i \<noteq> 0 then print_loop i p else p)"
  by pat_completeness auto
termination
  by (relation "measure (\<lambda>(i, p). nat \<bar>i\<bar>)") (auto dest: sdiv10_smaller)

function print_negative :: "int \<Rightarrow> byte list \<Rightarrow> byte list" where
  "print_negative i p =
     (let p = of_int (48 - i smod 10) # p; i = i sdiv 10 in if i \<noteq> 0 then print_negative i p else p)"
  by pat_completeness auto
termination
  by (relation "measure (\<lambda>(i, p). nat \<bar>i\<bar>)") (auto dest: sdiv10_smaller)

declare print_loop.simps [simp del] print_negative.simps [simp del]

definition inttostr :: "bool \<Rightarrow> int \<Rightarrow> byte list" where
  "inttostr sg i = (if sg \<and> i < 0 then 45 # print_negative i [] else print_loop i [])"

section \<open>The library's conversion\<close>

definition type_min :: "bool \<Rightarrow> int" where
  "type_min sg = (if sg then - (2 ^ 63) else 0)"

definition type_max :: "bool \<Rightarrow> int" where
  "type_max sg = (if sg then 2 ^ 63 - 1 else 2 ^ 64 - 1)"

definition isspace :: "byte \<Rightarrow> bool" where
  "isspace c \<longleftrightarrow> c = 32 \<or> 9 \<le> c \<and> c \<le> 13"

definition digit_of :: "byte \<Rightarrow> nat" where
  "digit_of c =
     (if 48 \<le> c \<and> c \<le> 57 then unat c - 48
      else if 97 \<le> c \<and> c \<le> 122 then unat c - 87
      else if 65 \<le> c \<and> c \<le> 90 then unat c - 55
      else 36)"

definition number_value :: "nat \<Rightarrow> byte list \<Rightarrow> int" where
  "number_value base ds = foldl (\<lambda>v c. v * int base + int (digit_of c)) 0 ds"

text \<open>
  \<open>strtol\<close> and its unsigned versions: the value, limited to the type, how many bytes belong to
  the number, and whether it was out of range. Base 0 looks for a prefix. (The unsigned versions
  are never called on a negative number.)
\<close>

definition number_base :: "nat \<Rightarrow> byte list \<Rightarrow> nat \<times> nat" where
  "number_base base cs =
     (if (base = 0 \<or> base = 16) \<and> 2 < length cs \<and> cs ! 0 = 48 \<and> (cs ! 1 = 120 \<or> cs ! 1 = 88) \<and> digit_of (cs ! 2) < 16
      then (16, 2)
      else if base = 0 then (if cs \<noteq> [] \<and> hd cs = 48 then 8 else 10, 0)
      else (base, 0))"

definition strtol :: "bool \<Rightarrow> byte list \<Rightarrow> nat \<Rightarrow> int \<times> nat \<times> bool" where
  "strtol sg s base =
     (let k = length (takeWhile isspace s); cs = drop k s;
          neg = (take 1 cs = [45]); j = (if neg \<or> take 1 cs = [43] then 1 else 0); cs = drop j cs
      in case number_base base cs of (base, pre) \<Rightarrow>
        let ds = takeWhile (\<lambda>c. digit_of c < base) (drop pre cs);
            v = (if neg then - number_value base ds else number_value base ds)
        in if ds = [] then (0, 0, False)
           else (min (type_max sg) (max (type_min sg) v), k + j + pre + length ds, v < type_min sg \<or> type_max sg < v))"

section \<open>Scaling\<close>

abbreviation (input) LONGINT_OK :: nat where "LONGINT_OK \<equiv> 0"
abbreviation (input) LONGINT_OVERFLOW :: nat where "LONGINT_OVERFLOW \<equiv> 1"
abbreviation (input) LONGINT_INVALID_SUFFIX_CHAR :: nat where "LONGINT_INVALID_SUFFIX_CHAR \<equiv> 2"
abbreviation (input) LONGINT_INVALID :: nat where "LONGINT_INVALID \<equiv> 4"

definition bkm_scale :: "bool \<Rightarrow> int \<Rightarrow> int \<Rightarrow> nat \<times> int" where
  "bkm_scale sg x scale_factor =
     (if sg \<and> x < type_min sg sdiv scale_factor then (LONGINT_OVERFLOW, type_min sg)
      else if type_max sg sdiv scale_factor < x then (LONGINT_OVERFLOW, type_max sg)
      else (LONGINT_OK, x * scale_factor))"

fun bkm_scale_by_power :: "bool \<Rightarrow> int \<Rightarrow> int \<Rightarrow> nat \<Rightarrow> nat \<times> int" where
  "bkm_scale_by_power sg x base 0 = (LONGINT_OK, x)"
| "bkm_scale_by_power sg x base (Suc p) =
     (case bkm_scale sg x base of (e, x) \<Rightarrow>
        case bkm_scale_by_power sg x base p of (err, x) \<Rightarrow> (or e err, x))"

text \<open>
  The switch over the suffix character: \<open>None\<close> is the default. The case of \<open>k\<close> and \<open>K\<close> falls
  through into that of \<open>M\<close>.
\<close>

definition scale_suffix :: "bool \<Rightarrow> byte \<Rightarrow> int \<Rightarrow> int \<Rightarrow> (nat \<times> int) option" where
  "scale_suffix sg c base tmp =
     (if c = 98 then Some (bkm_scale sg tmp 512)
      else if c = 66 then Some (bkm_scale sg tmp 1024)
      else if c = 99 then Some (0, tmp)
      else if c = 69 then Some (bkm_scale_by_power sg tmp base 6)
      else if c = 71 \<or> c = 103 then Some (bkm_scale_by_power sg tmp base 3)
      else if c = 107 \<or> c = 75 then
        (case bkm_scale_by_power sg tmp base 1 of (_, tmp) \<Rightarrow> Some (bkm_scale_by_power sg tmp base 2))
      else if c = 77 \<or> c = 109 then Some (bkm_scale_by_power sg tmp base 2)
      else if c = 80 then Some (bkm_scale_by_power sg tmp base 5)
      else if c = 84 \<or> c = 116 then Some (bkm_scale_by_power sg tmp base 4)
      else if c = 119 then Some (bkm_scale sg tmp 2)
      else if c = 89 then Some (bkm_scale_by_power sg tmp base 8)
      else if c = 90 then Some (bkm_scale_by_power sg tmp base 7)
      else None)"

section \<open>Reading\<close>

abbreviation char_of_string :: "byte list \<Rightarrow> nat \<Rightarrow> byte" where
  "char_of_string s k \<equiv> (if k < length s then s ! k else NUL)"

text \<open>What a second suffix says: the base, and how many characters the suffixes have.\<close>

definition second_suffix :: "byte list \<Rightarrow> byte list \<Rightarrow> nat \<Rightarrow> int \<times> nat" where
  "second_suffix valid s p =
     (if 48 \<in> set valid then
        let c = char_of_string s (p + 1)
        in if c = 105 then (1024, if char_of_string s (p + 2) = 66 then 3 else 1)
           else if c = 66 \<or> c = 68 then (1000, 2)
           else (1024, 1)
      else (1024, 1))"

text \<open>
  The result: the error code, what is stored in \<open>*val\<close>, and the end pointer as an index (\<open>None\<close>
  when it is not set). \<open>None\<close> is a base out of range, which aborts, or the base 1, for which \<open>strtol\<close>
  sets nothing.
\<close>

definition xstrtol :: "bool \<Rightarrow> byte list \<Rightarrow> nat \<Rightarrow> byte list option \<Rightarrow> (nat \<times> int option \<times> nat option) option" where
  "xstrtol sg s strtol_base valid_suffixes =
     (if 36 < strtol_base \<or> strtol_base = 1 then None
      else if \<not> sg \<and> take 1 (dropWhile isspace s) = [45] then Some (LONGINT_INVALID, None, None)
      else case strtol sg s strtol_base of (tmp, p, erange) \<Rightarrow>
        let c = char_of_string s p
        in if p = 0 \<and> \<not> (\<exists>v. valid_suffixes = Some v \<and> c \<noteq> NUL \<and> c \<in> set v) then Some (LONGINT_INVALID, None, Some p)
           else
             let tmp = (if p = 0 then 1 else tmp); err = (if p \<noteq> 0 \<and> erange then LONGINT_OVERFLOW else LONGINT_OK)
             in case valid_suffixes of
               None \<Rightarrow> Some (err, Some tmp, Some p)
             | Some valid \<Rightarrow>
                 if c = NUL then Some (err, Some tmp, Some p)
                 else if c \<notin> set valid then Some (or err LONGINT_INVALID_SUFFIX_CHAR, Some tmp, Some p)
                 else case second_suffix valid s p of (base, nsuf) \<Rightarrow>
                   (case scale_suffix sg c base tmp of
                      None \<Rightarrow> Some (or err LONGINT_INVALID_SUFFIX_CHAR, Some tmp, Some p)
                    | Some (overflow, tmp) \<Rightarrow>
                        let err = or err overflow; p = p + nsuf
                        in Some (if char_of_string s p \<noteq> NUL then or err LONGINT_INVALID_SUFFIX_CHAR else err,
                                 Some tmp, Some p)))"

end
