(* ===== verification/XstrtolProps.thy ===== *)
theory XstrtolProps
  imports Xstrtol Decimal
begin

text \<open>
  What printing and reading numbers guarantee: \<open>xstrtol\<close> reads back what \<open>inttostr\<close> prints, and
  with a suffix gives the product, limited to the type, with the overflow flag exactly when it
  does not fit.
\<close>

section \<open>Scaling saturates\<close>

definition clamp :: "bool \<Rightarrow> int \<Rightarrow> int" where
  "clamp sg v = min (type_max sg) (max (type_min sg) v)"

definition fits :: "bool \<Rightarrow> int \<Rightarrow> bool" where
  "fits sg v \<longleftrightarrow> type_min sg \<le> v \<and> v \<le> type_max sg"

lemma type_bounds: "type_min sg \<le> 0" "0 < type_max sg"
  by (simp_all add: type_min_def type_max_def)

lemma div_less_mult: "0 < f \<Longrightarrow> m div f < x \<longleftrightarrow> (m :: int) < x * f"
proof -
  assume f: "0 < f"
  have m: "m = m div f * f + m mod f" by simp
  show ?thesis
  proof
    assume "m div f < x"
    then have "(m div f + 1) * f \<le> x * f" using f by (intro mult_right_mono) auto
    then have "m div f * f + f \<le> x * f" by (simp add: algebra_simps)
    moreover have "m mod f < f" using f by simp
    ultimately show "m < x * f" using m by linarith
  next
    assume *: "m < x * f"
    show "m div f < x"
    proof (rule ccontr)
      assume "\<not> m div f < x"
      then have "x * f \<le> m div f * f" using f by (intro mult_right_mono) auto
      moreover have "0 \<le> m mod f" using f by simp
      ultimately show False using m * by linarith
    qed
  qed
qed

lemma sdiv_less_iff: "0 < f \<Longrightarrow> m \<le> 0 \<Longrightarrow> x < m sdiv f \<longleftrightarrow> x * f < (m :: int)"
proof -
  assume f: "0 < f" and m: "m \<le> 0"
  have "m sdiv f = - ((- m) div f)" using f m by (auto simp: signed_divide_int_def sgn_if)
  then have "x < m sdiv f \<longleftrightarrow> (- m) div f < - x" by linarith
  also have "\<dots> \<longleftrightarrow> - m < - x * f" by (rule div_less_mult [OF f])
  finally show ?thesis by simp
qed

lemma sdiv_greater_iff: "0 < f \<Longrightarrow> 0 \<le> m \<Longrightarrow> m sdiv f < x \<longleftrightarrow> (m :: int) < x * f"
proof -
  assume f: "0 < f" and m: "0 \<le> m"
  have "m sdiv f = m div f" using f m by (auto simp: signed_divide_int_def sgn_if)
  then show ?thesis using div_less_mult [OF f, of m x] by simp
qed

lemma bkm_scale_spec:
  assumes "0 < f" "fits sg x"
  shows "bkm_scale sg x f = (of_bool (\<not> fits sg (x * f)), clamp sg (x * f))"
proof -
  have sg: "0 \<le> x * f" if "\<not> sg" using assms that by (simp add: fits_def type_min_def)
  have "sg \<and> x < type_min sg sdiv f \<longleftrightarrow> x * f < type_min sg"
    using sdiv_less_iff [OF assms(1) type_bounds(1) [of sg], of x] sg by (auto simp: type_min_def)
  moreover have "type_max sg sdiv f < x \<longleftrightarrow> type_max sg < x * f"
    using sdiv_greater_iff [OF assms(1), of "type_max sg" x] type_bounds(2) [of sg] by simp
  ultimately show ?thesis using type_bounds [of sg] by (auto simp: bkm_scale_def fits_def clamp_def)
qed

text \<open>Once limited, a product stays limited.\<close>

lemma clamp_fits: "fits sg v \<Longrightarrow> clamp sg v = v" "fits sg (clamp sg v)"
  using type_bounds [of sg] by (auto simp: fits_def clamp_def)

lemma outside_mult: "1 \<le> p \<Longrightarrow> \<not> fits sg v \<Longrightarrow> \<not> fits sg (v * p) \<and> clamp sg (v * p) = clamp sg v"
proof -
  assume p: "1 \<le> p" and v: "\<not> fits sg v"
  consider "v < type_min sg" | "type_max sg < v" using v by (auto simp: fits_def)
  then show ?thesis
  proof cases
    case 1
    have "- v * 1 \<le> - v * p" by (rule mult_left_mono) (use 1 p type_bounds(1) [of sg] in auto)
    then have "v * p < type_min sg" using 1 by simp
    with 1 type_bounds [of sg] show ?thesis by (auto simp: fits_def clamp_def)
  next
    case 2
    have "v * 1 \<le> v * p" by (rule mult_left_mono) (use 2 p type_bounds(2) [of sg] in auto)
    then have "type_max sg < v * p" using 2 by simp
    with 2 type_bounds [of sg] show ?thesis by (auto simp: fits_def clamp_def)
  qed
qed

text \<open>The limits themselves are multiplied out of the range.\<close>

lemma limit_mult:
  assumes "1 < f" "\<not> fits sg v" "0 \<le> v \<or> sg"
  shows "\<not> fits sg (clamp sg v * f) \<and> clamp sg (clamp sg v * f) = clamp sg v"
proof -
  consider "v < type_min sg" | "type_max sg < v" using assms(2) by (auto simp: fits_def)
  then show ?thesis
  proof cases
    case 1
    then have s: sg using assms(3) type_bounds(1) [of sg] by auto
    then have c: "clamp sg v = - (2 ^ 63)" using 1 by (simp add: clamp_def type_min_def type_max_def)
    have "- (2 ^ 63) * f \<le> - (2 ^ 63) * 2" using assms(1) by simp
    then show ?thesis unfolding c using s by (auto simp: fits_def clamp_def type_min_def type_max_def)
  next
    case 2
    then have c: "clamp sg v = type_max sg" using type_bounds [of sg] by (simp add: clamp_def)
    have "type_max sg * 2 \<le> type_max sg * f" using assms(1) type_bounds(2) [of sg] by (intro mult_left_mono) auto
    then obtain q where "q = type_max sg * f" "type_max sg < q" using type_bounds(2) [of sg] by fastforce
    then show ?thesis unfolding c using type_bounds [of sg] by (auto simp: fits_def clamp_def simp flip: \<open>q = _\<close>)
  qed
qed

lemma saturated_power:
  assumes "1 < f" "\<not> fits sg v" "0 \<le> v \<or> sg"
  shows "bkm_scale_by_power sg (clamp sg v) f p = (of_bool (0 < p), clamp sg v)"
proof (induction p)
  case (Suc p)
  have "bkm_scale sg (clamp sg v) f = (1, clamp sg v)"
    using bkm_scale_spec [of f sg "clamp sg v"] limit_mult [OF assms] assms(1) clamp_fits(2) by simp
  with Suc show ?case by (cases p) simp_all
qed simp

lemma bkm_scale_by_power_spec:
  assumes "1 < f" "fits sg x"
  shows "bkm_scale_by_power sg x f p = (of_bool (\<not> fits sg (x * f ^ p)), clamp sg (x * f ^ p))"
  using assms(2)
proof (induction p arbitrary: x)
  case 0
  then show ?case by (simp add: clamp_fits)
next
  case (Suc p)
  have one: "bkm_scale sg x f = (of_bool (\<not> fits sg (x * f)), clamp sg (x * f))"
    using bkm_scale_spec [of f sg x] assms(1) Suc.prems by simp
  show ?case
  proof (cases "fits sg (x * f)")
    case True
    with one Suc.IH [OF True] show ?thesis by (simp add: clamp_fits mult.assoc)
  next
    case False
    have "0 \<le> x * f \<or> sg" using Suc.prems assms(1) by (auto simp: fits_def type_min_def)
    note sat = saturated_power [OF assms(1) False this, of p]
    have "1 \<le> f ^ p" using assms(1) by (simp add: one_le_power)
    from outside_mult [OF this False] have out: "\<not> fits sg (x * f ^ Suc p)" "clamp sg (x * f ^ Suc p) = clamp sg (x * f)"
      by (simp_all add: mult.assoc)
    have "bkm_scale_by_power sg x f (Suc p) = (1, clamp sg (x * f))" using one False sat by (cases p) simp_all
    with out show ?thesis by simp
  qed
qed

section \<open>Printing\<close>

lemma digit_step:
  "int n smod 10 = int (n mod 10)" "int n sdiv 10 = int (n div 10)"
  by (auto simp: signed_modulo_int_def signed_divide_int_def sgn_if zmod_int zdiv_int minus_div_mult_eq_mod)

lemma print_loop_decimal: "print_loop (int n) p = decimal n @ p"
proof (induction n arbitrary: p rule: decimal.induct)
  case (1 n)
  then show ?case
    by (subst print_loop.simps, subst decimal.simps) (auto simp: digit_step Let_def)
qed

lemma print_negative_decimal: "print_negative (- int n) p = decimal n @ p"
proof (induction n arbitrary: p rule: decimal.induct)
  case (1 n)
  then show ?case
    by (subst print_negative.simps, subst decimal.simps) (auto simp: digit_step Let_def)
qed

lemma inttostr_decimal:
  "inttostr sg i = (if sg \<and> i < 0 then 45 # decimal (nat (- i)) else decimal (nat i))" if "sg \<or> 0 \<le> i"
  using that print_loop_decimal [of "nat i"] print_negative_decimal [of "nat (- i)"] by (auto simp: inttostr_def)

text \<open>What the digits are to the reader.\<close>

lemma number_value_decimal: "list_all is_digit ds \<Longrightarrow> number_value 10 ds = int (decimal_value ds)"
proof (induction ds rule: rev_induct)
  case (snoc c ds)
  then have "digit_of c = unat c - 48" by (simp add: digit_of_def)
  with snoc show ?case by (simp add: number_value_def decimal_value_def)
qed (simp add: number_value_def decimal_value_def)

lemma digit_of_decimal: "48 \<le> c \<Longrightarrow> c \<le> 57 \<Longrightarrow> digit_of c < 10 \<and> \<not> isspace c \<and> c \<noteq> 45 \<and> c \<noteq> 43"
  by (auto simp: digit_of_def isspace_def word_le_nat_alt)

section \<open>Reading\<close>

lemma takeWhile_prefix: "list_all P xs \<Longrightarrow> rest = [] \<or> \<not> P (hd rest) \<Longrightarrow> takeWhile P (xs @ rest) = xs"
  by (cases rest) (auto simp: list_all_iff takeWhile_append2)

lemma fits_sign: "fits sg i \<Longrightarrow> sg \<or> 0 \<le> i"
  by (cases sg) (simp_all add: fits_def type_min_def)

lemma strtol_number:
  assumes "fits sg i" "rest = [] \<or> 10 \<le> digit_of (hd rest)"
  shows "strtol sg (inttostr sg i @ rest) 10 = (i, length (inttostr sg i), False)"
proof -
  define neg where "neg \<longleftrightarrow> sg \<and> i < 0"
  define ds where "ds = decimal (nat \<bar>i\<bar>)"
  have pos: "sg \<or> 0 \<le> i" using assms(1) by (rule fits_sign)
  have s: "inttostr sg i = (if neg then [45] else []) @ ds"
    using pos inttostr_decimal [OF pos] by (auto simp: neg_def ds_def abs_if)
  from decimal_numeral [of "nat \<bar>i\<bar>"] have ds: "ds \<noteq> []" "list_all is_digit ds" "int (decimal_value ds) = \<bar>i\<bar>"
    by (auto simp: ds_def)
  then obtain d ds' where d: "ds = d # ds'" "is_digit d" by (cases ds) auto
  have tw: "takeWhile (\<lambda>c. digit_of c < 10) (ds @ rest) = ds"
    by (rule takeWhile_prefix) (use ds(2) assms(2) digit_of_decimal in \<open>auto simp: list_all_iff\<close>)
  have sp: "takeWhile isspace (inttostr sg i @ rest) = []"
    using s d digit_of_decimal [of d] by (auto simp: isspace_def)
  have sign: "(take 1 (inttostr sg i @ rest) = [45]) = neg" "take 1 (inttostr sg i @ rest) = [43] \<Longrightarrow> False"
    using s d digit_of_decimal [of d] by (auto split: if_splits)
  have val: "(if neg then - number_value 10 ds else number_value 10 ds) = i"
    using ds(2,3) pos by (auto simp: number_value_decimal neg_def)
  define j where "j = (if neg then 1 else 0 :: nat)"
  have rest: "drop j (inttostr sg i @ rest) = ds @ rest" "length (inttostr sg i) = j + length ds"
    using s by (auto simp: j_def)
  have j: "(if neg \<or> take 1 (inttostr sg i @ rest) = [43] then 1 else 0) = j"
    using sign by (auto simp: j_def)
  have base: "number_base 10 cs = (10, 0)" for cs by (simp add: number_base_def)
  have range: "min (type_max sg) (max (type_min sg) i) = i" "\<not> (i < type_min sg \<or> type_max sg < i)"
    using assms(1) by (auto simp: fits_def)
  show ?thesis
    unfolding strtol_def Let_def sp list.size drop_0 sign(1) j rest base prod.case tw val range(1)
    using ds(1) range(2) by simp
qed

lemma inttostr_start:
  assumes "fits sg i"
  shows "inttostr sg i \<noteq> []" "\<not> sg \<Longrightarrow> take 1 (dropWhile isspace (inttostr sg i @ rest)) \<noteq> [45]"
proof -
  have pos: "sg \<or> 0 \<le> i" using assms by (rule fits_sign)
  from decimal_numeral [of "nat i"] obtain d ds where d: "decimal (nat i) = d # ds" "is_digit d"
    by (cases "decimal (nat i)") auto
  show "inttostr sg i \<noteq> []" using inttostr_decimal [OF pos] decimal_numeral by auto
  show "take 1 (dropWhile isspace (inttostr sg i @ rest)) \<noteq> [45]" if "\<not> sg"
    using that pos inttostr_decimal [OF pos] d digit_of_decimal [of d] by auto
qed

text \<open>
  C37. Reading what \<open>inttostr\<close> prints gives the number back, for every value of the type, the
  least one included, and whatever suffixes are allowed.
\<close>

theorem xstrtol_inttostr:
  assumes "type_min sg \<le> i" "i \<le> type_max sg"
  shows "xstrtol sg (inttostr sg i) 10 valid = Some (LONGINT_OK, Some i, Some (length (inttostr sg i)))"
proof -
  have fit: "fits sg i" using assms by (simp add: fits_def)
  from strtol_number [OF fit, of "[]"] inttostr_start(1) [OF fit] inttostr_start(2) [OF fit, of "[]"] show ?thesis
    by (auto simp: xstrtol_def Let_def split: option.splits)
qed

theorem xstrtol_inttostr_witness:
  "xstrtol True (inttostr True (- (2 ^ 63))) 10 None =
     Some (LONGINT_OK, Some (- (2 ^ 63)), Some (length (inttostr True (- (2 ^ 63)))))"
  using xstrtol_inttostr [of True "- (2 ^ 63)" None] by (simp add: type_min_def type_max_def)

text \<open>The power of the base that each suffix stands for in the code.\<close>

definition suffix_power :: "byte \<Rightarrow> nat option" where
  "suffix_power c = map_of (map (apfst of_char) (zip ''EGgkKMmPTtYZ'' [6, 3, 3, 3, 3, 2, 2, 5, 4, 4, 8, 7])) c"

lemma suffix_power_cases:
  assumes "suffix_power c = Some p"
  obtains "c = 69" "p = 6" | "c = 71 \<or> c = 103" "p = 3" | "c = 107 \<or> c = 75" "p = 3" | "c = 77 \<or> c = 109" "p = 2"
    | "c = 80" "p = 5" | "c = 84 \<or> c = 116" "p = 4" | "c = 89" "p = 8" | "c = 90" "p = 7"
  using assms by (auto simp: suffix_power_def split: if_splits)

lemma scale_twice:
  assumes "1 < f" "fits sg x"
  shows "bkm_scale_by_power sg (clamp sg (x * f ^ p)) f (Suc q) =
    (of_bool (\<not> fits sg (x * f ^ (p + Suc q))), clamp sg (x * f ^ (p + Suc q)))"
proof (cases "fits sg (x * f ^ p)")
  case True
  with bkm_scale_by_power_spec [OF assms(1) True, of "Suc q"] show ?thesis
    by (simp add: clamp_fits power_add mult.assoc mult.left_commute)
next
  case False
  have "0 \<le> x * f ^ p \<or> sg" using assms by (auto simp: fits_def type_min_def)
  note sat = saturated_power [OF assms(1) False this, of "Suc q"]
  have "1 \<le> f ^ Suc q" using assms(1) by (intro one_le_power) simp
  from outside_mult [OF this False] have
    "\<not> fits sg (x * f ^ (p + Suc q))" "clamp sg (x * f ^ (p + Suc q)) = clamp sg (x * f ^ p)"
    unfolding power_add mult.assoc by blast+
  with sat show ?thesis by simp
qed

lemma scale_suffix_power:
  assumes "suffix_power c = Some p" "1 < f" "fits sg x"
  shows "scale_suffix sg c f x = Some (of_bool (\<not> fits sg (x * f ^ p)), clamp sg (x * f ^ p))"
proof -
  note one = bkm_scale_by_power_spec [OF assms(2,3)] and two = scale_twice [OF assms(2,3), of 1 1]
  from assms(1) show ?thesis
  proof (cases rule: suffix_power_cases)
    case 3
    have "scale_suffix sg c f x = Some (bkm_scale_by_power sg (clamp sg (x * f ^ 1)) f 2)"
      using 3(1) by (auto simp: scale_suffix_def one simp del: bkm_scale_by_power.simps)
    with two 3(2) show ?thesis by (simp add: numeral_2_eq_2 numeral_3_eq_3 del: bkm_scale_by_power.simps)
  next
    case 1
    then show ?thesis unfolding scale_suffix_def one by simp
  next
    case 2
    show ?thesis unfolding scale_suffix_def one by (rule disjE [OF 2(1)]) (simp_all add: 2(2))
  next
    case 4
    show ?thesis unfolding scale_suffix_def one by (rule disjE [OF 4(1)]) (simp_all add: 4(2))
  next
    case 5
    then show ?thesis unfolding scale_suffix_def one by simp
  next
    case 6
    show ?thesis unfolding scale_suffix_def one by (rule disjE [OF 6(1)]) (simp_all add: 6(2))
  next
    case 7
    then show ?thesis unfolding scale_suffix_def one by simp
  next
    case 8
    then show ?thesis unfolding scale_suffix_def one by simp
  qed
qed

lemma suffix_power_digit: "suffix_power c = Some p \<Longrightarrow> 10 \<le> digit_of c \<and> c \<noteq> NUL"
  by (elim suffix_power_cases) (auto simp: digit_of_def)

lemma second_suffix_tail:
  assumes "(tail, base) \<in> {([], 1024), ([105, 66], 1024), ([66], 1000), ([68], 1000)}" "tail = [] \<or> 48 \<in> set valid"
  shows "second_suffix valid (ds @ c # tail) (length ds) = (base, 1 + length tail)"
  using assms by (auto simp: second_suffix_def nth_append Let_def)

text \<open>
  C38. A number with a multiplier suffix, as \<open>10M\<close>, \<open>10MiB\<close> or \<open>10MB\<close>, gives the product with the
  power of 1024, or of 1000 after \<open>B\<close> or \<open>D\<close>; a product that does not fit is replaced by the
  limit of the type and reported as an overflow. The power is the one of \<open>suffix_power\<close>, where
  \<open>k\<close> and \<open>K\<close> stand for the third power, as \<open>G\<close> does.
\<close>

theorem xstrtol_suffix:
  assumes "type_min sg \<le> i" "i \<le> type_max sg" "suffix_power c = Some p" "c \<in> set valid"
    and "(tail, base) \<in> {([], 1024), ([105, 66], 1024), ([66], 1000), ([68], 1000)}" "tail = [] \<or> 48 \<in> set valid"
  defines "v \<equiv> i * base ^ p"
  shows "xstrtol sg (inttostr sg i @ c # tail) 10 (Some valid) =
    Some (if type_min sg \<le> v \<and> v \<le> type_max sg then LONGINT_OK else LONGINT_OVERFLOW,
      Some (min (type_max sg) (max (type_min sg) v)), Some (length (inttostr sg i) + 1 + length tail))"
proof -
  have fit: "fits sg i" using assms(1,2) by (simp add: fits_def)
  note c = suffix_power_digit [OF assms(3)]
  have n: "strtol sg (inttostr sg i @ c # tail) 10 = (i, length (inttostr sg i), False)"
    by (rule strtol_number [OF fit]) (use c in simp)
  have base: "1 < base" using assms(5) by auto
  have sc: "scale_suffix sg c base i = Some (of_bool (\<not> fits sg v), clamp sg v)"
    unfolding v_def by (rule scale_suffix_power [OF assms(3) base fit])
  note snd = second_suffix_tail [OF assms(5,6), of "inttostr sg i" c]
  have "\<not> (\<not> sg \<and> take 1 (dropWhile isspace (inttostr sg i @ c # tail)) = [45])" using inttostr_start(2) [OF fit] by blast
  with n sc snd c assms(4) inttostr_start(1) [OF fit] show ?thesis
    by (simp add: xstrtol_def Let_def nth_append fits_def clamp_def of_bool_def)
qed

theorem xstrtol_suffix_witness:
  "xstrtol True (inttostr True 2 @ [75]) 10 (Some [75, 77]) = Some (LONGINT_OK, Some (2 * 1024 ^ 3), Some (length (inttostr True 2) + 1)) \<and>
   xstrtol True (inttostr True 9 @ [69]) 10 (Some [69]) = Some (LONGINT_OVERFLOW, Some (2 ^ 63 - 1), Some (length (inttostr True 9) + 1))"
  using xstrtol_suffix [of True 2 75 3 "[75, 77]" "[]" 1024] xstrtol_suffix [of True 9 69 6 "[69]" "[]" 1024]
  by (simp_all add: type_min_def type_max_def suffix_power_def)

end
