(* ===== verification/Randint.thy ===== *)
theory Randint
  imports Prelude
begin

text \<open>
  \<open>coreutils/lib/randint.c\<close>: random integers in a range out of a source of random bytes, keeping
  what randomness is left over. \<open>randint\<close> is \<open>uintmax_t\<close>: naturals, with the arithmetic that can
  wrap around written modulo \<open>2 ^ 64\<close>. The source is the list of the bytes that \<open>randread\<close> will
  deliver.
\<close>

abbreviation (input) RANDINT :: nat where "RANDINT \<equiv> 2 ^ 64"

record randint_source =
  source :: "byte list"
  randnum :: nat
  randmax :: nat

definition randint_new :: "byte list \<Rightarrow> randint_source" where
  "randint_new src = \<lparr>source = src, randnum = 0, randmax = 0\<rparr>"

definition shift_left :: "nat \<Rightarrow> nat" where
  "shift_left x = x * 256 mod RANDINT"

text \<open>
  How many bytes are needed; \<open>k\<close> is what is left of the buffer of eight bytes. More would overrun it.
\<close>

fun bytes_needed :: "nat \<Rightarrow> nat \<Rightarrow> nat \<Rightarrow> nat option" where
  "bytes_needed 0 rmax genmax = None"
| "bytes_needed (Suc k) rmax genmax =
     (let rmax = (shift_left rmax + 255) mod RANDINT
      in if rmax < genmax then map_option Suc (bytes_needed k rmax genmax) else Some 1)"

fun append_bytes :: "byte list \<Rightarrow> nat \<Rightarrow> nat \<Rightarrow> nat \<Rightarrow> nat \<times> nat" where
  "append_bytes [] num rmax genmax = (num, rmax)"
| "append_bytes (b # buf) num rmax genmax =
     (let num = (shift_left num + unat b) mod RANDINT; rmax = (shift_left rmax + 255) mod RANDINT
      in if rmax < genmax then append_bytes buf num rmax genmax else (num, rmax))"

text \<open>
  Reading what is needed: \<open>None\<close> when the source has no more bytes (\<open>randread\<close> does not return
  then).
\<close>

definition refill :: "nat \<Rightarrow> nat \<Rightarrow> nat \<Rightarrow> byte list \<Rightarrow> (nat \<times> nat \<times> byte list) option" where
  "refill num rmax genmax src =
     (if rmax < genmax then
        (case bytes_needed 8 rmax genmax of
           None \<Rightarrow> None
         | Some i \<Rightarrow>
             if length src < i then None
             else (case append_bytes (take i src) num rmax genmax of (num, rmax) \<Rightarrow> Some (num, rmax, drop i src)))
      else Some (num, rmax, src))"

text \<open>What one round of the loop makes of a number: a result with the new state, or another try.\<close>

datatype round_end = Chosen nat nat nat | Retry nat nat

definition try_round :: "nat \<Rightarrow> nat \<Rightarrow> nat \<Rightarrow> round_end option" where
  "try_round num rmax genmax =
     (if rmax = genmax then Some (Chosen num 0 0)
      else
        let choices = (genmax + 1) mod RANDINT; excess_choices = rmax - genmax
        in if choices = 0 then None
           else
             let unusable_choices = excess_choices mod choices; last_usable_choice = rmax - unusable_choices;
                 reduced_randnum = num mod choices
             in if num \<le> last_usable_choice then Some (Chosen reduced_randnum (num div choices) (excess_choices div choices))
                else Some (Retry reduced_randnum ((unusable_choices + RANDINT - 1) mod RANDINT)))"

lemma wrap_pred: "0 < u \<Longrightarrow> u < RANDINT \<Longrightarrow> (u + RANDINT - 1) mod RANDINT = u - 1"
proof -
  assume u: "0 < u" "u < RANDINT"
  then have "u + RANDINT - 1 = (u - 1) + RANDINT" by simp
  then have "(u + RANDINT - 1) mod RANDINT = (u - 1) mod RANDINT" by (simp only: mod_add_self2)
  with u show ?thesis by simp
qed

lemma bytes_needed_pos: "bytes_needed k rmax genmax = Some i \<Longrightarrow> 0 < i"
  by (cases k) (auto simp: Let_def split: if_splits)

function genmax_loop :: "nat \<Rightarrow> nat \<Rightarrow> nat \<Rightarrow> byte list \<Rightarrow> (nat \<times> randint_source) option" where
  "genmax_loop num rmax genmax src =
     (case refill num rmax genmax src of
        None \<Rightarrow> None
      | Some (num, rmax, src) \<Rightarrow>
          (case try_round num rmax genmax of
             None \<Rightarrow> None
           | Some (Chosen r num rmax) \<Rightarrow> Some (r, \<lparr>source = src, randnum = num, randmax = rmax\<rparr>)
           | Some (Retry num rmax) \<Rightarrow> genmax_loop num rmax genmax src))"
  by pat_completeness auto
termination
proof (relation "measures [\<lambda>(num, rmax, genmax, src). length src,
    \<lambda>(num, rmax, genmax, src). if rmax < genmax then 0 else if num \<le> genmax then 1 else 2]", goal_cases)
  case (2 num rmax genmax src x n p m src' y n' m')
  then have fill: "refill num rmax genmax src = Some (n, m, src')" and
    retry: "try_round n m genmax = Some (Retry n' m')" by auto
  show ?case
  proof (cases "rmax < genmax")
    case True
    with fill have "length src' < length src"
      using bytes_needed_pos by (fastforce simp: refill_def split: option.splits if_splits prod.splits)
    then show ?thesis by simp
  next
    case False
    with fill have same: "n = num" "m = rmax" "src' = src" by (auto simp: refill_def)
    define c where "c = (genmax + 1) mod RANDINT"
    define u where "u = (rmax - genmax) mod c"
    note r = retry [unfolded try_round_def Let_def same, folded c_def, folded u_def]
    have c: "0 < c" and n': "n' = num mod c" and m': "m' = (u + RANDINT - 1) mod RANDINT" and no: "rmax - u < num"
      using r by (auto split: if_splits)
    have c: "0 < c" "c \<le> genmax + 1" using c unfolding c_def by (simp_all only: mod_less_eq_dividend)
    have n'g: "n' \<le> genmax" using c n' mod_less_divisor [OF c(1), of num] by linarith
    have u: "u < c" using c(1) by (simp add: u_def)
    show ?thesis
    proof (cases "u = 0")
      case True
      then have "genmax < num" using no False by simp
      then show ?thesis using False n'g by (simp add: same)
    next
      case False
      have "c < RANDINT" by (simp add: c_def)
      then have "m' = u - 1" using m' u False wrap_pred [of u] by simp
      then have "m' < genmax" using u c False by linarith
      then show ?thesis using \<open>\<not> rmax < genmax\<close> by (simp add: same)
    qed
  qed
qed simp

declare genmax_loop.simps [simp del]

definition randint_genmax :: "randint_source \<Rightarrow> nat \<Rightarrow> (nat \<times> randint_source) option" where
  "randint_genmax s genmax = genmax_loop (randnum s) (randmax s) genmax (source s)"

text \<open>The first round on its own.\<close>

definition first_round :: "nat \<Rightarrow> nat \<Rightarrow> nat \<Rightarrow> byte list \<Rightarrow> round_end option" where
  "first_round num rmax genmax src =
     (case refill num rmax genmax src of None \<Rightarrow> None | Some (num, rmax, src) \<Rightarrow> try_round num rmax genmax)"

end
