(* ===== verification/RandProps.thy ===== *)
theory RandProps
  imports Randint
begin

text \<open>
  What \<open>randint_genmax\<close> guarantees: a number in the range with the kept randomness well formed,
  and that a round treats all results alike.
\<close>

section \<open>Refilling\<close>








section \<open>One round\<close>









section \<open>Fairness\<close>










end
