(* ===== verification/Ring.thy ===== *)
theory Ring
  imports Prelude
begin

text \<open>
  The ring buffer \<open>coreutils/lib/i-ring.c\<close>: a stack of the last four integers. Its contract is
  the locale \<open>bounded_stack\<close>.
\<close>

section \<open>The ring\<close>

abbreviation (input) I_RING_SIZE :: nat where "I_RING_SIZE \<equiv> 4"

record I_ring =
  ir_data :: "int list"
  ir_default_val :: int
  ir_front :: nat
  ir_back :: nat
  ir_empty :: bool

definition i_ring_init :: "int \<Rightarrow> I_ring" where
  "i_ring_init default_val = \<lparr>ir_data = replicate I_RING_SIZE default_val, ir_default_val = default_val,
     ir_front = 0, ir_back = 0, ir_empty = True\<rparr>"

definition i_ring_empty :: "I_ring \<Rightarrow> bool" where
  "i_ring_empty ir = ir_empty ir"

definition i_ring_push :: "I_ring \<Rightarrow> int \<Rightarrow> int \<times> I_ring" where
  "i_ring_push ir val =
     (let dest_idx = (ir_front ir + of_bool (\<not> ir_empty ir)) mod I_RING_SIZE;
          old_val = ir_data ir ! dest_idx;
          ir = ir\<lparr>ir_data := (ir_data ir)[dest_idx := val], ir_front := dest_idx\<rparr>;
          ir = (if dest_idx = ir_back ir then ir\<lparr>ir_back := (ir_back ir + of_bool (\<not> ir_empty ir)) mod I_RING_SIZE\<rparr> else ir)
      in (old_val, ir\<lparr>ir_empty := False\<rparr>))"

text \<open>\<open>None\<close>: popping from an empty ring aborts.\<close>

definition i_ring_pop :: "I_ring \<Rightarrow> (int \<times> I_ring) option" where
  "i_ring_pop ir =
     (if i_ring_empty ir then None
      else
        let top_val = ir_data ir ! ir_front ir;
            ir = ir\<lparr>ir_data := (ir_data ir)[ir_front ir := ir_default_val ir]\<rparr>
        in Some (top_val,
             if ir_front ir = ir_back ir then ir\<lparr>ir_empty := True\<rparr>
             else ir\<lparr>ir_front := (ir_front ir + I_RING_SIZE - 1) mod I_RING_SIZE\<rparr>))"

section \<open>The contract\<close>

locale bounded_stack =
  fixes cap :: nat
    and ok :: "'s \<Rightarrow> bool"
    and items :: "'s \<Rightarrow> 'v list"
    and push :: "'s \<Rightarrow> 'v \<Rightarrow> 'v \<times> 's"
    and pop :: "'s \<Rightarrow> ('v \<times> 's) option"
  assumes items_cap: "ok s \<Longrightarrow> length (items s) \<le> cap"
    and push_ok: "ok s \<Longrightarrow> ok (snd (push s x))"
    and push_items: "ok s \<Longrightarrow> items (snd (push s x)) = take cap (x # items s)"
    and pop_none: "ok s \<Longrightarrow> items s = [] \<Longrightarrow> pop s = None"
    and pop_some: "ok s \<Longrightarrow> items s \<noteq> [] \<Longrightarrow>
      \<exists>t. pop s = Some (hd (items s), t) \<and> ok t \<and> items t = tl (items s)"
begin

fun pushes :: "'s \<Rightarrow> 'v list \<Rightarrow> 's" where
  "pushes s [] = s"
| "pushes s (x # xs) = pushes (snd (push s x)) xs"

fun pops :: "nat \<Rightarrow> 's \<Rightarrow> 'v list option" where
  "pops 0 s = Some []"
| "pops (Suc n) s = (case pop s of None \<Rightarrow> None | Some (x, t) \<Rightarrow> map_option (Cons x) (pops n t))"

lemma pushes_items: "ok s \<Longrightarrow> ok (pushes s xs) \<and> items (pushes s xs) = take cap (rev xs @ items s)"
proof (induction xs arbitrary: s)
  case Nil
  then show ?case using items_cap by simp
next
  case (Cons x xs)
  have "take cap (rev xs @ take cap (x # items s)) = take cap (rev xs @ x # items s)"
    by (simp add: min_def)
  with Cons.IH [OF push_ok [OF Cons.prems]] push_items [OF Cons.prems] show ?case by simp
qed

lemma pops_items: "ok s \<Longrightarrow> n \<le> length (items s) \<Longrightarrow> pops n s = Some (take n (items s))"
proof (induction n arbitrary: s)
  case (Suc n)
  then have ne: "items s \<noteq> []" by auto
  from pop_some [OF Suc.prems(1) ne] obtain t where
    t: "pop s = Some (hd (items s), t)" "ok t" "items t = tl (items s)" by blast
  with Suc.IH [of t] Suc.prems(2) ne show ?case by (cases "items s") simp_all
qed simp

text \<open>Only the last items survive, and they come back in reverse order.\<close>

lemma pops_pushes:
  assumes "ok s" "n \<le> min cap (length xs + length (items s))"
  shows "pops n (pushes s xs) = Some (take n (rev xs @ items s))"
proof -
  have p: "ok (pushes s xs)" "items (pushes s xs) = take cap (rev xs @ items s)"
    using pushes_items [OF assms(1)] by blast+
  have n: "n \<le> cap" "n \<le> length (items (pushes s xs))" using assms(2) unfolding p(2) length_take length_append length_rev by (simp_all only: min.bounded_iff)
  from pops_items [OF p(1) n(2)] show ?thesis
    unfolding p(2) take_take min_absorb1 [OF n(1)] .
qed

end

section \<open>The ring is a bounded stack\<close>

definition ring_count :: "I_ring \<Rightarrow> nat" where
  "ring_count ir = (if ir_empty ir then 0 else (ir_front ir + 4 - ir_back ir) mod 4 + 1)"

text \<open>The items, the newest first.\<close>

definition ring_items :: "I_ring \<Rightarrow> int list" where
  "ring_items ir = map (\<lambda>k. ir_data ir ! ((ir_front ir + 4 - k) mod 4)) (take (ring_count ir) [0, 1, 2, 3])"

text \<open>The comment in \<open>i-ring.h\<close>: what is not in use holds the default value.\<close>

definition ring_ok :: "I_ring \<Rightarrow> bool" where
  "ring_ok ir \<longleftrightarrow> length (ir_data ir) = 4 \<and> ir_front ir < 4 \<and> ir_back ir < 4 \<and>
     (ir_empty ir \<longrightarrow> ir_front ir = ir_back ir) \<and>
     (\<forall>k < 4. ring_count ir \<le> k \<longrightarrow> ir_data ir ! ((ir_front ir + 4 - k) mod 4) = ir_default_val ir)"

lemma four_cases: "length xs = 4 \<Longrightarrow> \<exists>a b c d. xs = [a, b, c, d]"
  by (auto simp: length_Suc_conv eval_nat_numeral)

lemma all_4: "(\<forall>k < 4. P k) \<longleftrightarrow> P 0 \<and> P 1 \<and> P 2 \<and> P (3 :: nat)"
  by (auto simp: less_Suc_eq eval_nat_numeral)

text \<open>All the shapes a ring can have.\<close>

lemma ring_ok_cases:
  assumes "ring_ok ir"
  obtains a b c d e f g where "ir = \<lparr>ir_data = [a, b, c, d], ir_default_val = e, ir_front = f, ir_back = f, ir_empty = True\<rparr>"
      "f = 0 \<or> f = 1 \<or> f = 2 \<or> f = 3"
  | a b c d e f g where "ir = \<lparr>ir_data = [a, b, c, d], ir_default_val = e, ir_front = f, ir_back = g, ir_empty = False\<rparr>"
      "f = 0 \<or> f = 1 \<or> f = 2 \<or> f = 3" "g = 0 \<or> g = 1 \<or> g = 2 \<or> g = 3"
proof -
  obtain a b c d where "ir_data ir = [a, b, c, d]" using assms four_cases unfolding ring_ok_def by blast
  moreover have "n < 4 \<Longrightarrow> n = 0 \<or> n = 1 \<or> n = 2 \<or> n = (3 :: nat)" for n by auto
  ultimately show thesis using that assms by (cases ir; cases "ir_empty ir") (auto simp: ring_ok_def)
qed

lemmas ring_eval = ring_ok_def ring_items_def ring_count_def all_4

lemma push_step:
  fixes x :: int
  assumes "ring_ok ir"
  defines "r \<equiv> i_ring_push ir x"
  shows "ring_ok (snd r) \<and> ring_items (snd r) = take 4 (x # ring_items ir) \<and>
    fst r = (if length (ring_items ir) = 4 then last (ring_items ir) else ir_default_val ir) \<and>
    ir_default_val (snd r) = ir_default_val ir"
  unfolding r_def
  by (insert assms(1), rule ring_ok_cases [OF assms(1)]; elim disjE; simp add: ring_eval i_ring_push_def)

lemma pop_step:
  assumes "ring_ok ir" "ring_items ir \<noteq> []"
  shows "\<exists>ir'. i_ring_pop ir = Some (hd (ring_items ir), ir') \<and> ring_ok ir' \<and> ring_items ir' = tl (ring_items ir)"
  by (insert assms, rule ring_ok_cases [OF assms(1)]; elim disjE; simp add: ring_eval i_ring_pop_def i_ring_empty_def)

interpretation ring: bounded_stack 4 ring_ok ring_items i_ring_push i_ring_pop
proof unfold_locales
  fix ir :: I_ring and x :: int
  assume ok: "ring_ok ir"
  show "length (ring_items ir) \<le> 4" by (simp add: ring_items_def)
  show "ring_ok (snd (i_ring_push ir x))" "ring_items (snd (i_ring_push ir x)) = take 4 (x # ring_items ir)"
    using push_step [OF ok] by blast+
  show "i_ring_pop ir = None" if "ring_items ir = []"
    using that by (simp add: i_ring_pop_def i_ring_empty_def ring_items_def ring_count_def split: if_splits)
  show "\<exists>t. i_ring_pop ir = Some (hd (ring_items ir), t) \<and> ring_ok t \<and> ring_items t = tl (ring_items ir)"
    if "ring_items ir \<noteq> []" by (rule pop_step [OF ok that])
qed

lemma ring_init: "ring_ok (i_ring_init d) \<and> ring_items (i_ring_init d) = []"
  by (simp add: ring_eval i_ring_init_def)

section \<open>The property\<close>

definition push_all :: "I_ring \<Rightarrow> int list \<Rightarrow> I_ring" where
  "push_all ir xs = fold (\<lambda>x ir. snd (i_ring_push ir x)) xs ir"

lemma pushes_push_all: "ring.pushes ir xs = push_all ir xs"
  by (induction xs arbitrary: ir) (simp_all add: push_all_def)

fun pop_many :: "nat \<Rightarrow> I_ring \<Rightarrow> int list option" where
  "pop_many 0 ir = Some []"
| "pop_many (Suc n) ir = (case i_ring_pop ir of None \<Rightarrow> None | Some (x, ir) \<Rightarrow> map_option (Cons x) (pop_many n ir))"

lemma pops_pop_many: "ring.pops n ir = pop_many n ir"
  by (induction n arbitrary: ir) (simp_all split: option.splits)

text \<open>
  The ring is a stack of the last four values: after any pushes into a new ring the next push
  returns the value it displaces, or the default while there is room, and pops give the last
  four values pushed, newest first, and then abort.
\<close>

theorem ring_keeps_last_four:
  "(let ir = push_all (i_ring_init d) xs in
     fst (i_ring_push ir y) = (if length xs < 4 then d else rev xs ! 3) \<and>
     pop_many (min 4 (length xs)) ir = Some (take 4 (rev xs)) \<and>
     (i_ring_pop ir = None \<longleftrightarrow> xs = []))"
proof -
  define ir where "ir = push_all (i_ring_init d) xs"
  have ok: "ring_ok ir" and items: "ring_items ir = take 4 (rev xs)"
    using ring.pushes_items [of "i_ring_init d" xs] ring_init [of d] by (simp_all add: ir_def pushes_push_all)
  have len: "length (ring_items ir) = min 4 (length xs)" by (simp add: items)
  have dflt: "ir_default_val ir = d"
  proof -
    have "ir_default_val (push_all ir xs) = ir_default_val ir" for ir xs
      by (induction xs arbitrary: ir) (simp_all add: push_all_def i_ring_push_def Let_def)
    then show ?thesis by (simp add: ir_def i_ring_init_def)
  qed
  have "fst (i_ring_push ir y) = (if length xs < 4 then d else rev xs ! 3)"
  proof (cases "length xs < 4")
    case True
    then show ?thesis using push_step [OF ok, of y] len dflt by simp
  next
    case False
    then have "last (ring_items ir) = rev xs ! 3" by (subst last_conv_nth) (auto simp: items)
    with False show ?thesis using push_step [OF ok, of y] len by simp
  qed
  moreover have "pop_many (min 4 (length xs)) ir = Some (take 4 (rev xs))"
    using ring.pops_items [OF ok, of "min 4 (length xs)"] items
    by (cases "length xs \<le> 4") (simp_all add: pops_pop_many)
  moreover have "i_ring_pop ir = None \<longleftrightarrow> xs = []"
    using ring.pop_none [OF ok] ring.pop_some [OF ok] items by (cases "xs = []") auto
  ultimately show ?thesis by (simp add: ir_def Let_def)
qed

end
