(* ===== verification/MagicData.thy ===== *)
theory MagicData
  imports Decimal "HOL-Library.Signed_Division"
begin

unbundle bit_operations_syntax

text \<open>
  The data of the \<open>file\<close> command's magic interpreter: \<open>file/file_.h\<close>, with the routines of
  \<open>file/funcs.c\<close> and \<open>file/apprentice.c\<close> that \<open>softmagic.c\<close> calls. A \<open>union VALUETYPE\<close> is its
  64 bytes, read and written by a little-endian machine; a string is the bytes before its
  NUL; the buffer under test is a byte list of which \<open>nbytes\<close> belong to the file. Fields of
  8 and 32 bits that take part in arithmetic are words, those that are only compared naturals.
\<close>

section \<open>Constants\<close>

abbreviation (input) FILE_INVALID :: nat where "FILE_INVALID \<equiv> 0"
abbreviation (input) FILE_BYTE :: nat where "FILE_BYTE \<equiv> 1"
abbreviation (input) FILE_SHORT :: nat where "FILE_SHORT \<equiv> 2"
abbreviation (input) FILE_DEFAULT :: nat where "FILE_DEFAULT \<equiv> 3"
abbreviation (input) FILE_LONG :: nat where "FILE_LONG \<equiv> 4"
abbreviation (input) FILE_STRING :: nat where "FILE_STRING \<equiv> 5"
abbreviation (input) FILE_DATE :: nat where "FILE_DATE \<equiv> 6"
abbreviation (input) FILE_BESHORT :: nat where "FILE_BESHORT \<equiv> 7"
abbreviation (input) FILE_BELONG :: nat where "FILE_BELONG \<equiv> 8"
abbreviation (input) FILE_BEDATE :: nat where "FILE_BEDATE \<equiv> 9"
abbreviation (input) FILE_LESHORT :: nat where "FILE_LESHORT \<equiv> 10"
abbreviation (input) FILE_LELONG :: nat where "FILE_LELONG \<equiv> 11"
abbreviation (input) FILE_LEDATE :: nat where "FILE_LEDATE \<equiv> 12"
abbreviation (input) FILE_PSTRING :: nat where "FILE_PSTRING \<equiv> 13"
abbreviation (input) FILE_LDATE :: nat where "FILE_LDATE \<equiv> 14"
abbreviation (input) FILE_BELDATE :: nat where "FILE_BELDATE \<equiv> 15"
abbreviation (input) FILE_LELDATE :: nat where "FILE_LELDATE \<equiv> 16"
abbreviation (input) FILE_REGEX :: nat where "FILE_REGEX \<equiv> 17"
abbreviation (input) FILE_BESTRING16 :: nat where "FILE_BESTRING16 \<equiv> 18"
abbreviation (input) FILE_LESTRING16 :: nat where "FILE_LESTRING16 \<equiv> 19"
abbreviation (input) FILE_SEARCH :: nat where "FILE_SEARCH \<equiv> 20"
abbreviation (input) FILE_MEDATE :: nat where "FILE_MEDATE \<equiv> 21"
abbreviation (input) FILE_MELDATE :: nat where "FILE_MELDATE \<equiv> 22"
abbreviation (input) FILE_MELONG :: nat where "FILE_MELONG \<equiv> 23"
abbreviation (input) FILE_QUAD :: nat where "FILE_QUAD \<equiv> 24"
abbreviation (input) FILE_LEQUAD :: nat where "FILE_LEQUAD \<equiv> 25"
abbreviation (input) FILE_BEQUAD :: nat where "FILE_BEQUAD \<equiv> 26"
abbreviation (input) FILE_QDATE :: nat where "FILE_QDATE \<equiv> 27"
abbreviation (input) FILE_LEQDATE :: nat where "FILE_LEQDATE \<equiv> 28"
abbreviation (input) FILE_BEQDATE :: nat where "FILE_BEQDATE \<equiv> 29"
abbreviation (input) FILE_QLDATE :: nat where "FILE_QLDATE \<equiv> 30"
abbreviation (input) FILE_LEQLDATE :: nat where "FILE_LEQLDATE \<equiv> 31"
abbreviation (input) FILE_BEQLDATE :: nat where "FILE_BEQLDATE \<equiv> 32"
abbreviation (input) FILE_FLOAT :: nat where "FILE_FLOAT \<equiv> 33"
abbreviation (input) FILE_BEFLOAT :: nat where "FILE_BEFLOAT \<equiv> 34"
abbreviation (input) FILE_LEFLOAT :: nat where "FILE_LEFLOAT \<equiv> 35"
abbreviation (input) FILE_DOUBLE :: nat where "FILE_DOUBLE \<equiv> 36"
abbreviation (input) FILE_BEDOUBLE :: nat where "FILE_BEDOUBLE \<equiv> 37"
abbreviation (input) FILE_LEDOUBLE :: nat where "FILE_LEDOUBLE \<equiv> 38"
abbreviation (input) FILE_BEID3 :: nat where "FILE_BEID3 \<equiv> 39"
abbreviation (input) FILE_LEID3 :: nat where "FILE_LEID3 \<equiv> 40"
abbreviation (input) FILE_INDIRECT :: nat where "FILE_INDIRECT \<equiv> 41"
abbreviation (input) FILE_QWDATE :: nat where "FILE_QWDATE \<equiv> 42"
abbreviation (input) FILE_LEQWDATE :: nat where "FILE_LEQWDATE \<equiv> 43"
abbreviation (input) FILE_BEQWDATE :: nat where "FILE_BEQWDATE \<equiv> 44"
abbreviation (input) FILE_NAME :: nat where "FILE_NAME \<equiv> 45"
abbreviation (input) FILE_USE :: nat where "FILE_USE \<equiv> 46"

definition IS_STRING :: "nat \<Rightarrow> bool" where
  "IS_STRING t \<longleftrightarrow> t \<in> {FILE_STRING, FILE_PSTRING, FILE_BESTRING16, FILE_LESTRING16, FILE_REGEX,
     FILE_SEARCH, FILE_NAME, FILE_USE, FILE_DEFAULT}"

abbreviation (input) FILE_OPAND :: nat where "FILE_OPAND \<equiv> 0"
abbreviation (input) FILE_OPOR :: nat where "FILE_OPOR \<equiv> 1"
abbreviation (input) FILE_OPXOR :: nat where "FILE_OPXOR \<equiv> 2"
abbreviation (input) FILE_OPADD :: nat where "FILE_OPADD \<equiv> 3"
abbreviation (input) FILE_OPMINUS :: nat where "FILE_OPMINUS \<equiv> 4"
abbreviation (input) FILE_OPMULTIPLY :: nat where "FILE_OPMULTIPLY \<equiv> 5"
abbreviation (input) FILE_OPDIVIDE :: nat where "FILE_OPDIVIDE \<equiv> 6"
abbreviation (input) FILE_OPMODULO :: nat where "FILE_OPMODULO \<equiv> 7"

text \<open>\<open>x & FILE_OPS_MASK\<close>, \<open>x & FILE_OPINVERSE\<close> and \<open>x & FILE_OPINDIRECT\<close>.\<close>

abbreviation ops :: "byte \<Rightarrow> nat" where "ops x \<equiv> unat (x AND 7)"
abbreviation op_inverse :: "byte \<Rightarrow> bool" where "op_inverse x \<equiv> bit x 6"
abbreviation op_indirect :: "byte \<Rightarrow> bool" where "op_indirect x \<equiv> bit x 7"

abbreviation (input) COND_ELIF :: nat where "COND_ELIF \<equiv> 2"
abbreviation (input) COND_ELSE :: nat where "COND_ELSE \<equiv> 3"

text \<open>The flags of \<open>magic_.h\<close> that are used here, and \<open>BINTEST\<close>.\<close>

abbreviation MAGIC_MIME_TYPE :: "int \<Rightarrow> bool" where "MAGIC_MIME_TYPE flags \<equiv> bit flags 4"
abbreviation MAGIC_CONTINUE :: "int \<Rightarrow> bool" where "MAGIC_CONTINUE flags \<equiv> bit flags 5"
abbreviation MAGIC_RAW :: "int \<Rightarrow> bool" where "MAGIC_RAW flags \<equiv> bit flags 8"
abbreviation MAGIC_MIME_ENCODING :: "int \<Rightarrow> bool" where "MAGIC_MIME_ENCODING flags \<equiv> bit flags 10"
abbreviation MAGIC_APPLE :: "int \<Rightarrow> bool" where "MAGIC_APPLE flags \<equiv> bit flags 11"
abbreviation MAGIC_MIME :: "int \<Rightarrow> bool" where
  "MAGIC_MIME flags \<equiv> MAGIC_MIME_TYPE flags \<or> MAGIC_MIME_ENCODING flags"
abbreviation (input) BINTEST :: int where "BINTEST \<equiv> 0x20"

text \<open>Characters, as relations have them.\<close>

abbreviation (input) REL_ANY :: byte where "REL_ANY \<equiv> 120"
abbreviation (input) REL_NOT :: byte where "REL_NOT \<equiv> 33"
abbreviation (input) REL_EQ :: byte where "REL_EQ \<equiv> 61"
abbreviation (input) REL_GT :: byte where "REL_GT \<equiv> 62"
abbreviation (input) REL_LT :: byte where "REL_LT \<equiv> 60"
abbreviation (input) REL_AND :: byte where "REL_AND \<equiv> 38"
abbreviation (input) REL_XOR :: byte where "REL_XOR \<equiv> 94"

section \<open>\<open>union VALUETYPE\<close>\<close>

type_synonym valuetype = "byte list"

abbreviation (input) MAXstring :: nat where "MAXstring \<equiv> 64"

text \<open>Two, four and eight bytes joined in a given order, most significant first.\<close>

definition join16 :: "byte \<Rightarrow> byte \<Rightarrow> 16 word" where
  "join16 a b = push_bit 8 (ucast a) OR ucast b"

definition join32 :: "byte \<Rightarrow> byte \<Rightarrow> byte \<Rightarrow> byte \<Rightarrow> 32 word" where
  "join32 a b c d = push_bit 24 (ucast a) OR push_bit 16 (ucast b) OR push_bit 8 (ucast c) OR ucast d"

definition join64 ::
    "byte \<Rightarrow> byte \<Rightarrow> byte \<Rightarrow> byte \<Rightarrow> byte \<Rightarrow> byte \<Rightarrow> byte \<Rightarrow> byte \<Rightarrow> 64 word" where
  "join64 a b c d e f g h =
     push_bit 56 (ucast a) OR push_bit 48 (ucast b) OR push_bit 40 (ucast c) OR push_bit 32 (ucast d) OR
     push_bit 24 (ucast e) OR push_bit 16 (ucast f) OR push_bit 8 (ucast g) OR ucast h"

text \<open>The members \<open>b\<close>, \<open>h\<close>, \<open>l\<close>, \<open>q\<close>.\<close>

definition val_b :: "valuetype \<Rightarrow> byte" where "val_b p = p ! 0"
definition val_h :: "valuetype \<Rightarrow> 16 word" where "val_h p = join16 (p ! 1) (p ! 0)"
definition val_l :: "valuetype \<Rightarrow> 32 word" where "val_l p = join32 (p ! 3) (p ! 2) (p ! 1) (p ! 0)"
definition val_q :: "valuetype \<Rightarrow> 64 word" where
  "val_q p = join64 (p ! 7) (p ! 6) (p ! 5) (p ! 4) (p ! 3) (p ! 2) (p ! 1) (p ! 0)"

text \<open>Storing a member: its bytes, least significant first.\<close>

definition put_b :: "byte \<Rightarrow> valuetype \<Rightarrow> valuetype" where "put_b x p = buf_put 0 [x] p"
definition put_h :: "16 word \<Rightarrow> valuetype \<Rightarrow> valuetype" where
  "put_h x p = buf_put 0 [ucast x, ucast (drop_bit 8 x)] p"
definition put_l :: "32 word \<Rightarrow> valuetype \<Rightarrow> valuetype" where
  "put_l x p = buf_put 0 [ucast x, ucast (drop_bit 8 x), ucast (drop_bit 16 x), ucast (drop_bit 24 x)] p"
definition put_q :: "64 word \<Rightarrow> valuetype \<Rightarrow> valuetype" where
  "put_q x p = buf_put 0 [ucast x, ucast (drop_bit 8 x), ucast (drop_bit 16 x), ucast (drop_bit 24 x),
     ucast (drop_bit 32 x), ucast (drop_bit 40 x), ucast (drop_bit 48 x), ucast (drop_bit 56 x)] p"

text \<open>A C string in an array.\<close>

definition c_string :: "byte list \<Rightarrow> byte list" where
  "c_string = takeWhile (\<lambda>c. c \<noteq> NUL)"

section \<open>\<open>struct magic\<close> and \<open>struct magic_set\<close>\<close>

record magic =
  m_cont_level :: nat
  m_flag :: byte
  m_reln :: byte
  m_vallen :: byte
  m_type :: nat
  m_in_type :: nat
  m_in_op :: byte
  m_mask_op :: byte
  m_cond :: nat
  m_offset :: "32 word"
  m_in_offset :: "32 word"
  m_lineno :: nat
  num_mask :: "64 word"
  m_value :: valuetype
  m_desc :: "byte list"
  m_mimetype :: "byte list"
  m_apple :: "byte list"

text \<open>\<open>str_range\<close> and \<open>str_flags\<close> share their place with \<open>num_mask\<close>.\<close>

definition str_range :: "magic \<Rightarrow> 32 word" where
  "str_range m = ucast (num_mask m)"

definition str_flags :: "magic \<Rightarrow> 32 word" where
  "str_flags m = ucast (drop_bit 32 (num_mask m))"

abbreviation INDIR :: "magic \<Rightarrow> bool" where "INDIR m \<equiv> bit (m_flag m) 0"
abbreviation OFFADD :: "magic \<Rightarrow> bool" where "OFFADD m \<equiv> bit (m_flag m) 1"
abbreviation INDIROFFADD :: "magic \<Rightarrow> bool" where "INDIROFFADD m \<equiv> bit (m_flag m) 2"
abbreviation UNSIGNED :: "magic \<Rightarrow> bool" where "UNSIGNED m \<equiv> bit (m_flag m) 3"
abbreviation NOSPACE :: "magic \<Rightarrow> bool" where "NOSPACE m \<equiv> bit (m_flag m) 4"

abbreviation STRING_COMPACT_WHITESPACE :: "32 word \<Rightarrow> bool" where
  "STRING_COMPACT_WHITESPACE f \<equiv> bit f 0"
abbreviation STRING_COMPACT_OPTIONAL_WHITESPACE :: "32 word \<Rightarrow> bool" where
  "STRING_COMPACT_OPTIONAL_WHITESPACE f \<equiv> bit f 1"
abbreviation STRING_IGNORE_LOWERCASE :: "32 word \<Rightarrow> bool" where "STRING_IGNORE_LOWERCASE f \<equiv> bit f 2"
abbreviation STRING_IGNORE_UPPERCASE :: "32 word \<Rightarrow> bool" where "STRING_IGNORE_UPPERCASE f \<equiv> bit f 3"
abbreviation REGEX_OFFSET_START :: "32 word \<Rightarrow> bool" where "REGEX_OFFSET_START f \<equiv> bit f 4"
abbreviation STRING_TEXTTEST :: "32 word \<Rightarrow> bool" where "STRING_TEXTTEST f \<equiv> bit f 5"
abbreviation STRING_BINTEST :: "32 word \<Rightarrow> bool" where "STRING_BINTEST f \<equiv> bit f 6"
abbreviation STRING_TRIM :: "32 word \<Rightarrow> bool" where "STRING_TRIM f \<equiv> bit f 13"

text \<open>An array of entries, of which \<open>nmagic\<close> belong to it; behind them there may be others.\<close>

record mlist =
  magic_array :: "magic list"
  nmagic :: nat

record level_info =
  li_off :: "32 word"
  got_match :: bool
  last_match :: bool

text \<open>
  \<open>li\<close> are the level infos, \<open>c_len\<close> of them unless an allocation has failed. The search pointer is its distance from the buffer, \<open>None\<close>
  if \<open>NULL\<close>. \<open>o_buf\<close> is a string without its NUL, \<open>o_pbuf\<close> an array.
\<close>

record magic_set =
  mlist0 :: "mlist list option"
  mlist1 :: "mlist list option"
  c_len :: nat
  li :: "level_info list"
  o_buf :: "byte list option"
  o_pbuf :: "byte list option"
  ms_offset :: "32 word"
  ms_error :: int
  ms_flags :: int
  had_err :: bool
  ms_line :: nat
  search_s :: "nat option"
  search_len :: nat
  search_offset :: nat
  rm_len :: nat
  ms_value :: valuetype

section \<open>The environment\<close>

text \<open>
  What the C library does: formatting with a format out of a magic entry (the text up to its
  first NUL), joining two texts, matching a regular
  expression, allocation, and arithmetic on floating-point numbers, which are kept as their
  bits. \<open>fmttime\<close> is the text of a date.
\<close>

datatype printf_arg = Arg_str "byte list" | Arg_int "64 word" | Arg_float "32 word" | Arg_double "64 word"

datatype regex_result = Rx_error int "byte list" | Rx_fail int "byte list" | Rx_nomatch | Rx_match nat nat

record environ =
  vasprintf :: "byte list \<Rightarrow> printf_arg list \<Rightarrow> byte list option"
  asprintf_ok :: "byte list \<Rightarrow> byte list \<Rightarrow> bool"
  strerror :: "int \<Rightarrow> byte list"
  errno :: int
  grow_levels :: "nat \<Rightarrow> bool"
  fresh_level :: level_info
  strndup_ok :: "nat \<Rightarrow> bool"
  regex :: "byte list \<Rightarrow> bool \<Rightarrow> byte list \<Rightarrow> regex_result"
  fmt_regcomp :: "(int \<times> byte list) option"
  format_g :: "printf_arg \<Rightarrow> byte list"
  fmttime :: "64 word \<Rightarrow> nat \<Rightarrow> byte list"
  float_op :: "nat \<Rightarrow> 32 word \<Rightarrow> 64 word \<Rightarrow> 32 word"
  double_op :: "nat \<Rightarrow> 64 word \<Rightarrow> 64 word \<Rightarrow> 64 word"

text \<open>
  An outcome or \<open>None\<close>, when the depth of recursion that is granted does not suffice.
\<close>

definition rbind ::
    "('a, 's) outcome option \<Rightarrow> ('a \<Rightarrow> 's \<Rightarrow> ('b, 's) outcome option) \<Rightarrow> ('b, 's) outcome option" where
  "rbind m f = (case m of
     None \<Rightarrow> None
   | Some (Ret x s) \<Rightarrow> f x s
   | Some (Exit c s) \<Rightarrow> Some (Exit c s)
   | Some (Fault s) \<Rightarrow> Some (Fault s))"

lemma rbind_simps [simp]:
  "rbind None f = None" "rbind (Some (Ret x s)) f = f x s"
  "rbind (Some (Exit c s)) f = Some (Exit c s)" "rbind (Some (Fault s)) f = Some (Fault s)"
  by (simp_all add: rbind_def)

section \<open>\<open>funcs.c\<close>\<close>

text \<open>
  \<open>file_vprintf\<close>: formatted text is joined to the output; \<open>None\<close> when formatting or joining fails.
  The failure is reported by printing another text; when that fails as well, the two
  functions call each other without end.
\<close>

definition append_text :: "environ \<Rightarrow> byte list \<Rightarrow> printf_arg list \<Rightarrow> magic_set \<Rightarrow> magic_set option" where
  "append_text env fmt args ms =
     (case vasprintf env fmt args of
        None \<Rightarrow> None
      | Some t \<Rightarrow>
          (case o_buf ms of
             None \<Rightarrow> Some (ms\<lparr>o_buf := Some t\<rparr>)
           | Some b \<Rightarrow> if asprintf_ok env b t then Some (ms\<lparr>o_buf := Some (b @ t)\<rparr>) else None))"

definition vasprintf_failed :: "environ \<Rightarrow> magic_set \<Rightarrow> (unit, magic_set) outcome" where
  "vasprintf_failed env ms =
     (if had_err ms then Ret () ms
      else case append_text env (bytes ''vasprintf failed'') [] ms of
        None \<Rightarrow> Fault ms
      | Some ms \<Rightarrow>
          (case (if errno env > 0 then append_text env (bytes '' (%s)'') [Arg_str (strerror env (errno env))] ms
                 else Some ms) of
             None \<Rightarrow> Fault ms
           | Some ms \<Rightarrow> Ret () (ms\<lparr>had_err := True, ms_error := errno env\<rparr>)))"

definition file_printf :: "environ \<Rightarrow> byte list \<Rightarrow> printf_arg list \<Rightarrow> magic_set \<Rightarrow> (int, magic_set) outcome" where
  "file_printf env fmt args ms =
     (case append_text env fmt args ms of
        Some ms \<Rightarrow> Ret 0 ms
      | None \<Rightarrow> obind (vasprintf_failed env ms) (\<lambda>_ ms. Ret (- 1) ms))"

definition file_error_core ::
    "environ \<Rightarrow> int \<Rightarrow> byte list \<Rightarrow> printf_arg list \<Rightarrow> nat \<Rightarrow> magic_set \<Rightarrow> (unit, magic_set) outcome" where
  "file_error_core env err f va lineno ms =
     (if had_err ms then Ret () ms
      else obind (if lineno \<noteq> 0
                  then file_printf env (bytes ''line %zu: '') [Arg_int (of_nat lineno)] (ms\<lparr>o_buf := None\<rparr>)
                  else Ret 0 ms) (\<lambda>_ ms.
        obind (file_printf env f va ms) (\<lambda>_ ms.
        obind (if err > 0 then file_printf env (bytes '' (%s)'') [Arg_str (strerror env err)] ms
               else Ret 0 ms) (\<lambda>_ ms.
        Ret () (ms\<lparr>had_err := True, ms_error := err\<rparr>)))))"

definition file_error ::
    "environ \<Rightarrow> int \<Rightarrow> byte list \<Rightarrow> printf_arg list \<Rightarrow> magic_set \<Rightarrow> (unit, magic_set) outcome" where
  "file_error env err f va ms = file_error_core env err f va 0 ms"

definition file_oomem :: "environ \<Rightarrow> nat \<Rightarrow> magic_set \<Rightarrow> (unit, magic_set) outcome" where
  "file_oomem env len ms =
     file_error env (errno env) (bytes ''cannot allocate %zu bytes'') [Arg_int (of_nat len)] ms"

definition file_magerror ::
    "environ \<Rightarrow> byte list \<Rightarrow> printf_arg list \<Rightarrow> magic_set \<Rightarrow> (unit, magic_set) outcome" where
  "file_magerror env f va ms = file_error_core env 0 f va (ms_line ms) ms"

text \<open>
  \<open>file_check_mem\<close>: room for one more level. The new levels hold whatever the memory held; one
  \<open>level_info\<close> is 16 bytes. Writing to a level that is not there is a fault.
\<close>

definition set_level :: "nat \<Rightarrow> (level_info \<Rightarrow> level_info) \<Rightarrow> magic_set \<Rightarrow> (unit, magic_set) outcome" where
  "set_level level f ms =
     (if level < length (li ms) then Ret () (ms\<lparr>li := (li ms)[level := f (li ms ! level)]\<rparr>) else Fault ms)"

definition file_check_mem :: "environ \<Rightarrow> nat \<Rightarrow> magic_set \<Rightarrow> (int, magic_set) outcome" where
  "file_check_mem env level ms =
     obind (if c_len ms \<le> level
            then let ms = ms\<lparr>c_len := c_len ms + 20\<rparr> in
              if grow_levels env (c_len ms)
              then Ret (0::int) (ms\<lparr>li := li ms @ replicate (c_len ms - length (li ms)) (fresh_level env)\<rparr>)
              else obind (file_oomem env (16 * c_len ms) (ms\<lparr>li := []\<rparr>)) (\<lambda>_ ms. Ret (- 1) ms)
            else Ret 0 ms) (\<lambda>r ms.
       if r = - 1 then Ret (- 1) ms
       else obind (set_level level (\<lambda>l. l\<lparr>got_match := False, last_match := False\<rparr>) ms) (\<lambda>_ ms. Ret 0 ms))"

definition file_reset :: "environ \<Rightarrow> magic_set \<Rightarrow> (int, magic_set) outcome" where
  "file_reset env ms =
     (if mlist0 ms = None
      then obind (file_error env 0 (bytes ''no magic files loaded'') [] ms) (\<lambda>_ ms. Ret (- 1) ms)
      else Ret 0 (ms\<lparr>o_buf := None, o_pbuf := None, had_err := False, ms_error := - 1\<rparr>))"

section \<open>What \<open>apprentice.c\<close> provides\<close>

definition file_ms_alloc :: "bool \<Rightarrow> int \<Rightarrow> magic_set option" where
  "file_ms_alloc allocated flags =
     (if allocated
      then Some \<lparr>mlist0 = None, mlist1 = None, c_len = 0, li = [], o_buf = None, o_pbuf = None, ms_offset = 0,
        ms_error = - 1, ms_flags = flags, had_err = False, ms_line = 0, search_s = None, search_len = 0,
        search_offset = 0, rm_len = 0, ms_value = replicate MAXstring 0\<rparr>
      else None)"

definition file_signextend :: "magic \<Rightarrow> 64 word \<Rightarrow> 64 word" where
  "file_signextend m v =
     (if \<not> UNSIGNED m then
        if m_type m = FILE_BYTE then scast (ucast v :: 8 word)
        else if m_type m \<in> {FILE_SHORT, FILE_BESHORT, FILE_LESHORT} then scast (ucast v :: 16 word)
        else if m_type m \<in> {FILE_DATE, FILE_BEDATE, FILE_LEDATE, FILE_MEDATE, FILE_LDATE, FILE_BELDATE,
                FILE_LELDATE, FILE_MELDATE, FILE_LONG, FILE_BELONG, FILE_LELONG, FILE_MELONG,
                FILE_FLOAT, FILE_BEFLOAT, FILE_LEFLOAT} then scast (ucast v :: 32 word)
        else if m_type m \<in> {FILE_QUAD, FILE_BEQUAD, FILE_LEQUAD, FILE_QDATE, FILE_QLDATE, FILE_QWDATE,
                FILE_BEQDATE, FILE_BEQLDATE, FILE_BEQWDATE, FILE_LEQDATE, FILE_LEQLDATE, FILE_LEQWDATE,
                FILE_DOUBLE, FILE_BEDOUBLE, FILE_LEDOUBLE} then v
        else if m_type m \<in> {FILE_STRING, FILE_PSTRING, FILE_BESTRING16, FILE_LESTRING16, FILE_REGEX,
                FILE_SEARCH, FILE_DEFAULT, FILE_NAME, FILE_USE} then v
        else 0xFFFFFFFF
      else v)"

text \<open>
  The length field of a Pascal string; \<open>None\<close> is \<open>abort ()\<close>. The bytes are \<open>char\<close>, which is signed.
\<close>

definition pstring_len_flags :: "magic \<Rightarrow> nat" where
  "pstring_len_flags m = unat (str_flags m AND 0xF80)"

definition file_pstring_length_size :: "magic \<Rightarrow> nat option" where
  "file_pstring_length_size m =
     (let f = pstring_len_flags m in
      if f = 0x80 then Some 1
      else if f = 0x200 \<or> f = 0x100 then Some 2
      else if f = 0x800 \<or> f = 0x400 then Some 4
      else None)"

definition file_pstring_get_length :: "magic \<Rightarrow> valuetype \<Rightarrow> 64 word option" where
  "file_pstring_get_length m s =
     (let f = pstring_len_flags m; c = (\<lambda>i. sint (s ! i)) in
      map_option (\<lambda>len. if bit (str_flags m) 12 then len - of_nat (the (file_pstring_length_size m)) else len)
      (if f = 0x80 then Some (of_int (c 0))
       else if f = 0x200 then Some (of_int (push_bit 8 (c 1) OR c 0))
       else if f = 0x100 then Some (of_int (push_bit 8 (c 0) OR c 1))
       else if f = 0x800 then Some (of_int (push_bit 24 (c 3) OR push_bit 16 (c 2) OR push_bit 8 (c 1) OR c 0))
       else if f = 0x400 then Some (of_int (push_bit 24 (c 0) OR push_bit 16 (c 1) OR push_bit 8 (c 2) OR c 3))
       else None))"

text \<open>
  \<open>file_magicfind\<close>: the first \<open>name\<close> entry with the given name, and the entries up to the next
  one of level 0.
\<close>

fun find_name :: "byte list \<Rightarrow> nat \<Rightarrow> magic list \<Rightarrow> mlist option" where
  "find_name name 0 ma = None"
| "find_name name (Suc n) [] = None"
| "find_name name (Suc n) (m # ma) =
     (if m_type m = FILE_NAME \<and> c_string (m_value m) = name
      then Some \<lparr>magic_array = m # ma,
                 nmagic = 1 + length (takeWhile (\<lambda>m. m_cont_level m \<noteq> 0) (take n ma))\<rparr>
      else find_name name n ma)"

fun file_magicfind :: "byte list \<Rightarrow> mlist list \<Rightarrow> mlist option" where
  "file_magicfind name [] = None"
| "file_magicfind name (ml # mls) =
     (case find_name name (nmagic ml) (magic_array ml) of
        Some v \<Rightarrow> Some v
      | None \<Rightarrow> file_magicfind name mls)"

end
