(* ===== verification/MagicValue.thy ===== *)
theory MagicValue
  imports MagicData
begin

unbundle bit_operations_syntax

text \<open>
  How the interpreter of \<open>file/softmagic.c\<close> gets at a value: \<open>mcopy\<close> takes bytes out of the
  buffer, \<open>mconvert\<close> brings them into the machine's order and applies the mask, and \<open>mget\<close>,
  up to the point where it may call the interpreter again, follows an indirect offset. What
  C leaves undefined (reading outside the buffer or the union, overflow of a signed
  operation, division by zero) is a fault.
\<close>

section \<open>\<open>mcopy\<close>\<close>

text \<open>\<open>memchr\<close> between two positions of the buffer.\<close>

definition memchr :: "byte list \<Rightarrow> byte \<Rightarrow> nat \<Rightarrow> nat \<Rightarrow> nat option" where
  "memchr s c b e = (let n = length (takeWhile (\<lambda>x. x \<noteq> c) (take (e - b) (drop b s)))
     in if b + n < e then Some (b + n) else None)"

text \<open>
  The end of the region of a \<open>regex\<close> test, at most \<open>lines\<close> lines from \<open>b\<close> on; \<open>None\<close> when the
  byte behind a carriage return is outside the buffer.
\<close>

fun regex_lines :: "byte list \<Rightarrow> nat \<Rightarrow> nat \<Rightarrow> nat \<Rightarrow> nat \<Rightarrow> nat option" where
  "regex_lines s nbytes 0 b lst = Some lst"
| "regex_lines s nbytes (Suc lines) b lst =
     (if b < nbytes then
        (case memchr s LF b nbytes of
           Some i \<Rightarrow> regex_lines s nbytes lines (i + 1) i
         | None \<Rightarrow>
             (case memchr s CR b nbytes of
                Some i \<Rightarrow>
                  if i + 1 < length s
                  then regex_lines s nbytes lines (if s ! (i + 1) = LF then i + 2 else i + 1) i
                  else None
              | None \<Rightarrow> Some nbytes))
      else Some nbytes)"

text \<open>
  A string of 16-bit characters reduced to bytes: what is stored into at most \<open>k\<close> places of
  the union. A character whose low byte is 0 but whose high byte is not becomes a blank.
\<close>

fun string16_loop :: "bool \<Rightarrow> byte list \<Rightarrow> nat \<Rightarrow> nat \<Rightarrow> nat \<Rightarrow> byte list option" where
  "string16_loop be s nbytes src 0 = Some []"
| "string16_loop be s nbytes src (Suc k) =
     (if src < nbytes then
        if s ! src = NUL then
          (let j = (if be then src - 1 else src + 1) in
           if j < length s
           then map_option (Cons (if s ! j \<noteq> NUL then 32 else NUL)) (string16_loop be s nbytes (src + 2) k)
           else None)
        else map_option (Cons (s ! src)) (string16_loop be s nbytes (src + 2) k)
      else Some [])"

abbreviation (input) SIZE_MAX1 :: nat where "SIZE_MAX1 \<equiv> 2 ^ 64"

definition mcopy ::
    "environ \<Rightarrow> nat \<Rightarrow> bool \<Rightarrow> byte list \<Rightarrow> 32 word \<Rightarrow> nat \<Rightarrow> nat \<Rightarrow> magic_set \<Rightarrow> (int, magic_set) outcome" where
  "mcopy env t indir s offset nbytes linecnt ms =
     (let pos = unat offset in
      if \<not> indir \<and> t = FILE_SEARCH then
        Ret 0 (ms\<lparr>search_s := Some pos, search_len := (nbytes + SIZE_MAX1 - pos) mod SIZE_MAX1, search_offset := pos\<rparr>)
      else if \<not> indir \<and> t = FILE_REGEX then
        (case regex_lines s nbytes linecnt pos nbytes of
           None \<Rightarrow> Fault ms
         | Some lst \<Rightarrow>
             Ret 0 (ms\<lparr>search_s := Some pos, search_len := (lst + SIZE_MAX1 - pos) mod SIZE_MAX1,
                       search_offset := pos, rm_len := 0\<rparr>))
      else if \<not> indir \<and> (t = FILE_BESTRING16 \<or> t = FILE_LESTRING16) then
        if nbytes \<le> pos
        then obind (file_magerror env (bytes ''invalid offset %u in mcopy()'') [Arg_int (ucast offset)] ms)
               (\<lambda>_ ms. Ret (- 1) ms)
        else (let be = (t = FILE_BESTRING16) in
          case string16_loop be s nbytes (if be then pos + 1 else pos) (MAXstring - 1) of
            None \<Rightarrow> Fault ms
          | Some cs \<Rightarrow> Ret 0 (ms\<lparr>ms_value := (buf_put 0 cs (ms_value ms))[MAXstring - 1 := NUL]\<rparr>))
      else if nbytes \<le> pos then Ret 0 (ms\<lparr>ms_value := replicate MAXstring 0\<rparr>)
      else (let n = min (nbytes - pos) MAXstring in
        if pos + n \<le> length s
        then Ret 0 (ms\<lparr>ms_value := take n (drop pos s) @ replicate (MAXstring - n) 0\<rparr>)
        else Fault ms))"

section \<open>Conversion\<close>

definition flips :: "(nat \<times> nat) list" where
  "flips =
     [(FILE_BESHORT, FILE_LESHORT), (FILE_BELONG, FILE_LELONG), (FILE_BEDATE, FILE_LEDATE),
      (FILE_BELDATE, FILE_LELDATE), (FILE_BEQUAD, FILE_LEQUAD), (FILE_BEQDATE, FILE_LEQDATE),
      (FILE_BEQLDATE, FILE_LEQLDATE), (FILE_BEQWDATE, FILE_LEQWDATE), (FILE_LESHORT, FILE_BESHORT),
      (FILE_LELONG, FILE_BELONG), (FILE_LEDATE, FILE_BEDATE), (FILE_LELDATE, FILE_BELDATE),
      (FILE_LEQUAD, FILE_BEQUAD), (FILE_LEQDATE, FILE_BEQDATE), (FILE_LEQLDATE, FILE_BEQLDATE),
      (FILE_LEQWDATE, FILE_BEQWDATE), (FILE_BEFLOAT, FILE_LEFLOAT), (FILE_LEFLOAT, FILE_BEFLOAT),
      (FILE_BEDOUBLE, FILE_LEDOUBLE), (FILE_LEDOUBLE, FILE_BEDOUBLE)]"

definition cvt_flip :: "nat \<Rightarrow> bool \<Rightarrow> nat" where
  "cvt_flip t flip =
     (if \<not> flip then t else case map_of flips t of Some t' \<Rightarrow> t' | None \<Rightarrow> t)"

text \<open>
  \<open>DO_CVT\<close>: the mask is tested at 64 bits and applied at the width of the member, so that a
  mask can be divided by that is 0 there. A product of two 16-bit numbers is an \<open>int\<close>.
\<close>

definition cvt_arith :: "nat \<Rightarrow> 'a::len word \<Rightarrow> 'a word \<Rightarrow> 'a word option" where
  "cvt_arith op x k =
     (if op = FILE_OPAND then Some (x AND k)
      else if op = FILE_OPOR then Some (x OR k)
      else if op = FILE_OPXOR then Some (x XOR k)
      else if op = FILE_OPADD then Some (x + k)
      else if op = FILE_OPMULTIPLY then
        if LENGTH('a) < 32 \<and> 2 ^ 31 \<le> unat x * unat k then None else Some (x * k)
      else if op = FILE_OPMINUS then Some (x - k)
      else if k = 0 then None
      else if op = FILE_OPDIVIDE then Some (x div k)
      else Some (x mod k))"

definition do_cvt :: "magic \<Rightarrow> 'a::len word \<Rightarrow> 'a word option" where
  "do_cvt m x = map_option (\<lambda>x. if op_inverse (m_mask_op m) then NOT x else x)
     (if num_mask m \<noteq> 0 then cvt_arith (ops (m_mask_op m)) x (ucast (num_mask m)) else Some x)"

definition cvt_8 :: "magic \<Rightarrow> valuetype \<Rightarrow> valuetype option" where
  "cvt_8 m p = map_option (\<lambda>x. put_b x p) (do_cvt m (val_b p))"

definition cvt_16 :: "magic \<Rightarrow> valuetype \<Rightarrow> valuetype option" where
  "cvt_16 m p = map_option (\<lambda>x. put_h x p) (do_cvt m (val_h p))"

definition cvt_32 :: "magic \<Rightarrow> valuetype \<Rightarrow> valuetype option" where
  "cvt_32 m p = map_option (\<lambda>x. put_l x p) (do_cvt m (val_l p))"

definition cvt_64 :: "magic \<Rightarrow> valuetype \<Rightarrow> valuetype option" where
  "cvt_64 m p = map_option (\<lambda>x. put_q x p) (do_cvt m (val_q p))"

text \<open>\<open>DO_CVT2\<close>, with the arithmetic of the environment.\<close>

definition cvt2_op :: "magic \<Rightarrow> bool" where
  "cvt2_op m \<longleftrightarrow> num_mask m \<noteq> 0 \<and>
     ops (m_mask_op m) \<in> {FILE_OPADD, FILE_OPMINUS, FILE_OPMULTIPLY, FILE_OPDIVIDE}"

definition cvt_float :: "environ \<Rightarrow> magic \<Rightarrow> valuetype \<Rightarrow> valuetype" where
  "cvt_float env m p =
     (if cvt2_op m then put_l (float_op env (ops (m_mask_op m)) (val_l p) (num_mask m)) p else p)"

definition cvt_double :: "environ \<Rightarrow> magic \<Rightarrow> valuetype \<Rightarrow> valuetype" where
  "cvt_double env m p =
     (if cvt2_op m then put_q (double_op env (ops (m_mask_op m)) (val_q p) (num_mask m)) p else p)"

text \<open>
  The case of a Pascal string: the text moves down over its length. Its end may lie outside
  the union.
\<close>

definition mconvert_pstring :: "magic \<Rightarrow> magic_set \<Rightarrow> (int, magic_set) outcome" where
  "mconvert_pstring m ms =
     (case (file_pstring_length_size m, file_pstring_get_length m (ms_value ms)) of
        (Some n, Some l) \<Rightarrow>
          (let len = (if MAXstring \<le> unat l then MAXstring - 1 else unat l); p = ms_value ms in
           if 0 < len \<and> MAXstring < n + len then Fault ms
           else Ret 1 (ms\<lparr>ms_value := buf_put 0 (take len (drop n p) @ [NUL]) p\<rparr>))
      | _ \<Rightarrow> Exit 134 ms)"

definition converted :: "valuetype option \<Rightarrow> magic_set \<Rightarrow> (int, magic_set) outcome" where
  "converted v ms = (case v of None \<Rightarrow> Fault ms | Some p \<Rightarrow> Ret 1 (ms\<lparr>ms_value := p\<rparr>))"

definition mconvert :: "environ \<Rightarrow> magic \<Rightarrow> bool \<Rightarrow> magic_set \<Rightarrow> (int, magic_set) outcome" where
  "mconvert env m flip ms =
     (let p = ms_value ms; t = cvt_flip (m_type m) flip in
      if t = FILE_BYTE then converted (cvt_8 m p) ms
      else if t = FILE_SHORT then converted (Option.bind (cvt_16 m p) (cvt_32 m)) ms
      else if t \<in> {FILE_LONG, FILE_DATE, FILE_LDATE} then converted (cvt_32 m p) ms
      else if t \<in> {FILE_QUAD, FILE_QDATE, FILE_QLDATE, FILE_QWDATE} then converted (cvt_64 m p) ms
      else if t \<in> {FILE_STRING, FILE_BESTRING16, FILE_LESTRING16} then
        Ret 1 (ms\<lparr>ms_value := p[MAXstring - 1 := NUL]\<rparr>)
      else if t = FILE_PSTRING then mconvert_pstring m ms
      else if t = FILE_BESHORT then converted (cvt_16 m (put_h (join16 (p ! 0) (p ! 1)) p)) ms
      else if t \<in> {FILE_BELONG, FILE_BEDATE, FILE_BELDATE} then
        converted (cvt_32 m (put_l (join32 (p ! 0) (p ! 1) (p ! 2) (p ! 3)) p)) ms
      else if t \<in> {FILE_BEQUAD, FILE_BEQDATE, FILE_BEQLDATE, FILE_BEQWDATE} then
        converted (cvt_64 m (put_q (join64 (p ! 0) (p ! 1) (p ! 2) (p ! 3) (p ! 4) (p ! 5) (p ! 6) (p ! 7)) p)) ms
      else if t = FILE_LESHORT then
        converted (cvt_32 m (put_l (join32 (p ! 3) (p ! 2) (p ! 1) (p ! 0)) p)) ms
      else if t \<in> {FILE_LEQUAD, FILE_LEQDATE, FILE_LEQLDATE, FILE_LEQWDATE} then
        converted (cvt_64 m (put_q (join64 (p ! 7) (p ! 6) (p ! 5) (p ! 4) (p ! 3) (p ! 2) (p ! 1) (p ! 0)) p)) ms
      else if t \<in> {FILE_MELONG, FILE_MEDATE, FILE_MELDATE} then
        converted (cvt_32 m (put_l (join32 (p ! 1) (p ! 0) (p ! 3) (p ! 2)) p)) ms
      else if t = FILE_FLOAT then converted (Some (cvt_float env m p)) ms
      else if t = FILE_BEFLOAT then
        converted (Some (cvt_float env m (put_l (join32 (p ! 0) (p ! 1) (p ! 2) (p ! 3)) p))) ms
      else if t = FILE_LEFLOAT then
        converted (Some (cvt_float env m (put_l (join32 (p ! 3) (p ! 2) (p ! 1) (p ! 0)) p))) ms
      else if t = FILE_DOUBLE then converted (Some (cvt_double env m p)) ms
      else if t = FILE_BEDOUBLE then
        converted (Some (cvt_double env m
          (put_q (join64 (p ! 0) (p ! 1) (p ! 2) (p ! 3) (p ! 4) (p ! 5) (p ! 6) (p ! 7)) p))) ms
      else if t = FILE_LEDOUBLE then
        converted (Some (cvt_double env m
          (put_q (join64 (p ! 7) (p ! 6) (p ! 5) (p ! 4) (p ! 3) (p ! 2) (p ! 1) (p ! 0)) p))) ms
      else if t \<in> {FILE_REGEX, FILE_SEARCH, FILE_DEFAULT, FILE_NAME, FILE_USE} then Ret 1 ms
      else obind (file_magerror env (bytes ''invalid type %d in mconvert()'') [Arg_int (of_nat (m_type m))] ms)
             (\<lambda>_ ms. Ret 0 ms))"

section \<open>Indirect offsets\<close>

text \<open>
  Arithmetic on the number found and the operand \<open>off\<close>, an \<open>int\<close>: on \<open>int\<close>s where the number is
  promoted to one, modulo \<open>2 ^ 32\<close> where it is a \<open>uint32_t\<close>.
\<close>

definition fits_int :: "int \<Rightarrow> 32 word option" where
  "fits_int y = (if - (2 ^ 31) \<le> y \<and> y < 2 ^ 31 then Some (of_int y) else None)"

definition in_int :: "nat \<Rightarrow> int \<Rightarrow> int \<Rightarrow> 32 word option" where
  "in_int op x off =
     (if op = FILE_OPAND then Some (of_int (x AND off))
      else if op = FILE_OPOR then Some (of_int (x OR off))
      else if op = FILE_OPXOR then Some (of_int (x XOR off))
      else if op = FILE_OPADD then fits_int (x + off)
      else if op = FILE_OPMINUS then fits_int (x - off)
      else if op = FILE_OPMULTIPLY then fits_int (x * off)
      else if op = FILE_OPDIVIDE then fits_int (x sdiv off)
      else if x = - (2 ^ 31) \<and> off = - 1 then None
      else Some (of_int (x smod off)))"

definition in_uint :: "nat \<Rightarrow> 32 word \<Rightarrow> 32 word \<Rightarrow> 32 word" where
  "in_uint op x off =
     (if op = FILE_OPAND then x AND off
      else if op = FILE_OPOR then x OR off
      else if op = FILE_OPXOR then x XOR off
      else if op = FILE_OPADD then x + off
      else if op = FILE_OPMINUS then x - off
      else if op = FILE_OPMULTIPLY then x * off
      else if op = FILE_OPDIVIDE then x div off
      else x mod off)"

text \<open>One definition for each case of the switch: the new offset, before \<open>~\<close>.\<close>

definition indirect_byte :: "nat \<Rightarrow> int \<Rightarrow> valuetype \<Rightarrow> 32 word option" where
  "indirect_byte op off p =
     (if off \<noteq> 0 then in_int op (uint (val_b p)) off else Some (ucast (val_b p)))"

definition indirect_beshort :: "nat \<Rightarrow> int \<Rightarrow> valuetype \<Rightarrow> 32 word option" where
  "indirect_beshort op off p =
     (let x = sint (join16 (p ! 0) (p ! 1)) in if off \<noteq> 0 then in_int op x off else Some (of_int x))"

definition indirect_leshort :: "nat \<Rightarrow> int \<Rightarrow> valuetype \<Rightarrow> 32 word option" where
  "indirect_leshort op off p =
     (let x = sint (join16 (p ! 1) (p ! 0)) in if off \<noteq> 0 then in_int op x off else Some (of_int x))"

definition indirect_short :: "nat \<Rightarrow> int \<Rightarrow> valuetype \<Rightarrow> 32 word option" where
  "indirect_short op off p =
     (if off \<noteq> 0 then in_int op (uint (val_h p)) off else Some (ucast (val_h p)))"

definition indirect_belong :: "nat \<Rightarrow> int \<Rightarrow> valuetype \<Rightarrow> 32 word option" where
  "indirect_belong op off p =
     (let x = sint (join32 (p ! 0) (p ! 1) (p ! 2) (p ! 3)) in
      if off \<noteq> 0 then in_int op x off else Some (of_int x))"

text \<open>Without an operand the lowest byte is taken from the wrong place.\<close>

definition indirect_lelong :: "nat \<Rightarrow> int \<Rightarrow> valuetype \<Rightarrow> 32 word option" where
  "indirect_lelong op off p =
     (if off \<noteq> 0 then in_int op (sint (join32 (p ! 3) (p ! 2) (p ! 1) (p ! 0))) off
      else Some (join32 (p ! 3) (p ! 2) (p ! 1) (p ! 2)))"

definition indirect_melong :: "nat \<Rightarrow> int \<Rightarrow> valuetype \<Rightarrow> 32 word option" where
  "indirect_melong op off p =
     (let x = sint (join32 (p ! 1) (p ! 0) (p ! 3) (p ! 2)) in
      if off \<noteq> 0 then in_int op x off else Some (of_int x))"

definition indirect_long :: "nat \<Rightarrow> int \<Rightarrow> valuetype \<Rightarrow> 32 word option" where
  "indirect_long op off p =
     Some (if off \<noteq> 0 then in_uint op (val_l p) (of_int off) else val_l p)"

text \<open>
  The operand that is itself read from the buffer, at \<open>offset + off\<close>, wherever that is.
\<close>

definition indirect_off :: "nat \<Rightarrow> byte list \<Rightarrow> 32 word \<Rightarrow> int \<Rightarrow> int option" where
  "indirect_off t s offset off =
     (let i = uint offset + off; q = drop (nat i) s;
          n = (if t = FILE_BYTE then 1
                  else if t \<in> {FILE_SHORT, FILE_BESHORT, FILE_LESHORT} then 2
                  else if t \<in> {FILE_LONG, FILE_BELONG, FILE_BEID3, FILE_LEID3, FILE_LELONG, FILE_MELONG} then 4
                  else 0)
      in if n = 0 then Some off
         else if i < 0 \<or> length q < n then None
         else Some (
           if t = FILE_BYTE then uint (val_b q)
           else if t = FILE_SHORT then uint (val_h q)
           else if t = FILE_BESHORT then sint (join16 (q ! 0) (q ! 1))
           else if t = FILE_LESHORT then sint (join16 (q ! 1) (q ! 0))
           else if t = FILE_LONG then sint (val_l q)
           else if t \<in> {FILE_BELONG, FILE_BEID3} then sint (join32 (q ! 0) (q ! 1) (q ! 2) (q ! 3))
           else if t \<in> {FILE_LEID3, FILE_LELONG} then sint (join32 (q ! 3) (q ! 2) (q ! 1) (q ! 0))
           else sint (join32 (q ! 1) (q ! 0) (q ! 3) (q ! 2))))"

text \<open>
  The offset the switch computes: \<open>Some None\<close> when the buffer is too short (\<open>return 0\<close>), \<open>None\<close>
  for what is undefined.
\<close>

definition indirect_value :: "magic \<Rightarrow> nat \<Rightarrow> nat \<Rightarrow> int \<Rightarrow> 32 word \<Rightarrow> valuetype \<Rightarrow> 32 word option option" where
  "indirect_value m t nbytes off offset p =
     (let op = ops (m_in_op m);
          found = (\<lambda>n r. if nbytes < unat (offset + n) then Some None
            else map_option (\<lambda>x. Some (if op_inverse (m_in_op m) then NOT x else x)) r)
      in if t = FILE_BYTE then found 1 (indirect_byte op off p)
         else if t = FILE_BESHORT then found 2 (indirect_beshort op off p)
         else if t = FILE_LESHORT then found 2 (indirect_leshort op off p)
         else if t = FILE_SHORT then found 2 (indirect_short op off p)
         else if t \<in> {FILE_BELONG, FILE_BEID3} then found 4 (indirect_belong op off p)
         else if t \<in> {FILE_LELONG, FILE_LEID3} then found 4 (indirect_lelong op off p)
         else if t = FILE_MELONG then found 4 (indirect_melong op off p)
         else if t = FILE_LONG then found 4 (indirect_long op off p)
         else Some (Some offset))"

text \<open>The number in an ID3 header: seven bits of each byte.\<close>

definition id3_offset :: "32 word \<Rightarrow> 32 word" where
  "id3_offset offset =
     ((offset AND 0x7f) OR push_bit 7 (drop_bit 8 offset AND 0x7f) OR
      push_bit 14 (drop_bit 16 offset AND 0x7f) OR push_bit 21 (drop_bit 24 offset AND 0x7f)) + 10"

section \<open>\<open>mget\<close>, first part\<close>

text \<open>An early \<open>return\<close>, or the offset at which the value has been copied.\<close>

datatype fetched = Stop int | Have "32 word"

definition indirect_add :: "magic \<Rightarrow> nat \<Rightarrow> 32 word \<Rightarrow> magic_set \<Rightarrow> 32 word option" where
  "indirect_add m cont_level offset ms =
     (if \<not> INDIROFFADD m then Some offset
      else if 0 < cont_level \<and> cont_level - 1 < length (li ms)
      then Some (offset + li_off (li ms ! (cont_level - 1))) else None)"

definition mget_fetch ::
    "environ \<Rightarrow> byte list \<Rightarrow> magic \<Rightarrow> nat \<Rightarrow> nat \<Rightarrow> nat \<Rightarrow> bool \<Rightarrow> magic_set \<Rightarrow> (fetched, magic_set) outcome" where
  "mget_fetch env s m nbytes base cont_level flip ms =
     (let offset = ms_offset ms; count = unat (str_range m); t = cvt_flip (m_in_type m) flip in
      obind (mcopy env (m_type m) (INDIR m) s (offset + of_nat base) (nbytes mod 2 ^ 32) count ms) (\<lambda>r ms.
      if r = - 1 then Ret (Stop (- 1)) ms
      else if \<not> INDIR m then Ret (Have offset) ms
      else (case (if op_indirect (m_in_op m) then indirect_off t s offset (sint (m_in_offset m))
                  else Some (sint (m_in_offset m))) of
          None \<Rightarrow> Fault ms
        | Some off \<Rightarrow>
            (case indirect_value m t nbytes off offset (ms_value ms) of
               None \<Rightarrow> Fault ms
             | Some None \<Rightarrow> Ret (Stop 0) ms
             | Some (Some offset) \<Rightarrow>
                 (case indirect_add m cont_level
                         (if t \<in> {FILE_LEID3, FILE_BEID3} then id3_offset offset else offset) ms of
                    None \<Rightarrow> Fault ms
                  | Some offset \<Rightarrow>
                      obind (mcopy env (m_type m) False s offset nbytes count ms) (\<lambda>r ms.
                      if r = - 1 then Ret (Stop (- 1)) ms
                      else Ret (Have offset) (ms\<lparr>ms_offset := offset\<rparr>)))))))"

text \<open>The check that the buffer is long enough for the type; the sum is a \<open>uint32_t\<close>.\<close>

definition too_short :: "magic \<Rightarrow> nat \<Rightarrow> 32 word \<Rightarrow> bool" where
  "too_short m nbytes offset =
     (let t = m_type m in
      if t = FILE_BYTE then nbytes < unat (offset + 1)
      else if t \<in> {FILE_SHORT, FILE_BESHORT, FILE_LESHORT} then nbytes < unat (offset + 2)
      else if t \<in> {FILE_LONG, FILE_BELONG, FILE_LELONG, FILE_MELONG, FILE_DATE, FILE_BEDATE, FILE_LEDATE,
          FILE_MEDATE, FILE_LDATE, FILE_BELDATE, FILE_LELDATE, FILE_MELDATE, FILE_FLOAT, FILE_BEFLOAT,
          FILE_LEFLOAT} then nbytes < unat (offset + 4)
      else if t \<in> {FILE_DOUBLE, FILE_BEDOUBLE, FILE_LEDOUBLE} then nbytes < unat (offset + 8)
      else if t \<in> {FILE_STRING, FILE_PSTRING, FILE_SEARCH} then nbytes < unat (offset + ucast (m_vallen m))
      else if t \<in> {FILE_REGEX, FILE_INDIRECT, FILE_USE} then nbytes < unat offset
      else False)"

end
