(* ===== verification/SoftMagic.thy ===== *)
theory SoftMagic
  imports MagicValue
begin

unbundle bit_operations_syntax

text \<open>
  The magic interpreter, \<open>file/softmagic.c\<close>: comparing strings, the test of one entry
  (\<open>magiccheck\<close>), printing (\<open>mprint\<close>), and the walk over an array of entries with its levels of
  continuations (\<open>match\<close>). \<open>match\<close> calls itself through \<open>use\<close> and \<open>indirect\<close> entries, without a
  bound of its own; its model takes the depth of calls granted and is \<open>None\<close> when they do not
  suffice. What is written to \<open>stderr\<close> for debugging is left out.
\<close>

section \<open>Comparing strings\<close>

text \<open>\<open>ctype.h\<close> in the C locale.\<close>

definition isspace :: "byte \<Rightarrow> bool" where "isspace c \<longleftrightarrow> c = 32 \<or> 9 \<le> c \<and> c \<le> 13"
definition islower :: "byte \<Rightarrow> bool" where "islower c \<longleftrightarrow> 97 \<le> c \<and> c \<le> 122"
definition isupper :: "byte \<Rightarrow> bool" where "isupper c \<longleftrightarrow> 65 \<le> c \<and> c \<le> 90"
definition to_lower :: "byte \<Rightarrow> byte" where "to_lower c = (if isupper c then c + 32 else c)"
definition to_upper :: "byte \<Rightarrow> byte" where "to_upper c = (if islower c then c - 32 else c)"

text \<open>\<open>while(isspace(*b)) b++\<close>; \<open>None\<close> when it leaves the array.\<close>

fun skip_space :: "byte list \<Rightarrow> byte list option" where
  "skip_space [] = None"
| "skip_space (c # b) = (if isspace c then skip_space b else Some (c # b))"

definition byte_diff :: "byte \<Rightarrow> byte \<Rightarrow> 64 word" where
  "byte_diff y x = of_int (uint y - uint x)"

fun strncmp_fast :: "nat \<Rightarrow> byte list \<Rightarrow> byte list \<Rightarrow> 64 word option" where
  "strncmp_fast 0 a b = Some 0"
| "strncmp_fast (Suc n) (x # a) (y # b) =
     (let v = byte_diff y x in if v \<noteq> 0 then Some v else strncmp_fast n a b)"
| "strncmp_fast (Suc n) a b = None"

fun strncmp_flags :: "32 word \<Rightarrow> nat \<Rightarrow> byte list \<Rightarrow> byte list \<Rightarrow> 64 word option" where
  "strncmp_flags flags 0 a b = Some 0"
| "strncmp_flags flags (Suc n) (x # a) (y # b) =
     (if STRING_IGNORE_LOWERCASE flags \<and> islower x then
        (let v = byte_diff (to_lower y) x in if v \<noteq> 0 then Some v else strncmp_flags flags n a b)
      else if STRING_IGNORE_UPPERCASE flags \<and> isupper x then
        (let v = byte_diff (to_upper y) x in if v \<noteq> 0 then Some v else strncmp_flags flags n a b)
      else if STRING_COMPACT_WHITESPACE flags \<and> isspace x then
        (if isspace y then
           (case a of
              [] \<Rightarrow> None
            | x' # _ \<Rightarrow>
                if isspace x' then strncmp_flags flags n a b
                else (case skip_space b of None \<Rightarrow> None | Some b \<Rightarrow> strncmp_flags flags n a b))
         else Some 1)
      else if STRING_COMPACT_OPTIONAL_WHITESPACE flags \<and> isspace x then
        (case skip_space (y # b) of None \<Rightarrow> None | Some b \<Rightarrow> strncmp_flags flags n a b)
      else
        (let v = byte_diff y x in if v \<noteq> 0 then Some v else strncmp_flags flags n a b))"
| "strncmp_flags flags (Suc n) a b = None"

definition file_strncmp :: "byte list \<Rightarrow> byte list \<Rightarrow> nat \<Rightarrow> 32 word \<Rightarrow> 64 word option" where
  "file_strncmp s1 s2 len flags =
     (if flags = 0 then strncmp_fast len s1 s2 else strncmp_flags flags len s1 s2)"

definition file_strncmp16 :: "byte list \<Rightarrow> byte list \<Rightarrow> nat \<Rightarrow> 32 word \<Rightarrow> 64 word option" where
  "file_strncmp16 a b len flags = file_strncmp a b len 0"

text \<open>
  Comparison of floating-point numbers by their bits: a NaN is neither less than nor equal to
  anything, and the two zeros are equal.
\<close>

definition float_nan :: "32 word \<Rightarrow> bool" where
  "float_nan w \<longleftrightarrow> 0x7f800000 < w AND 0x7fffffff"

definition float_key :: "32 word \<Rightarrow> int" where
  "float_key w = (if bit w 31 then - uint (w AND 0x7fffffff) else uint w)"

definition float_eq :: "32 word \<Rightarrow> 32 word \<Rightarrow> bool" where
  "float_eq v w \<longleftrightarrow> \<not> float_nan v \<and> \<not> float_nan w \<and> float_key v = float_key w"

definition float_less :: "32 word \<Rightarrow> 32 word \<Rightarrow> bool" where
  "float_less v w \<longleftrightarrow> \<not> float_nan v \<and> \<not> float_nan w \<and> float_key v < float_key w"

section \<open>\<open>moffset\<close> and \<open>mprint\<close>\<close>

text \<open>\<open>strcspn(p->s, "\<newline>")\<close> and \<open>strlen(p->s)\<close>; \<open>None\<close> outside the union.\<close>

definition str_end :: "valuetype \<Rightarrow> nat option" where
  "str_end p = (let n = length (takeWhile (\<lambda>c. c \<noteq> NUL) p) in if n < length p then Some n else None)"

definition line_end :: "valuetype \<Rightarrow> nat option" where
  "line_end p =
     (let n = length (takeWhile (\<lambda>c. c \<noteq> NUL \<and> c \<noteq> LF) p) in if n < length p then Some n else None)"

text \<open>\<open>if(*m->value.s == '\0') p->s[strcspn(p->s, "\<newline>")] = '\0'\<close>.\<close>

definition cut_line :: "magic \<Rightarrow> valuetype \<Rightarrow> valuetype option" where
  "cut_line m p =
     (if m_value m ! 0 = NUL
      then (case line_end p of None \<Rightarrow> None | Some i \<Rightarrow> Some (p[i := NUL])) else Some p)"

definition type_size :: "nat \<Rightarrow> 32 word" where
  "type_size t =
     (if t = FILE_BYTE then 1
      else if t \<in> {FILE_SHORT, FILE_BESHORT, FILE_LESHORT} then 2
      else if t \<in> {FILE_LONG, FILE_BELONG, FILE_LELONG, FILE_MELONG, FILE_DATE, FILE_BEDATE, FILE_LEDATE,
          FILE_MEDATE, FILE_LDATE, FILE_BELDATE, FILE_LELDATE, FILE_MELDATE, FILE_FLOAT, FILE_BEFLOAT,
          FILE_LEFLOAT} then 4
      else 8)"

definition moffset_string :: "magic \<Rightarrow> magic_set \<Rightarrow> (32 word, magic_set) outcome" where
  "moffset_string m ms =
     (if m_reln m = REL_EQ \<or> m_reln m = REL_NOT then Ret (ms_offset ms + ucast (m_vallen m)) ms
      else (case cut_line m (ms_value ms) of
          None \<Rightarrow> Fault ms
        | Some p \<Rightarrow>
            let ms = ms\<lparr>ms_value := p\<rparr> in
            (case str_end p of
               None \<Rightarrow> Fault ms
             | Some n \<Rightarrow>
                 if m_type m = FILE_PSTRING then
                   (case file_pstring_length_size m of
                      None \<Rightarrow> Exit 134 ms
                    | Some k \<Rightarrow> Ret (ms_offset ms + of_nat n + of_nat k) ms)
                 else Ret (ms_offset ms + of_nat n) ms)))"

definition moffset :: "magic \<Rightarrow> magic_set \<Rightarrow> (32 word, magic_set) outcome" where
  "moffset m ms =
     (let t = m_type m in
      if t \<in> {FILE_BYTE, FILE_SHORT, FILE_BESHORT, FILE_LESHORT, FILE_LONG, FILE_BELONG, FILE_LELONG,
          FILE_MELONG, FILE_QUAD, FILE_BEQUAD, FILE_LEQUAD, FILE_DATE, FILE_BEDATE, FILE_LEDATE,
          FILE_MEDATE, FILE_LDATE, FILE_BELDATE, FILE_LELDATE, FILE_MELDATE, FILE_QDATE, FILE_BEQDATE,
          FILE_LEQDATE, FILE_QLDATE, FILE_BEQLDATE, FILE_LEQLDATE, FILE_FLOAT, FILE_BEFLOAT, FILE_LEFLOAT,
          FILE_DOUBLE, FILE_BEDOUBLE, FILE_LEDOUBLE} then Ret (ms_offset ms + type_size t) ms
      else if t \<in> {FILE_STRING, FILE_PSTRING, FILE_BESTRING16, FILE_LESTRING16} then moffset_string m ms
      else if t = FILE_REGEX then
        Ret (if REGEX_OFFSET_START (str_flags m) then of_nat (search_offset ms)
             else of_nat (search_offset ms + rm_len ms)) ms
      else if t = FILE_SEARCH then
        Ret (if REGEX_OFFSET_START (str_flags m) then of_nat (search_offset ms)
             else of_nat (search_offset ms + unat (m_vallen m))) ms
      else if t = FILE_DEFAULT \<or> t = FILE_INDIRECT then Ret (ms_offset ms) ms
      else Ret 0 ms)"

text \<open>
  \<open>check_fmt\<close>: does the description contain a match of \<open>%[-0-9\.]*s\<close>? The pattern is compiled
  each time, which may fail.
\<close>

fun fmt_tail :: "byte list \<Rightarrow> bool" where
  "fmt_tail [] = False"
| "fmt_tail (c # cs) = (c = 115 \<or> (c = 45 \<or> c = 46 \<or> c = 92 \<or> 48 \<le> c \<and> c \<le> 57) \<and> fmt_tail cs)"

fun fmt_string :: "byte list \<Rightarrow> bool" where
  "fmt_string [] = False"
| "fmt_string (c # cs) = (c = 37 \<and> fmt_tail cs \<or> fmt_string cs)"

definition check_fmt :: "environ \<Rightarrow> magic \<Rightarrow> magic_set \<Rightarrow> (int, magic_set) outcome" where
  "check_fmt env m ms =
     (if 37 \<notin> set (m_desc m) then Ret 0 ms
      else case fmt_regcomp env of
        Some (rc, msg) \<Rightarrow>
          obind (file_magerror env (bytes ''regex error %d, (%s)'') [Arg_int (of_int rc), Arg_str msg] ms)
            (\<lambda>_ ms. Ret (- 1) ms)
      | None \<Rightarrow> Ret (if fmt_string (m_desc m) then 1 else 0) ms)"

text \<open>Printing a number: as text when the format asks for a string.\<close>

definition mprint_number ::
    "environ \<Rightarrow> magic \<Rightarrow> byte list \<Rightarrow> printf_arg \<Rightarrow> int \<Rightarrow> magic_set \<Rightarrow> (int, magic_set) outcome" where
  "mprint_number env m shown arg t ms =
     obind (check_fmt env m ms) (\<lambda>c ms.
     if c = - 1 then Ret (- 1) ms
     else obind (file_printf env (m_desc m) [if c = 1 then Arg_str shown else arg] ms) (\<lambda>r ms.
     if r = - 1 then Ret (- 1) ms else Ret t ms))"

definition mprint_text :: "environ \<Rightarrow> magic \<Rightarrow> printf_arg \<Rightarrow> int \<Rightarrow> magic_set \<Rightarrow> (int, magic_set) outcome" where
  "mprint_text env m arg t ms =
     obind (file_printf env (m_desc m) [arg] ms) (\<lambda>r ms. if r = - 1 then Ret (- 1) ms else Ret t ms)"

text \<open>
  Trimming: the loop that looks for the last character that is no space runs backwards, and
  has left the string when there is none.
\<close>

definition trim_string :: "byte list \<Rightarrow> (nat \<times> byte list) option" where
  "trim_string cs =
     (let str = dropWhile isspace cs
      in if str = [] then None
         else Some (length cs - length str, rev (dropWhile isspace (rev str))))"

definition mprint_string :: "environ \<Rightarrow> magic \<Rightarrow> magic_set \<Rightarrow> (int, magic_set) outcome" where
  "mprint_string env m ms =
     (if m_reln m = REL_EQ \<or> m_reln m = REL_NOT
      then mprint_text env m (Arg_str (c_string (m_value m))) (sint (ms_offset ms + ucast (m_vallen m))) ms
      else (case (str_end (ms_value ms), cut_line m (ms_value ms)) of
          (Some n, Some p) \<Rightarrow>
            let ms = ms\<lparr>ms_value := p\<rparr> in
            (case (if STRING_TRIM (str_flags m) then trim_string (c_string p) else Some (0, c_string p)) of
               None \<Rightarrow> Fault ms
             | Some (i, str) \<Rightarrow>
                 let ms = (if STRING_TRIM (str_flags m) then ms\<lparr>ms_value := p[i + length str := NUL]\<rparr> else ms) in
                 obind (file_printf env (m_desc m) [Arg_str str] ms) (\<lambda>r ms.
                 if r = - 1 then Ret (- 1) ms
                 else if m_type m = FILE_PSTRING then
                   (case file_pstring_length_size m of
                      None \<Rightarrow> Exit 134 ms
                    | Some k \<Rightarrow> Ret (sint (ms_offset ms + of_nat n + of_nat k)) ms)
                 else Ret (sint (ms_offset ms + of_nat n)) ms))
        | _ \<Rightarrow> Fault ms))"

definition mprint_regex :: "environ \<Rightarrow> byte list \<Rightarrow> magic \<Rightarrow> magic_set \<Rightarrow> (int, magic_set) outcome" where
  "mprint_regex env s m ms =
     (case search_s ms of
        None \<Rightarrow> Fault ms
      | Some i \<Rightarrow>
          if strndup_ok env (rm_len ms) then
            mprint_text env m (Arg_str (c_string (take (rm_len ms) (drop i s))))
              (sint (of_nat (if REGEX_OFFSET_START (str_flags m) then search_offset ms
                             else search_offset ms + rm_len ms) :: 32 word)) ms
          else obind (file_oomem env (rm_len ms) ms) (\<lambda>_ ms. Ret (- 1) ms))"

definition mprint :: "environ \<Rightarrow> byte list \<Rightarrow> magic \<Rightarrow> magic_set \<Rightarrow> (int, magic_set) outcome" where
  "mprint env s m ms =
     (let t = m_type m; p = ms_value ms; next = sint (ms_offset ms + type_size t) in
      if t = FILE_BYTE then
        (let v = file_signextend m (ucast (val_b p)); c = (ucast v :: 8 word)
         in mprint_number env m (c_string [c]) (Arg_int (ucast c)) next ms)
      else if t \<in> {FILE_SHORT, FILE_BESHORT, FILE_LESHORT} then
        (let v = file_signextend m (ucast (val_h p)); c = (ucast v :: 16 word)
         in mprint_number env m (decimal (unat c)) (Arg_int (ucast c)) next ms)
      else if t \<in> {FILE_LONG, FILE_BELONG, FILE_LELONG, FILE_MELONG} then
        (let v = file_signextend m (ucast (val_l p)); c = (ucast v :: 32 word)
         in mprint_number env m (decimal (unat c)) (Arg_int (ucast c)) next ms)
      else if t \<in> {FILE_QUAD, FILE_BEQUAD, FILE_LEQUAD} then
        mprint_text env m (Arg_int (file_signextend m (val_q p))) next ms
      else if t \<in> {FILE_STRING, FILE_PSTRING, FILE_BESTRING16, FILE_LESTRING16} then mprint_string env m ms
      else if t \<in> {FILE_DATE, FILE_BEDATE, FILE_LEDATE, FILE_MEDATE} then
        mprint_text env m (Arg_str (fmttime env (ucast (val_l p)) 1)) next ms
      else if t \<in> {FILE_LDATE, FILE_BELDATE, FILE_LELDATE, FILE_MELDATE} then
        mprint_text env m (Arg_str (fmttime env (ucast (val_l p)) 0)) next ms
      else if t \<in> {FILE_QDATE, FILE_BEQDATE, FILE_LEQDATE} then
        mprint_text env m (Arg_str (fmttime env (val_q p) 1)) next ms
      else if t \<in> {FILE_QLDATE, FILE_BEQLDATE, FILE_LEQLDATE} then
        mprint_text env m (Arg_str (fmttime env (val_q p) 0)) next ms
      else if t \<in> {FILE_QWDATE, FILE_BEQWDATE, FILE_LEQWDATE} then
        mprint_text env m (Arg_str (fmttime env (val_q p) 2)) next ms
      else if t \<in> {FILE_FLOAT, FILE_BEFLOAT, FILE_LEFLOAT} then
        mprint_number env m (format_g env (Arg_float (val_l p))) (Arg_float (val_l p)) (sint (m_offset m + 4)) ms
      else if t \<in> {FILE_DOUBLE, FILE_BEDOUBLE, FILE_LEDOUBLE} then
        mprint_number env m (format_g env (Arg_double (val_q p))) (Arg_double (val_q p)) next ms
      else if t = FILE_REGEX then mprint_regex env s m ms
      else if t = FILE_SEARCH then
        mprint_text env m (Arg_str (c_string (m_value m)))
          (sint (of_nat (if REGEX_OFFSET_START (str_flags m) then search_offset ms
                         else search_offset ms + unat (m_vallen m)) :: 32 word)) ms
      else if t = FILE_DEFAULT then
        mprint_text env m (Arg_str (c_string (m_value m))) (sint (ms_offset ms)) ms
      else if t \<in> {FILE_INDIRECT, FILE_USE, FILE_NAME} then Ret (sint (ms_offset ms)) ms
      else obind (file_magerror env (bytes ''invalid m->type (%d) in mprint()'') [Arg_int (of_nat t)] ms)
             (\<lambda>_ ms. Ret (- 1) ms))"

end
