(* ===== verification/MagicMatch.thy ===== *)
theory MagicMatch
  imports SoftMagic
begin

unbundle bit_operations_syntax

text \<open>
  The second half of \<open>file/softmagic.c\<close>: \<open>magiccheck\<close> decides one entry, \<open>mget\<close> fetches its value
  and may call the interpreter again, \<open>match\<close> walks over an array of entries. The entries still
  to come are a list \<open>rest\<close>, of which \<open>k\<close> belong to the array: the code looks at the level of the
  entry behind the last one.
\<close>

section \<open>\<open>magiccheck\<close>\<close>

definition invalid_relation :: "environ \<Rightarrow> string \<Rightarrow> magic \<Rightarrow> magic_set \<Rightarrow> (int, magic_set) outcome" where
  "invalid_relation env msg m ms =
     obind (file_magerror env (bytes msg) [Arg_int (ucast (m_reln m))] ms) (\<lambda>_ ms. Ret (- 1) ms)"

definition truth :: "bool \<Rightarrow> int" where "truth b = (if b then 1 else 0)"

definition check_float :: "environ \<Rightarrow> magic \<Rightarrow> magic_set \<Rightarrow> (int, magic_set) outcome" where
  "check_float env m ms =
     (let fl = val_l (m_value m); fv = val_l (ms_value ms) in
      if m_reln m = REL_ANY then Ret 1 ms
      else if m_reln m = REL_NOT then Ret (truth (\<not> float_eq fv fl)) ms
      else if m_reln m = REL_EQ then Ret (truth (float_eq fv fl)) ms
      else if m_reln m = REL_GT then Ret (truth (float_less fl fv)) ms
      else if m_reln m = REL_LT then Ret (truth (float_less fv fl)) ms
      else invalid_relation env ''cannot happen with float: invalid relation `%c' '' m ms)"

text \<open>The case of a \<open>double\<close> compares the two \<open>float\<close> variables, which have no value there.\<close>

definition check_double :: "environ \<Rightarrow> magic \<Rightarrow> magic_set \<Rightarrow> (int, magic_set) outcome" where
  "check_double env m ms =
     (if m_reln m = REL_ANY then Ret 1 ms
      else if m_reln m \<in> {REL_NOT, REL_EQ, REL_GT, REL_LT} then Fault ms
      else invalid_relation env ''cannot happen with double: invalid relation `%c' '' m ms)"

text \<open>
  \<open>search\<close>: the pattern at each position in turn, at most \<open>n\<close> of them; the last comparison's
  value and the position of a match.
\<close>

fun search_loop :: "nat \<Rightarrow> magic \<Rightarrow> nat \<Rightarrow> byte list \<Rightarrow> nat \<Rightarrow> 64 word \<Rightarrow> (64 word \<times> nat) option" where
  "search_loop 0 m slen b idx v = Some (v, 0)"
| "search_loop (Suc n) m slen b idx v =
     (case file_strncmp (m_value m) b slen (str_flags m) of
        None \<Rightarrow> None
      | Some v \<Rightarrow> if v = 0 then Some (0, idx) else search_loop n m slen (tl b) (idx + 1) v)"

definition check_search :: "byte list \<Rightarrow> magic \<Rightarrow> magic_set \<Rightarrow> (64 word option, magic_set) outcome" where
  "check_search s m ms =
     (case search_s ms of
        None \<Rightarrow> Ret None ms
      | Some i \<Rightarrow>
          (let slen = min (unat (m_vallen m)) MAXstring; range = unat (str_range m);
               n = search_len ms + 1 - slen
           in case search_loop (if range = 0 then n else min range n) m slen (drop i s) 0 0 of
                None \<Rightarrow> Fault ms
              | Some (v, idx) \<Rightarrow> Ret (Some v) (ms\<lparr>search_offset := search_offset ms + idx\<rparr>)))"

text \<open>
  \<open>regex\<close>: the length of the match is the difference of its start with itself. \<open>-1\<close> stands for
  the error return, \<open>0\<close> for no region to search.
\<close>

definition check_regex :: "environ \<Rightarrow> byte list \<Rightarrow> magic \<Rightarrow> magic_set \<Rightarrow> (64 word option, magic_set) outcome" where
  "check_regex env s m ms =
     (case search_s ms of
        None \<Rightarrow> Ret None ms
      | Some i \<Rightarrow>
          if length s < i + search_len ms then Fault ms
          else (case regex env (c_string (m_value m))
                  (STRING_IGNORE_LOWERCASE (str_flags m) \<or> STRING_IGNORE_UPPERCASE (str_flags m))
                  (take (search_len ms) (drop i s)) of
             Rx_error rc msg \<Rightarrow>
               obind (file_magerror env (bytes ''regex error %d, (%s)'') [Arg_int (of_int rc), Arg_str msg] ms) (\<lambda>_ ms. Ret (Some (- 1)) ms)
           | Rx_fail rc msg \<Rightarrow>
               obind (file_magerror env (bytes ''regexec error %d, (%s)'') [Arg_int (of_int rc), Arg_str msg] ms) (\<lambda>_ ms. Ret (Some (- 1)) ms)
           | Rx_nomatch \<Rightarrow> Ret (Some 1) ms
           | Rx_match so eo \<Rightarrow>
               Ret (Some 0) (ms\<lparr>search_s := Some (i + so), search_offset := search_offset ms + so,
                                rm_len := so - so\<rparr>)))"

definition check_relation :: "environ \<Rightarrow> magic \<Rightarrow> 64 word \<Rightarrow> 64 word \<Rightarrow> magic_set \<Rightarrow> (int, magic_set) outcome" where
  "check_relation env m v l ms =
     (let v = file_signextend m v in
      if m_reln m = REL_ANY then Ret 1 ms
      else if m_reln m = REL_NOT then Ret (truth (v \<noteq> l)) ms
      else if m_reln m = REL_EQ then Ret (truth (v = l)) ms
      else if m_reln m = REL_GT then Ret (truth (if UNSIGNED m then l < v else sint l < sint v)) ms
      else if m_reln m = REL_LT then Ret (truth (if UNSIGNED m then v < l else sint v < sint l)) ms
      else if m_reln m = REL_AND then Ret (truth (v AND l = l)) ms
      else if m_reln m = REL_XOR then Ret (truth (v AND l \<noteq> l)) ms
      else invalid_relation env ''cannot happen: invalid relation `%c' '' m ms)"

definition magiccheck :: "environ \<Rightarrow> byte list \<Rightarrow> magic \<Rightarrow> magic_set \<Rightarrow> (int, magic_set) outcome" where
  "magiccheck env s m ms =
     (let t = m_type m; p = ms_value ms; l = val_q (m_value m) in
      if t = FILE_BYTE then check_relation env m (ucast (val_b p)) l ms
      else if t \<in> {FILE_SHORT, FILE_BESHORT, FILE_LESHORT} then check_relation env m (ucast (val_h p)) l ms
      else if t \<in> {FILE_LONG, FILE_BELONG, FILE_LELONG, FILE_MELONG, FILE_DATE, FILE_BEDATE, FILE_LEDATE,
          FILE_MEDATE, FILE_LDATE, FILE_BELDATE, FILE_LELDATE, FILE_MELDATE} then
        check_relation env m (ucast (val_l p)) l ms
      else if t \<in> {FILE_QUAD, FILE_LEQUAD, FILE_BEQUAD, FILE_QDATE, FILE_BEQDATE, FILE_LEQDATE, FILE_QLDATE,
          FILE_BEQLDATE, FILE_LEQLDATE, FILE_QWDATE, FILE_BEQWDATE, FILE_LEQWDATE} then
        check_relation env m (val_q p) l ms
      else if t \<in> {FILE_FLOAT, FILE_BEFLOAT, FILE_LEFLOAT} then check_float env m ms
      else if t \<in> {FILE_DOUBLE, FILE_BEDOUBLE, FILE_LEDOUBLE} then check_double env m ms
      else if t = FILE_DEFAULT then check_relation env m 0 0 ms
      else if t \<in> {FILE_STRING, FILE_PSTRING} then
        (case file_strncmp (m_value m) p (unat (m_vallen m)) (str_flags m) of
           None \<Rightarrow> Fault ms | Some v \<Rightarrow> check_relation env m v 0 ms)
      else if t \<in> {FILE_BESTRING16, FILE_LESTRING16} then
        (case file_strncmp16 (m_value m) p (unat (m_vallen m)) (str_flags m) of
           None \<Rightarrow> Fault ms | Some v \<Rightarrow> check_relation env m v 0 ms)
      else if t = FILE_SEARCH then
        obind (check_search s m ms) (\<lambda>r ms.
          case r of None \<Rightarrow> Ret 0 ms | Some v \<Rightarrow> check_relation env m v 0 ms)
      else if t = FILE_REGEX then
        obind (check_regex env s m ms) (\<lambda>r ms.
          case r of
            None \<Rightarrow> Ret 0 ms
          | Some v \<Rightarrow> if v = - 1 then Ret (- 1) ms else check_relation env m v 0 ms)
      else if t \<in> {FILE_INDIRECT, FILE_USE, FILE_NAME} then Ret 1 ms
      else obind (file_magerror env (bytes ''invalid type %d in magiccheck()'') [Arg_int (of_nat t)] ms)
             (\<lambda>_ ms. Ret (- 1) ms))"

definition handle_annotation :: "environ \<Rightarrow> magic \<Rightarrow> magic_set \<Rightarrow> (int, magic_set) outcome" where
  "handle_annotation env m ms =
     (if MAGIC_APPLE (ms_flags ms) then
        obind (file_printf env (bytes ''%.8s'') [Arg_str (m_apple m)] ms) (\<lambda>r ms.
          if r = - 1 then Ret (- 1) ms else Ret 1 ms)
      else if MAGIC_MIME_TYPE (ms_flags ms) \<and> m_mimetype m \<noteq> [] then
        obind (file_printf env (bytes ''%s'') [Arg_str (m_mimetype m)] ms) (\<lambda>r ms.
          if r = - 1 then Ret (- 1) ms else Ret 1 ms)
      else Ret 0 ms)"

definition print_sep :: "environ \<Rightarrow> bool \<Rightarrow> magic_set \<Rightarrow> (int, magic_set) outcome" where
  "print_sep env firstline ms =
     (if MAGIC_MIME (ms_flags ms) then Ret 0 ms
      else if firstline then Ret 0 ms
      else file_printf env (LF # bytes ''- '') [] ms)"

section \<open>\<open>mget\<close>\<close>

text \<open>
  \<open>call\<close> stands for the recursive calls of \<open>match\<close>: the array, the buffer with \<open>nbytes\<close> and
  \<open>offset\<close>, \<open>mode\<close>, \<open>text\<close>, \<open>flip\<close> and \<open>*returnval\<close>. It yields the value returned and
  \<open>*returnval\<close>.
\<close>

type_synonym match_call =
  "mlist \<Rightarrow> byte list \<Rightarrow> nat \<Rightarrow> nat \<Rightarrow> int \<Rightarrow> bool \<Rightarrow> bool \<Rightarrow> int \<Rightarrow> magic_set \<Rightarrow>
     (int \<times> int, magic_set) outcome option"

fun softmagic_loop ::
    "match_call \<Rightarrow> mlist list \<Rightarrow> byte list \<Rightarrow> nat \<Rightarrow> int \<Rightarrow> bool \<Rightarrow> magic_set \<Rightarrow> (int, magic_set) outcome option" where
  "softmagic_loop call [] buf nbytes mode txt ms = Some (Ret 0 ms)"
| "softmagic_loop call (ml # mls) buf nbytes mode txt ms =
     rbind (call ml buf nbytes 0 mode txt False 0 ms) (\<lambda>r ms.
       if fst r \<noteq> 0 then Some (Ret (fst r) ms)
       else softmagic_loop call mls buf nbytes mode txt ms)"

definition softmagic_with ::
    "match_call \<Rightarrow> byte list \<Rightarrow> nat \<Rightarrow> int \<Rightarrow> bool \<Rightarrow> magic_set \<Rightarrow> (int, magic_set) outcome option" where
  "softmagic_with call buf nbytes mode txt ms =
     (case mlist0 ms of
        None \<Rightarrow> Some (Fault ms)
      | Some mls \<Rightarrow> softmagic_loop call mls buf nbytes mode txt ms)"

definition mget_indirect ::
    "environ \<Rightarrow> match_call \<Rightarrow> byte list \<Rightarrow> magic \<Rightarrow> nat \<Rightarrow> 32 word \<Rightarrow> bool \<Rightarrow> magic_set \<Rightarrow> (int, magic_set) outcome option" where
  "mget_indirect env call s m nbytes offset txt ms =
     (let sbuf = o_buf ms; pos = unat offset in
      rbind (softmagic_with call (drop pos s) (nbytes - pos) BINTEST txt (ms\<lparr>o_buf := None, ms_offset := 0\<rparr>))
        (\<lambda>rv ms.
          if rv = 1 then
            (let rbuf = o_buf ms; ms = ms\<lparr>o_buf := sbuf\<rparr> in
             Some (obind (if \<not> MAGIC_MIME (ms_flags ms) \<and> \<not> MAGIC_APPLE (ms_flags ms)
                          then file_printf env (m_desc m) [Arg_int (ucast offset)] ms else Ret 0 ms) (\<lambda>r ms.
               if r = - 1 then Ret (- 1) ms
               else case rbuf of
                 None \<Rightarrow> Fault ms
               | Some t \<Rightarrow>
                   obind (file_printf env (bytes ''%s'') [Arg_str t] ms) (\<lambda>r ms.
                   if r = - 1 then Ret (- 1) ms else Ret rv ms))))
          else Some (Ret rv (ms\<lparr>o_buf := sbuf\<rparr>))))"

definition mget_use ::
    "environ \<Rightarrow> match_call \<Rightarrow> byte list \<Rightarrow> magic \<Rightarrow> nat \<Rightarrow> 32 word \<Rightarrow> int \<Rightarrow> bool \<Rightarrow> int \<Rightarrow> magic_set \<Rightarrow>
     (int \<times> int, magic_set) outcome option" where
  "mget_use env call s m nbytes offset mode txt returnval ms =
     (let sbuf = c_string (m_value m); flip = (sbuf \<noteq> [] \<and> hd sbuf = 94);
          name = (if flip then tl sbuf else sbuf) in
      case mlist1 ms of
        None \<Rightarrow> Some (Fault ms)
      | Some mls \<Rightarrow>
          (case file_magicfind name mls of
             None \<Rightarrow>
               Some (obind (file_error env 0 (bytes ''cannot find entry `%s' '') [Arg_str name] ms)
                 (\<lambda>_ ms. Ret (- 1, returnval) ms))
           | Some ml \<Rightarrow> call ml s nbytes (unat offset) mode txt flip returnval ms))"

definition mget ::
    "environ \<Rightarrow> match_call \<Rightarrow> byte list \<Rightarrow> magic \<Rightarrow> nat \<Rightarrow> nat \<Rightarrow> nat \<Rightarrow> int \<Rightarrow> bool \<Rightarrow> bool \<Rightarrow> int \<Rightarrow> magic_set \<Rightarrow>
     (int \<times> int, magic_set) outcome option" where
  "mget env call s m nbytes base cont_level mode txt flip returnval ms =
     rbind (Some (mget_fetch env s m nbytes base cont_level flip ms)) (\<lambda>f ms.
       case f of
         Stop r \<Rightarrow> Some (Ret (r, returnval) ms)
       | Have offset \<Rightarrow>
           if too_short m nbytes offset then Some (Ret (0, returnval) ms)
           else if m_type m = FILE_INDIRECT then
             rbind (mget_indirect env call s m nbytes offset txt ms) (\<lambda>rv ms. Some (Ret (rv, returnval) ms))
           else if m_type m = FILE_USE then mget_use env call s m nbytes offset mode txt returnval ms
           else if m_type m = FILE_NAME then
             Some (obind (file_printf env (bytes ''%s'') [Arg_str (m_desc m)] ms) (\<lambda>r ms.
               Ret (if r = - 1 then - 1 else 1, returnval) ms))
           else Some (obind (mconvert env m flip ms) (\<lambda>r ms. Ret (if r = 0 then 0 else 1, returnval) ms)))"

section \<open>\<open>match\<close>\<close>

text \<open>The local variables of \<open>match\<close> that change.\<close>

record match_vars =
  v_level :: nat
  need_separator :: bool
  firstline :: bool
  printed_something :: bool
  returnval :: int

text \<open>\<open>Inl\<close> is a \<open>return\<close>: the value and \<open>*returnval\<close>.\<close>

type_synonym step_result = "(int \<times> int) + match_vars"

definition prints :: "magic_set \<Rightarrow> bool" where
  "prints ms \<longleftrightarrow> \<not> MAGIC_MIME (ms_flags ms) \<and> \<not> MAGIC_APPLE (ms_flags ms)"

definition print_entry :: "environ \<Rightarrow> byte list \<Rightarrow> magic \<Rightarrow> magic_set \<Rightarrow> (int, magic_set) outcome" where
  "print_entry env s m ms = (if prints ms then mprint env s m ms else Ret 0 ms)"

definition fails :: "match_vars \<Rightarrow> magic_set \<Rightarrow> (step_result, magic_set) outcome" where
  "fails v ms = Ret (Inl (- 1, returnval v)) ms"

text \<open>The end of a successful test: note where it ends, make room for the next level.\<close>

definition enter_level :: "environ \<Rightarrow> magic \<Rightarrow> match_vars \<Rightarrow> magic_set \<Rightarrow> (step_result, magic_set) outcome" where
  "enter_level env m v ms =
     obind (moffset m ms) (\<lambda>pos ms.
     obind (set_level (v_level v) (\<lambda>l. l\<lparr>li_off := pos\<rparr>) ms) (\<lambda>_ ms.
     let v = (if m_cont_level m \<noteq> 0 \<and> m_desc m \<noteq> [] then v\<lparr>need_separator := True\<rparr> else v);
         v = v\<lparr>v_level := v_level v + 1\<rparr> in
     obind (file_check_mem env (v_level v) ms) (\<lambda>r ms.
     if r = - 1 then fails v ms else Ret (Inr v) ms)))"

text \<open>
  A continuation whose test has succeeded, at level \<open>v_level v\<close>: the annotation, the separator
  and the text.
\<close>

definition cont_output ::
    "environ \<Rightarrow> byte list \<Rightarrow> magic \<Rightarrow> match_vars \<Rightarrow> magic_set \<Rightarrow> (step_result, magic_set) outcome" where
  "cont_output env s m v ms =
     obind (handle_annotation env m ms) (\<lambda>e ms.
     if e \<noteq> 0 then Ret (Inl (e, 1)) ms
     else obind (if m_desc m \<noteq> [] \<and> \<not> printed_something v then print_sep env (firstline v) ms else Ret 0 ms) (\<lambda>r ms.
     let v = (if m_desc m \<noteq> [] then v\<lparr>printed_something := True\<rparr> else v) in
     if r = - 1 then fails v ms
     else let blank = need_separator v \<and> \<not> NOSPACE m \<and> m_desc m \<noteq> [] in
     obind (if blank \<and> prints ms then file_printf env (bytes '' '') [] ms else Ret 0 ms) (\<lambda>r ms.
     if r = - 1 then fails v ms
     else let v = (if blank then v\<lparr>need_separator := False\<rparr> else v) in
     obind (print_entry env s m ms) (\<lambda>r ms.
     if r = - 1 then fails v ms else enter_level env m v ms))))"

definition cont_matched ::
    "environ \<Rightarrow> byte list \<Rightarrow> magic \<Rightarrow> match_vars \<Rightarrow> magic_set \<Rightarrow> (step_result, magic_set) outcome" where
  "cont_matched env s m v ms =
     obind (set_level (v_level v) (\<lambda>l. l\<lparr>last_match := True\<rparr>) ms) (\<lambda>_ ms.
     if m_type m \<noteq> FILE_DEFAULT then
       obind (set_level (v_level v) (\<lambda>l. l\<lparr>got_match := True\<rparr>) ms) (\<lambda>_ ms. cont_output env s m v ms)
     else if got_match (li ms ! v_level v) then
       obind (set_level (v_level v) (\<lambda>l. l\<lparr>got_match := False\<rparr>) ms) (\<lambda>_ ms. Ret (Inr v) ms)
     else cont_output env s m v ms)"

text \<open>
  The test of one continuation at level \<open>v_level v\<close>, which is the entry's own level: the offset,
  the condition, the value, the relation. \<open>call\<close>, the buffer and the other arguments are
  those of \<open>mget\<close>. \<open>file_check_mem\<close> has made room for the level.
\<close>

definition cont_entry ::
    "environ \<Rightarrow> match_call \<Rightarrow> byte list \<Rightarrow> nat \<Rightarrow> nat \<Rightarrow> int \<Rightarrow> bool \<Rightarrow> bool \<Rightarrow> magic \<Rightarrow> match_vars \<Rightarrow> magic_set \<Rightarrow>
     (step_result, magic_set) outcome option" where
  "cont_entry env call s nbytes base mode txt flip m v ms =
     (let level = v_level v in
      if length (li ms) \<le> level then Some (Fault ms)
      else let ms = ms\<lparr>ms_offset := m_offset m + (if OFFADD m then li_off (li ms ! (level - 1)) else 0)\<rparr> in
      if (m_cond m = COND_ELSE \<or> m_cond m = COND_ELIF) \<and> last_match (li ms ! level) then Some (Ret (Inr v) ms)
      else rbind (mget env call s m nbytes base level mode txt flip (returnval v) ms) (\<lambda>(r, rv) ms.
        let v = v\<lparr>returnval := rv\<rparr> in
        if r = - 1 then Some (fails v ms)
        else if r = 0 \<and> m_reln m \<noteq> REL_NOT then Some (Ret (Inr v) ms)
        else let v = (if r \<noteq> 0 \<and> m_type m = FILE_INDIRECT then v\<lparr>returnval := 1\<rparr> else v) in
          Some (obind (if r = 0 then Ret 1 ms else magiccheck env s m ms) (\<lambda>c ms.
            if c = - 1 then fails v ms
            else if c = 0 then obind (set_level level (\<lambda>l. l\<lparr>last_match := False\<rparr>) ms) (\<lambda>_ ms. Ret (Inr v) ms)
            else cont_matched env s m v ms))))"

text \<open>One continuation: those above the current level are skipped, one below ends that level.\<close>

definition level_step ::
    "(magic \<Rightarrow> match_vars \<Rightarrow> magic_set \<Rightarrow> (step_result, magic_set) outcome option) \<Rightarrow>
     magic \<Rightarrow> match_vars \<Rightarrow> magic_set \<Rightarrow> (step_result, magic_set) outcome option" where
  "level_step test m v ms =
     (let ms = ms\<lparr>ms_line := m_lineno m\<rparr> in
      if v_level v < m_cont_level m then Some (Ret (Inr v) ms)
      else test m (v\<lparr>v_level := m_cont_level m\<rparr>) ms)"

definition cont_step ::
    "environ \<Rightarrow> match_call \<Rightarrow> byte list \<Rightarrow> nat \<Rightarrow> nat \<Rightarrow> int \<Rightarrow> bool \<Rightarrow> bool \<Rightarrow> magic \<Rightarrow> match_vars \<Rightarrow> magic_set \<Rightarrow>
     (step_result, magic_set) outcome option" where
  "cont_step env call s nbytes base mode txt flip =
     level_step (cont_entry env call s nbytes base mode txt flip)"

fun cont_loop ::
    "(magic \<Rightarrow> match_vars \<Rightarrow> magic_set \<Rightarrow> (step_result, magic_set) outcome option) \<Rightarrow>
     nat \<Rightarrow> magic list \<Rightarrow> match_vars \<Rightarrow> magic_set \<Rightarrow> (step_result, magic_set) outcome option" where
  "cont_loop step k [] v ms = Some (Fault ms)"
| "cont_loop step k (m # rest) v ms =
     (if m_cont_level m = 0 then Some (Ret (Inr v) ms)
      else case k of
        0 \<Rightarrow> Some (Ret (Inr v) ms)
      | Suc k \<Rightarrow> rbind (step m v ms) (\<lambda>r ms.
          case r of Inl e \<Rightarrow> Some (Ret (Inl e) ms) | Inr v \<Rightarrow> cont_loop step k rest v ms))"

text \<open>The number of continuations that follow; they are passed over when a test fails.\<close>

fun skip_conts :: "nat \<Rightarrow> magic list \<Rightarrow> nat" where
  "skip_conts 0 rest = 0"
| "skip_conts (Suc k) [] = 0"
| "skip_conts (Suc k) (m # rest) = (if m_cont_level m \<noteq> 0 then Suc (skip_conts k rest) else 0)"

definition not_for :: "magic \<Rightarrow> int \<Rightarrow> bool \<Rightarrow> bool" where
  "not_for m mode txt \<longleftrightarrow> m_type m \<noteq> FILE_NAME \<and>
     (IS_STRING (m_type m) \<and>
        (txt \<and> STRING_BINTEST (str_flags m) \<and> \<not> STRING_TEXTTEST (str_flags m) \<or>
         \<not> txt \<and> STRING_TEXTTEST (str_flags m) \<and> \<not> STRING_BINTEST (str_flags m)) \<or>
      uint (m_flag m) AND mode \<noteq> mode)"

text \<open>A top-level test that has succeeded, up to its continuations.\<close>

definition top_output ::
    "environ \<Rightarrow> byte list \<Rightarrow> magic \<Rightarrow> match_vars \<Rightarrow> magic_set \<Rightarrow> (step_result, magic_set) outcome" where
  "top_output env s m v ms =
     obind (handle_annotation env m ms) (\<lambda>e ms.
     if e \<noteq> 0 then Ret (Inl (e, 1)) ms
     else let v = (if m_desc m \<noteq> [] then v\<lparr>need_separator := True, printed_something := True\<rparr> else v) in
     obind (if m_desc m \<noteq> [] then print_sep env (firstline v) ms else Ret 0 ms) (\<lambda>r ms.
     if r = - 1 then fails v ms
     else obind (print_entry env s m ms) (\<lambda>r ms.
     if r = - 1 then fails v ms else enter_level env m v ms)))"

definition top_end :: "match_vars \<Rightarrow> magic_set \<Rightarrow> step_result" where
  "top_end v ms =
     (let v = (if printed_something v
               then v\<lparr>firstline := False, returnval := (if prints ms then 1 else returnval v)\<rparr> else v) in
      if \<not> MAGIC_CONTINUE (ms_flags ms) \<and> printed_something v then Inl (returnval v, returnval v) else Inr v)"

text \<open>One top-level test; \<open>conts\<close> are its continuations.\<close>

definition top_test ::
    "environ \<Rightarrow> match_call \<Rightarrow> byte list \<Rightarrow> nat \<Rightarrow> nat \<Rightarrow> int \<Rightarrow> bool \<Rightarrow> bool \<Rightarrow> magic \<Rightarrow>
     (match_vars \<Rightarrow> magic_set \<Rightarrow> (step_result, magic_set) outcome option) \<Rightarrow>
     match_vars \<Rightarrow> magic_set \<Rightarrow> (step_result, magic_set) outcome option" where
  "top_test env call s nbytes base mode txt flip m conts v ms =
     (if not_for m mode txt then Some (Ret (Inr v) ms)
      else let ms = ms\<lparr>ms_offset := m_offset m, ms_line := m_lineno m\<rparr> in
      rbind (mget env call s m nbytes base (v_level v) mode txt flip (returnval v) ms) (\<lambda>(r, rv) ms.
        let v = v\<lparr>returnval := rv\<rparr> in
        if r = - 1 then Some (fails v ms)
        else if r = 0 \<and> m_reln m \<noteq> REL_NOT then Some (Ret (Inr v) ms)
        else let v = (if r \<noteq> 0 \<and> m_type m = FILE_INDIRECT then v\<lparr>returnval := 1\<rparr> else v) in
          rbind (Some (if r = 0 then Ret 1 ms else magiccheck env s m ms)) (\<lambda>c ms.
            if c = - 1 then Some (fails v ms)
            else if c = 0 then Some (Ret (Inr v) ms)
            else rbind (Some (top_output env s m v ms)) (\<lambda>r ms.
              case r of
                Inl e \<Rightarrow> Some (Ret (Inl e) ms)
              | Inr v \<Rightarrow> rbind (conts v ms) (\<lambda>r ms.
                  case r of
                    Inl e \<Rightarrow> Some (Ret (Inl e) ms)
                  | Inr v \<Rightarrow> Some (Ret (top_end v ms) ms))))))"

definition top_step ::
    "environ \<Rightarrow> match_call \<Rightarrow> byte list \<Rightarrow> nat \<Rightarrow> nat \<Rightarrow> int \<Rightarrow> bool \<Rightarrow> bool \<Rightarrow> magic \<Rightarrow> nat \<Rightarrow> magic list \<Rightarrow>
     match_vars \<Rightarrow> magic_set \<Rightarrow> (step_result, magic_set) outcome option" where
  "top_step env call s nbytes base mode txt flip m k rest =
     top_test env call s nbytes base mode txt flip m
       (cont_loop (cont_step env call s nbytes base mode txt flip) k rest)"

function match_loop ::
    "(magic \<Rightarrow> nat \<Rightarrow> magic list \<Rightarrow> match_vars \<Rightarrow> magic_set \<Rightarrow> (step_result, magic_set) outcome option) \<Rightarrow>
     nat \<Rightarrow> magic list \<Rightarrow> match_vars \<Rightarrow> magic_set \<Rightarrow> (int \<times> int, magic_set) outcome option" where
  "match_loop step 0 rest v ms = Some (Ret (returnval v, returnval v) ms)"
| "match_loop step (Suc k) [] v ms = Some (Fault ms)"
| "match_loop step (Suc k) (m # rest) v ms =
     rbind (step m k rest v ms) (\<lambda>r ms.
       case r of
         Inl e \<Rightarrow> Some (Ret e ms)
       | Inr v \<Rightarrow> match_loop step (k - skip_conts k rest) (drop (skip_conts k rest) rest) v ms)"
  by pat_completeness auto
termination by (relation "measure (\<lambda>(step, k, rest, v, ms). k)") auto

definition match_with :: "environ \<Rightarrow> match_call \<Rightarrow> match_call" where
  "match_with env call ml s nbytes base mode txt flip rv ms =
     rbind (Some (file_check_mem env 0 ms)) (\<lambda>r ms.
       if r = - 1 then Some (Ret (- 1, rv) ms)
       else match_loop (top_step env call s nbytes base mode txt flip) (nmagic ml) (magic_array ml)
         \<lparr>v_level = 0, need_separator = False, firstline = True, printed_something = False, returnval = rv\<rparr> ms)"

text \<open>\<open>match\<close> with \<open>n\<close> nested calls granted, and \<open>file_softmagic\<close>.\<close>

fun match :: "environ \<Rightarrow> nat \<Rightarrow> match_call" where
  "match env 0 = match_with env (\<lambda>ml s nbytes base mode txt flip rv ms. None)"
| "match env (Suc n) = match_with env (match env n)"

definition file_softmagic ::
    "environ \<Rightarrow> nat \<Rightarrow> byte list \<Rightarrow> nat \<Rightarrow> int \<Rightarrow> bool \<Rightarrow> magic_set \<Rightarrow> (int, magic_set) outcome option" where
  "file_softmagic env n = softmagic_with (match env n)"

end
