(* ===== verification/MagicTree.thy ===== *)
theory MagicTree
  imports MagicMatch
begin

text \<open>
  What the levels of \<open>match\<close> mean: an array of entries is a list of trees, written down in
  preorder with the depth of each node as its level, and the loops of \<open>match\<close> interpret the
  trees. The specification has no levels to compare: a test that succeeds runs its
  subordinate tests in order, one that fails passes them over.
\<close>

section \<open>Trees of entries\<close>

datatype rule = Rule magic "rule list"

fun flats :: "rule list \<Rightarrow> magic list" where
  "flats [] = []"
| "flats (Rule m cs # rs) = m # flats cs @ flats rs"

fun rules_at :: "nat \<Rightarrow> rule list \<Rightarrow> bool" where
  "rules_at l [] = True"
| "rules_at l (Rule m cs # rs) = (m_cont_level m = l \<and> rules_at (l + 1) cs \<and> rules_at l rs)"

text \<open>Entries that are passed over leave their line number behind, for error messages.\<close>

definition passed :: "magic list \<Rightarrow> magic_set \<Rightarrow> magic_set" where
  "passed ms_list ms = foldl (\<lambda>ms m. ms\<lparr>ms_line := m_lineno m\<rparr>) ms ms_list"

fun run_rules ::
    "(magic \<Rightarrow> match_vars \<Rightarrow> magic_set \<Rightarrow> (step_result, magic_set) outcome option) \<Rightarrow>
     nat \<Rightarrow> rule list \<Rightarrow> match_vars \<Rightarrow> magic_set \<Rightarrow> (step_result, magic_set) outcome option" where
  "run_rules test l [] v ms = Some (Ret (Inr v) ms)"
| "run_rules test l (Rule m cs # rs) v ms =
     rbind (test m (v\<lparr>v_level := l\<rparr>) (ms\<lparr>ms_line := m_lineno m\<rparr>)) (\<lambda>r ms.
       case r of
         Inl e \<Rightarrow> Some (Ret (Inl e) ms)
       | Inr v \<Rightarrow>
           if v_level v = l then run_rules test l rs v (passed (flats cs) ms)
           else rbind (run_rules test (l + 1) cs v ms) (\<lambda>r ms.
             case r of
               Inl e \<Rightarrow> Some (Ret (Inl e) ms)
             | Inr v \<Rightarrow> run_rules test l rs v ms))"

text \<open>
  What a test of one entry promises: if it goes on, it stays at its level or has entered the
  next one.
\<close>

locale level_test =
  fixes test :: "magic \<Rightarrow> match_vars \<Rightarrow> magic_set \<Rightarrow> (step_result, magic_set) outcome option"
  assumes test_level: "test m v ms = Some (Ret (Inr v') ms') \<Longrightarrow> v_level v' = v_level v \<or> v_level v' = v_level v + 1"
begin

lemma skip_above:
  "rules_at l rs \<Longrightarrow> v_level v < l \<Longrightarrow>
   cont_loop (level_step test) (length (flats rs) + k) (flats rs @ rest) v ms = cont_loop (level_step test) k rest v (passed (flats rs) ms)"
proof (induction rs arbitrary: l k rest ms rule: flats.induct)
  case 1
  show ?case by (simp add: passed_def)
next
  case (2 m cs rs)
  from 2(3) have m: "m_cont_level m = l" "rules_at (l + 1) cs" "rules_at l rs" by simp_all
  have "cont_loop (level_step test) (length (flats (Rule m cs # rs)) + k) (flats (Rule m cs # rs) @ rest) v ms
      = cont_loop (level_step test) (length (flats cs) + (length (flats rs) + k)) (flats cs @ (flats rs @ rest)) v
          (ms\<lparr>ms_line := m_lineno m\<rparr>)"
    using m(1) 2(4) by (simp add: level_step_def add.assoc)
  also have "\<dots> = cont_loop (level_step test) k rest v (passed (flats rs) (passed (flats cs) (ms\<lparr>ms_line := m_lineno m\<rparr>)))"
    using 2(1) [OF m(2)] 2(2) [OF m(3)] 2(4) by simp
  finally show ?case by (simp add: passed_def)
qed

lemma run_rules_level:
  "run_rules test l rs v ms = Some (Ret (Inr v') ms') \<Longrightarrow> l \<le> v_level v \<Longrightarrow> l \<le> v_level v'"
proof (induction rs arbitrary: l v ms v' ms' rule: flats.induct)
  case 1
  then show ?case by simp
next
  case (2 m cs rs)
  from 2(3) obtain r ms1 where t: "test m (v\<lparr>v_level := l\<rparr>) (ms\<lparr>ms_line := m_lineno m\<rparr>) = Some (Ret r ms1)"
    by (auto simp: rbind_def split: option.splits outcome.splits)
  with 2(3) obtain v1 where r: "r = Inr v1" by (cases r) auto
  from test_level [OF t [unfolded r]] have l1: "v_level v1 = l \<or> v_level v1 = l + 1" by simp
  show ?case
  proof (cases "v_level v1 = l")
    case True
    with 2(2,3) t r show ?thesis by simp
  next
    case False
    with 2(3) t r obtain r2 ms2 where "run_rules test (l + 1) cs v1 ms1 = Some (Ret r2 ms2)"
      by (auto simp: rbind_def split: option.splits outcome.splits)
    with 2(3) t r False obtain v2 where c: "run_rules test (l + 1) cs v1 ms1 = Some (Ret (Inr v2) ms2)"
      "run_rules test l rs v2 ms2 = Some (Ret (Inr v') ms')" by (cases r2) auto
    from 2(1) [OF c(1)] l1 False have "l + 1 \<le> v_level v2" by simp
    with 2(2) [OF c(2)] show ?thesis by simp
  qed
qed

lemma cont_loop_rules:
  "rules_at l rs \<Longrightarrow> 0 < l \<Longrightarrow> l \<le> v_level v \<Longrightarrow>
   cont_loop (level_step test) (length (flats rs) + k) (flats rs @ rest) v ms =
   rbind (run_rules test l rs v ms) (\<lambda>r ms.
     case r of Inl e \<Rightarrow> Some (Ret (Inl e) ms) | Inr v \<Rightarrow> cont_loop (level_step test) k rest v ms)"
proof (induction rs arbitrary: l k rest v ms rule: flats.induct)
  case 1
  show ?case by simp
next
  case (2 m cs rs)
  from 2(3) have m: "m_cont_level m = l" "rules_at (l + 1) cs" "rules_at l rs" by simp_all
  let ?t = "test m (v\<lparr>v_level := l\<rparr>) (ms\<lparr>ms_line := m_lineno m\<rparr>)"
  have "cont_loop (level_step test) (length (flats (Rule m cs # rs)) + k) (flats (Rule m cs # rs) @ rest) v ms =
      rbind ?t (\<lambda>r ms. case r of Inl e \<Rightarrow> Some (Ret (Inl e) ms)
        | Inr v \<Rightarrow> cont_loop (level_step test) (length (flats cs) + (length (flats rs) + k)) (flats cs @ (flats rs @ rest)) v ms)"
    using m(1) 2(4,5) by (simp add: level_step_def add.assoc)
  also have "\<dots> = rbind (run_rules test l (Rule m cs # rs) v ms) (\<lambda>r ms.
     case r of Inl e \<Rightarrow> Some (Ret (Inl e) ms) | Inr v \<Rightarrow> cont_loop (level_step test) k rest v ms)"
  proof (cases "\<exists>v1 ms1. ?t = Some (Ret (Inr v1) ms1)")
    case False
    then show ?thesis by (auto simp: rbind_def split: option.splits outcome.splits sum.splits)
  next
    case True
    then obtain v1 ms1 where t: "?t = Some (Ret (Inr v1) ms1)" by blast
    from test_level [OF t] have l1: "v_level v1 = l \<or> v_level v1 = l + 1" by simp
    show ?thesis
    proof (cases "v_level v1 = l")
      case True
      then show ?thesis using t skip_above [OF m(2), of v1] 2(2) [OF m(3) 2(4)] by simp
    next
      case False
      then have "l + 1 \<le> v_level v1" using l1 by simp
      from 2(1) [OF m(2) _ this] have c: "cont_loop (level_step test) (length (flats cs) + (length (flats rs) + k)) (flats cs @ (flats rs @ rest)) v1 ms1 =
          rbind (run_rules test (l + 1) cs v1 ms1) (\<lambda>r ms.
            case r of Inl e \<Rightarrow> Some (Ret (Inl e) ms) | Inr v \<Rightarrow> cont_loop (level_step test) (length (flats rs) + k) (flats rs @ rest) v ms)"
        by simp
      show ?thesis
      proof (cases "\<exists>v2 ms2. run_rules test (l + 1) cs v1 ms1 = Some (Ret (Inr v2) ms2)")
        case True
        then obtain v2 ms2 where r: "run_rules test (l + 1) cs v1 ms1 = Some (Ret (Inr v2) ms2)" by blast
        from run_rules_level [OF this] \<open>l + 1 \<le> v_level v1\<close> have "l \<le> v_level v2" by simp
        with 2(2) [OF m(3) 2(4)] c r t False show ?thesis by simp
      next
        case no: False
        with c t False show ?thesis by (auto simp: rbind_def split: option.splits outcome.splits sum.splits)
      qed
    qed
  qed
  finally show ?case .
qed

end

lemma enter_level_level:
  "enter_level env m v ms = Ret (Inr v') ms' \<Longrightarrow> v_level v' = v_level v + 1"
  by (auto simp: enter_level_def fails_def Let_def split: if_splits)

lemma cont_output_level:
  "cont_output env s m v ms = Ret (Inr v') ms' \<Longrightarrow> v_level v' = v_level v + 1"
  unfolding cont_output_def Let_def
  by (auto simp: fails_def split: if_splits dest!: enter_level_level)

lemma cont_matched_level:
  "cont_matched env s m v ms = Ret (Inr v') ms' \<Longrightarrow> v_level v' = v_level v \<or> v_level v' = v_level v + 1"
  unfolding cont_matched_def
  by (auto split: if_splits dest!: cont_output_level)

lemma rbind_RetE:
  assumes "rbind m f = Some (Ret y t)"
  obtains x s where "m = Some (Ret x s)" "f x s = Some (Ret y t)"
  using assms by (auto simp: rbind_def split: option.splits outcome.splits)

lemma cont_entry_level:
  assumes "cont_entry env call s nbytes base mode txt flip m v ms = Some (Ret (Inr v') ms')"
  shows "v_level v' = v_level v \<or> v_level v' = v_level v + 1"
  using assms unfolding cont_entry_def Let_def
  by (auto simp: fails_def split: if_splits elim!: rbind_RetE dest!: cont_matched_level)

interpretation conts: level_test "cont_entry env call s nbytes base mode txt flip"
  for env call s nbytes base mode txt flip
  by unfold_locales (rule cont_entry_level)

section \<open>Whole arrays\<close>

text \<open>The specification of \<open>match\<close> for an array that is the list of rules \<open>rs\<close>.\<close>

fun run_top ::
    "(magic \<Rightarrow> rule list \<Rightarrow> match_vars \<Rightarrow> magic_set \<Rightarrow> (step_result, magic_set) outcome option) \<Rightarrow>
     rule list \<Rightarrow> match_vars \<Rightarrow> magic_set \<Rightarrow> (int \<times> int, magic_set) outcome option" where
  "run_top test [] v ms = Some (Ret (returnval v, returnval v) ms)"
| "run_top test (Rule m cs # rs) v ms =
     rbind (test m cs v ms) (\<lambda>r ms.
       case r of Inl e \<Rightarrow> Some (Ret e ms) | Inr v \<Rightarrow> run_top test rs v ms)"

definition match_rules ::
    "environ \<Rightarrow> match_call \<Rightarrow> rule list \<Rightarrow> byte list \<Rightarrow> nat \<Rightarrow> nat \<Rightarrow> int \<Rightarrow> bool \<Rightarrow> bool \<Rightarrow> int \<Rightarrow> magic_set \<Rightarrow>
     (int \<times> int, magic_set) outcome option" where
  "match_rules env call rs s nbytes base mode txt flip rv ms =
     rbind (Some (file_check_mem env 0 ms)) (\<lambda>r ms.
       if r = - 1 then Some (Ret (- 1, rv) ms)
       else run_top (\<lambda>m cs. top_test env call s nbytes base mode txt flip m
             (run_rules (cont_entry env call s nbytes base mode txt flip) 1 cs)) rs
         \<lparr>v_level = 0, need_separator = False, firstline = True, printed_something = False, returnval = rv\<rparr> ms)"

lemma top_output_level:
  "top_output env s m v ms = Ret (Inr v') ms' \<Longrightarrow> v_level v' = v_level v + 1"
  unfolding top_output_def Let_def
  by (auto simp: fails_def split: if_splits dest!: enter_level_level)

lemma rbind_cong: "(\<And>x s. m = Some (Ret x s) \<Longrightarrow> f x s = g x s) \<Longrightarrow> rbind m f = rbind m g"
  by (auto simp: rbind_def split: option.splits outcome.splits)

lemma top_test_cong:
  assumes "\<And>v ms. 0 < v_level v \<Longrightarrow> c1 v ms = c2 v ms"
  shows "top_test env call s nbytes base mode txt flip m c1 v ms =
    top_test env call s nbytes base mode txt flip m c2 v ms"
proof -
  have "rbind (Some (top_output env s m v ms)) (\<lambda>r ms. case r of Inl e \<Rightarrow> Some (Ret (Inl e) ms)
            | Inr v \<Rightarrow> rbind (c1 v ms) f) =
        rbind (Some (top_output env s m v ms)) (\<lambda>r ms. case r of Inl e \<Rightarrow> Some (Ret (Inl e) ms)
            | Inr v \<Rightarrow> rbind (c2 v ms) f)" for v ms and f :: "step_result \<Rightarrow> magic_set \<Rightarrow> (step_result, magic_set) outcome option"
    using assms by (intro rbind_cong) (auto split: sum.splits dest!: top_output_level)
  then show ?thesis unfolding top_test_def by (simp only:)
qed

lemma flats_levels: "rules_at l rs \<Longrightarrow> m \<in> set (flats rs) \<Longrightarrow> l \<le> m_cont_level m"
proof (induction rs arbitrary: l rule: flats.induct)
  case (2 m' cs rs)
  then show ?case by (fastforce dest: Suc_leD)
qed simp

lemma flats_head: "rules_at 0 rs \<Longrightarrow> m_cont_level e = 0 \<Longrightarrow> \<exists>x xs. flats rs @ e # es = x # xs \<and> m_cont_level x = 0"
  by (cases rs rule: flats.cases) auto

lemma skip_conts_flats:
  "\<forall>m \<in> set ms. m_cont_level m \<noteq> 0 \<Longrightarrow> m_cont_level x = 0 \<Longrightarrow> skip_conts (length ms + k) (ms @ x # xs) = length ms"
proof (induction ms)
  case Nil
  then show ?case by (cases k) auto
next
  case (Cons a ms)
  then show ?case by simp
qed

lemma match_loop_rules:
  assumes "rules_at 0 rs" "m_cont_level e = 0"
  shows "match_loop (top_step env call s nbytes base mode txt flip) (length (flats rs)) (flats rs @ e # es) v ms =
    run_top (\<lambda>m cs. top_test env call s nbytes base mode txt flip m
      (run_rules (cont_entry env call s nbytes base mode txt flip) 1 cs)) rs v ms"
  using assms(1)
proof (induction rs arbitrary: v ms)
  case Nil
  show ?case by simp
next
  case (Cons r rs)
  obtain m cs where r: "r = Rule m cs" by (cases r)
  with Cons.prems have lv: "m_cont_level m = 0" "rules_at 1 cs" "rules_at 0 rs" by simp_all
  obtain x xs where x: "flats rs @ e # es = x # xs" "m_cont_level x = 0" using flats_head [OF lv(3) assms(2)] by blast
  let ?ce = "cont_entry env call s nbytes base mode txt flip"
  have "cont_loop (level_step ?ce) (length (flats cs) + length (flats rs)) (flats cs @ flats rs @ e # es) v ms =
      run_rules ?ce 1 cs v ms" if "0 < v_level v" for v ms
  proof -
    have "rbind (run_rules ?ce 1 cs v ms) (\<lambda>r ms. case r of Inl e \<Rightarrow> Some (Ret (Inl e) ms)
          | Inr v \<Rightarrow> cont_loop (level_step ?ce) (length (flats rs)) (flats rs @ e # es) v ms) = run_rules ?ce 1 cs v ms"
      unfolding x(1) using x(2) by (auto simp: rbind_def split: option.splits outcome.splits sum.splits)
    with conts.cont_loop_rules [where v = v and ms = ms and k = "length (flats rs)" and rest = "flats rs @ e # es", OF lv(2)] that
    show ?thesis by simp
  qed
  then have t: "top_step env call s nbytes base mode txt flip m (length (flats cs) + length (flats rs)) (flats cs @ flats rs @ e # es) v ms =
      top_test env call s nbytes base mode txt flip m (run_rules ?ce 1 cs) v ms" for v ms
    unfolding top_step_def cont_step_def by (rule top_test_cong)
  have sk: "skip_conts (length (flats cs) + length (flats rs)) (flats cs @ flats rs @ e # es) = length (flats cs)"
    unfolding x(1) by (rule skip_conts_flats) (use flats_levels [OF lv(2)] x(2) in force)+
  show ?case by (simp add: r t sk Cons.IH [OF lv(3)] cong: sum.case_cong)
qed

end
