(* ===== verification/MagicCalls.thy ===== *)
theory MagicCalls
  imports MagicMatch
begin

text \<open>
  How deep \<open>match\<close> calls itself. More calls granted never change a result (\<open>match_mono\<close>), and if
  the \<open>use\<close> entries of an array lead to others without a cycle and there are no \<open>indirect\<close>
  entries, so many nested calls are enough (\<open>match_returns\<close>). An entry that uses itself never
  returns.
\<close>

section \<open>More calls granted\<close>

definition opt_le :: "'a option \<Rightarrow> 'a option \<Rightarrow> bool" where
  "opt_le m m' \<longleftrightarrow> m = None \<or> m = m'"

named_theorems mono_rules \<open>how \<open>opt_le\<close> passes through the interpreter\<close>

lemma opt_le_refl [mono_rules]: "opt_le m m"
  by (simp add: opt_le_def)

lemma opt_le_rbind [mono_rules]:
  "opt_le m m' \<Longrightarrow> (\<And>x s. opt_le (f x s) (g x s)) \<Longrightarrow> opt_le (rbind m f) (rbind m' g)"
  by (auto simp: opt_le_def rbind_def split: option.splits outcome.splits)

lemma opt_le_if [mono_rules]:
  "(b \<Longrightarrow> opt_le x x') \<Longrightarrow> (\<not> b \<Longrightarrow> opt_le y y') \<Longrightarrow> opt_le (if b then x else y) (if b then x' else y')"
  by simp

lemma opt_le_sum [mono_rules]:
  "(\<And>e. opt_le (f e) (f' e)) \<Longrightarrow> (\<And>v. opt_le (g v) (g' v)) \<Longrightarrow>
   opt_le (case r of Inl e \<Rightarrow> f e | Inr v \<Rightarrow> g v) (case r of Inl e \<Rightarrow> f' e | Inr v \<Rightarrow> g' v)"
  by (cases r) auto

lemma opt_le_prod [mono_rules]:
  "(\<And>a b. opt_le (f a b x) (g a b x)) \<Longrightarrow> opt_le ((case p of (a, b) \<Rightarrow> f a b) x) ((case p of (a, b) \<Rightarrow> g a b) x)"
  by (cases p) auto

definition call_le :: "match_call \<Rightarrow> match_call \<Rightarrow> bool" where
  "call_le c c' \<longleftrightarrow> (\<forall>ml s nbytes base mode txt flip rv ms.
     opt_le (c ml s nbytes base mode txt flip rv ms) (c' ml s nbytes base mode txt flip rv ms))"

lemma call_leD: "call_le c c' \<Longrightarrow> opt_le (c ml s nbytes base mode txt flip rv ms) (c' ml s nbytes base mode txt flip rv ms)"
  by (simp add: call_le_def)

lemma softmagic_mono: "call_le c c' \<Longrightarrow> opt_le (softmagic_with c buf nbytes mode txt ms) (softmagic_with c' buf nbytes mode txt ms)"
proof -
  assume le: "call_le c c'"
  have "opt_le (softmagic_loop c mls buf nbytes mode txt ms) (softmagic_loop c' mls buf nbytes mode txt ms)" for mls ms
    by (induction mls arbitrary: ms) (auto intro!: mono_rules call_leD [OF le])
  then show ?thesis by (simp add: softmagic_with_def opt_le_refl split: option.splits)
qed

lemma opt_le_option [mono_rules]:
  "opt_le n n' \<Longrightarrow> (\<And>x. opt_le (f x) (g x)) \<Longrightarrow>
   opt_le (case p of None \<Rightarrow> n | Some x \<Rightarrow> f x) (case p of None \<Rightarrow> n' | Some x \<Rightarrow> g x)"
  by (cases p) auto

lemma opt_le_fetched [mono_rules]:
  "(\<And>x. opt_le (f x) (f' x)) \<Longrightarrow> (\<And>x. opt_le (g x) (g' x)) \<Longrightarrow>
   opt_le (case p of Stop x \<Rightarrow> f x | Have x \<Rightarrow> g x) (case p of Stop x \<Rightarrow> f' x | Have x \<Rightarrow> g' x)"
  by (cases p) auto

lemma mget_use_mono:
  "call_le c c' \<Longrightarrow> opt_le (mget_use env c s m nbytes pos mode txt rv ms) (mget_use env c' s m nbytes pos mode txt rv ms)"
  unfolding mget_use_def Let_def by (intro mono_rules call_leD)

lemma mget_indirect_mono:
  "call_le c c' \<Longrightarrow> opt_le (mget_indirect env c s m nbytes pos txt ms) (mget_indirect env c' s m nbytes pos txt ms)"
  unfolding mget_indirect_def Let_def by (rule opt_le_rbind [OF softmagic_mono opt_le_refl])

lemma mget_mono:
  "call_le c c' \<Longrightarrow> opt_le (mget env c s m nbytes base level mode txt flip rv ms) (mget env c' s m nbytes base level mode txt flip rv ms)"
  unfolding mget_def by (intro mono_rules mget_use_mono mget_indirect_mono)

lemma cont_entry_mono:
  "call_le c c' \<Longrightarrow> opt_le (cont_entry env c s nbytes base mode txt flip m v ms) (cont_entry env c' s nbytes base mode txt flip m v ms)"
  unfolding cont_entry_def Let_def by (intro mono_rules mget_mono)

lemma cont_loop_mono:
  assumes "\<And>m v ms. opt_le (st m v ms) (st' m v ms)"
  shows "opt_le (cont_loop st k rest v ms) (cont_loop st' k rest v ms)"
proof (induction rest arbitrary: k v ms)
  case (Cons m rest)
  then show ?case using assms by (auto intro!: mono_rules split: nat.splits)
qed (simp add: opt_le_refl)

lemma cont_step_mono:
  "call_le c c' \<Longrightarrow> opt_le (cont_step env c s nbytes base mode txt flip m v ms) (cont_step env c' s nbytes base mode txt flip m v ms)"
  unfolding cont_step_def level_step_def Let_def by (intro mono_rules cont_entry_mono)

lemma top_step_mono:
  "call_le c c' \<Longrightarrow> opt_le (top_step env c s nbytes base mode txt flip m k rest v ms) (top_step env c' s nbytes base mode txt flip m k rest v ms)"
  unfolding top_step_def top_test_def Let_def
  by (intro mono_rules mget_mono cont_loop_mono cont_step_mono)

lemma match_loop_mono:
  assumes "\<And>m k rest v ms. opt_le (st m k rest v ms) (st' m k rest v ms)"
  shows "opt_le (match_loop st k rest v ms) (match_loop st' k rest v ms)"
proof (induction k arbitrary: rest v ms rule: less_induct)
  case (less k)
  show ?case
  proof (cases k)
    case (Suc j)
    then show ?thesis by (cases rest) (auto intro!: mono_rules assms less)
  qed (simp add: opt_le_refl)
qed

lemma match_with_mono: "call_le c c' \<Longrightarrow> call_le (match_with env c) (match_with env c')"
  unfolding call_le_def match_with_def
  by (intro allI mono_rules match_loop_mono top_step_mono) (simp add: call_le_def)

lemma match_Suc: "call_le (match env n) (match env (Suc n))"
proof (induction n)
  case 0
  have "call_le (\<lambda>ml s nbytes base mode txt flip rv ms. None) (match env 0)"
    by (simp add: call_le_def opt_le_def)
  then show ?case unfolding match.simps by (rule match_with_mono)
next
  case (Suc n)
  then show ?case unfolding match.simps by (rule match_with_mono)
qed

lemma match_more:
  "match env n ml s nbytes base mode txt flip rv ms = Some r \<Longrightarrow> n \<le> k \<Longrightarrow>
   match env k ml s nbytes base mode txt flip rv ms = Some r"
proof (induction k)
  case (Suc k)
  then show ?case using call_leD [OF match_Suc [of env k], of ml s nbytes base mode "txt" flip rv ms]
    by (cases "n = Suc k") (auto simp: opt_le_def)
qed simp

section \<open>What the interpreter leaves alone\<close>

text \<open>The loaded entries, the flags and the buffer for printing do not change.\<close>

definition kept :: "magic_set \<Rightarrow> magic_set \<Rightarrow> bool" where
  "kept ms0 ms \<longleftrightarrow> mlist0 ms = mlist0 ms0 \<and> mlist1 ms = mlist1 ms0 \<and> ms_flags ms = ms_flags ms0 \<and>
     o_pbuf ms = o_pbuf ms0"

named_theorems kept_rules \<open>routines that keep the entries and the flags\<close>

lemma kept_bind [kept_rules]:
  "ends (kept d) m \<Longrightarrow> (\<And>x s. kept d s \<Longrightarrow> ends (kept d) (f x s)) \<Longrightarrow> ends (kept d) (obind m f)"
  by (cases m) auto

lemma kept_Ret [kept_rules]:
  "kept d s \<Longrightarrow> ends (kept d) (Ret x s)" "kept d s \<Longrightarrow> ends (kept d) (Exit c s)"
  "kept d s \<Longrightarrow> ends (kept d) (Fault s)"
  by simp_all

lemma kept_cases [kept_rules]:
  "(b \<Longrightarrow> ends (kept d) x) \<Longrightarrow> (\<not> b \<Longrightarrow> ends (kept d) y) \<Longrightarrow> ends (kept d) (if b then x else y)"
  "(q = None \<Longrightarrow> ends (kept d) n) \<Longrightarrow> (\<And>z. ends (kept d) (f z)) \<Longrightarrow>
   ends (kept d) (case q of None \<Rightarrow> n | Some z \<Rightarrow> f z)"
  "(\<And>a b. ends (kept d) (g a b)) \<Longrightarrow> ends (kept d) (case p of (a, b) \<Rightarrow> g a b)"
  by (auto split: option.splits prod.splits)

lemma kept_updates [kept_rules]:
  "kept d ms \<Longrightarrow> kept d (ms\<lparr>c_len := a\<rparr>)" "kept d ms \<Longrightarrow> kept d (ms\<lparr>li := b\<rparr>)"
  "kept d ms \<Longrightarrow> kept d (ms\<lparr>o_buf := c\<rparr>)" "kept d ms \<Longrightarrow> kept d (ms\<lparr>ms_offset := e\<rparr>)"
  "kept d ms \<Longrightarrow> kept d (ms\<lparr>ms_error := f\<rparr>)" "kept d ms \<Longrightarrow> kept d (ms\<lparr>had_err := g\<rparr>)"
  "kept d ms \<Longrightarrow> kept d (ms\<lparr>ms_line := h\<rparr>)" "kept d ms \<Longrightarrow> kept d (ms\<lparr>search_s := i\<rparr>)"
  "kept d ms \<Longrightarrow> kept d (ms\<lparr>search_len := j\<rparr>)" "kept d ms \<Longrightarrow> kept d (ms\<lparr>search_offset := j\<rparr>)"
  "kept d ms \<Longrightarrow> kept d (ms\<lparr>rm_len := j\<rparr>)" "kept d ms \<Longrightarrow> kept d (ms\<lparr>ms_value := k\<rparr>)"
  by (simp_all add: kept_def)

lemma kept_state_if [kept_rules]: "kept d a \<Longrightarrow> kept d b \<Longrightarrow> kept d (if q then a else b)"
  by simp

lemma kept_append_text: "append_text env f va ms = Some ms' \<Longrightarrow> kept d ms' \<longleftrightarrow> kept d ms"
  by (auto simp: append_text_def kept_def split: option.splits if_splits)

lemma kept_vasprintf_failed [kept_rules]: "kept d ms \<Longrightarrow> ends (kept d) (vasprintf_failed env ms)"
  unfolding vasprintf_failed_def
  by (auto simp: kept_append_text intro!: kept_rules split: option.splits if_splits)

lemma kept_file_printf [kept_rules]: "kept d ms \<Longrightarrow> ends (kept d) (file_printf env f va ms)"
  unfolding file_printf_def by (auto simp: kept_append_text intro!: kept_rules split: option.splits)

lemma kept_file_error_core [kept_rules]: "kept d ms \<Longrightarrow> ends (kept d) (file_error_core env e f va l ms)"
  unfolding file_error_core_def by (intro kept_rules)

lemma kept_errors [kept_rules]:
  "kept d ms \<Longrightarrow> ends (kept d) (file_error env e f va ms)"
  "kept d ms \<Longrightarrow> ends (kept d) (file_oomem env n ms)"
  "kept d ms \<Longrightarrow> ends (kept d) (file_magerror env f va ms)"
  unfolding file_error_def file_oomem_def file_magerror_def by (intro kept_rules; assumption)+

lemma kept_set_level [kept_rules]: "kept d ms \<Longrightarrow> ends (kept d) (set_level l f ms)"
  unfolding set_level_def by (intro kept_rules)

lemma kept_file_check_mem [kept_rules]: "kept d ms \<Longrightarrow> ends (kept d) (file_check_mem env l ms)"
  unfolding file_check_mem_def Let_def by (intro kept_rules)

lemma kept_mcopy [kept_rules]: "kept d ms \<Longrightarrow> ends (kept d) (mcopy env t ind s pos nbytes cnt ms)"
  unfolding mcopy_def Let_def by (intro kept_rules)

lemma kept_converted [kept_rules]: "kept d ms \<Longrightarrow> ends (kept d) (converted v ms)"
  unfolding converted_def by (intro kept_rules)

lemma kept_mconvert [kept_rules]: "kept d ms \<Longrightarrow> ends (kept d) (mconvert env m flip ms)"
  unfolding mconvert_def mconvert_pstring_def Let_def by (intro kept_rules)

lemma kept_mget_fetch [kept_rules]: "kept d ms \<Longrightarrow> ends (kept d) (mget_fetch env s m nbytes base level flip ms)"
  unfolding mget_fetch_def Let_def by (intro kept_rules)

lemma kept_moffset [kept_rules]: "kept d ms \<Longrightarrow> ends (kept d) (moffset m ms)"
  unfolding moffset_def moffset_string_def Let_def by (intro kept_rules)

lemma kept_check_fmt [kept_rules]: "kept d ms \<Longrightarrow> ends (kept d) (check_fmt env m ms)"
  unfolding check_fmt_def by (intro kept_rules)

lemma kept_mprint_parts [kept_rules]:
  "kept d ms \<Longrightarrow> ends (kept d) (mprint_number env m shown arg t ms)"
  "kept d ms \<Longrightarrow> ends (kept d) (mprint_text env m arg t ms)"
  unfolding mprint_number_def mprint_text_def by (intro kept_rules; assumption)+

lemma kept_mprint [kept_rules]: "kept d ms \<Longrightarrow> ends (kept d) (mprint env s m ms)"
  unfolding mprint_def mprint_string_def mprint_regex_def Let_def by (intro kept_rules)

lemma kept_check_relation [kept_rules]: "kept d ms \<Longrightarrow> ends (kept d) (check_relation env m x l ms)"
  unfolding check_relation_def invalid_relation_def Let_def by (intro kept_rules)

lemma kept_check_parts [kept_rules]:
  "kept d ms \<Longrightarrow> ends (kept d) (check_float env m ms)"
  "kept d ms \<Longrightarrow> ends (kept d) (check_double env m ms)"
  "kept d ms \<Longrightarrow> ends (kept d) (check_search s m ms)"
  unfolding check_float_def check_double_def check_search_def invalid_relation_def Let_def
  by (intro kept_rules; assumption)+

lemma kept_check_regex [kept_rules]: "kept d ms \<Longrightarrow> ends (kept d) (check_regex env s m ms)"
  unfolding check_regex_def by (auto intro!: kept_rules split: option.splits regex_result.splits)

lemma kept_magiccheck [kept_rules]: "kept d ms \<Longrightarrow> ends (kept d) (magiccheck env s m ms)"
  unfolding magiccheck_def Let_def by (intro kept_rules)

lemma kept_output [kept_rules]:
  "kept d ms \<Longrightarrow> ends (kept d) (handle_annotation env m ms)"
  "kept d ms \<Longrightarrow> ends (kept d) (print_sep env b ms)"
  "kept d ms \<Longrightarrow> ends (kept d) (print_entry env s m ms)"
  "kept d ms \<Longrightarrow> ends (kept d) (fails v ms)"
  unfolding handle_annotation_def print_sep_def print_entry_def fails_def by (intro kept_rules; assumption)+

lemma kept_enter_level [kept_rules]: "kept d ms \<Longrightarrow> ends (kept d) (enter_level env m v ms)"
  unfolding enter_level_def Let_def by (intro kept_rules)

lemma kept_cont_output [kept_rules]: "kept d ms \<Longrightarrow> ends (kept d) (cont_output env s m v ms)"
  unfolding cont_output_def Let_def by (intro kept_rules)

lemma kept_matched [kept_rules]:
  "kept d ms \<Longrightarrow> ends (kept d) (cont_matched env s m v ms)"
  "kept d ms \<Longrightarrow> ends (kept d) (top_output env s m v ms)"
  unfolding cont_matched_def top_output_def Let_def by (intro kept_rules; assumption)+

section \<open>Enough calls\<close>

text \<open>
  A run that returns, with entries and flags as they were. \<open>None\<close>, too few calls granted, does
  not satisfy it; with \<open>w\<close> it does, which is the weaker claim on runs that may not return.
\<close>

definition returns :: "bool \<Rightarrow> magic_set \<Rightarrow> ('a, magic_set) outcome option \<Rightarrow> bool" where
  "returns w d m \<longleftrightarrow> (case m of None \<Rightarrow> w | Some p \<Rightarrow> ends (kept d) p)"

named_theorems returns_rules \<open>routines that return\<close>

lemma returns_Some [returns_rules]: "ends (kept d) p \<Longrightarrow> returns w d (Some p)"
  by (simp add: returns_def)

lemma returns_rbind [returns_rules]:
  "returns w d m \<Longrightarrow> (\<And>x s. kept d s \<Longrightarrow> returns w d (f x s)) \<Longrightarrow> returns w d (rbind m f)"
  unfolding returns_def rbind_def by (cases m; cases "the m") (auto split: option.split)

lemma returns_cases [returns_rules]:
  "(b \<Longrightarrow> returns w d x) \<Longrightarrow> (\<not> b \<Longrightarrow> returns w d y) \<Longrightarrow> returns w d (if b then x else y)"
  "(\<And>a b. returns w d (g a b z)) \<Longrightarrow> returns w d ((case p of (a, b) \<Rightarrow> g a b) z)"
  "(\<And>e. returns w d (h e)) \<Longrightarrow> (\<And>v. returns w d (k v)) \<Longrightarrow> returns w d (case r of Inl e \<Rightarrow> h e | Inr v \<Rightarrow> k v)"
  "(\<And>x. returns w d (fs x)) \<Longrightarrow> (\<And>x. returns w d (fh x)) \<Longrightarrow> returns w d (case q of Stop x \<Rightarrow> fs x | Have x \<Rightarrow> fh x)"
  by (auto split: prod.splits sum.splits fetched.splits)

text \<open>
  An entry whose calls return: it is no \<open>indirect\<close> entry, and if it uses another, the call for
  that one returns.
\<close>

definition used :: "magic \<Rightarrow> byte list" where
  "used m = (let sbuf = c_string (m_value m) in if sbuf \<noteq> [] \<and> hd sbuf = 94 then tl sbuf else sbuf)"

definition call_returns :: "bool \<Rightarrow> magic_set \<Rightarrow> match_call \<Rightarrow> mlist \<Rightarrow> bool" where
  "call_returns w d call ml \<longleftrightarrow> (\<forall>s nbytes base mode txt flip rv ms. kept d ms \<longrightarrow>
     returns w d (call ml s nbytes base mode txt flip rv ms))"

definition entry_returns :: "bool \<Rightarrow> magic_set \<Rightarrow> match_call \<Rightarrow> magic \<Rightarrow> bool" where
  "entry_returns w d call m \<longleftrightarrow> (m_type m = FILE_INDIRECT \<longrightarrow> w \<and> (\<forall>ml. call_returns w d call ml)) \<and>
     (m_type m = FILE_USE \<longrightarrow> (\<forall>mls ml. mlist1 d = Some mls \<longrightarrow> file_magicfind (used m) mls = Some ml \<longrightarrow>
        call_returns w d call ml))"

lemma mget_use_returns:
  assumes "entry_returns w d call m" "m_type m = FILE_USE" "kept d ms"
  shows "returns w d (mget_use env call s m nbytes pos mode txt rv ms)"
proof -
  have "mlist1 ms = mlist1 d" using assms(3) by (simp add: kept_def)
  with assms show ?thesis
    unfolding mget_use_def used_def [symmetric] Let_def
    by (auto simp: entry_returns_def call_returns_def used_def Let_def
        intro!: returns_rules kept_rules split: option.splits)
qed

lemma softmagic_loop_returns:
  assumes "\<forall>ml. call_returns w d call ml"
  shows "kept d ms \<Longrightarrow> returns w d (softmagic_loop call mls buf nbytes mode txt ms)"
proof (induction mls arbitrary: ms)
  case Nil
  then show ?case by (auto intro!: returns_rules kept_rules)
next
  case (Cons ml mls)
  have "returns w d (call ml buf nbytes 0 mode txt False 0 ms)"
    using assms Cons.prems by (auto simp: call_returns_def)
  with Cons.IH show ?case by (auto intro!: returns_rules kept_rules)
qed

lemma softmagic_returns:
  "\<forall>ml. call_returns w d call ml \<Longrightarrow> kept d ms \<Longrightarrow> returns w d (softmagic_with call buf nbytes mode txt ms)"
  unfolding softmagic_with_def
  by (auto intro!: returns_rules kept_rules softmagic_loop_returns split: option.splits)

lemma mget_indirect_returns:
  assumes "\<forall>ml. call_returns w d call ml" "kept d ms"
  shows "returns w d (mget_indirect env call s m nbytes pos txt ms)"
  unfolding mget_indirect_def Let_def
  by (intro returns_rules kept_rules softmagic_returns assms)

lemma mget_returns:
  assumes "entry_returns w d call m" "kept d ms"
  shows "returns w d (mget env call s m nbytes base level mode txt flip rv ms)"
  unfolding mget_def
  by (intro returns_rules kept_rules assms(2) mget_use_returns [OF assms(1)] mget_indirect_returns)
    (use assms(1) in \<open>auto simp: entry_returns_def\<close>)

lemma cont_entry_returns:
  "entry_returns w d call m \<Longrightarrow> kept d ms \<Longrightarrow> returns w d (cont_entry env call s nbytes base mode txt flip m v ms)"
  unfolding cont_entry_def Let_def by (intro returns_rules kept_rules mget_returns)

lemma cont_loop_returns:
  "\<forall>m \<in> set (take k rest). entry_returns w d call m \<Longrightarrow> kept d ms \<Longrightarrow>
   returns w d (cont_loop (cont_step env call s nbytes base mode txt flip) k rest v ms)"
proof (induction rest arbitrary: k v ms)
  case Nil
  then show ?case by (auto intro!: returns_rules kept_rules)
next
  case (Cons m rest)
  show ?case
  proof (cases "m_cont_level m = 0 \<or> k = 0")
    case True
    with Cons.prems show ?thesis by (auto intro!: returns_rules kept_rules split: nat.splits)
  next
    case False
    then obtain j where k: "k = Suc j" "m_cont_level m \<noteq> 0" by (cases k) auto
    have e: "entry_returns w d call m" "\<forall>m \<in> set (take j rest). entry_returns w d call m"
      using Cons.prems(1) k(1) by simp_all
    have "returns w d (cont_step env call s nbytes base mode txt flip m v ms)"
      unfolding cont_step_def level_step_def Let_def
      by (intro returns_rules kept_rules cont_entry_returns e(1) Cons.prems(2))
    with k Cons.IH [OF e(2)] show ?thesis by (auto intro!: returns_rules kept_rules)
  qed
qed

lemma top_step_returns:
  assumes "entry_returns w d call m" "\<forall>m \<in> set (take k rest). entry_returns w d call m" "kept d ms"
  shows "returns w d (top_step env call s nbytes base mode txt flip m k rest v ms)"
  unfolding top_step_def top_test_def Let_def
  by (intro returns_rules kept_rules mget_returns cont_loop_returns assms)

lemma match_loop_returns:
  "\<forall>m \<in> set (take k rest). entry_returns w d call m \<Longrightarrow> kept d ms \<Longrightarrow>
   returns w d (match_loop (top_step env call s nbytes base mode txt flip) k rest v ms)"
proof (induction k arbitrary: rest v ms rule: less_induct)
  case (less k)
  show ?case
  proof (cases k)
    case 0
    with less.prems(2) show ?thesis by (auto intro!: returns_rules kept_rules)
  next
    case (Suc j)
    show ?thesis
    proof (cases rest)
      case Nil
      with Suc less.prems(2) show ?thesis by (auto intro!: returns_rules kept_rules)
    next
      case (Cons m rest')
      let ?n = "skip_conts j rest'"
      have e: "entry_returns w d call m" "\<forall>m \<in> set (take j rest'). entry_returns w d call m"
        using less.prems(1) Suc Cons by simp_all
      have "set (take (j - ?n) (drop ?n rest')) \<subseteq> set (take j rest')"
        by (metis drop_take set_drop_subset)
      with e(2) have "\<forall>m \<in> set (take (j - ?n) (drop ?n rest')). entry_returns w d call m" by blast
      with less.IH [of "j - ?n"] Suc have
        "kept d ms \<Longrightarrow> returns w d (match_loop (top_step env call s nbytes base mode txt flip) (j - ?n) (drop ?n rest') v ms)" for v ms
        by simp
      with Suc Cons top_step_returns [OF e less.prems(2)] show ?thesis by (auto intro!: returns_rules kept_rules)
    qed
  qed
qed

lemma match_with_returns:
  assumes "\<forall>m \<in> set (take (nmagic ml) (magic_array ml)). entry_returns w d call m"
  shows "call_returns w d (match_with env call) ml"
  unfolding call_returns_def match_with_def
  by (intro allI impI returns_rules kept_rules match_loop_returns assms)

text \<open>
  The entries reached from an array through \<open>use\<close> are at most \<open>n\<close> calls deep.
\<close>

fun depth_ok :: "mlist list \<Rightarrow> nat \<Rightarrow> mlist \<Rightarrow> bool" where
  "depth_ok mls n ml = (\<forall>m \<in> set (take (nmagic ml) (magic_array ml)). m_type m \<noteq> FILE_INDIRECT \<and>
     (m_type m = FILE_USE \<longrightarrow>
        (case file_magicfind (used m) mls of
           None \<Rightarrow> True
         | Some ml' \<Rightarrow> (case n of 0 \<Rightarrow> False | Suc n \<Rightarrow> depth_ok mls n ml'))))"

declare depth_ok.simps [simp del]

lemma depth_returns: "mlist1 d = Some mls \<Longrightarrow> depth_ok mls n ml \<Longrightarrow> call_returns w d (match env n) ml"
proof (induction n arbitrary: ml)
  case 0
  then show ?case unfolding match.simps
    by (intro match_with_returns) (auto simp: depth_ok.simps [of mls 0] entry_returns_def split: option.splits)
next
  case (Suc n)
  show ?case unfolding match.simps
  proof (rule match_with_returns, rule ballI)
    fix m assume "m \<in> set (take (nmagic ml) (magic_array ml))"
    with Suc.prems(2) have "m_type m \<noteq> FILE_INDIRECT"
      "\<And>ml'. m_type m = FILE_USE \<Longrightarrow> file_magicfind (used m) mls = Some ml' \<Longrightarrow> depth_ok mls n ml'"
      by (auto simp: depth_ok.simps [of mls "Suc n"] split: option.splits)
    with Suc.IH Suc.prems(1) show "entry_returns w d (match env n) m" by (auto simp: entry_returns_def)
  qed
qed

text \<open>Whatever the entries are, a run that returns changes neither them nor the flags.\<close>

lemma match_keeps: "call_returns True d (match env n) ml"
proof (induction n arbitrary: ml)
  case 0
  have "call_returns True d (\<lambda>ml s nbytes base mode flag flip rv ms. None) ml" for ml
    by (simp add: call_returns_def returns_def)
  then show ?case unfolding match.simps by (intro match_with_returns) (simp add: entry_returns_def)
next
  case (Suc n)
  then show ?case unfolding match.simps by (intro match_with_returns) (simp add: entry_returns_def)
qed

lemma file_softmagic_keeps:
  "kept d ms \<Longrightarrow> returns True d (file_softmagic env n buf nbytes mode flag ms)"
  unfolding file_softmagic_def by (intro softmagic_returns allI match_keeps)

end
