(* ===== verification/MagicFacts.thy ===== *)
theory MagicFacts
  imports MagicMatch
begin

unbundle bit_operations_syntax

text \<open>
  What the tests of single entries compute: numbers in each byte order, strings, searches.
\<close>

section \<open>Numbers out of bytes\<close>

text \<open>The number the bytes \<open>bs\<close> denote, the most significant first.\<close>

definition be_value :: "byte list \<Rightarrow> nat" where
  "be_value bs = foldl (\<lambda>a b. 256 * a + unat b) 0 bs"

lemma be_value_snoc: "be_value (bs @ [b]) = 256 * be_value bs + unat b"
  by (simp add: be_value_def)

lemma be_value_less: "be_value bs < 256 ^ length bs"
proof (induction bs rule: rev_induct)
  case (snoc b bs)
  have "256 * be_value bs + unat b < 256 * (be_value bs + 1)" using unat_byte [of b] by simp
  also have "\<dots> \<le> 256 * 256 ^ length bs" using snoc by simp
  finally show ?case by (simp add: be_value_snoc)
qed (simp add: be_value_def)

definition join_bytes :: "byte list \<Rightarrow> 'a::len word" where
  "join_bytes bs = foldl (\<lambda>x b. push_bit 8 x OR ucast b) 0 bs"

lemma join_bytes_snoc: "join_bytes (bs @ [b]) = push_bit 8 (join_bytes bs) OR ucast b"
  by (simp add: join_bytes_def)

lemma shift_or: "push_bit 8 x OR ucast (b :: byte) = (x * 256 + ucast b :: 'a::len word)" 
proof -
  have "push_bit 8 x OR ucast b = push_bit 8 x + (ucast b :: 'a word)"
    by (rule disjunctive_add_eq_or [symmetric]) (rule bit_word_eqI, auto simp: bit_simps dest: bit_imp_le_length)
  then show ?thesis by (simp add: push_bit_eq_mult)
qed

lemma join_bytes_value: "(join_bytes bs :: 'a::len word) = of_nat (be_value bs)"
proof (induction bs rule: rev_induct)
  case (snoc b bs)
  then show ?case by (simp add: join_bytes_snoc be_value_snoc shift_or)
qed (simp add: join_bytes_def be_value_def)

lemma joins:
  "join16 a b = join_bytes [a, b]"
  "join32 a b c d = join_bytes [a, b, c, d]"
  "join64 a b c d e f g h = join_bytes [a, b, c, d, e, f, g, h]"
  by (simp_all add: join16_def join32_def join64_def join_bytes_def push_bit_or ac_simps)

lemma join16_value: "join16 a b = of_nat (be_value [a, b])"
  and join32_value: "join32 a b c d = of_nat (be_value [a, b, c, d])"
  and join64_value: "join64 a b c d e f g h = of_nat (be_value [a, b, c, d, e, f, g, h])"
  by (simp_all only: joins join_bytes_value)

lemma val_put_b: "0 < length p \<Longrightarrow> val_b (put_b x p) = x"
  by (simp add: val_b_def put_b_def buf_put_def)

lemma val_put_h: "val_h (put_h x p) = x"
  by (rule bit_word_eqI) (auto simp: val_h_def put_h_def buf_put_def join16_def bit_simps)

lemma val_put_l: "val_l (put_l x p) = x"
proof (rule bit_word_eqI)
  fix n assume "n < LENGTH(32)"
  then consider "n < 8" | "8 \<le> n" "n < 16" | "16 \<le> n" "n < 24" | "24 \<le> n" "n < 32" by force
  then show "bit (val_l (put_l x p)) n = bit x n"
    by cases (simp_all add: val_l_def put_l_def buf_put_def join32_def bit_simps less_diff_conv2)
qed

lemma val_put_q: "val_q (put_q x p) = x"
proof (rule bit_word_eqI)
  fix n assume "n < LENGTH(64)"
  then consider "n < 8" | "8 \<le> n" "n < 16" | "16 \<le> n" "n < 24" | "24 \<le> n" "n < 32"
    | "32 \<le> n" "n < 40" | "40 \<le> n" "n < 48" | "48 \<le> n" "n < 56" | "56 \<le> n" "n < 64" by force
  then show "bit (val_q (put_q x p)) n = bit x n"
    by cases (simp_all add: val_q_def put_q_def buf_put_def join64_def bit_simps less_diff_conv2)
qed

section \<open>Numeric tests\<close>

text \<open>
  The places of the bytes of a number, the most significant first: what the types promise.
  The types \<open>FILE_LELONG\<close>, \<open>FILE_LEDATE\<close> and \<open>FILE_LELDATE\<close> are left out, see below.
\<close>

abbreviation (input) short_types :: "nat set" where "short_types \<equiv> {FILE_SHORT, FILE_BESHORT, FILE_LESHORT}"

abbreviation (input) long_types :: "nat set" where
  "long_types \<equiv> {FILE_LONG, FILE_BELONG, FILE_MELONG, FILE_DATE, FILE_BEDATE, FILE_MEDATE, FILE_LDATE, FILE_BELDATE,
     FILE_MELDATE}"

abbreviation (input) quad_types :: "nat set" where
  "quad_types \<equiv> {FILE_QUAD, FILE_BEQUAD, FILE_LEQUAD, FILE_QDATE, FILE_BEQDATE, FILE_LEQDATE, FILE_QLDATE,
     FILE_BEQLDATE, FILE_LEQLDATE, FILE_QWDATE, FILE_BEQWDATE, FILE_LEQWDATE}"

definition byte_order :: "nat \<Rightarrow> nat list" where
  "byte_order t =
     (if t = FILE_BYTE then [0]
      else if t = FILE_BESHORT then [0, 1]
      else if t \<in> short_types then [1, 0]
      else if t \<in> {FILE_BELONG, FILE_BEDATE, FILE_BELDATE} then [0, 1, 2, 3]
      else if t \<in> {FILE_MELONG, FILE_MEDATE, FILE_MELDATE} then [1, 0, 3, 2]
      else if t \<in> long_types then [3, 2, 1, 0]
      else if t \<in> {FILE_BEQUAD, FILE_BEQDATE, FILE_BEQLDATE, FILE_BEQWDATE} then [0, 1, 2, 3, 4, 5, 6, 7]
      else if t \<in> quad_types then [7, 6, 5, 4, 3, 2, 1, 0]
      else [])"

text \<open>An entry without a mask and without indirection.\<close>

definition plain_number :: "magic \<Rightarrow> bool" where
  "plain_number m \<longleftrightarrow> byte_order (m_type m) \<noteq> [] \<and> num_mask m = 0 \<and> \<not> op_inverse (m_mask_op m) \<and> \<not> INDIR m"

abbreviation bytes_at :: "nat list \<Rightarrow> valuetype \<Rightarrow> byte list" where
  "bytes_at is p \<equiv> map (\<lambda>i. p ! i) is"

lemma number_type:
  assumes "byte_order t \<noteq> []"
  obtains "t = FILE_BYTE" | "t \<in> short_types" | "t \<in> long_types" | "t \<in> quad_types"
  using assms unfolding byte_order_def by (auto split: if_splits)

lemma do_cvt_plain: "num_mask m = 0 \<Longrightarrow> \<not> op_inverse (m_mask_op m) \<Longrightarrow> do_cvt m x = Some x"
  by (simp add: do_cvt_def)

lemma val_h_put_l: "val_h (put_l x p) = ucast x"
proof (rule bit_word_eqI)
  fix n assume "n < LENGTH(16)"
  then consider "n < 8" | "8 \<le> n" "n < 16" by force
  then show "bit (val_h (put_l x p)) n = bit (ucast x :: 16 word) n"
    by cases (simp_all add: val_h_def put_l_def buf_put_def join16_def bit_simps less_diff_conv2)
qed

lemma ucast_join32: "ucast (join32 a b c d) = join16 c d"
proof (rule bit_word_eqI)
  fix n assume n: "n < LENGTH(16)"
  then show "bit (ucast (join32 a b c d) :: 16 word) n = bit (join16 c d) n"
    by (auto simp: join32_def join16_def bit_simps)
qed

lemma ucast_val_l: "ucast (val_l p) = val_h p"
  by (simp add: val_l_def val_h_def ucast_join32)

lemma put_puts: "put_q x (put_q y p) = put_q x p" "put_l z (put_l w p) = put_l z p" "put_h u (put_h v p) = put_h u p"
  by (simp_all add: put_q_def put_l_def put_h_def buf_put_def)

lemmas cvt_defs = mconvert_def cvt_flip_def cvt_8_def cvt_16_def cvt_32_def cvt_64_def converted_def Let_def

abbreviation (input) number_at :: "magic \<Rightarrow> valuetype \<Rightarrow> nat" where
  "number_at m p \<equiv> be_value (bytes_at (byte_order (m_type m)) p)"

lemma mconvert_byte:
  assumes "m_type m = FILE_BYTE" "num_mask m = 0" "\<not> op_inverse (m_mask_op m)"
  shows "mconvert env m False ms = Ret 1 (ms\<lparr>ms_value := put_b (of_nat (number_at m (ms_value ms))) (ms_value ms)\<rparr>)"
  using assms by (simp add: cvt_defs do_cvt_plain byte_order_def be_value_def val_b_def)

lemma mconvert_short:
  assumes "m_type m \<in> short_types" "num_mask m = 0" "\<not> op_inverse (m_mask_op m)"
  shows "\<exists>p. mconvert env m False ms = Ret 1 (ms\<lparr>ms_value := p\<rparr>) \<and> val_h p = of_nat (number_at m (ms_value ms))"
proof -
  let ?p = "ms_value ms"
  let ?q = "put_h (val_h ?p) ?p"
  from assms(1) consider "m_type m = FILE_SHORT" | "m_type m = FILE_BESHORT" | "m_type m = FILE_LESHORT" by blast
  then show ?thesis
  proof cases
    case 1
    then have "mconvert env m False ms = Ret 1 (ms\<lparr>ms_value := put_l (val_l ?q) ?q\<rparr>)"
      by (simp add: assms cvt_defs do_cvt_plain)
    then show ?thesis using 1
      by (intro exI conjI) (assumption, simp add: byte_order_def val_h_put_l ucast_val_l val_put_h,
        simp add: val_h_def join16_value)
  next
    case 2
    then have "mconvert env m False ms = Ret 1 (ms\<lparr>ms_value := put_h (join16 (?p ! 0) (?p ! 1)) ?p\<rparr>)"
      by (simp add: assms cvt_defs do_cvt_plain put_puts val_put_h)
    then show ?thesis using 2
      by (intro exI conjI) (assumption, simp add: byte_order_def val_put_h join16_value)
  next
    case 3
    then have "mconvert env m False ms = Ret 1 (ms\<lparr>ms_value := put_l (join32 (?p ! 3) (?p ! 2) (?p ! 1) (?p ! 0)) ?p\<rparr>)"
      by (simp add: assms cvt_defs do_cvt_plain put_puts val_put_l)
    then show ?thesis using 3
      by (intro exI conjI) (assumption, simp add: byte_order_def val_h_put_l ucast_join32 join16_value)
  qed
qed

lemma mconvert_long:
  assumes "m_type m \<in> long_types" "num_mask m = 0" "\<not> op_inverse (m_mask_op m)"
  shows "mconvert env m False ms = Ret 1 (ms\<lparr>ms_value := put_l (of_nat (number_at m (ms_value ms))) (ms_value ms)\<rparr>)"
proof -
  from assms(1) consider "m_type m \<in> {FILE_LONG, FILE_DATE, FILE_LDATE}"
    | "m_type m \<in> {FILE_BELONG, FILE_BEDATE, FILE_BELDATE}" | "m_type m \<in> {FILE_MELONG, FILE_MEDATE, FILE_MELDATE}"
    by blast
  then show ?thesis
  proof cases
    case 1
    then show ?thesis by (elim insertE emptyE)
      (simp_all add: assms(2,3) cvt_defs do_cvt_plain byte_order_def val_l_def [of "ms_value ms"] join32_value [symmetric])
  next
    case 2
    then show ?thesis by (elim insertE emptyE)
      (simp_all add: assms(2,3) cvt_defs do_cvt_plain val_put_l put_puts byte_order_def join32_value [symmetric])
  next
    case 3
    then show ?thesis by (elim insertE emptyE)
      (simp_all add: assms(2,3) cvt_defs do_cvt_plain val_put_l put_puts byte_order_def join32_value [symmetric])
  qed
qed

lemma mconvert_quad:
  assumes "m_type m \<in> quad_types" "num_mask m = 0" "\<not> op_inverse (m_mask_op m)"
  shows "mconvert env m False ms = Ret 1 (ms\<lparr>ms_value := put_q (of_nat (number_at m (ms_value ms))) (ms_value ms)\<rparr>)"
proof -
  from assms(1) consider "m_type m \<in> {FILE_QUAD, FILE_QDATE, FILE_QLDATE, FILE_QWDATE}"
    | "m_type m \<in> {FILE_BEQUAD, FILE_BEQDATE, FILE_BEQLDATE, FILE_BEQWDATE}"
    | "m_type m \<in> {FILE_LEQUAD, FILE_LEQDATE, FILE_LEQLDATE, FILE_LEQWDATE}" by blast
  then show ?thesis
  proof cases
    case 1
    then show ?thesis by (elim insertE emptyE)
      (simp_all add: assms(2,3) cvt_defs do_cvt_plain byte_order_def val_q_def [of "ms_value ms"] join64_value [symmetric])
  next
    case 2
    then show ?thesis by (elim insertE emptyE)
      (simp_all add: assms(2,3) cvt_defs do_cvt_plain val_put_q put_puts byte_order_def join64_value [symmetric])
  next
    case 3
    then show ?thesis by (elim insertE emptyE)
      (simp_all add: assms(2,3) cvt_defs do_cvt_plain val_put_q put_puts byte_order_def join64_value [symmetric])
  qed
qed

text \<open>Fetching the bytes.\<close>

lemma mcopy_plain:
  assumes "indir \<or> t \<notin> {FILE_SEARCH, FILE_REGEX, FILE_BESTRING16, FILE_LESTRING16}"
    and "unat pos < nbytes" "nbytes \<le> length s"
  shows "mcopy env t indir s pos nbytes cnt ms = Ret 0 (ms\<lparr>ms_value :=
    take (min (nbytes - unat pos) MAXstring) (drop (unat pos) s) @ replicate (MAXstring - min (nbytes - unat pos) MAXstring) 0\<rparr>)"
proof -
  define n where "n = min (nbytes - unat pos) MAXstring"
  have n: "unat pos + n \<le> length s" using assms(2,3) by (simp add: n_def)
  have t: "\<not> (\<not> indir \<and> t = FILE_SEARCH)" "\<not> (\<not> indir \<and> t = FILE_REGEX)"
    "\<not> (\<not> indir \<and> (t = FILE_BESTRING16 \<or> t = FILE_LESTRING16))" "\<not> nbytes \<le> unat pos"
    using assms(1,2) by auto
  show ?thesis
    unfolding mcopy_def Let_def if_not_P [OF t(1)] if_not_P [OF t(2)] if_not_P [OF t(3)] if_not_P [OF t(4)]
      n_def [symmetric] if_P [OF n] ..
qed

lemma byte_order_cases:
  "byte_order t \<in> {[], [0], [0, 1], [1, 0], [0, 1, 2, 3], [1, 0, 3, 2], [3, 2, 1, 0], [0, 1, 2, 3, 4, 5, 6, 7],
     [7, 6, 5, 4, 3, 2, 1, 0]}"
  by (simp add: byte_order_def)

lemma byte_order_less: "i \<in> set (byte_order t) \<Longrightarrow> i < length (byte_order t)"
proof -
  have "\<forall>i \<in> set l. i < length l" if "l \<in> {[], [0], [0, 1], [1, 0], [0, 1, 2, 3], [1, 0, 3, 2], [3, 2, 1, 0],
      [0, 1, 2, 3, 4, 5, 6, 7], [7, 6, 5, 4, 3, 2, 1, 0]}" for l :: "nat list"
    using that by (elim insertE emptyE) simp_all
  from this [OF byte_order_cases] show "i \<in> set (byte_order t) \<Longrightarrow> i < length (byte_order t)" by blast
qed

lemma byte_order_length: "length (byte_order t) \<le> 8"
  using byte_order_cases [of t] by (elim insertE emptyE) simp_all

lemma not_too_short:
  assumes "plain_number m" "unat pos + length (byte_order (m_type m)) \<le> nbytes" "nbytes < 2 ^ 32"
  shows "\<not> too_short m nbytes pos"
proof -
  have u: "unat (pos + 1) = unat pos + 1" if "unat pos + 1 < 2 ^ 32" using that by (simp add: unat_word_ariths)
  have u2: "unat (pos + 2) = unat pos + 2" if "unat pos + 2 < 2 ^ 32" using that by (simp add: unat_word_ariths)
  have u4: "unat (pos + 4) = unat pos + 4" if "unat pos + 4 < 2 ^ 32" using that by (simp add: unat_word_ariths)
  from assms(1) have "byte_order (m_type m) \<noteq> []" by (simp add: plain_number_def)
  then show ?thesis
  proof (cases rule: number_type)
    case 1
    with assms(2,3) u show ?thesis by (simp add: too_short_def byte_order_def)
  next
    case 2
    then have "length (byte_order (m_type m)) = 2" by (elim insertE emptyE) (simp_all add: byte_order_def)
    with assms(2,3) u2 have "unat (pos + 2) \<le> nbytes" by simp
    with 2 show ?thesis by (elim insertE emptyE) (simp_all add: too_short_def)
  next
    case 3
    then have "length (byte_order (m_type m)) = 4" by (elim insertE emptyE) (simp_all add: byte_order_def)
    with assms(2,3) u4 have "unat (pos + 4) \<le> nbytes" by simp
    with 3 show ?thesis by (elim insertE emptyE) (simp_all add: too_short_def)
  next
    case 4
    then show ?thesis by (elim insertE emptyE) (simp_all add: too_short_def)
  qed
qed

lemma mget_number:
  assumes m: "plain_number m" and len: "unat (ms_offset ms) + length (byte_order (m_type m)) \<le> nbytes"
    "nbytes \<le> length s" "nbytes < 2 ^ 32"
  shows "\<exists>p. mget env call s m nbytes 0 level mode txt False rv ms =
      Some (obind (mconvert env m False (ms\<lparr>ms_value := p\<rparr>)) (\<lambda>r ms. Ret (if r = 0 then 0 else 1, rv) ms)) \<and>
    length p = MAXstring \<and>
    bytes_at (byte_order (m_type m)) p = bytes_at (byte_order (m_type m)) (drop (unat (ms_offset ms)) s)"
proof -
  let ?pos = "unat (ms_offset ms)" and ?w = "length (byte_order (m_type m))"
  define n where "n = min (nbytes - ?pos) MAXstring"
  define p where "p = take n (drop ?pos s) @ replicate (MAXstring - n) 0"
  from m have bo: "byte_order (m_type m) \<noteq> []" and ind: "\<not> INDIR m" by (simp_all add: plain_number_def)
  then have w: "0 < ?w" by simp
  have t: "m_type m \<notin> {FILE_SEARCH, FILE_REGEX, FILE_BESTRING16, FILE_LESTRING16}"
    "m_type m \<noteq> FILE_INDIRECT" "m_type m \<noteq> FILE_USE" "m_type m \<noteq> FILE_NAME"
    using bo by (auto simp: byte_order_def)
  have "mcopy env (m_type m) False s (ms_offset ms) nbytes (unat (str_range m)) ms = Ret 0 (ms\<lparr>ms_value := p\<rparr>)"
    unfolding p_def n_def by (rule mcopy_plain) (use t(1) w len in linarith)+
  then have "mget_fetch env s m nbytes 0 level False ms = Ret (Have (ms_offset ms)) (ms\<lparr>ms_value := p\<rparr>)"
    using ind len(3) by (simp add: mget_fetch_def Let_def)
  with not_too_short [OF m len(1,3)] t(2-4) have
    "mget env call s m nbytes 0 level mode txt False rv ms =
      Some (obind (mconvert env m False (ms\<lparr>ms_value := p\<rparr>)) (\<lambda>r ms. Ret (if r = 0 then 0 else 1, rv) ms))"
    by (simp add: mget_def)
  moreover have "length p = MAXstring" using len(2) by (simp add: p_def n_def)
  moreover have "?w \<le> n" using len byte_order_length [of "m_type m"] by (simp add: n_def)
  then have "p ! i = drop ?pos s ! i" if "i \<in> set (byte_order (m_type m))" for i
    using byte_order_less [OF that] len by (simp add: p_def nth_append n_def)
  then have "bytes_at (byte_order (m_type m)) p = bytes_at (byte_order (m_type m)) (drop ?pos s)" by simp
  ultimately show ?thesis by blast
qed

text \<open>The number that is compared, and the relation between numbers.\<close>

definition number_of :: "magic \<Rightarrow> byte list \<Rightarrow> int" where
  "number_of m bs = (if UNSIGNED m then int (be_value bs) else signed_take_bit (8 * length bs - 1) (int (be_value bs)))"

definition entry_number :: "magic \<Rightarrow> int" where
  "entry_number m = (if UNSIGNED m then uint (val_q (m_value m)) else sint (val_q (m_value m)))"

definition holds :: "byte \<Rightarrow> int \<Rightarrow> int \<Rightarrow> bool" where
  "holds r a b =
     (if r = REL_ANY then True
      else if r = REL_NOT then a \<noteq> b
      else if r = REL_EQ then a = b
      else if r = REL_GT then a > b
      else if r = REL_LT then a < b
      else if r = REL_AND then a AND b = b
      else a AND b \<noteq> b)"

abbreviation (input) relations :: "byte set" where
  "relations \<equiv> {REL_ANY, REL_NOT, REL_EQ, REL_GT, REL_LT, REL_AND, REL_XOR}"

lemma sint_and_iff: "sint v AND sint l = sint l \<longleftrightarrow> v AND l = (l :: 64 word)"
  by (metis signed_and_eq signed_word_eqI)

lemma uint_and_iff: "uint v AND uint l = uint l \<longleftrightarrow> v AND l = (l :: 64 word)"
  by (metis unsigned_and_eq unsigned_word_eqI)

lemma sint_eq: "sint v = sint l \<longleftrightarrow> v = (l :: 64 word)" and uint_eq: "uint v = uint l \<longleftrightarrow> v = (l :: 64 word)"
  by (auto intro: signed_word_eqI unsigned_word_eqI)

lemma check_relation_holds:
  assumes "m_reln m \<in> relations"
  shows "check_relation env m v l ms = Ret (truth (holds (m_reln m)
     (if UNSIGNED m then uint (file_signextend m v) else sint (file_signextend m v))
     (if UNSIGNED m then uint l else sint l))) ms"
  using assms
  by (elim insertE emptyE)
    (simp_all add: check_relation_def holds_def Let_def sint_and_iff uint_and_iff sint_eq uint_eq word_less_def truth_def)

text \<open>Sign extension at the four widths.\<close>

lemma sint_scasts:
  "sint (scast (x :: 8 word) :: 64 word) = sint x"
  "sint (scast (y :: 16 word) :: 64 word) = sint y"
  "sint (scast (z :: 32 word) :: 64 word) = sint z"
proof -
  have "- (2 ^ 63) \<le> sint x \<and> sint x < 2 ^ 63" using sint_greater_eq [of x] sint_less [of x] by simp
  then show "sint (scast x :: 64 word) = sint x"
    by (simp add: signed_scast_eq signed_take_bit_int_eq_self)
  have "- (2 ^ 63) \<le> sint y \<and> sint y < 2 ^ 63" using sint_greater_eq [of y] sint_less [of y] by simp
  then show "sint (scast y :: 64 word) = sint y"
    by (simp add: signed_scast_eq signed_take_bit_int_eq_self)
  have "- (2 ^ 63) \<le> sint z \<and> sint z < 2 ^ 63" using sint_greater_eq [of z] sint_less [of z] by simp
  then show "sint (scast z :: 64 word) = sint z"
    by (simp add: signed_scast_eq signed_take_bit_int_eq_self)
qed

lemma sint_of_nat: "sint (of_nat n :: 'a::len word) = signed_take_bit (LENGTH('a) - 1) (int n)"
  by (simp add: signed_of_nat)

lemma ucast_ucasts:
  "ucast (ucast (x :: 8 word) :: 64 word) = x" "ucast (ucast (y :: 16 word) :: 64 word) = y"
  "ucast (ucast (z :: 32 word) :: 64 word) = z"
  by (rule bit_word_eqI, simp add: bit_simps)+

lemma file_signextend_types:
  "m_type m = FILE_BYTE \<Longrightarrow> file_signextend m v = (if UNSIGNED m then v else scast (ucast v :: 8 word))"
  "m_type m \<in> short_types \<Longrightarrow> file_signextend m v = (if UNSIGNED m then v else scast (ucast v :: 16 word))"
  "m_type m \<in> long_types \<Longrightarrow> file_signextend m v = (if UNSIGNED m then v else scast (ucast v :: 32 word))"
  "m_type m \<in> quad_types \<Longrightarrow> file_signextend m v = v"
  by (simp add: file_signextend_def) (elim insertE emptyE; simp add: file_signextend_def)+

abbreviation (input) compared :: "magic \<Rightarrow> 64 word \<Rightarrow> int" where
  "compared m v \<equiv> (if UNSIGNED m then uint (file_signextend m v) else sint (file_signextend m v))"

lemmas number_simps = ucast_ucasts sint_scasts sint_of_nat number_of_def unsigned_ucast_eq unsigned_of_nat
  take_bit_nat_eq_self

lemma signextend_byte:
  assumes "m_type m = FILE_BYTE" "length bs = 1"
  shows "compared m (ucast (of_nat (be_value bs) :: 8 word)) = number_of m bs"
  using assms(2) be_value_less [of bs] by (simp add: file_signextend_types(1) [OF assms(1)] number_simps)

lemma signextend_short:
  assumes "m_type m \<in> short_types" "length bs = 2"
  shows "compared m (ucast (of_nat (be_value bs) :: 16 word)) = number_of m bs"
  using assms(2) be_value_less [of bs] by (simp add: file_signextend_types(2) [OF assms(1)] number_simps)

lemma signextend_long:
  assumes "m_type m \<in> long_types" "length bs = 4"
  shows "compared m (ucast (of_nat (be_value bs) :: 32 word)) = number_of m bs"
  using assms(2) be_value_less [of bs] by (simp add: file_signextend_types(3) [OF assms(1)] number_simps)

lemma signextend_quad:
  assumes "m_type m \<in> quad_types" "length bs = 8"
  shows "compared m (of_nat (be_value bs)) = number_of m bs"
  using assms(2) be_value_less [of bs] by (simp add: file_signextend_types(4) [OF assms(1)] number_simps)

lemma magiccheck_byte: "m_type m = FILE_BYTE \<Longrightarrow>
    magiccheck env s m ms = check_relation env m (ucast (val_b (ms_value ms))) (val_q (m_value m)) ms"
  by (simp add: magiccheck_def Let_def)

lemma magiccheck_short: "m_type m \<in> short_types \<Longrightarrow>
    magiccheck env s m ms = check_relation env m (ucast (val_h (ms_value ms))) (val_q (m_value m)) ms"
  by (elim insertE emptyE) (simp_all add: magiccheck_def)

lemma magiccheck_long: "m_type m \<in> long_types \<Longrightarrow>
    magiccheck env s m ms = check_relation env m (ucast (val_l (ms_value ms))) (val_q (m_value m)) ms"
  by (elim insertE emptyE) (simp_all add: magiccheck_def)

lemma magiccheck_quad: "m_type m \<in> quad_types \<Longrightarrow>
    magiccheck env s m ms = check_relation env m (val_q (ms_value ms)) (val_q (m_value m)) ms"
  by (elim insertE emptyE) (simp_all add: magiccheck_def)

text \<open>A converted number is compared as the number its bytes denote.\<close>

lemma converted_number:
  assumes m: "plain_number m" "m_reln m \<in> relations" and len: "length (ms_value ms) = MAXstring"
  shows "\<exists>ms'. mconvert env m False ms = Ret 1 ms' \<and> magiccheck env s m ms' =
    Ret (truth (holds (m_reln m) (number_of m (bytes_at (byte_order (m_type m)) (ms_value ms))) (entry_number m))) ms'"
proof -
  let ?bs = "bytes_at (byte_order (m_type m)) (ms_value ms)"
  from m(1) have p: "num_mask m = 0" "\<not> op_inverse (m_mask_op m)" and bo: "byte_order (m_type m) \<noteq> []"
    by (simp_all add: plain_number_def)
  note c = check_relation_holds [OF m(2)] entry_number_def [symmetric]
  from bo show ?thesis
  proof (cases rule: number_type)
    case 1
    then have l: "length ?bs = 1" by (simp add: byte_order_def)
    show ?thesis
    proof (intro exI conjI)
      show "mconvert env m False ms = Ret 1 (ms\<lparr>ms_value := put_b (of_nat (be_value ?bs)) (ms_value ms)\<rparr>)"
        by (rule mconvert_byte [OF 1 p])
    qed (use len in \<open>simp add: magiccheck_byte [OF 1] c val_put_b signextend_byte [OF 1 l] del: of_nat_eq_0_iff\<close>)
  next
    case 2
    then have l: "length ?bs = 2" by (elim insertE emptyE) (simp_all add: byte_order_def)
    from mconvert_short [OF 2 p] obtain q where
      "mconvert env m False ms = Ret 1 (ms\<lparr>ms_value := q\<rparr>)" "val_h q = of_nat (be_value ?bs)" by blast
    then show ?thesis unfolding signextend_short [OF 2 l, symmetric] entry_number_def
      by (simp add: magiccheck_short [OF 2] check_relation_holds [OF m(2)])
  next
    case 3
    then have l: "length ?bs = 4" by (elim insertE emptyE) (simp_all add: byte_order_def)
    show ?thesis
    proof (intro exI conjI)
      show "mconvert env m False ms = Ret 1 (ms\<lparr>ms_value := put_l (of_nat (be_value ?bs)) (ms_value ms)\<rparr>)"
        by (rule mconvert_long [OF 3 p])
    qed (simp add: magiccheck_long [OF 3] c val_put_l signextend_long [OF 3 l])
  next
    case 4
    then have l: "length ?bs = 8" by (elim insertE emptyE) (simp_all add: byte_order_def)
    show ?thesis
    proof (intro exI conjI)
      show "mconvert env m False ms = Ret 1 (ms\<lparr>ms_value := put_q (of_nat (be_value ?bs)) (ms_value ms)\<rparr>)"
        by (rule mconvert_quad [OF 4 p])
    qed (simp add: magiccheck_quad [OF 4] c val_put_q signextend_quad [OF 4 l])
  qed
qed

section \<open>Types that are never converted\<close>

lemma mconvert_invalid:
  assumes "cvt_flip (m_type m) flip \<in> {FILE_LELONG, FILE_LEDATE, FILE_LELDATE}"
  shows "mconvert env m flip ms =
    obind (file_magerror env (bytes ''invalid type %d in mconvert()'') [Arg_int (of_nat (m_type m))] ms) (\<lambda>_ ms. Ret 0 ms)"
  using assms by (elim insertE emptyE) (simp_all add: mconvert_def Let_def)

lemma flipped_types:
  assumes "cvt_flip t flip \<in> {FILE_LELONG, FILE_LEDATE, FILE_LELDATE}"
  shows "t \<in> {FILE_LELONG, FILE_LEDATE, FILE_LELDATE, FILE_BELONG, FILE_BEDATE, FILE_BELDATE}"
proof (rule ccontr)
  assume t: "t \<notin> {FILE_LELONG, FILE_LEDATE, FILE_LELDATE, FILE_BELONG, FILE_BEDATE, FILE_BELDATE}"
  have "map_of flips t \<noteq> Some FILE_LELONG" "map_of flips t \<noteq> Some FILE_LEDATE" "map_of flips t \<noteq> Some FILE_LELDATE"
    using t by (simp_all add: flips_def)
  with t assms show False by (auto simp: cvt_flip_def split: if_splits option.splits)
qed

lemma file_magerror_text:
  assumes "\<forall>f va. vasprintf env f va \<noteq> None" "\<forall>b t. asprintf_ok env b t" "\<not> had_err ms" "ms_line ms \<noteq> 0"
  shows "file_magerror env f va ms = Ret () (ms\<lparr>had_err := True, ms_error := 0,
    o_buf := Some (the (vasprintf env (bytes ''line %zu: '') [Arg_int (of_nat (ms_line ms))]) @ the (vasprintf env f va))\<rparr>)"
proof -
  obtain a b where ab: "vasprintf env (bytes ''line %zu: '') [Arg_int (of_nat (ms_line ms))] = Some a" "vasprintf env f va = Some b"
    using assms(1) by blast
  then show ?thesis using assms(2-4)
    by (simp add: file_magerror_def file_error_core_def file_printf_def append_text_def)
qed

text \<open>A mask on a \<open>short\<close> in the machine's order is applied a second time, as one of a \<open>long\<close>.\<close>

lemma short_mask_twice:
  assumes "m_type m = FILE_SHORT" "num_mask m \<noteq> 0" "ops (m_mask_op m) = FILE_OPXOR" "\<not> op_inverse (m_mask_op m)"
  shows "\<exists>p. mconvert env m False ms = Ret 1 (ms\<lparr>ms_value := p\<rparr>) \<and> val_h p = val_h (ms_value ms)"
proof -
  let ?k = "ucast (num_mask m) :: 16 word" and ?k32 = "ucast (num_mask m) :: 32 word"
  let ?q = "put_h (val_h (ms_value ms) XOR ?k) (ms_value ms)"
  have c: "mconvert env m False ms = Ret 1 (ms\<lparr>ms_value := put_l (val_l ?q XOR ?k32) ?q\<rparr>)"
    using assms by (simp add: cvt_defs do_cvt_def cvt_arith_def)
  have "val_h (put_l (val_l ?q XOR ?k32) ?q) = ucast (val_l ?q XOR ?k32)" by (rule val_h_put_l)
  also have "\<dots> = ucast (val_l ?q) XOR ucast ?k32" by (rule bit_word_eqI) (simp add: bit_simps)
  also have "ucast (val_l ?q) = val_h (ms_value ms) XOR ?k" by (simp add: ucast_val_l val_put_h)
  also have "ucast ?k32 = ?k" by (rule bit_word_eqI) (auto simp: bit_simps)
  finally have "val_h (put_l (val_l ?q XOR ?k32) ?q) = val_h (ms_value ms)" by (simp add: xor.assoc)
  with c show ?thesis by blast
qed

section \<open>Searching\<close>

lemma byte_diff_0: "byte_diff y x = 0 \<longleftrightarrow> y = x"
proof
  assume "byte_diff y x = 0"
  then have "(ucast y :: 64 word) = ucast x" by (simp add: byte_diff_def)
  then have "(ucast (ucast y :: 64 word) :: byte) = ucast (ucast x :: 64 word)" by (rule arg_cong)
  then show "y = x" by (simp only: ucast_ucasts)
qed (simp add: byte_diff_def)

lemma strncmp_fast_eq:
  "n \<le> length a \<Longrightarrow> n \<le> length b \<Longrightarrow>
   \<exists>v. strncmp_fast n a b = Some v \<and> (v = 0 \<longleftrightarrow> take n a = take n b)"
proof (induction n a b rule: strncmp_fast.induct)
  case (2 n x a y b)
  then show ?case by (auto simp: Let_def byte_diff_0)
qed simp_all

text \<open>Does the pattern \<open>pat\<close> occur at position \<open>k\<close> of \<open>b\<close>?\<close>

definition occurs_at :: "byte list \<Rightarrow> byte list \<Rightarrow> nat \<Rightarrow> bool" where
  "occurs_at pat b k \<longleftrightarrow> take (length pat) (drop k b) = pat"

lemma search_loop_spec:
  assumes "str_flags m = 0" "slen \<le> length (m_value m)"
  shows "0 < n \<Longrightarrow> slen + n \<le> length b + 1 \<Longrightarrow> \<exists>v k. search_loop n m slen b idx v0 = Some (v, k) \<and>
    (if v = 0 then \<exists>j < n. k = idx + j \<and> occurs_at (take slen (m_value m)) b j \<and> (\<forall>i < j. \<not> occurs_at (take slen (m_value m)) b i)
     else k = 0 \<and> (\<forall>i < n. \<not> occurs_at (take slen (m_value m)) b i))"
proof (induction n arbitrary: b idx v0)
  case (Suc n)
  let ?pat = "take slen (m_value m)"
  have lp: "length ?pat = slen" using assms(2) by simp
  have "slen \<le> length b" using Suc.prems by simp
  from strncmp_fast_eq [OF assms(2) this] obtain v where
    v: "file_strncmp (m_value m) b slen (str_flags m) = Some v" "v = 0 \<longleftrightarrow> ?pat = take slen b"
    using assms(1) by (auto simp: file_strncmp_def)
  then have first: "v = 0 \<longleftrightarrow> occurs_at ?pat b 0" using lp by (auto simp: occurs_at_def)
  have tl: "occurs_at ?pat (tl b) i = occurs_at ?pat b (Suc i)" for i
    by (cases b) (simp_all add: occurs_at_def)
  show ?case
  proof (cases "v = 0 \<or> n = 0")
    case True
    then show ?thesis using v(1) first by (auto simp: less_Suc_eq_0_disj)
  next
    case False
    then have "0 < n" "slen + n \<le> length (tl b) + 1" using Suc.prems by auto
    from Suc.IH [OF this, of "idx + 1" v] obtain w k where
      w: "search_loop n m slen (tl b) (idx + 1) v = Some (w, k)" and
      c: "if w = 0 then \<exists>j < n. k = idx + 1 + j \<and> occurs_at ?pat (tl b) j \<and> (\<forall>i < j. \<not> occurs_at ?pat (tl b) i)
          else k = 0 \<and> (\<forall>i < n. \<not> occurs_at ?pat (tl b) i)" by blast
    have s: "search_loop (Suc n) m slen b idx v0 = Some (w, k)" using v(1) False w by simp
    show ?thesis
    proof (cases "w = 0")
      case True
      with c obtain j where j: "j < n" "k = idx + Suc j" "occurs_at ?pat b (Suc j)" "\<forall>i < j. \<not> occurs_at ?pat b (Suc i)"
        by (auto simp: tl)
      then have "\<forall>i < Suc j. \<not> occurs_at ?pat b i" using first False by (auto simp: less_Suc_eq_0_disj)
      with s True j show ?thesis by auto
    next
      case no: False
      with c have "k = 0 \<and> (\<forall>i < Suc n. \<not> occurs_at ?pat b i)" using first False by (auto simp: less_Suc_eq_0_disj tl)
      with s no show ?thesis by auto
    qed
  qed
qed simp

end
