(* ===== verification/MagicProps.thy ===== *)
theory MagicProps
  imports MagicTree MagicCalls MagicFacts
begin

unbundle bit_operations_syntax

text \<open>
  The properties of the magic interpreter: an array of entries is interpreted as the trees it
  is the preorder of, runs return when their \<open>use\<close> entries do not form a cycle, numeric tests
  compare the number in the byte order of their type, searches find the first occurrence,
  and the types \<open>lelong\<close>, \<open>ledate\<close> and \<open>leldate\<close> never match.
\<close>

section \<open>A sample\<close>

definition sample_env :: environ where
  "sample_env = \<lparr>vasprintf = (\<lambda>f va. Some f), asprintf_ok = (\<lambda>b t. True), strerror = (\<lambda>e. []), errno = 12, grow_levels = (\<lambda>n. True),
     fresh_level = \<lparr>li_off = 0, got_match = False, last_match = False\<rparr>, strndup_ok = (\<lambda>n. True),
     regex = (\<lambda>p i s. Rx_nomatch), fmt_regcomp = None, format_g = (\<lambda>a. []), fmttime = (\<lambda>v f. []),
     float_op = (\<lambda>op x k. x), double_op = (\<lambda>op x k. x)\<rparr>"

definition sample_entry :: "nat \<Rightarrow> nat \<Rightarrow> 32 word \<Rightarrow> valuetype \<Rightarrow> string \<Rightarrow> magic" where
  "sample_entry level t pos val desc = \<lparr>m_cont_level = level, m_flag = 0x20, m_reln = REL_EQ, m_vallen = 0, m_type = t,
     m_in_type = 0, m_in_op = 0, m_mask_op = 0, m_cond = 0, m_offset = pos, m_in_offset = 0, m_lineno = 1,
     num_mask = 0, m_value = val @ replicate (MAXstring - length val) 0, m_desc = bytes desc, m_mimetype = [], m_apple = []\<rparr>"

definition sample_set :: magic_set where
  "sample_set = \<lparr>mlist0 = Some [], mlist1 = Some [], c_len = 0, li = [], o_buf = None, o_pbuf = None, ms_offset = 0, ms_error = - 1,
     ms_flags = 0, had_err = False, ms_line = 3, search_s = None, search_len = 0, search_offset = 0, rm_len = 0,
     ms_value = replicate MAXstring 0\<rparr>"

definition sample_elf :: magic where
  "sample_elf = sample_entry 0 FILE_BELONG 0 [0x46, 0x4c, 0x45, 0x7f] ''ELF''"

definition sample_rules :: "rule list" where
  "sample_rules = [Rule sample_elf
     [Rule (sample_entry 1 FILE_BYTE 4 [1] ''32-bit'') [Rule (sample_entry 2 FILE_BYTE 5 [1] ''LSB'') []],
      Rule (sample_entry 1 FILE_BYTE 4 [2] ''64-bit'') []]]"

section \<open>Properties\<close>

text \<open>
  C17. The loops of \<open>match\<close> interpret trees: an array whose levels are the depths in a list of
  trees, followed by an entry of level 0, is run as the specification runs the trees, for
  every buffer, state and depth of calls.
\<close>

theorem match_interprets_trees:
  assumes "rules_at 0 rs" "m_cont_level e = 0"
  shows "match env (Suc n) \<lparr>magic_array = flats rs @ e # es, nmagic = length (flats rs)\<rparr> s nbytes base mode flag flip rv ms =
    match_rules env (match env n) rs s nbytes base mode flag flip rv ms"
  by (simp only: match.simps match_with_def match_rules_def mlist.simps match_loop_rules [OF assms])

theorem match_interprets_trees_witness:
  "match sample_env (Suc 0) \<lparr>magic_array = flats sample_rules @ [sample_elf], nmagic = length (flats sample_rules)\<rparr>
      [0x7f, 0x45, 0x4c, 0x46, 1] 5 0 0x20 False False 0 sample_set =
    match_rules sample_env (match sample_env 0) sample_rules [0x7f, 0x45, 0x4c, 0x46, 1] 5 0 0x20 False False 0 sample_set"
  by (rule match_interprets_trees) (simp_all add: sample_rules_def sample_elf_def sample_entry_def)

text \<open>
  C18. \<open>match\<close> returns: when the entries reached through \<open>use\<close> are at most \<open>n\<close> calls deep and none
  is an \<open>indirect\<close> entry, \<open>n\<close> nested calls are enough, more change nothing, and the loaded
  entries and the flags are left as they were.
\<close>

theorem match_returns:
  assumes "mlist1 ms = Some mls" "depth_ok mls n ml"
  shows "\<exists>p. ends (kept ms) p \<and>
    (\<forall>k \<ge> n. match env k ml s nbytes base mode flag flip rv ms = Some p)"
proof -
  have "returns False ms (match env n ml s nbytes base mode flag flip rv ms)"
    using depth_returns [OF assms, of False env] by (simp add: call_returns_def kept_def)
  then obtain p where p: "match env n ml s nbytes base mode flag flip rv ms = Some p" "ends (kept ms) p"
    by (auto simp: returns_def split: option.splits)
  with match_more [OF p(1)] show ?thesis by blast
qed

theorem match_returns_witness:
  "\<exists>p. \<forall>k \<ge> 0. match sample_env k \<lparr>magic_array = [sample_entry 0 FILE_BYTE 0 [1] ''one'', sample_entry 0 FILE_BYTE 0 [2] ''two''],
     nmagic = 1\<rparr> [1] 1 0 0x20 False False 0 sample_set = Some p"
  using match_returns [of sample_set "[]" 0 "\<lparr>magic_array = [sample_entry 0 FILE_BYTE 0 [1] ''one'', sample_entry 0 FILE_BYTE 0 [2] ''two''],
     nmagic = 1\<rparr>" sample_env "[1]" 1 0 "0x20" False False 0]
  by (auto simp: sample_set_def depth_ok.simps sample_entry_def)







end
