(* ===== verification/FileText.thy ===== *)
theory FileText
  imports MagicMatch Encoding
begin

unbundle bit_operations_syntax

text \<open>
  The tests of the \<open>file\<close> command that do not use magic entries: \<open>file/is_tar.c\<close>,
  \<open>file/ascmagic.c\<close> and the routines of \<open>file/funcs.c\<close> that replace in and escape the output.
  Beside the environment of the interpreter they use the record \<open>tools\<close>: allocation, the
  regular expressions of \<open>file_replace\<close>, the multibyte conversion, the number that the address
  of a header field is as an \<open>int\<close>, and the tests for compressed, CDF and ELF files, which are
  not modelled.
\<close>

record tools =
  base_env :: environ
  alloc_ok :: "nat \<Rightarrow> bool"
  depth :: nat
  regcomp_error :: "byte list \<Rightarrow> (int \<times> byte list) option"
  mbrtowc :: "byte list \<Rightarrow> (nat \<times> bool) option"
  isprint :: "byte \<Rightarrow> bool"
  chksum_address :: int
  file_zmagic :: "byte list \<Rightarrow> nat \<Rightarrow> magic_set \<Rightarrow> (int, magic_set) outcome"
  file_trycdf :: "byte list \<Rightarrow> nat \<Rightarrow> magic_set \<Rightarrow> (int, magic_set) outcome"
  file_tryelf :: "byte list \<Rightarrow> nat \<Rightarrow> magic_set \<Rightarrow> (int, magic_set) outcome"

text \<open>Texts printed one after the other, up to the first that fails.\<close>

fun print_all :: "environ \<Rightarrow> (byte list \<times> printf_arg list) list \<Rightarrow> magic_set \<Rightarrow> (int, magic_set) outcome" where
  "print_all env [] ms = Ret 0 ms"
| "print_all env ((f, va) # ts) ms =
     obind (file_printf env f va ms) (\<lambda>r ms. if r = - 1 then Ret (- 1) ms else print_all env ts ms)"

section \<open>\<open>is_tar.c\<close>\<close>

definition isodigit :: "byte \<Rightarrow> bool" where "isodigit c \<longleftrightarrow> 48 \<le> c \<and> c \<le> 55"

text \<open>The blanks in front of a field of \<open>digs\<close> bytes; \<open>None\<close> for a field of blanks only.\<close>

fun skip_blanks_in :: "nat \<Rightarrow> byte list \<Rightarrow> (nat \<times> byte list) option" where
  "skip_blanks_in digs [] = Some (digs, [])"
| "skip_blanks_in digs (c # cs) =
     (if isspace c then (if digs \<le> 1 then None else skip_blanks_in (digs - 1) cs) else Some (digs, c # cs))"

fun octal_digits :: "nat \<Rightarrow> byte list \<Rightarrow> int \<Rightarrow> int \<times> nat \<times> byte list" where
  "octal_digits digs [] n = (n, digs, [])"
| "octal_digits digs (c # cs) n =
     (if 0 < digs \<and> isodigit c then octal_digits (digs - 1) cs (push_bit 3 n OR (uint c - 48))
      else (n, digs, c # cs))"

definition from_oct :: "nat \<Rightarrow> byte list \<Rightarrow> int" where
  "from_oct digs field =
     (case skip_blanks_in digs field of
        None \<Rightarrow> - 1
      | Some (digs, cs) \<Rightarrow>
          (case octal_digits digs cs 0 of
             (n, digs, cs) \<Rightarrow>
               if 0 < digs \<and> cs \<noteq> [] \<and> hd cs \<noteq> NUL \<and> \<not> isspace (hd cs) then - 1 else n))"

text \<open>
  The loop that should take the eight bytes of the checksum out of the sum runs from the
  address of the field, as an \<open>int\<close>, down to 0. It may leave the buffer.
\<close>

definition RECORDSIZE :: nat where "RECORDSIZE = 512"

definition is_tar :: "int \<Rightarrow> byte list \<Rightarrow> nat \<Rightarrow> magic_set \<Rightarrow> (int, magic_set) outcome" where
  "is_tar address buf nbytes ms =
     (if nbytes < RECORDSIZE then Ret 0 ms
      else let chksum = drop 148 buf; recsum = from_oct 8 (take 8 chksum);
               sum = sum_list (map uint (take RECORDSIZE buf)); n = nat address in
      if length chksum < n then Fault ms
      else let sum = sum - sum_list (map sint (take n chksum)) + 32 * 8; magic = c_string (drop 257 buf) in
      if sum \<noteq> recsum then Ret 0 ms
      else if magic = bytes ''ustar  '' then Ret 3 ms
      else if magic = bytes ''ustar'' then Ret 2 ms
      else Ret 1 ms)"

definition tartype :: "string list" where
  "tartype = [''tar archive'', ''POSIX tar archive'', ''POSIX tar archive (GNU)'']"

definition file_is_tar :: "tools \<Rightarrow> byte list \<Rightarrow> nat \<Rightarrow> magic_set \<Rightarrow> (int, magic_set) outcome" where
  "file_is_tar T buf nbytes ms =
     (if MAGIC_APPLE (ms_flags ms) then Ret 0 ms
      else obind (is_tar (chksum_address T) buf nbytes ms) (\<lambda>tar ms.
        if tar < 1 \<or> tar > 3 then Ret 0 ms
        else obind (file_printf (base_env T) (bytes ''%s'')
                [Arg_str (if MAGIC_MIME (ms_flags ms) then bytes ''application/x-tar''
                          else bytes (tartype ! nat (tar - 1)))] ms) (\<lambda>r ms.
          if r = - 1 then Ret (- 1) ms else Ret 1 ms)))"

section \<open>\<open>file_printedlen\<close> and \<open>file_replace\<close>\<close>

definition file_printedlen :: "magic_set \<Rightarrow> nat" where
  "file_printedlen ms = (case o_buf ms of None \<Rightarrow> 0 | Some b \<Rightarrow> length b)"

text \<open>
  All patterns given to \<open>file_replace\<close> are a literal and \<open>$\<close>: they match where the output ends with
  the literal, and nothing is left behind the match. The loop goes on as long as the output
  matches; for a replacement that ends in the literal it would not end.
\<close>

definition ends_with :: "byte list \<Rightarrow> byte list \<Rightarrow> bool" where
  "ends_with lit b \<longleftrightarrow> length lit \<le> length b \<and> drop (length b - length lit) b = lit"

partial_function (option) replace_loop ::
    "environ \<Rightarrow> byte list \<Rightarrow> byte list \<Rightarrow> int \<Rightarrow> magic_set \<Rightarrow> (int, magic_set) outcome option" where
  "replace_loop env lit rep nm ms =
     (case o_buf ms of
        None \<Rightarrow> Some (Fault ms)
      | Some b \<Rightarrow>
          if ends_with lit b then
            (case file_printf env (bytes ''%s%s'') [Arg_str rep, Arg_str []]
                    (ms\<lparr>o_buf := Some (take (length b - length lit) b)\<rparr>) of
               Ret r ms \<Rightarrow> if r = - 1 then Some (Ret (- 1) ms) else replace_loop env lit rep (nm + 1) ms
             | Exit c ms \<Rightarrow> Some (Exit c ms)
             | Fault ms \<Rightarrow> Some (Fault ms))
          else Some (Ret nm ms))"

definition file_replace ::
    "tools \<Rightarrow> byte list \<Rightarrow> byte list \<Rightarrow> magic_set \<Rightarrow> (int, magic_set) outcome option" where
  "file_replace T lit rep ms =
     (case regcomp_error T (lit @ bytes ''$'') of
        Some (rc, msg) \<Rightarrow>
          Some (obind (file_magerror (base_env T) (bytes ''regex error %d, (%s)'') [Arg_int (of_int rc), Arg_str msg] ms)
            (\<lambda>_ ms. Ret (- 1) ms))
      | None \<Rightarrow> replace_loop (base_env T) lit rep 0 ms)"

section \<open>\<open>file_getbuffer\<close>\<close>

text \<open>A byte as a backslash and three octal digits.\<close>

definition OCTALIFY :: "byte \<Rightarrow> byte list" where
  "OCTALIFY c = [92, (drop_bit 6 c AND 3) + 48, (drop_bit 3 c AND 7) + 48, (c AND 7) + 48]"

text \<open>
  The output, character by character: \<open>mbrtowc\<close> gives the length of the next multibyte
  character and whether it can be printed (it is at least 1, for the output holds no NUL).
  \<open>None\<close> when a sequence is invalid.
\<close>

function escape_mb :: "(byte list \<Rightarrow> (nat \<times> bool) option) \<Rightarrow> byte list \<Rightarrow> byte list \<Rightarrow> byte list \<times> bool" where
  "escape_mb mb [] np = (np, True)"
| "escape_mb mb (c # cs) np =
     (case mb (c # cs) of
        None \<Rightarrow> (np, False)
      | Some (k, printable) \<Rightarrow>
          let n = max 1 k in
          escape_mb mb (drop n (c # cs))
            (np @ (if printable then take n (c # cs) else concat (map OCTALIFY (take n (c # cs))))))"
  by pat_completeness auto
termination by (relation "measure (\<lambda>(mb, cs, np). length cs)") auto

definition escape_bytes :: "(byte \<Rightarrow> bool) \<Rightarrow> byte list \<Rightarrow> byte list" where
  "escape_bytes pr b = concat (map (\<lambda>c. if pr c then [c] else OCTALIFY c) b)"

text \<open>
  Storing a text with its NUL into the array \<open>o.pbuf\<close>, for which nothing has ever been
  allocated.
\<close>

definition store_pbuf :: "byte list \<Rightarrow> magic_set \<Rightarrow> (unit, magic_set) outcome" where
  "store_pbuf t ms =
     (case o_pbuf ms of
        None \<Rightarrow> Fault ms
      | Some p \<Rightarrow> if length p < length t + 1 then Fault ms else Ret () (ms\<lparr>o_pbuf := Some (buf_put 0 (t @ [NUL]) p)\<rparr>))"

definition file_getbuffer :: "tools \<Rightarrow> magic_set \<Rightarrow> (byte list option, magic_set) outcome" where
  "file_getbuffer T ms =
     (if had_err ms then Ret None ms
      else if MAGIC_RAW (ms_flags ms) then Ret (o_buf ms) ms
      else case o_buf ms of
        None \<Rightarrow> Ret None ms
      | Some b \<Rightarrow>
          let psize = length b * 4 + 1 in
          if (2 ^ 64 - 1 - 1) div 4 < length b then obind (file_oomem (base_env T) (length b) ms) (\<lambda>_ ms. Ret None ms)
          else if \<not> alloc_ok T psize then obind (file_oomem (base_env T) psize ms) (\<lambda>_ ms. Ret None ms)
          else (case escape_mb (mbrtowc T) b [] of
             (np, done_all) \<Rightarrow>
               obind (store_pbuf np ms) (\<lambda>_ ms.
                 if done_all then Ret (map_option c_string (o_pbuf ms)) ms
                 else obind (store_pbuf (escape_bytes (isprint T) b) ms) (\<lambda>_ ms.
                   Ret (map_option c_string (o_pbuf ms)) ms))))"

section \<open>\<open>ascmagic.c\<close>\<close>

abbreviation (input) MAXLINELEN :: nat where "MAXLINELEN \<equiv> 300"
abbreviation (input) TEXTTEST :: int where "TEXTTEST \<equiv> 0x40"
abbreviation (input) HOWMANY :: nat where "HOWMANY \<equiv> 262144"
abbreviation MAGIC_NO_CHECK_SOFT :: "int \<Rightarrow> bool" where "MAGIC_NO_CHECK_SOFT flags \<equiv> bit flags 14"

fun trim_nuls :: "byte list \<Rightarrow> nat \<Rightarrow> nat" where
  "trim_nuls buf 0 = 0"
| "trim_nuls buf (Suc n) = (if 0 < n \<and> buf ! n = NUL then trim_nuls buf n else Suc n)"

text \<open>\<open>encode_utf8\<close>: one character, and a text into an array of \<open>len\<close> bytes.\<close>

definition encode_char :: "nat \<Rightarrow> byte list option" where
  "encode_char c =
     (if c \<le> 0x7f then Some [of_nat c]
      else if c \<le> 0x7ff then Some [of_nat (drop_bit 6 c + 0xc0), of_nat ((c AND 0x3f) + 0x80)]
      else if c \<le> 0xffff then
        Some [of_nat (drop_bit 12 c + 0xe0), of_nat ((drop_bit 6 c AND 0x3f) + 0x80), of_nat ((c AND 0x3f) + 0x80)]
      else if c \<le> 0x1fffff then
        Some [of_nat (drop_bit 18 c + 0xf0), of_nat ((drop_bit 12 c AND 0x3f) + 0x80),
              of_nat ((drop_bit 6 c AND 0x3f) + 0x80), of_nat ((c AND 0x3f) + 0x80)]
      else if c \<le> 0x3ffffff then
        Some [of_nat (drop_bit 24 c + 0xf8), of_nat ((drop_bit 18 c AND 0x3f) + 0x80),
              of_nat ((drop_bit 12 c AND 0x3f) + 0x80), of_nat ((drop_bit 6 c AND 0x3f) + 0x80),
              of_nat ((c AND 0x3f) + 0x80)]
      else if c \<le> 0x7fffffff then
        Some [of_nat (drop_bit 30 c + 0xfc), of_nat ((drop_bit 24 c AND 0x3f) + 0x80),
              of_nat ((drop_bit 18 c AND 0x3f) + 0x80), of_nat ((drop_bit 12 c AND 0x3f) + 0x80),
              of_nat ((drop_bit 6 c AND 0x3f) + 0x80), of_nat ((c AND 0x3f) + 0x80)]
      else None)"

fun encode_utf8 :: "nat \<Rightarrow> nat list \<Rightarrow> byte list option" where
  "encode_utf8 len [] = Some []"
| "encode_utf8 len (c # cs) =
     (case encode_char c of
        None \<Rightarrow> None
      | Some bs \<Rightarrow> if len < length bs then None else map_option ((@) bs) (encode_utf8 (len - length bs) cs))"

text \<open>The counters of the loop over the characters. \<open>(size_t)-1 + MAXLINELEN\<close> wraps around.\<close>

record text_stats =
  has_escapes :: bool
  has_backspace :: bool
  seen_cr :: bool
  n_crlf :: nat
  n_lf :: nat
  n_cr :: nat
  n_nel :: nat
  last_line_end :: nat
  has_long_lines :: bool

definition no_stats :: text_stats where
  "no_stats = \<lparr>has_escapes = False, has_backspace = False, seen_cr = False, n_crlf = 0, n_lf = 0, n_cr = 0,
     n_nel = 0, last_line_end = 2 ^ 64 - 1, has_long_lines = False\<rparr>"

text \<open>The carriage return is written \<open>'r'\<close> in the code: the letter.\<close>

definition scan_char :: "nat \<Rightarrow> nat \<Rightarrow> text_stats \<Rightarrow> text_stats" where
  "scan_char i c st =
     (let st = (if c = 10 then (if seen_cr st then st\<lparr>n_crlf := n_crlf st + 1\<rparr> else st\<lparr>n_lf := n_lf st + 1\<rparr>)\<lparr>last_line_end := i\<rparr>
                else if seen_cr st then st\<lparr>n_cr := n_cr st + 1\<rparr> else st);
          st = st\<lparr>seen_cr := c = 114\<rparr>;
          st = (if seen_cr st then st\<lparr>last_line_end := i\<rparr> else st);
          st = (if c = 0x85 then st\<lparr>n_nel := n_nel st + 1, last_line_end := i\<rparr> else st);
          st = (if (last_line_end st + MAXLINELEN) mod 2 ^ 64 < i then st\<lparr>has_long_lines := True\<rparr> else st);
          st = (if c = 27 then st\<lparr>has_escapes := True\<rparr> else st)
      in if c = 8 then st\<lparr>has_backspace := True\<rparr> else st)"

fun scan_text :: "nat \<Rightarrow> nat list \<Rightarrow> text_stats \<Rightarrow> text_stats" where
  "scan_text i [] st = st"
| "scan_text i (c # cs) st = scan_text (i + 1) cs (scan_char i c st)"

text \<open>What is printed about the line ends.\<close>

definition line_ends :: "text_stats \<Rightarrow> string list" where
  "line_ends st =
     (let none = (n_crlf st = 0 \<and> n_cr st = 0 \<and> n_nel st = 0 \<and> n_lf st = 0) in
      if none \<or> n_crlf st \<noteq> 0 \<or> n_cr st \<noteq> 0 \<or> n_nel st \<noteq> 0 then
        ['', with''] @
        (if none then ['' no'']
         else (if n_crlf st \<noteq> 0 then '' CRLF'' # (if n_cr st \<noteq> 0 \<or> n_lf st \<noteq> 0 \<or> n_nel st \<noteq> 0 then ['','' ] else []) else []) @
              (if n_cr st \<noteq> 0 then '' CR'' # (if n_lf st \<noteq> 0 \<or> n_nel st \<noteq> 0 then ['','' ] else []) else []) @
              (if n_lf st \<noteq> 0 then '' LF'' # (if n_nel st \<noteq> 0 then ['','' ] else []) else []) @
              (if n_nel st \<noteq> 0 then ['' NEL''] else [])) @
        ['' line terminators'']
      else [])"

definition text_details :: "text_stats \<Rightarrow> string list" where
  "text_details st =
     (if has_long_lines st then ['', with very long lines''] else []) @ line_ends st @
     (if has_escapes st then ['', with escape suquences''] else []) @
     (if has_backspace st then ['', with overstriking''] else [])"

text \<open>
  Joining to what an earlier test has printed. The \<open>break\<close> after \<open>executable = 1\<close> and the end of
  the inner \<open>switch\<close> both reach \<open>case -1: goto done\<close>, so the text goes on only if the first
  pattern was replaced.
\<close>

definition join_output :: "tools \<Rightarrow> magic_set \<Rightarrow> (bool, magic_set) outcome option" where
  "join_output T ms =
     (if file_printedlen ms = 0 then Some (Ret True ms)
      else rbind (file_replace T (bytes '' text'') (bytes '', '') ms) (\<lambda>r ms.
        if r = 0 then
          rbind (file_replace T (bytes '' text executables'') (bytes '', '') ms) (\<lambda>r ms.
            if r = 0 then Some (obind (file_printf (base_env T) (bytes '', '') [] ms) (\<lambda>_ ms. Ret False ms))
            else Some (Ret False ms))
        else Some (Ret (r \<noteq> - 1) ms)))"

text \<open>The report on a text; \<open>r0\<close> is the result when something fails.\<close>

definition report_text ::
    "tools \<Rightarrow> string option \<Rightarrow> string \<Rightarrow> text_stats \<Rightarrow> int \<Rightarrow> magic_set \<Rightarrow> (int, magic_set) outcome option" where
  "report_text T cd ty st r0 ms =
     (if MAGIC_MIME (ms_flags ms) then
        Some (if file_printedlen ms = 0 \<and> MAGIC_MIME_TYPE (ms_flags ms)
              then obind (file_printf (base_env T) (bytes ''text/plain'') [] ms) (\<lambda>r ms. Ret (if r = - 1 then r0 else 1) ms)
              else Ret 1 ms)
      else rbind (join_output T ms) (\<lambda>go ms.
        if \<not> go then Some (Ret r0 ms)
        else case cd of
          None \<Rightarrow> Some (Fault ms)
        | Some cd \<Rightarrow>
            Some (obind (print_all (base_env T)
                ([(bytes ''%s'', [Arg_str (bytes cd)]), (bytes '' %s'', [Arg_str (bytes ty)])] @
                 map (\<lambda>t. (bytes t, [])) (text_details st)) ms) (\<lambda>r ms. Ret (if r = - 1 then r0 else 1) ms))))"

text \<open>
  \<open>file_ascmagic_with_encoding\<close>. Without \<open>ubuf\<close> (an allocation has failed) \<open>ulen\<close> has no value.
\<close>

definition file_ascmagic_with_encoding ::
    "tools \<Rightarrow> byte list \<Rightarrow> nat \<Rightarrow> nat list option \<Rightarrow> string option \<Rightarrow> string \<Rightarrow> bool \<Rightarrow> magic_set \<Rightarrow>
     (int, magic_set) outcome option" where
  "file_ascmagic_with_encoding T buf nbytes chars cd ty txt ms =
     (if MAGIC_APPLE (ms_flags ms) then Some (Ret 0 ms)
      else let nbytes = trim_nuls buf nbytes in
      if nbytes \<le> 1 then Some (Ret 0 ms)
      else case chars of
        None \<Rightarrow> Some (Fault ms)
      | Some u \<Rightarrow>
          let mlen = length u * 6;
              goes_on = (\<lambda>r0 ms.
                let st = scan_text 0 u no_stats;
                    st = (if seen_cr st \<and> nbytes < HOWMANY then st\<lparr>n_cr := n_cr st + 1\<rparr> else st) in
                if ty = ''binary'' then Some (Ret 0 ms) else report_text T cd ty st r0 ms) in
          if u \<noteq> [] \<and> \<not> MAGIC_NO_CHECK_SOFT (ms_flags ms) then
            (if \<not> alloc_ok T mlen then Some (obind (file_oomem (base_env T) mlen ms) (\<lambda>_ ms. Ret (- 1) ms))
             else case encode_utf8 mlen u of
               None \<Rightarrow> Some (Ret (- 1) ms)
             | Some utf8_buf \<Rightarrow>
                 rbind (file_softmagic (base_env T) (depth T) utf8_buf (length utf8_buf) TEXTTEST txt ms) (\<lambda>r ms.
                   goes_on (if r = 0 then - 1 else r) ms))
          else goes_on (- 1) ms)"

text \<open>
  The call of \<open>file_encoding\<close>, which reports failing allocations; a \<open>unichar\<close> has 8 bytes.
\<close>

definition call_encoding :: "tools \<Rightarrow> byte list \<Rightarrow> magic_set \<Rightarrow> (encoding, magic_set) outcome" where
  "call_encoding T buf ms =
     (let n = length buf + 1 in
      if \<not> alloc_ok T n then
        obind (file_oomem (base_env T) n ms) (\<lambda>_ ms. Ret (file_encoding False False buf) ms)
      else if \<not> alloc_ok T (n * 8) then
        obind (file_oomem (base_env T) (n * 8) ms) (\<lambda>_ ms. Ret (file_encoding True False buf) ms)
      else Ret (file_encoding True True buf) ms)"

definition file_ascmagic :: "tools \<Rightarrow> byte list \<Rightarrow> nat \<Rightarrow> bool \<Rightarrow> magic_set \<Rightarrow> (int, magic_set) outcome option" where
  "file_ascmagic T buf nbytes txt ms =
     (if MAGIC_APPLE (ms_flags ms) then Some (Ret 0 ms)
      else let nbytes = trim_nuls buf nbytes in
      rbind (Some (call_encoding T (take nbytes buf) ms)) (\<lambda>e ms.
        if rv e = 0 then Some (Ret 0 ms)
        else file_ascmagic_with_encoding T buf nbytes (ubuf e) (code e) (type_text e) txt ms))"

end
