(* ===== verification/FileDriver.thy ===== *)
theory FileDriver
  imports FileText
begin

unbundle bit_operations_syntax

text \<open>
  How \<open>file\<close> comes to its answer about one file: \<open>file_fsmagic\<close> (\<open>file/fsmagic.c\<close>) looks at its
  inode, \<open>file_or_fd\<close> (\<open>file/magic.c\<close>) reads its first bytes, \<open>file_buffer\<close> (\<open>file/funcs.c\<close>) tries one
  test after the other on them, \<open>file_getbuffer\<close> hands out what they have printed. The file
  system is the record \<open>files\<close>. Closing the file and restoring its times are left out.
\<close>

section \<open>The file system\<close>

text \<open>A system call yields its value or an error number.\<close>

record inode =
  st_mode :: nat
  st_size :: int

datatype read_result = Bytes "byte list" | Interrupted | Read_error int

record files =
  stat_of :: "byte list \<Rightarrow> int + inode"
  lstat_of :: "byte list \<Rightarrow> int + inode"
  readlink_of :: "byte list \<Rightarrow> int + byte list"
  fstat_of :: "int \<Rightarrow> int + inode"
  writable :: "byte list \<Rightarrow> bool"
  executable :: "byte list \<Rightarrow> bool"
  open_file :: "byte list \<Rightarrow> int"
  read_file :: "int \<Rightarrow> int + byte list"
  read_pipe :: "int \<Rightarrow> read_result list"
  pipe_buf :: nat

definition S_IFMT :: "nat \<Rightarrow> nat" where "S_IFMT m = m AND 0xF000"

abbreviation (input) S_IFSOCK :: nat where "S_IFSOCK \<equiv> 0xC000"
abbreviation (input) S_IFLNK :: nat where "S_IFLNK \<equiv> 0xA000"
abbreviation (input) S_IFREG :: nat where "S_IFREG \<equiv> 0x8000"
abbreviation (input) S_IFBLK :: nat where "S_IFBLK \<equiv> 0x6000"
abbreviation (input) S_IFDIR :: nat where "S_IFDIR \<equiv> 0x4000"
abbreviation (input) S_IFCHR :: nat where "S_IFCHR \<equiv> 0x2000"
abbreviation (input) S_IFIFO :: nat where "S_IFIFO \<equiv> 0x1000"

abbreviation MAGIC_SYMLINK :: "int \<Rightarrow> bool" where "MAGIC_SYMLINK flags \<equiv> bit flags 1"
abbreviation MAGIC_DEVICES :: "int \<Rightarrow> bool" where "MAGIC_DEVICES flags \<equiv> bit flags 3"
abbreviation MAGIC_ERROR :: "int \<Rightarrow> bool" where "MAGIC_ERROR flags \<equiv> bit flags 9"
abbreviation MAGIC_NO_CHECK_COMPRESS :: "int \<Rightarrow> bool" where "MAGIC_NO_CHECK_COMPRESS flags \<equiv> bit flags 12"
abbreviation MAGIC_NO_CHECK_TAR :: "int \<Rightarrow> bool" where "MAGIC_NO_CHECK_TAR flags \<equiv> bit flags 13"
abbreviation MAGIC_NO_CHECK_ELF :: "int \<Rightarrow> bool" where "MAGIC_NO_CHECK_ELF flags \<equiv> bit flags 16"
abbreviation MAGIC_NO_CHECK_TEXT :: "int \<Rightarrow> bool" where "MAGIC_NO_CHECK_TEXT flags \<equiv> bit flags 17"
abbreviation MAGIC_NO_CHECK_CDF :: "int \<Rightarrow> bool" where "MAGIC_NO_CHECK_CDF flags \<equiv> bit flags 18"
abbreviation MAGIC_NO_CHECK_ENCODING :: "int \<Rightarrow> bool" where "MAGIC_NO_CHECK_ENCODING flags \<equiv> bit flags 21"

section \<open>\<open>fsmagic.c\<close>\<close>

text \<open>\<open>if(file_printf(...) == -1) return -1;\<close>, and the result otherwise.\<close>

definition printed :: "environ \<Rightarrow> string \<Rightarrow> printf_arg list \<Rightarrow> int \<Rightarrow> magic_set \<Rightarrow> (int, magic_set) outcome" where
  "printed env f va r ms = obind (file_printf env (bytes f) va ms) (\<lambda>c ms. Ret (if c = - 1 then - 1 else r) ms)"

definition bad_link :: "environ \<Rightarrow> int \<Rightarrow> byte list \<Rightarrow> magic_set \<Rightarrow> (int, magic_set) outcome" where
  "bad_link env err buf ms =
     (if MAGIC_MIME_TYPE (ms_flags ms) then printed env ''inode/symlink'' [] 1 ms
      else if \<not> MAGIC_MIME (ms_flags ms) then
        if MAGIC_ERROR (ms_flags ms) then
          obind (file_error env err (bytes ''broken symoblic link to `%s'' @ [39]) [Arg_str buf] ms) (\<lambda>_ ms. Ret (- 1) ms)
        else obind (file_printf env (bytes ''broken symbolic link to `%s'' @ [39]) [Arg_str buf] ms) (\<lambda>c ms.
          Ret (if c = - 1 then - 1 else 1) ms)
      else Ret 1 ms)"

definition handle_mime :: "environ \<Rightarrow> string \<Rightarrow> magic_set \<Rightarrow> (int, magic_set) outcome" where
  "handle_mime env str ms =
     print_all env
       ((if MAGIC_MIME_TYPE (ms_flags ms)
         then (bytes ''inode/%s'', [Arg_str (bytes str)]) #
              (if MAGIC_MIME_ENCODING (ms_flags ms) then [(bytes ''; charset='', [])] else [])
         else []) @
        (if MAGIC_MIME_ENCODING (ms_flags ms) then [(bytes ''binary'', [])] else [])) ms"

text \<open>\<open>COMMA\<close>: a comma in front of all but the first text; \<open>did\<close> counts them.\<close>

definition COMMA :: "nat \<Rightarrow> printf_arg" where
  "COMMA did = Arg_str (if did = 0 then [] else bytes '', '')"

definition mode_bits_text :: "inode \<Rightarrow> (byte list \<times> printf_arg list) list" where
  "mode_bits_text sb =
     (let uid = bit (st_mode sb) 11; gid = bit (st_mode sb) 10; sticky = bit (st_mode sb) 9 in
      (if uid then [(bytes ''%ssetuid'', [COMMA 0])] else []) @
      (if gid then [(bytes ''%ssetgid'', [COMMA (of_bool uid)])] else []) @
      (if sticky then [(bytes ''%ssticky'', [COMMA (of_bool uid + of_bool gid)])] else []))"

text \<open>
  A kind of file that is not read: its name for MIME, or its text. \<open>Inr did\<close> is \<open>break\<close>, \<open>Inl r\<close>
  a return.
\<close>

type_synonym fs_result = "(int + nat, magic_set) outcome"

definition fs_kind :: "environ \<Rightarrow> string \<Rightarrow> byte list \<Rightarrow> printf_arg list \<Rightarrow> nat \<Rightarrow> magic_set \<Rightarrow> fs_result" where
  "fs_kind env mime_name txt va did ms =
     (if MAGIC_MIME (ms_flags ms)
      then obind (handle_mime env mime_name ms) (\<lambda>r ms. Ret (if r = - 1 then Inl (- 1) else Inr did) ms)
      else obind (file_printf env txt (COMMA did # va) ms) (\<lambda>r ms.
        Ret (if r = - 1 then Inl (- 1) else Inr (did + 1)) ms))"

abbreviation (input) BUFSIZ :: nat where "BUFSIZ \<equiv> 8192"

text \<open>
  The name to which a relative link leads: the directory part of \<open>fn\<close> and the link, both cut
  to the array. \<open>None\<close> when the directory is too long.
\<close>

definition link_path :: "byte list \<Rightarrow> byte list \<Rightarrow> byte list option" where
  "link_path fn buf =
     (if 47 \<notin> set fn then Some buf
      else let dir = rev (dropWhile (\<lambda>c. c \<noteq> 47) (rev fn)) in
      if BUFSIZ < length dir then None
      else Some (dir @ take (2 * BUFSIZ + 4 - 1 - length dir) buf))"

text \<open>
  The link itself, when it is not broken. With \<open>MAGIC_SYMLINK\<close> the file it leads to is looked at
  with no other flag set, and \<open>MAGIC_SYMLINK\<close> is set afterwards.
\<close>

definition fs_link_target ::
    "environ \<Rightarrow> (byte list \<Rightarrow> magic_set \<Rightarrow> (byte list option, magic_set) outcome option) \<Rightarrow> byte list \<Rightarrow> nat \<Rightarrow> magic_set \<Rightarrow>
     (int + nat, magic_set) outcome option" where
  "fs_link_target env call buf did ms =
     (if MAGIC_SYMLINK (ms_flags ms) then
        rbind (call buf (ms\<lparr>ms_flags := ms_flags ms AND 2\<rparr>)) (\<lambda>p ms.
          Some (Ret (if p = None then Inl (- 1) else Inr did) (ms\<lparr>ms_flags := ms_flags ms OR 2\<rparr>)))
      else Some (fs_kind env ''symlink'' (bytes ''%ssymbolic link to `%s'' @ [39]) [Arg_str buf] did ms))"

definition fs_link ::
    "environ \<Rightarrow> files \<Rightarrow> (byte list \<Rightarrow> magic_set \<Rightarrow> (byte list option, magic_set) outcome option) \<Rightarrow> byte list \<Rightarrow> nat \<Rightarrow>
     magic_set \<Rightarrow> (int + nat, magic_set) outcome option" where
  "fs_link env w call fn did ms =
     (case readlink_of w fn of
        Inl e \<Rightarrow>
          if MAGIC_ERROR (ms_flags ms) then
            Some (obind (file_error env e (bytes ''unreadable symlink `%s'' @ [39]) [Arg_str fn] ms) (\<lambda>_ ms. Ret (Inl (- 1)) ms))
          else Some (fs_kind env ''symlink'' (bytes ''%unreadable synmlink `%s'' @ [39] @ bytes '' (%s)'')
                 [Arg_str fn, Arg_str (strerror env e)] did ms)
      | Inr target \<Rightarrow>
          let buf = take (BUFSIZ - 1) target;
              broken = (\<lambda>name. case stat_of w name of
                 Inl e \<Rightarrow> Some (obind (bad_link env e buf ms) (\<lambda>r ms. Ret (Inl r) ms))
               | Inr _ \<Rightarrow> fs_link_target env call buf did ms)
          in if buf \<noteq> [] \<and> hd buf = 47 then broken buf
             else case link_path fn buf of
               None \<Rightarrow>
                 if MAGIC_ERROR (ms_flags ms) then
                   Some (obind (file_error env 0 (bytes ''path too long: `%s'' @ [39]) [Arg_str buf] ms) (\<lambda>_ ms. Ret (Inl (- 1)) ms))
                 else Some (fs_kind env ''x-path-too-long'' (bytes ''%spath too long: `%s'' @ [39]) [Arg_str fn] did ms)
             | Some name \<Rightarrow> broken name)"

text \<open>
  The switch over the kind of file. A regular file that is not empty, or any device with
  \<open>MAGIC_DEVICES\<close>, is left to the later tests; for a device the result stays \<open>-1\<close>, which is an
  error. \<open>Inr (ret, did)\<close> is what the code behind the switch sees.
\<close>

definition fs_switch ::
    "environ \<Rightarrow> files \<Rightarrow> (byte list \<Rightarrow> magic_set \<Rightarrow> (byte list option, magic_set) outcome option) \<Rightarrow> byte list \<Rightarrow> inode \<Rightarrow>
     nat \<Rightarrow> magic_set \<Rightarrow> (int + int \<times> nat, magic_set) outcome option" where
  "fs_switch env w call fn sb did ms =
     (let k = S_IFMT (st_mode sb);
          failed = (\<lambda>x. case x of Inl e \<Rightarrow> Inl e | Inr did \<Rightarrow> Inr (- 1, did));
          kind = (\<lambda>mime txt. Some (obind (fs_kind env mime (bytes txt) [] did ms) (\<lambda>x ms. Ret (failed x) ms)));
          device = (\<lambda>mime txt. if MAGIC_DEVICES (ms_flags ms) then Some (Ret (Inr (- 1, did)) ms) else kind mime txt)
      in if k = S_IFDIR then kind ''directory'' ''%sdirectory''
         else if k = S_IFCHR then device ''chardevice'' ''%scharacter special''
         else if k = S_IFBLK then device ''blockdevice'' ''%sblock special''
         else if k = S_IFIFO then device ''fifo'' ''%sfifo (named pipe)''
         else if k = S_IFLNK then
           rbind (fs_link env w call fn did ms) (\<lambda>x ms. Some (Ret (failed x) ms))
         else if k = S_IFSOCK then kind ''socket'' ''%ssocket''
         else if k = S_IFREG then
           (if \<not> MAGIC_DEVICES (ms_flags ms) \<and> st_size sb = 0 then kind ''x-emtpy'' ''%sempty''
            else Some (Ret (Inr (0, did)) ms))
         else Some (obind (file_error env 0 (bytes ''invalid mode 0%o'') [Arg_int (of_nat (st_mode sb))] ms)
                (\<lambda>_ ms. Ret (Inl (- 1)) ms)))"

text \<open>\<open>file_fsmagic\<close>: its result and the inode, if it has read one.\<close>

definition file_fsmagic ::
    "environ \<Rightarrow> files \<Rightarrow> (byte list \<Rightarrow> magic_set \<Rightarrow> (byte list option, magic_set) outcome option) \<Rightarrow> byte list option \<Rightarrow>
     magic_set \<Rightarrow> (int \<times> inode option, magic_set) outcome option" where
  "file_fsmagic env w call fn ms =
     (if MAGIC_APPLE (ms_flags ms) then Some (Ret (0, None) ms)
      else let mime = MAGIC_MIME (ms_flags ms) in
      case fn of
        None \<Rightarrow> Some (Ret (0, None) ms)
      | Some fn \<Rightarrow>
          (case (if MAGIC_SYMLINK (ms_flags ms) then stat_of w fn else lstat_of w fn) of
             Inl e \<Rightarrow>
               if MAGIC_ERROR (ms_flags ms) then
                 Some (obind (file_error env e (bytes ''cannot stat `%s'' @ [39]) [Arg_str fn] ms) (\<lambda>_ ms. Ret (- 1, None) ms))
               else Some (obind (file_printf env (bytes ''cannot open `%s'' @ [39] @ bytes '' (%s)'')
                      [Arg_str fn, Arg_str (strerror env e)] ms) (\<lambda>r ms.
                 Ret (- 1, None) (if r = - 1 then ms else ms\<lparr>had_err := True\<rparr>)))
           | Inr sb \<Rightarrow>
               let txt = (if mime then [] else mode_bits_text sb) in
               rbind (Some (print_all env txt ms)) (\<lambda>r ms.
               if r = - 1 then Some (Ret (- 1, Some sb) ms)
               else rbind (fs_switch env w call fn sb (length txt) ms) (\<lambda>x ms.
                 case x of
                   Inl e \<Rightarrow> Some (Ret (e, Some sb) ms)
                 | Inr (ret, did) \<Rightarrow>
                     if \<not> mime \<and> did \<noteq> 0 then
                       Some (obind (file_printf env (bytes '' '') [] ms) (\<lambda>r ms.
                         Ret (if r = - 1 then - 1 else ret, Some sb) ms))
                     else Some (Ret (ret, Some sb) ms)))))"

section \<open>\<open>file_buffer\<close>\<close>

text \<open>The tests for which the program has names other than the encoding's are run in turn.\<close>

definition print_charset :: "environ \<Rightarrow> string \<Rightarrow> int \<Rightarrow> int \<Rightarrow> magic_set \<Rightarrow> (int, magic_set) outcome" where
  "print_charset env mime_code r m ms =
     obind (if MAGIC_MIME_ENCODING (ms_flags ms) \<and> MAGIC_MIME_TYPE (ms_flags ms)
            then file_printf env (bytes ''; charset='') [] ms else Ret 0 ms) (\<lambda>c ms.
     obind (if MAGIC_MIME_ENCODING (ms_flags ms)
            then file_printf env (bytes ''%s'') [Arg_str (bytes mime_code)] ms else Ret 0 ms) (\<lambda>d ms.
     let r = (if c = - 1 \<or> d = - 1 then - 1 else r) in Ret (if r \<noteq> 0 then r else m) ms))"

definition soft_test ::
    "tools \<Rightarrow> int \<Rightarrow> byte list \<Rightarrow> nat \<Rightarrow> bool \<Rightarrow> magic_set \<Rightarrow> (int option, magic_set) outcome option" where
  "soft_test T fd buf nb looks_text ms =
     (if MAGIC_NO_CHECK_SOFT (ms_flags ms) then Some (Ret None ms)
      else rbind (file_softmagic (base_env T) (depth T) buf nb BINTEST looks_text ms) (\<lambda>m ms.
        if m = 0 then Some (Ret None ms)
        else if \<not> MAGIC_NO_CHECK_ELF (ms_flags ms) \<and> m = 1 \<and> 5 < nb \<and> fd \<noteq> - 1
        then Some (obind (file_tryelf T buf nb ms) (\<lambda>m ms. Ret (Some m) ms))
        else Some (Ret (Some m) ms)))"

definition text_test ::
    "tools \<Rightarrow> byte list \<Rightarrow> nat \<Rightarrow> bool \<Rightarrow> encoding option \<Rightarrow> magic_set \<Rightarrow> (int option, magic_set) outcome option" where
  "text_test T buf nb looks_text e ms =
     (if MAGIC_NO_CHECK_TEXT (ms_flags ms) then Some (Ret None ms)
      else rbind (file_ascmagic T buf nb looks_text ms) (\<lambda>m ms.
        if m \<noteq> 0 then Some (Ret (Some m) ms)
        else case e of
          None \<Rightarrow> Some (Ret None ms)
        | Some e \<Rightarrow>
            if looks_text then Some (Ret None ms)
            else rbind (file_ascmagic_with_encoding T buf nb (ubuf e) (code e) (type_text e) looks_text ms) (\<lambda>m ms.
              Some (Ret (if m \<noteq> 0 then Some m else None) ms))))"

text \<open>A test that is switched off, or whose result is 0, hands over to the next.\<close>

definition one_test :: "bool \<Rightarrow> (magic_set \<Rightarrow> (int, magic_set) outcome) \<Rightarrow> magic_set \<Rightarrow> (int option, magic_set) outcome option" where
  "one_test off f ms =
     (if off then Some (Ret None ms) else Some (obind (f ms) (\<lambda>m ms. Ret (if m \<noteq> 0 then Some m else None) ms)))"

fun first_test ::
    "(magic_set \<Rightarrow> (int option, magic_set) outcome option) list \<Rightarrow> magic_set \<Rightarrow> (int option, magic_set) outcome option" where
  "first_test [] ms = Some (Ret None ms)"
| "first_test (f # fs) ms =
     rbind (f ms) (\<lambda>m ms. case m of None \<Rightarrow> first_test fs ms | Some m \<Rightarrow> Some (Ret (Some m) ms))"

definition file_buffer :: "tools \<Rightarrow> int \<Rightarrow> byte list \<Rightarrow> nat \<Rightarrow> magic_set \<Rightarrow> (int, magic_set) outcome option" where
  "file_buffer T fd buf nb ms =
     (let env = base_env T; mime = MAGIC_MIME (ms_flags ms);
          says_type = (\<not> mime \<or> MAGIC_MIME_TYPE (ms_flags ms)) in
      if nb = 0 then
        Some (obind (if says_type then file_printf env (bytes (if mime then ''application/x-empty'' else ''empty'')) [] ms
                     else Ret 0 ms) (\<lambda>_ ms. Ret (- 1) ms))
      else if nb = 1 then
        Some (obind (if says_type
                     then file_printf env (bytes (if mime then ''application/octet-stream'' else ''very short file (no magic)'')) [] ms
                     else Ret 0 ms) (\<lambda>_ ms. Ret (- 1) ms))
      else
        rbind (Some (if MAGIC_NO_CHECK_ENCODING (ms_flags ms) then Ret None ms
                     else obind (call_encoding T (take nb buf) ms) (\<lambda>e ms. Ret (Some e) ms))) (\<lambda>e ms.
        let looks_text = (case e of None \<Rightarrow> False | Some e \<Rightarrow> rv e \<noteq> 0);
            mime_code = (case e of None \<Rightarrow> ''binary'' | Some e \<Rightarrow> (case code_mime e of None \<Rightarrow> ''binary'' | Some c \<Rightarrow> c))
        in rbind (first_test
            [\<lambda>ms. one_test (MAGIC_NO_CHECK_COMPRESS (ms_flags ms)) (file_zmagic T buf nb) ms,
             \<lambda>ms. one_test (MAGIC_NO_CHECK_TAR (ms_flags ms)) (file_is_tar T buf nb) ms,
             \<lambda>ms. one_test (MAGIC_NO_CHECK_CDF (ms_flags ms)) (file_trycdf T buf nb) ms,
             soft_test T fd buf nb looks_text,
             text_test T buf nb looks_text e] ms) (\<lambda>m ms.
           case m of
             Some m \<Rightarrow> Some (print_charset env mime_code 0 m ms)
           | None \<Rightarrow>
               Some (obind (if says_type
                       then file_printf env (bytes (if mime then ''application/octet-stream'' else ''data'')) [] ms
                       else Ret 0 ms) (\<lambda>r ms. print_charset env mime_code (if r = - 1 then - 1 else 0) 1 ms)))))"

section \<open>\<open>magic.c\<close>\<close>

definition unreadable_info :: "environ \<Rightarrow> files \<Rightarrow> nat \<Rightarrow> byte list \<Rightarrow> magic_set \<Rightarrow> (int, magic_set) outcome" where
  "unreadable_info env w md file ms =
     print_all env
       ((if writable w file then [(bytes ''writable, '', [])] else []) @
        (if executable w file then [(bytes ''executable, '', [])] else []) @
        (if S_IFMT md = S_IFREG then [(bytes ''regular file, '', [])] else []) @
        [(bytes ''no read permission'', [])]) ms"

text \<open>
  \<open>sread\<close> of \<open>compress.c\<close>: \<open>read\<close> until \<open>n\<close> bytes have come; at the end of the results the pipe is
  at its end. \<open>None\<close> is \<open>-1\<close>.
\<close>

fun sread :: "nat \<Rightarrow> read_result list \<Rightarrow> byte list \<Rightarrow> byte list option \<times> read_result list" where
  "sread n [] got = (Some got, [])"
| "sread n (Interrupted # rs) got = (if 0 < n then sread n rs got else (Some got, rs))"
| "sread n (Read_error e # rs) got = (None, rs)"
| "sread n (Bytes bs # rs) got =
     (let k = min n (length bs); got = got @ take k bs in
      if k = 0 then (Some got, rs)
      else if n - k = 0 then (Some got, (if k < length bs then [Bytes (drop k bs)] else []) @ rs)
      else sread (n - k) rs got)"

text \<open>Reading a pipe, up to a read shorter than \<open>PIPE_BUF\<close>.\<close>

lemma sread_gets:
  "sread n rs got = (Some bs, rs') \<Longrightarrow> length got < length bs \<Longrightarrow> length bs - length got \<le> n"
  by (induction n rs got rule: sread.induct) (fastforce simp: Let_def split: if_splits)+

function read_all :: "files \<Rightarrow> nat \<Rightarrow> read_result list \<Rightarrow> byte list \<Rightarrow> byte list" where
  "read_all w n rs buf =
     (case sread n rs [] of
        (Some bs, rs) \<Rightarrow>
          if bs = [] then buf
          else if length bs < pipe_buf w then buf @ bs
          else read_all w (n - length bs) rs (buf @ bs)
      | (None, rs) \<Rightarrow> buf)"
  by pat_completeness auto
termination
  by (relation "measure (\<lambda>(w, n, rs, buf). n)")
     (auto dest!: sym [of "(_, _)" "sread _ _ _"] sread_gets simp: neq_Nil_conv)

text \<open>
  \<open>file_or_fd\<close> with the recursion of \<open>file_fsmagic\<close> as an argument; the inode that \<open>stat\<close> has not
  filled in has no value.
\<close>

definition SLOP :: nat where "SLOP = 1 + MAXstring"

definition answer :: "tools \<Rightarrow> bool \<Rightarrow> magic_set \<Rightarrow> (byte list option, magic_set) outcome" where
  "answer T ok ms = (if ok then file_getbuffer T ms else Ret None ms)"

definition unreadable :: "tools \<Rightarrow> files \<Rightarrow> inode option \<Rightarrow> byte list option \<Rightarrow> magic_set \<Rightarrow> (byte list option, magic_set) outcome" where
  "unreadable T w sb inname ms =
     (case (sb, inname) of
        (Some sb, Some name) \<Rightarrow> obind (unreadable_info (base_env T) w (st_mode sb) name ms) (\<lambda>r ms. answer T (r \<noteq> - 1) ms)
      | _ \<Rightarrow> Fault ms)"

definition read_and_test ::
    "tools \<Rightarrow> files \<Rightarrow> inode option \<Rightarrow> bool \<Rightarrow> int \<Rightarrow> byte list option \<Rightarrow> magic_set \<Rightarrow>
     (byte list option, magic_set) outcome option" where
  "read_and_test T w sb ispipe fd inname ms =
     (let test = (\<lambda>buf. rbind (file_buffer T fd (buf @ replicate SLOP NUL) (length buf) ms) (\<lambda>r ms.
            Some (answer T (r \<noteq> - 1) ms)))
      in if ispipe then
           (let buf = read_all w HOWMANY (read_pipe w fd) [] in
            if buf = [] then Some (unreadable T w sb inname ms) else test buf)
         else case read_file w fd of
           Inl e \<Rightarrow>
             Some (obind (file_error (base_env T) e (bytes ''cannot read `%s'' @ [39]) [Arg_str (case inname of None \<Rightarrow> bytes ''(null)'' | Some n \<Rightarrow> n)] ms)
               (\<lambda>_ ms. answer T False ms))
         | Inr buf \<Rightarrow> test (take HOWMANY buf))"

definition is_pipe :: "int + inode \<Rightarrow> bool" where
  "is_pipe r = (case r of Inl e \<Rightarrow> False | Inr sb \<Rightarrow> S_IFMT (st_mode sb) = S_IFIFO)"

definition filled :: "int + inode \<Rightarrow> inode option \<Rightarrow> inode option" where
  "filled r sb = (case r of Inl e \<Rightarrow> sb | Inr sb \<Rightarrow> Some sb)"

definition file_or_fd_with ::
    "tools \<Rightarrow> files \<Rightarrow> (byte list \<Rightarrow> magic_set \<Rightarrow> (byte list option, magic_set) outcome option) \<Rightarrow> byte list option \<Rightarrow> int \<Rightarrow>
     magic_set \<Rightarrow> (byte list option, magic_set) outcome option" where
  "file_or_fd_with T w call inname fd ms =
     (if \<not> alloc_ok T (HOWMANY + SLOP) then Some (Ret None ms)
      else rbind (Some (file_reset (base_env T) ms)) (\<lambda>r ms.
      if r = - 1 then Some (answer T False ms)
      else rbind (file_fsmagic (base_env T) w call inname ms) (\<lambda>(r, sb) ms.
      if r = - 1 then Some (answer T False ms)
      else if r \<noteq> 0 then Some (answer T True ms)
      else case inname of
        None \<Rightarrow> read_and_test T w (filled (fstat_of w fd) sb) (is_pipe (fstat_of w fd)) fd inname ms
      | Some name \<Rightarrow>
          let sb = filled (stat_of w name) sb; fd = open_file w name in
          if fd < 0 then Some (unreadable T w sb inname ms)
          else read_and_test T w sb (is_pipe (stat_of w name)) fd inname ms)))"

text \<open>\<open>magic_file\<close>, with \<open>n\<close> nested calls through symbolic links granted.\<close>

fun magic_file :: "tools \<Rightarrow> files \<Rightarrow> nat \<Rightarrow> byte list option \<Rightarrow> magic_set \<Rightarrow> (byte list option, magic_set) outcome option" where
  "magic_file T w 0 inname ms = file_or_fd_with T w (\<lambda>name ms. None) inname 0 ms"
| "magic_file T w (Suc n) inname ms =
     file_or_fd_with T w (\<lambda>name ms. magic_file T w n (Some name) ms) inname 0 ms"

definition magic_error :: "magic_set option \<Rightarrow> byte list option" where
  "magic_error ms =
     (case ms of
        None \<Rightarrow> Some (bytes ''Magic database is not open'')
      | Some ms \<Rightarrow> if had_err ms then o_buf ms else None)"

end
