(* ===== verification/FileFacts.thy ===== *)
theory FileFacts
  imports FileDriver MagicCalls EncodingProps
begin

unbundle bit_operations_syntax

text \<open>
  Lemmas on the tests of \<open>file\<close>: \<open>encode_utf8\<close> is the encoding that \<open>file_looks_utf8\<close> decodes, what
  the counters of \<open>ascmagic.c\<close> count, the checksum of \<open>is_tar\<close>, what is printed, and what no test
  changes.
\<close>

section \<open>UTF-8\<close>

lemma and_sextet: "n AND 0x3f = n mod 64" for n :: nat
  using take_bit_eq_mask [of 6 n] by (simp add: take_bit_eq_mod mask_eq_exp_minus_1)

lemma conts_upto:
  "conts (Suc 0) c = [of_nat (128 + c mod 64)]"
  "conts 2 c = of_nat (128 + c div 64 mod 64) # conts (Suc 0) c"
  "conts 3 c = of_nat (128 + c div 64 ^ 2 mod 64) # conts 2 c"
  "conts 4 c = of_nat (128 + c div 64 ^ 3 mod 64) # conts 3 c"
  "conts 5 c = of_nat (128 + c div 64 ^ 4 mod 64) # conts 4 c"
proof -
  show "conts (Suc 0) c = [of_nat (128 + c mod 64)]" by simp
  show "conts 2 c = of_nat (128 + c div 64 mod 64) # conts (Suc 0) c"
    unfolding numeral_2_eq_2 by simp
qed (use conts.simps(2) [of 2 c] conts.simps(2) [of 3 c] conts.simps(2) [of 4 c] in
  \<open>simp_all del: conts.simps of_nat_add\<close>)

lemma encode_char_is:
  assumes "c < 2 ^ 31"
  shows "encode_char c = Some (utf8_encode c)"
proof -
  have d: "drop_bit 6 c = c div 64" "drop_bit 12 c = c div 64 ^ 2" "drop_bit 18 c = c div 64 ^ 3"
    "drop_bit 24 c = c div 64 ^ 4" "drop_bit 30 c = c div 64 ^ 5" by (simp_all add: drop_bit_eq_div)
  note defs = encode_char_def utf8_encode_def extra_def d and_sextet
  consider "c < 0x80" | "0x80 \<le> c" "c < 0x800" | "0x800 \<le> c" "c < 0x10000" | "0x10000 \<le> c" "c < 0x200000" |
    "0x200000 \<le> c" "c < 0x4000000" | "0x4000000 \<le> c" "c < 0x80000000" using assms by (force simp: not_less)
  then show ?thesis
    by cases (simp_all add: defs marker_def conts_upto add.commute del: conts.simps of_nat_add)
qed

lemma length_utf8_encode: "length (utf8_encode c) \<le> 6"
  by (simp add: utf8_encode_def extra_def)

text \<open>Six bytes a character are always enough room.\<close>

lemma encode_utf8_text:
  "\<forall>c \<in> set cs. c < 2 ^ 31 \<Longrightarrow> 6 * length cs \<le> len \<Longrightarrow>
   encode_utf8 len cs = Some (concat (map utf8_encode cs))"
proof (induction cs arbitrary: len)
  case (Cons c cs)
  from Cons.prems have "6 * length cs \<le> len - length (utf8_encode c)" "\<not> len < length (utf8_encode c)"
    using length_utf8_encode [of c] by simp_all
  with Cons show ?case by (simp add: encode_char_is)
qed simp

section \<open>The counters of \<open>ascmagic.c\<close>\<close>

abbreviation stats :: "nat list \<Rightarrow> text_stats" where "stats u \<equiv> scan_text 0 u no_stats"

lemma scan_text_append: "scan_text i (xs @ ys) st = scan_text (i + length xs) ys (scan_text i xs st)"
  by (induction xs arbitrary: i st) simp_all

lemma stats_snoc: "stats (xs @ [c]) = scan_char (length xs) c (stats xs)"
  by (simp add: scan_text_append)

lemma scan_char_fields [simp]:
  "seen_cr (scan_char i c st) = (c = 114)"
  "n_crlf (scan_char i c st) = n_crlf st + of_bool (c = 10 \<and> seen_cr st)"
  "n_lf (scan_char i c st) = n_lf st + of_bool (c = 10 \<and> \<not> seen_cr st)"
  "n_cr (scan_char i c st) = n_cr st + of_bool (c \<noteq> 10 \<and> seen_cr st)"
  "n_nel (scan_char i c st) = n_nel st + of_bool (c = 0x85)"
  "has_escapes (scan_char i c st) = (c = 27 \<or> has_escapes st)"
  "has_backspace (scan_char i c st) = (c = 8 \<or> has_backspace st)"
  by (simp_all add: scan_char_def Let_def)

lemma scan_char_line [simp]:
  "last_line_end (scan_char i c st) = (if c \<in> {10, 114, 0x85} then i else last_line_end st)"
  by (simp add: scan_char_def Let_def)

lemma scan_char_long:
  "has_long_lines (scan_char i c st) \<longleftrightarrow>
   has_long_lines st \<or> (last_line_end (scan_char i c st) + 300) mod 2 ^ 64 < i"
  by (simp add: scan_char_def Let_def)

lemma zip_tl_snoc: "zip (xs @ [c]) (tl (xs @ [c])) = (if xs = [] then [] else zip xs (tl xs) @ [(last xs, c)])"
proof (induction xs)
  case (Cons x xs)
  then show ?case by (cases xs) simp_all
qed simp

lemma stats_seen: "seen_cr (stats u) \<longleftrightarrow> u \<noteq> [] \<and> last u = 114"
  by (induction u rule: rev_induct) (simp_all add: stats_snoc, simp add: no_stats_def)

text \<open>
  What is counted as a carriage return is the letter \<open>r\<close>: line feeds behind one, line feeds not
  behind one, and letters not in front of one.
\<close>

lemma stats_counts:
  "n_crlf (stats u) = count_list (zip u (tl u)) (114, 10)"
  "n_lf (stats u) + n_crlf (stats u) = count_list u 10"
  "n_cr (stats u) + n_crlf (stats u) + of_bool (seen_cr (stats u)) = count_list u 114"
  "n_nel (stats u) = count_list u 0x85"
  "has_escapes (stats u) \<longleftrightarrow> 27 \<in> set u" "has_backspace (stats u) \<longleftrightarrow> 8 \<in> set u"
proof (induction u rule: rev_induct)
  case Nil
  {
    case 1 show ?case by (simp add: no_stats_def)
  next
    case 2 show ?case by (simp add: no_stats_def)
  next
    case 3 show ?case by (simp add: no_stats_def)
  next
    case 4 show ?case by (simp add: no_stats_def)
  next
    case 5 show ?case by (simp add: no_stats_def)
  next
    case 6 show ?case by (simp add: no_stats_def)
  }
next
  case (snoc c u)
  {
    case 1 show ?case using snoc(1) stats_seen [of u] by (auto simp: stats_snoc zip_tl_snoc)
  next
    case 2 show ?case using snoc(2) by (simp add: stats_snoc)
  next
    case 3 show ?case using snoc(3) by (cases "seen_cr (stats u)") (auto simp: stats_snoc)
  next
    case 4 show ?case using snoc(4) by (simp add: stats_snoc)
  next
    case 5 show ?case using snoc(5) by (auto simp: stats_snoc)
  next
    case 6 show ?case using snoc(6) by (auto simp: stats_snoc)
  }
qed

text \<open>
  A line is long when it has more than 300 characters without a line end: a position with
  none among the 300 before it and itself.
\<close>

abbreviation line_enders :: "nat set" where "line_enders \<equiv> {10, 114, 0x85}"

definition long_line :: "nat list \<Rightarrow> bool" where
  "long_line u \<longleftrightarrow> (\<exists>i < length u. 300 \<le> i \<and> set (take 301 (drop (i - 300) u)) \<inter> line_enders = {})"

lemma long_line_snoc:
  "long_line (xs @ [c]) \<longleftrightarrow>
   long_line xs \<or> 300 \<le> length xs \<and> set (drop (length xs - 300) (xs @ [c])) \<inter> line_enders = {}"
proof -
  have "take 301 (drop (i - 300) (xs @ [c])) = take 301 (drop (i - 300) xs)" if "i < length xs" "300 \<le> i" for i
    using that by simp
  moreover have "take 301 (drop (length xs - 300) (xs @ [c])) = drop (length xs - 300) (xs @ [c])"
    if "300 \<le> length xs" using that by simp
  ultimately show ?thesis unfolding long_line_def by (auto simp: less_Suc_eq)
qed

definition last_end :: "nat list \<Rightarrow> nat \<Rightarrow> bool" where
  "last_end u l \<longleftrightarrow> (if set u \<inter> line_enders = {} then l = 2 ^ 64 - 1
     else l < length u \<and> u ! l \<in> line_enders \<and> set (drop (l + 1) u) \<inter> line_enders = {})"

lemma stats_last_end: "last_end u (last_line_end (stats u))"
proof (induction u rule: rev_induct)
  case Nil
  show ?case by (simp add: last_end_def no_stats_def)
next
  case (snoc c u)
  show ?case
  proof (cases "c \<in> line_enders")
    case True
    then show ?thesis by (auto simp: last_end_def stats_snoc)
  next
    case False
    with snoc show ?thesis by (auto simp: last_end_def stats_snoc nth_append)
  qed
qed

lemma last_end_window:
  assumes "last_end u l" "length u \<le> 2 ^ 63" "u \<noteq> []"
  shows "(l + 300) mod 2 ^ 64 < length u - 1 \<longleftrightarrow>
    300 \<le> length u - 1 \<and> set (drop (length u - 1 - 300) u) \<inter> line_enders = {}"
proof (cases "set u \<inter> line_enders = {}")
  case True
  with assms(1) have "(l + 300) mod 2 ^ 64 = 299" by (simp add: last_end_def)
  moreover have "set (drop (length u - 1 - 300) u) \<inter> line_enders = {}" using True set_drop_subset [of _ u] by blast
  ultimately show ?thesis by (metis Suc_le_eq Suc_numeral add_num_simps(5) semiring_norm(2,3,5,8) eval_nat_numeral(3))
next
  case False
  from assms(1) have "l < length u \<and> u ! l \<in> line_enders \<and> set (drop (l + 1) u) \<inter> line_enders = {}"
    unfolding last_end_def if_not_P [OF False] .
  then have l: "l < length u" "u ! l \<in> line_enders" "set (drop (l + 1) u) \<inter> line_enders = {}" by blast+
  then have m: "(l + 300) mod 2 ^ 64 = l + 300" using assms(2) by simp
  let ?k = "length u - 1 - 300"
  show ?thesis
  proof (cases "l < ?k")
    case True
    then have "set (drop ?k u) \<subseteq> set (drop (l + 1) u)" by (intro set_drop_subset_set_drop) simp
    with l(3) True m show ?thesis by auto
  next
    case nk: False
    have "u ! l \<in> set (drop ?k u)"
    proof (rule in_set_conv_nth [THEN iffD2], intro exI conjI)
      show "l - ?k < length (drop ?k u)" using nk l(1) by simp
      show "drop ?k u ! (l - ?k) = u ! l" using nk l(1) by simp
    qed
    with l(2) have "set (drop ?k u) \<inter> line_enders \<noteq> {}" by blast
    moreover have "\<not> (l + 300 < length u - 1)" using nk by simp
    ultimately show ?thesis using m by simp
  qed
qed

lemma stats_long: "length u \<le> 2 ^ 63 \<Longrightarrow> has_long_lines (stats u) \<longleftrightarrow> long_line u"
proof (induction u rule: rev_induct)
  case Nil
  show ?case by (simp add: no_stats_def long_line_def)
next
  case (snoc c u)
  have "last_end (u @ [c]) (last_line_end (scan_char (length u) c (stats u)))"
    using stats_last_end [of "u @ [c]"] by (simp add: stats_snoc)
  from last_end_window [OF this] snoc.prems have
    "(last_line_end (scan_char (length u) c (stats u)) + 300) mod 2 ^ 64 < length u \<longleftrightarrow>
      300 \<le> length u \<and> set (drop (length u - 300) (u @ [c])) \<inter> line_enders = {}" by simp
  with snoc show ?case by (simp add: stats_snoc scan_char_long long_line_snoc del: scan_char_line)
qed

section \<open>The checksum of \<open>is_tar\<close>\<close>

text \<open>The checksum a tar header should have: its bytes, with the field itself as blanks.\<close>

definition header_sum :: "byte list \<Rightarrow> int" where
  "header_sum buf = sum_list (map uint (take 148 buf)) + 32 * 8 + sum_list (map uint (take 356 (drop 156 buf)))"

lemma record_split:
  assumes "512 \<le> length buf"
  shows "take 512 buf = take 148 buf @ take 8 (drop 148 buf) @ take 356 (drop 156 buf)"
proof -
  have "take (148 + (8 + 356)) buf = take 148 buf @ take 8 (drop 148 buf) @ take 356 (drop 8 (drop 148 buf))"
    by (simp only: take_add)
  then show ?thesis by simp
qed

lemma zeros_from_oct: "n \<noteq> 0 \<Longrightarrow> from_oct n (replicate n NUL) = 0"
  by (cases n) (simp_all add: from_oct_def isspace_def isodigit_def)

lemma sum_uint_zero: "sum_list (map uint (xs :: byte list)) = 0 \<Longrightarrow> xs = replicate (length xs) 0"
proof (induction xs)
  case (Cons x xs)
  have "0 \<le> sum_list (map uint xs)" by (intro sum_list_nonneg) auto
  with Cons show ?case by (simp add: add_nonneg_eq_0_iff uint_0_iff)
qed simp

text \<open>
  The address of the checksum field is no count of its bytes: as a negative number the loop
  takes nothing out of the sum, as a large one it leaves the buffer.
\<close>

lemma is_tar_valid:
  assumes "512 \<le> nbytes" "nbytes \<le> length buf" "from_oct 8 (take 8 (drop 148 buf)) = header_sum buf"
    and "address \<le> 0 \<or> int (length buf) \<le> address"
  shows "is_tar address buf nbytes ms \<in> {Ret 0 ms, Fault ms}"
proof (cases "address \<le> 0")
  case True
  let ?chk = "take 8 (drop 148 buf)"
  have l: "512 \<le> length buf" using assms(1,2) by simp
  have s: "sum_list (map uint (take 512 buf)) + 32 * 8 = header_sum buf + sum_list (map uint ?chk)"
    unfolding record_split [OF l] header_sum_def by simp
  have "0 \<le> sum_list (map uint (take 148 buf))" "0 \<le> sum_list (map uint (take 356 (drop 156 buf)))"
    by (intro sum_list_nonneg; force)+
  then have p: "0 < header_sum buf" unfolding header_sum_def by linarith
  have "sum_list (map uint ?chk) \<noteq> 0"
  proof
    assume "sum_list (map uint ?chk) = 0"
    from sum_uint_zero [OF this] l have "?chk = replicate 8 NUL" by simp
    with assms(3) p zeros_from_oct [of 8] show False by simp
  qed
  with s assms(3) have "sum_list (map uint (take 512 buf)) + 32 * 8 \<noteq> from_oct 8 ?chk" by simp
  with True show ?thesis by (simp add: is_tar_def Let_def RECORDSIZE_def)
next
  case False
  with assms have "length buf \<le> nat address" "512 \<le> length buf" by auto
  then have "length (drop 148 buf) < nat address" by simp
  with assms(1) show ?thesis by (simp add: is_tar_def Let_def RECORDSIZE_def)
qed

end
