(* ===== verification/FileRuns.thy ===== *)
theory FileRuns
  imports FileFacts
begin

unbundle bit_operations_syntax

text \<open>
  Whole runs of \<open>file\<close>: what is printed when formatting works as the C standard says, the run
  over a text file, and what the tests leave alone.
\<close>

section \<open>Printing\<close>

text \<open>Formats without a conversion, and those that end in their only one, \<open>%s\<close>.\<close>

definition plain_printf :: "environ \<Rightarrow> bool" where
  "plain_printf env \<longleftrightarrow> (\<forall>b t. asprintf_ok env b t) \<and> (\<forall>f. 37 \<notin> set f \<longrightarrow> vasprintf env f [] = Some f) \<and>
     (\<forall>f t. 37 \<notin> set f \<longrightarrow> vasprintf env (f @ bytes ''%s'') [Arg_str t] = Some (f @ t))"

definition said :: "magic_set \<Rightarrow> byte list" where
  "said ms = (case o_buf ms of None \<Rightarrow> [] | Some b \<Rightarrow> b)"

lemma file_printf_shows:
  assumes "plain_printf env" "vasprintf env f va = Some t"
  shows "file_printf env f va ms = Ret 0 (ms\<lparr>o_buf := Some (said ms @ t)\<rparr>)"
  using assms by (auto simp: file_printf_def append_text_def said_def plain_printf_def split: option.splits)

lemma said_update [simp]: "said (ms\<lparr>o_buf := Some b\<rparr>) = b" "o_buf ms = None \<Longrightarrow> said ms = []"
  by (simp_all add: said_def)

definition shown :: "environ \<Rightarrow> byte list \<times> printf_arg list \<Rightarrow> byte list" where
  "shown env p = the (vasprintf env (fst p) (snd p))"

lemma print_all_shows:
  assumes "plain_printf env"
  shows "\<forall>p \<in> set ts. vasprintf env (fst p) (snd p) \<noteq> None \<Longrightarrow> ts \<noteq> [] \<Longrightarrow>
    print_all env ts ms = Ret 0 (ms\<lparr>o_buf := Some (said ms @ concat (map (shown env) ts))\<rparr>)"
proof (induction ts arbitrary: ms)
  case (Cons p ts)
  obtain f va where p: "p = (f, va)" by (cases p)
  with Cons.prems(1) obtain t where t: "vasprintf env f va = Some t" by auto
  show ?case
  proof (cases "ts = []")
    case True
    with p t file_printf_shows [OF assms t] show ?thesis by (simp add: shown_def)
  next
    case False
    with Cons.IH [of "ms\<lparr>o_buf := Some (said ms @ t)\<rparr>"] Cons.prems p t file_printf_shows [OF assms t]
    show ?thesis by (simp add: shown_def)
  qed
qed simp

lemma plain_text: "plain_printf env \<Longrightarrow> 37 \<notin> set f \<Longrightarrow> vasprintf env f [] = Some f"
  by (simp add: plain_printf_def)

lemma plain_string:
  assumes "plain_printf env"
  shows "vasprintf env (bytes ''%s'') [Arg_str t] = Some t" "vasprintf env (bytes '' %s'') [Arg_str t] = Some (32 # t)"
proof -
  have s: "\<And>f. 37 \<notin> set f \<Longrightarrow> vasprintf env (f @ bytes ''%s'') [Arg_str t] = Some (f @ t)"
    using assms by (simp add: plain_printf_def)
  show "vasprintf env (bytes ''%s'') [Arg_str t] = Some t" using s [of "[]"] by simp
  have "bytes '' %s'' = [32] @ bytes ''%s''" by code_simp
  then show "vasprintf env (bytes '' %s'') [Arg_str t] = Some (32 # t)" using s [of "[32]"] by simp
qed

lemma text_details_plain: "t \<in> set (text_details st) \<Longrightarrow> 37 \<notin> set (bytes t)"
proof -
  have d: "set (text_details st) \<subseteq> {'', with very long lines'', '', with'', '' no'', '' CRLF'', '' CR'', '' LF'', '' NEL'', '','',
      '' line terminators'', '', with escape suquences'', '', with overstriking''}"
    by (auto simp: text_details_def line_ends_def Let_def split: if_splits)
  have "list_all (\<lambda>t. 37 \<notin> set (bytes t)) ['', with very long lines'', '', with'', '' no'', '' CRLF'', '' CR'', '' LF'', '' NEL'', '','',
      '' line terminators'', '', with escape suquences'', '', with overstriking'']" by code_simp
  moreover assume "t \<in> set (text_details st)"
  ultimately show ?thesis using d by (auto simp: list_all_iff)
qed

lemma bytes_append: "bytes (a @ b) = bytes a @ bytes b"
  by (simp add: bytes_def)

lemma bytes_concat: "bytes (concat ts) = concat (map bytes ts)"
  by (simp add: bytes_def [abs_def] map_concat)

lemma report_text_shows:
  assumes "plain_printf (base_env T)" "o_buf ms = None" "\<not> MAGIC_MIME (ms_flags ms)"
  shows "report_text T (Some cd) ty st r0 ms =
    Some (Ret 1 (ms\<lparr>o_buf := Some (bytes (cd @ '' '' @ ty @ concat (text_details st)))\<rparr>))"
proof -
  let ?ts = "[(bytes ''%s'', [Arg_str (bytes cd)]), (bytes '' %s'', [Arg_str (bytes ty)])] @
    map (\<lambda>t. (bytes t, [])) (text_details st)"
  note p = plain_text [OF assms(1)] plain_string [OF assms(1)]
  have "\<forall>x \<in> set ?ts. vasprintf (base_env T) (fst x) (snd x) \<noteq> None"
    using text_details_plain by (auto simp: p)
  from print_all_shows [OF assms(1) this]
  have "print_all (base_env T) ?ts ms = Ret 0 (ms\<lparr>o_buf := Some (said ms @ concat (map (shown (base_env T)) ?ts))\<rparr>)" by simp
  moreover have "map (shown (base_env T)) (map (\<lambda>t. (bytes t, [])) (text_details st)) = map bytes (text_details st)"
    using text_details_plain by (simp add: shown_def p)
  moreover have "bytes (CHR '' '' # ty @ cs) = 32 # bytes (ty @ cs)" for cs by (simp add: bytes_def)
  ultimately show ?thesis using assms(2,3)
    by (simp add: report_text_def join_output_def file_printedlen_def shown_def p bytes_append bytes_concat del: map_map)
qed

section \<open>Characters\<close>

text \<open>The characters that the tests find fit into six bytes of UTF-8.\<close>

lemma utf8_follow_less: "utf8_follow n c bs = Char d rest \<Longrightarrow> d < (c + 1) * 64 ^ n"
proof (induction n c bs rule: utf8_follow.induct)
  case (3 n c b bs)
  have "unat (b AND 0x3f) < 64"
    using byte_bits(3) [of "unat b"] unat_byte [of b] by simp
  then have "push_bit 6 c + unat (b AND 0x3f) + 1 \<le> (c + 1) * 64" by (simp add: push_bit_nat_def)
  then have "(push_bit 6 c + unat (b AND 0x3f) + 1) * 64 ^ n \<le> (c + 1) * 64 * 64 ^ n" by (rule mult_right_mono) simp
  then have "(push_bit 6 c + unat (b AND 0x3f) + 1) * 64 ^ n \<le> (c + 1) * 64 ^ Suc n" by (simp only: power_Suc mult.assoc)
  moreover from 3 have "d < (push_bit 6 c + unat (b AND 0x3f) + 1) * 64 ^ n" by (simp split: if_splits)
  ultimately show ?case by (rule order_less_le_trans [rotated])
qed auto

lemma utf8_lead_less: "utf8_lead b = Some (c, k) \<Longrightarrow> (c + 1) * 64 ^ k \<le> 2 ^ 31"
proof -
  have m: "unat (b AND m) \<le> unat m" for m by (simp add: word_and_le1 flip: word_le_nat_alt)
  assume "utf8_lead b = Some (c, k)"
  then show ?thesis
    using m [of "0x1f"] m [of "0x0f"] m [of "0x07"] m [of "0x03"] m [of "0x01"]
    by (auto simp: utf8_lead_def split: if_splits)
qed

lemma utf8_loop_chars:
  "\<forall>c \<in> set u. c < 2 ^ 31 \<Longrightarrow> \<forall>c \<in> set (snd (utf8_loop bs ctrl gotone u)). c < 2 ^ 31"
proof (induction bs ctrl gotone u rule: utf8_loop.induct)
  case (2 b bs ctrl gotone u)
  have b: "unat b < 2 ^ 31" using unat_byte [of b] by simp
  show ?case
  proof (cases "b AND 0x80 = 0")
    case True
    have "\<forall>c \<in> set (u @ [unat b]). c < 2 ^ 31" using 2(3) b by (metis Un_iff empty_iff insertE list.set(1,2) set_append)
    from 2(1) [OF True this] show ?thesis unfolding utf8_loop.simps if_P [OF True] .
  next
    case high: False
    show ?thesis
    proof (cases "b AND 0x40 = 0 \<or> utf8_lead b = None")
      case True
      with high 2(3) show ?thesis by auto
    next
      case False
      then obtain c k where l: "utf8_lead b = Some (c, k)" "b AND 0x40 \<noteq> 0" by auto
      show ?thesis
      proof (cases "utf8_follow k c bs")
        case (Char d rest)
        from utf8_follow_less [OF this] utf8_lead_less [OF l(1)] have "d < 2 ^ 31" by (rule order_less_le_trans)
        then have "\<forall>c \<in> set (u @ [d]). c < 2 ^ 31" using 2(3) by (metis Un_iff empty_iff insertE list.set(1,2) set_append)
        from 2(2) [OF high l(2,1) refl Char this] high l Char show ?thesis by simp
      qed (use high l 2(3) in simp_all)
    qed
  qed
qed simp

lemma ucs16_loop_chars:
  "\<forall>c \<in> set u. c < 2 ^ 31 \<Longrightarrow> \<forall>c \<in> set (snd (ucs16_loop bigend bs u)). c < 2 ^ 31"
proof (induction bigend bs u rule: ucs16_loop.induct)
  case (1 bigend b0 b1 bs u)
  let ?c = "if bigend then unat b1 + 256 * unat b0 else unat b0 + 256 * unat b1"
  have "?c < 2 ^ 31" using unat_byte [of b0] unat_byte [of b1] by simp
  then have u: "\<forall>c \<in> set (u @ [?c]). c < 2 ^ 31" using 1(2) by (metis Un_iff empty_iff insertE list.set(1,2) set_append)
  show ?case
  proof (cases "?c = 0xfffe \<or> ?c < 128 \<and> text_chars ! ?c \<noteq> CT")
    case True
    with u show ?thesis by (auto simp: Let_def)
  next
    case False
    with 1(1) [OF refl refl _ _ u] show ?thesis by (cases bigend) (auto simp: Let_def)
  qed
qed simp_all

lemma byte_chars: "\<forall>c \<in> set (map unat (bs :: byte list)). c < 2 ^ 31"
proof -
  have "unat b < 2 ^ 31" for b :: byte using unat_byte [of b] by simp
  then show ?thesis by simp
qed

lemma file_encoding_chars:
  assumes "ubuf (file_encoding True True buf) = Some u"
  shows "\<forall>c \<in> set u. c < 2 ^ 31"
proof -
  note b = byte_chars [of "takeWhile P buf" for P]
  have v: "\<forall>c \<in> set (snd (file_looks_utf8 bs)). c < 2 ^ 31" for bs
    unfolding file_looks_utf8_def by (rule utf8_loop_chars) simp
  have w: "\<forall>c \<in> set (snd (looks_utf8_with_BOM buf (snd (looks_ascii buf)))). c < 2 ^ 31"
    unfolding looks_utf8_with_BOM_def using v [of "drop 3 buf"] b by (simp add: looks_results)
  have x: "\<forall>c \<in> set (snd (looks_ucs16 buf (snd (file_looks_utf8 buf)))). c < 2 ^ 31"
    unfolding looks_ucs16_def using v [of buf] ucs16_loop_chars [of "[]"] by simp
  show ?thesis
    using assms v [of buf] w x byte_chars [of buf] byte_chars [of "from_ebcdic buf"]
      byte_chars [of "takeWhile (in_classes {CT, CI}) (from_ebcdic buf)"]
    unfolding file_encoding_chain Let_def found_def looks_results by (auto split: if_splits)
qed

lemma file_encoding_rv:
  "rv (file_encoding True True buf) \<noteq> 0 \<Longrightarrow> \<exists>cd mime u. file_encoding True True buf = found cd mime u"
  unfolding file_encoding_chain Let_def by (auto split: if_splits)

section \<open>A run over a text file\<close>

text \<open>
  The library works, allocations succeed, and the tests for compressed and CDF files find
  nothing.
\<close>

definition plain_tools :: "tools \<Rightarrow> bool" where
  "plain_tools T \<longleftrightarrow> plain_printf (base_env T) \<and> (\<forall>n. alloc_ok T n) \<and>
     file_zmagic T = (\<lambda>buf nb ms. Ret 0 ms) \<and> file_trycdf T = (\<lambda>buf nb ms. Ret 0 ms)"

text \<open>A readable regular file without special mode bits, and what its first bytes are.\<close>

definition plain_file :: "files \<Rightarrow> byte list \<Rightarrow> byte list \<Rightarrow> bool" where
  "plain_file w name buf \<longleftrightarrow> (\<exists>sb. lstat_of w name = Inr sb \<and> stat_of w name = Inr sb \<and> S_IFMT (st_mode sb) = S_IFREG \<and>
     \<not> bit (st_mode sb) 11 \<and> \<not> bit (st_mode sb) 10 \<and> \<not> bit (st_mode sb) 9 \<and> st_size sb \<noteq> 0) \<and>
     0 \<le> open_file w name \<and> read_file w (open_file w name) = Inr buf"

text \<open>The counters of the whole text; a carriage return at its end counts.\<close>

definition text_summary :: "nat \<Rightarrow> nat list \<Rightarrow> text_stats" where
  "text_summary nbytes u =
     (let st = stats u in if seen_cr st \<and> nbytes < HOWMANY then st\<lparr>n_cr := n_cr st + 1\<rparr> else st)"

lemma softmagic_no_rules: "mlist0 ms = Some [] \<Longrightarrow> file_softmagic env n buf nb mode flag ms = Some (Ret 0 ms)"
  by (simp add: file_softmagic_def softmagic_with_def)

lemma trim_nuls_id: "n \<le> length buf \<Longrightarrow> n = 0 \<or> buf ! (n - 1) \<noteq> NUL \<Longrightarrow> trim_nuls buf n = n"
  by (cases n) auto

lemma ascmagic_reports:
  assumes "plain_tools T" "mlist0 ms = Some []" "o_buf ms = None" "ms_flags ms = 0x100"
    and "2 \<le> nb" "nb \<le> length buf" "buf ! (nb - 1) \<noteq> NUL"
    and "file_encoding True True (take nb buf) = found cd mime u"
  shows "file_ascmagic T buf nb looks ms =
    Some (Ret 1 (ms\<lparr>o_buf := Some (bytes (cd @ '' text'' @ concat (text_details (text_summary nb u))))\<rparr>))"
proof -
  have t: "trim_nuls buf nb = nb" using assms(5-7) by (simp add: trim_nuls_id)
  have e: "encode_utf8 (length u * 6) u = Some (concat (map utf8_encode u))"
    using file_encoding_chars [of "take nb buf" u] assms(8) by (intro encode_utf8_text) (simp_all add: found_def)
  have f: "\<not> MAGIC_APPLE (ms_flags ms)" "\<not> MAGIC_MIME (ms_flags ms)" "\<not> MAGIC_NO_CHECK_SOFT (ms_flags ms)"
    unfolding assms(4) by (simp_all add: bit_iff_odd)
  have a: "alloc_ok T n" for n using assms(1) by (simp add: plain_tools_def)
  from report_text_shows [of T ms cd "''text''"] assms(1,3) f
  have r: "report_text T (Some cd) ''text'' st r0 ms =
    Some (Ret 1 (ms\<lparr>o_buf := Some (bytes (cd @ '' text'' @ concat (text_details st)))\<rparr>))" for st r0
    by (simp add: plain_tools_def)
  have "call_encoding T (take nb buf) ms = Ret (found cd mime u) ms"
    using assms(8) a by (simp add: call_encoding_def)
  then show ?thesis
    unfolding file_ascmagic_def file_ascmagic_with_encoding_def Let_def t
    using assms(5) f a e softmagic_no_rules [OF assms(2)]
    by (simp add: found_def r text_summary_def Let_def)
qed

lemma text_buffer_reports:
  assumes "plain_tools T" "mlist0 ms = Some []" "o_buf ms = None" "ms_flags ms = 0x100"
    and "2 \<le> nb" "nb \<le> length buf" "buf ! (nb - 1) \<noteq> NUL"
    and "file_encoding True True (take nb buf) = found cd mime u"
    and "is_tar (chksum_address T) buf nb ms = Ret 0 ms"
  shows "file_buffer T fd buf nb ms =
    Some (Ret 1 (ms\<lparr>o_buf := Some (bytes (cd @ '' text'' @ concat (text_details (text_summary nb u))))\<rparr>))"
proof -
  have f: "\<not> MAGIC_APPLE (ms_flags ms)" "\<not> MAGIC_MIME (ms_flags ms)" "\<not> MAGIC_NO_CHECK_SOFT (ms_flags ms)"
    "\<not> MAGIC_NO_CHECK_ENCODING (ms_flags ms)" "\<not> MAGIC_NO_CHECK_COMPRESS (ms_flags ms)" "\<not> MAGIC_NO_CHECK_TAR (ms_flags ms)"
    "\<not> MAGIC_NO_CHECK_CDF (ms_flags ms)" "\<not> MAGIC_NO_CHECK_TEXT (ms_flags ms)" unfolding assms(4) by (simp_all add: bit_iff_odd)
  have t: "file_zmagic T buf nb = Ret 0" "file_trycdf T buf nb = Ret 0" "call_encoding T (take nb buf) ms = Ret (found cd mime u) ms"
    using assms(1,8) by (auto simp: plain_tools_def call_encoding_def)
  have "file_is_tar T buf nb ms = Ret 0 ms" using assms(9) f(1) by (simp add: file_is_tar_def)
  moreover have "soft_test T fd buf nb l ms = Some (Ret None ms)" for l
    using f softmagic_no_rules [OF assms(2)] by (simp add: soft_test_def)
  moreover have "text_test T buf nb l e ms = Some (Ret (Some 1) (ms\<lparr>o_buf := Some (bytes (cd @ '' text'' @ concat (text_details (text_summary nb u))))\<rparr>))" for l e
    using f ascmagic_reports [OF assms(1-8)] by (simp add: text_test_def)
  ultimately show ?thesis
    unfolding file_buffer_def Let_def using assms(5) f t
    by (simp add: one_test_def print_charset_def)
qed

lemma plain_file_fsmagic:
  assumes "plain_file w name buf" "ms_flags ms = 0x100"
  shows "\<exists>sb. stat_of w name = Inr sb \<and> S_IFMT (st_mode sb) = S_IFREG \<and>
    file_fsmagic env w call (Some name) ms = Some (Ret (0, Some sb) ms)"
proof -
  have f: "\<not> MAGIC_APPLE (ms_flags ms)" "\<not> MAGIC_MIME (ms_flags ms)" "\<not> MAGIC_SYMLINK (ms_flags ms)" "\<not> MAGIC_DEVICES (ms_flags ms)"
    unfolding assms(2) by (simp_all add: bit_iff_odd)
  from assms(1) obtain sb where sb: "lstat_of w name = Inr sb" "stat_of w name = Inr sb" "S_IFMT (st_mode sb) = S_IFREG"
    "\<not> bit (st_mode sb) 11" "\<not> bit (st_mode sb) 10" "\<not> bit (st_mode sb) 9" "st_size sb \<noteq> 0"
    unfolding plain_file_def by blast
  then have "mode_bits_text sb = []" by (simp add: mode_bits_text_def)
  moreover have "fs_switch env w call name sb 0 ms = Some (Ret (Inr (0, 0)) ms)"
    using sb(3,7) f(4) by (simp add: fs_switch_def Let_def)
  ultimately show ?thesis using sb f by (simp add: file_fsmagic_def Let_def)
qed

lemma magic_file_with: "\<exists>call. magic_file T w n name ms = file_or_fd_with T w call name 0 ms"
  by (cases n) (simp_all, blast+)

lemma magic_file_reports:
  assumes "plain_tools T" "plain_file w name buf" "mlist0 ms = Some []" "ms_flags ms = 0x100"
    and "2 \<le> length buf" "length buf \<le> HOWMANY" "last buf \<noteq> NUL"
    and "file_encoding True True buf = found cd mime u"
    and "\<And>ms. is_tar (chksum_address T) (buf @ replicate SLOP NUL) (length buf) ms = Ret 0 ms"
  shows "\<exists>ms'. magic_file T w n (Some name) ms =
    Some (Ret (Some (bytes (cd @ '' text'' @ concat (text_details (text_summary (length buf) u))))) ms')"
proof -
  obtain call where c: "magic_file T w n (Some name) ms = file_or_fd_with T w call (Some name) 0 ms"
    using magic_file_with by blast
  let ?ms = "ms\<lparr>o_buf := None, o_pbuf := None, had_err := False, ms_error := - 1\<rparr>"
  have r: "file_reset (base_env T) ms = Ret 0 ?ms" using assms(3) by (simp add: file_reset_def)
  from plain_file_fsmagic [OF assms(2), of ?ms] assms(4) obtain sb where
    sb: "stat_of w name = Inr sb" "S_IFMT (st_mode sb) = S_IFREG"
    "file_fsmagic (base_env T) w call (Some name) ?ms = Some (Ret (0, Some sb) ?ms)" by auto
  have o: "0 \<le> open_file w name" "read_file w (open_file w name) = Inr buf"
    using assms(2) by (simp_all add: plain_file_def)
  let ?b = "buf @ replicate SLOP NUL"
  have n: "buf \<noteq> []" using assms(5) by auto
  then have b: "take (length buf) ?b = buf" "?b ! (length buf - 1) = last buf" "length buf \<le> length ?b"
    by (simp_all add: nth_append last_conv_nth)
  have "file_buffer T (open_file w name) ?b (length buf) ?ms =
      Some (Ret 1 (?ms\<lparr>o_buf := Some (bytes (cd @ '' text'' @ concat (text_details (text_summary (length buf) u))))\<rparr>))"
    using assms(3-5,7,8) b n
    by (intro text_buffer_reports [where mime = mime] assms(1,9)) simp_all
  moreover have "MAGIC_RAW (0x100 :: int)" by (simp add: bit_iff_odd)
  moreover have "alloc_ok T k" for k using assms(1) by (simp add: plain_tools_def)
  ultimately show ?thesis unfolding c file_or_fd_with_def
    using r sb o assms(4,6)
    by (simp add: is_pipe_def filled_def read_and_test_def answer_def file_getbuffer_def)
qed

section \<open>What the tests leave alone\<close>

text \<open>The tests that are not modelled change neither the loaded entries nor the flags.\<close>

definition tools_keep :: "tools \<Rightarrow> bool" where
  "tools_keep T \<longleftrightarrow> (\<forall>d ms buf nb. kept d ms \<longrightarrow> ends (kept d) (file_zmagic T buf nb ms) \<and>
     ends (kept d) (file_trycdf T buf nb ms) \<and> ends (kept d) (file_tryelf T buf nb ms))"

lemma kept_Let: "ends (kept d) (f x) \<Longrightarrow> ends (kept d) (let y = x in f y)" by simp

lemma kept_sums [kept_rules]:
  "(\<And>e. ends (kept d) (h e)) \<Longrightarrow> (\<And>v. ends (kept d) (k v)) \<Longrightarrow> ends (kept d) (case r of Inl e \<Rightarrow> h e | Inr v \<Rightarrow> k v)"
  by (cases r) auto

lemma returns_options [returns_rules]:
  "returns w d n \<Longrightarrow> (\<And>z. returns w d (f z)) \<Longrightarrow> returns w d (case q of None \<Rightarrow> n | Some z \<Rightarrow> f z)"
  "(\<And>a b. returns w d (g a b)) \<Longrightarrow> returns w d (case p of (a, b) \<Rightarrow> g a b)"
  by (auto split: option.splits prod.splits)

lemma kept_print_all [kept_rules]: "kept d ms \<Longrightarrow> ends (kept d) (print_all env ts ms)"
  by (induction env ts ms rule: print_all.induct) (auto intro!: kept_rules)

lemma kept_is_tar [kept_rules]:
  "kept d ms \<Longrightarrow> ends (kept d) (is_tar a buf nb ms)" "kept d ms \<Longrightarrow> ends (kept d) (file_is_tar T buf nb ms)"
  unfolding file_is_tar_def is_tar_def Let_def by (intro kept_rules; assumption?)+

lemma replace_loop_kept: "replace_loop env lit rep nm ms = Some p \<Longrightarrow> kept d ms \<longrightarrow> ends (kept d) p"
proof (rule replace_loop.raw_induct [where P = "\<lambda>env lit rep nm ms p. kept d ms \<longrightarrow> ends (kept d) p"])
  fix loop env lit rep nm ms p
  assume IH: "\<And>env lit rep nm ms p. loop env lit rep nm ms = Some p \<Longrightarrow> kept d ms \<longrightarrow> ends (kept d) p"
    and step: "(case o_buf ms of
        None \<Rightarrow> Some (Fault ms)
      | Some b \<Rightarrow>
          if ends_with lit b then
            (case file_printf env (bytes ''%s%s'') [Arg_str rep, Arg_str []]
                    (ms\<lparr>o_buf := Some (take (length b - length lit) b)\<rparr>) of
               Ret r ms \<Rightarrow> if r = - 1 then Some (Ret (- 1) ms) else loop env lit rep (nm + 1) ms
             | Exit c ms \<Rightarrow> Some (Exit c ms)
             | Fault ms \<Rightarrow> Some (Fault ms))
          else Some (Ret nm ms)) = Some p"
  show "kept d ms \<longrightarrow> ends (kept d) p"
  proof
    assume k: "kept d ms"
    show "ends (kept d) p"
    proof (cases "o_buf ms")
      case None
      with step k show ?thesis by auto
    next
      case (Some b)
      let ?r = "file_printf env (bytes ''%s%s'') [Arg_str rep, Arg_str []] (ms\<lparr>o_buf := Some (take (length b - length lit) b)\<rparr>)"
      have r: "ends (kept d) ?r" by (intro kept_rules k)
      show ?thesis
      proof (cases "ends_with lit b")
        case True
        note step = step [unfolded Some option.case if_P [OF True]]
        show ?thesis
        proof (cases ?r)
          case (Ret c ms')
          with step r IH show ?thesis by (auto split: if_splits)
        qed (use step r in auto)
      next
        case False
        with step Some k show ?thesis by auto
      qed
    qed
  qed
qed

lemma replace_loop_keeps [returns_rules]: "kept d ms \<Longrightarrow> returns True d (replace_loop env lit rep nm ms)"
  using replace_loop_kept [of env lit rep nm ms] by (auto simp: returns_def split: option.split)

lemma join_output_keeps [returns_rules]: "kept d ms \<Longrightarrow> returns True d (join_output T ms)"
  unfolding join_output_def file_replace_def by (intro returns_rules kept_rules; assumption?)

lemma report_text_keeps [returns_rules]: "kept d ms \<Longrightarrow> returns True d (report_text T cd ty st r0 ms)"
  unfolding report_text_def by (intro returns_rules kept_rules; assumption?)

lemma ascmagic_keeps [returns_rules]:
  "kept d ms \<Longrightarrow> returns True d (file_ascmagic_with_encoding T buf nb chars cd ty flag ms)"
  unfolding file_ascmagic_with_encoding_def Let_def
  by (intro returns_rules kept_rules file_softmagic_keeps; assumption?)

lemma call_encoding_keeps [kept_rules]: "kept d ms \<Longrightarrow> ends (kept d) (call_encoding T buf ms)"
  unfolding call_encoding_def Let_def by (intro kept_rules; assumption?)

lemma file_ascmagic_keeps [returns_rules]: "kept d ms \<Longrightarrow> returns True d (file_ascmagic T buf nb flag ms)"
  unfolding file_ascmagic_def Let_def by (intro returns_rules kept_rules; assumption?)

lemma print_charset_keeps [kept_rules]: "kept d ms \<Longrightarrow> ends (kept d) (print_charset env c r m ms)"
  unfolding print_charset_def Let_def by (intro kept_rules; assumption?)

lemma first_test_keeps:
  "(\<And>f ms. f \<in> set fs \<Longrightarrow> kept d ms \<Longrightarrow> returns True d (f ms)) \<Longrightarrow> kept d ms \<Longrightarrow> returns True d (first_test fs ms)"
proof (induction fs arbitrary: ms)
  case (Cons f fs)
  then have "returns True d (f ms)" by simp
  with Cons show ?case by (auto intro!: returns_rules kept_rules)
qed (auto intro!: returns_rules kept_rules)

lemma file_buffer_keeps:
  assumes "tools_keep T"
  shows "kept d ms \<Longrightarrow> returns True d (file_buffer T fd buf nb ms)"
proof -
  have t: "kept d ms \<Longrightarrow> ends (kept d) (file_zmagic T buf nb ms)" "kept d ms \<Longrightarrow> ends (kept d) (file_trycdf T buf nb ms)"
    "kept d ms \<Longrightarrow> ends (kept d) (file_tryelf T buf nb ms)" for buf nb ms using assms by (simp_all add: tools_keep_def)
  have o: "(\<And>ms. kept d ms \<Longrightarrow> ends (kept d) (f ms)) \<Longrightarrow> kept d ms \<Longrightarrow> returns True d (one_test b f ms)" for b f ms
    unfolding one_test_def by (intro returns_rules kept_rules; assumption?)
  have s: "kept d ms \<Longrightarrow> returns True d (soft_test T fd buf nb l ms)" for l ms
    unfolding soft_test_def by (intro returns_rules kept_rules file_softmagic_keeps t; assumption?)
  have x: "kept d ms \<Longrightarrow> returns True d (text_test T buf nb l e ms)" for l e ms
    unfolding text_test_def by (intro returns_rules kept_rules; assumption?)
  have f: "kept d ms \<Longrightarrow> returns True d (first_test
            [\<lambda>ms. one_test (MAGIC_NO_CHECK_COMPRESS (ms_flags ms)) (file_zmagic T buf nb) ms,
             \<lambda>ms. one_test (MAGIC_NO_CHECK_TAR (ms_flags ms)) (file_is_tar T buf nb) ms,
             \<lambda>ms. one_test (MAGIC_NO_CHECK_CDF (ms_flags ms)) (file_trycdf T buf nb) ms,
             soft_test T fd buf nb l, text_test T buf nb l e] ms)" for l e ms
    by (rule first_test_keeps) (auto intro!: o s x t kept_is_tar)
  show "kept d ms \<Longrightarrow> ?thesis"
    unfolding file_buffer_def Let_def by (intro returns_rules kept_rules f; assumption?)
qed

lemma fs_kind_keeps [kept_rules]: "kept d ms \<Longrightarrow> ends (kept d) (fs_kind env mime f va did ms)"
  unfolding fs_kind_def handle_mime_def by (intro kept_rules; assumption?)

lemma bad_link_keeps [kept_rules]: "kept d ms \<Longrightarrow> ends (kept d) (bad_link env e buf ms)"
  unfolding bad_link_def printed_def by (intro kept_rules; assumption?)

lemma fs_link_target_keeps:
  assumes "\<not> MAGIC_SYMLINK (ms_flags d)" "kept d ms"
  shows "returns True d (fs_link_target env call buf did ms)"
proof -
  have "\<not> MAGIC_SYMLINK (ms_flags ms)" using assms by (simp add: kept_def)
  with assms(2) show ?thesis by (auto simp: fs_link_target_def intro!: returns_rules kept_rules)
qed

lemma fs_switch_keeps:
  assumes "\<not> MAGIC_SYMLINK (ms_flags d)" "kept d ms"
  shows "returns True d (fs_switch env w call fn sb did ms)"
  unfolding fs_switch_def fs_link_def Let_def
  by (intro returns_rules kept_rules fs_link_target_keeps assms)

lemma file_fsmagic_keeps:
  assumes "\<not> MAGIC_SYMLINK (ms_flags d)" "kept d ms"
  shows "returns True d (file_fsmagic env w call fn ms)"
  unfolding file_fsmagic_def Let_def
  by (intro returns_rules kept_rules fs_switch_keeps assms)

text \<open>Without a buffer for printing, text comes out only with \<open>MAGIC_RAW\<close>.\<close>

definition only_raw :: "magic_set \<Rightarrow> (byte list option, magic_set) outcome option \<Rightarrow> bool" where
  "only_raw d m \<longleftrightarrow> (\<forall>t s. m = Some (Ret (Some t) s) \<longrightarrow> MAGIC_RAW (ms_flags d))"

lemma only_raw_rbind: "returns True d m \<Longrightarrow> (\<And>x s. kept d s \<Longrightarrow> only_raw d (f x s)) \<Longrightarrow> only_raw d (rbind m f)"
  by (cases m; cases "the m") (auto simp: only_raw_def returns_def)

lemma only_raw_simps [simp]:
  "only_raw d None" "only_raw d (Some (Ret None s))" "only_raw d (Some (Fault s))" "only_raw d (Some (Exit c s))"
  by (simp_all add: only_raw_def)

lemma only_raw_obind: "ends (kept d) m \<Longrightarrow> (\<And>x s. kept d s \<Longrightarrow> only_raw d (Some (f x s))) \<Longrightarrow> only_raw d (Some (obind m f))"
  by (cases m) (auto simp: only_raw_def)

lemma answer_only_raw:
  assumes "o_pbuf d = None" "kept d ms"
  shows "only_raw d (Some (answer T b ms))"
proof -
  have p: "o_pbuf ms = None" "ms_flags ms = ms_flags d" using assms by (simp_all add: kept_def)
  have e: "only_raw d (Some (obind (file_oomem env n ms) (\<lambda>_ ms. Ret None ms)))" for env n
    by (rule only_raw_obind) (auto intro!: kept_rules assms(2))
  show ?thesis
    using p e
    by (auto simp: answer_def file_getbuffer_def Let_def store_pbuf_def only_raw_def split: option.splits prod.splits)
qed

lemma magic_file_only_raw:
  assumes "tools_keep T" "\<not> MAGIC_SYMLINK (ms_flags ms)"
  shows "only_raw ms (magic_file T w n name ms)"
proof -
  obtain call where c: "magic_file T w n name ms = file_or_fd_with T w call name 0 ms" using magic_file_with by blast
  let ?d = "ms\<lparr>o_pbuf := None\<rparr>"
  have a: "kept ?d s \<Longrightarrow> only_raw ?d (Some (answer T b s))" for b s by (rule answer_only_raw) simp_all
  have u: "kept ?d s \<Longrightarrow> only_raw ?d (Some (unreadable T w sb nm s))" for sb nm s
    unfolding unreadable_def unreadable_info_def
    by (auto intro!: only_raw_obind a kept_rules split: option.splits)
  have r: "kept ?d s \<Longrightarrow> only_raw ?d (read_and_test T w sb p fd nm s)" for sb p fd nm s
    unfolding read_and_test_def Let_def
    by (auto intro!: u a only_raw_rbind only_raw_obind file_buffer_keeps [OF assms(1)] kept_rules split: sum.splits)
  have k: "kept ?d (ms\<lparr>o_buf := None, o_pbuf := None, had_err := False, ms_error := - 1\<rparr>)"
    by (simp add: kept_def)
  have f: "kept ?d s \<Longrightarrow> returns True ?d (file_fsmagic env w call name s)" for env s
    by (rule file_fsmagic_keeps) (use assms(2) in simp_all)
  have "only_raw ?d (file_or_fd_with T w call name 0 ms)"
  proof (cases "alloc_ok T (HOWMANY + SLOP)")
    case False
    then show ?thesis by (simp add: file_or_fd_with_def)
  next
    case True
    show ?thesis
    proof (cases "mlist0 ms")
      case None
      then show ?thesis using True
        by (cases "file_error (base_env T) 0 (bytes ''no magic files loaded'') [] ms")
          (simp_all add: file_or_fd_with_def file_reset_def answer_def)
    next
      case (Some mls)
      let ?s = "ms\<lparr>o_buf := None, o_pbuf := None, had_err := False, ms_error := - 1\<rparr>"
      have "file_or_fd_with T w call name 0 ms = rbind (file_fsmagic (base_env T) w call name ?s) (\<lambda>(r, sb) ms.
        if r = - 1 then Some (answer T False ms)
        else if r \<noteq> 0 then Some (answer T True ms)
        else case name of
          None \<Rightarrow> read_and_test T w (filled (fstat_of w 0) sb) (is_pipe (fstat_of w 0)) 0 name ms
        | Some nm \<Rightarrow>
            let sb = filled (stat_of w nm) sb; fd = open_file w nm in
            if fd < 0 then Some (unreadable T w sb name ms)
            else read_and_test T w sb (is_pipe (stat_of w nm)) fd name ms)"
        using True Some by (simp add: file_or_fd_with_def file_reset_def)
      also have "only_raw ?d \<dots>"
        by (rule only_raw_rbind [OF f [OF k]]) (auto simp: Let_def intro!: a u r split: option.splits)
      finally show ?thesis .
    qed
  qed
  then show ?thesis unfolding c by (simp add: only_raw_def)
qed

end
