(* ===== verification/FileProps.thy ===== *)
theory FileProps
  imports FileRuns
begin

unbundle bit_operations_syntax

text \<open>
  The properties of the tests around the magic interpreter: what is said of a text file, when
  nothing is added to its encoding, why no tar archive is recognised, and when \<open>magic_file\<close>
  hands out no text at all.
\<close>

section \<open>A sample\<close>

definition plain_vasprintf :: "byte list \<Rightarrow> printf_arg list \<Rightarrow> byte list option" where
  "plain_vasprintf f va =
     (case va of
        [Arg_str t] \<Rightarrow> if ends_with (bytes ''%s'') f then Some (take (length f - 2) f @ t) else Some f
      | _ \<Rightarrow> Some f)"

definition plain_env :: environ where
  "plain_env = \<lparr>vasprintf = plain_vasprintf, asprintf_ok = (\<lambda>b t. True), strerror = (\<lambda>e. []), errno = 12,
     grow_levels = (\<lambda>n. True), fresh_level = \<lparr>li_off = 0, got_match = False, last_match = False\<rparr>, strndup_ok = (\<lambda>n. True),
     regex = (\<lambda>p i s. Rx_nomatch), fmt_regcomp = None, format_g = (\<lambda>a. []), fmttime = (\<lambda>v f. []),
     float_op = (\<lambda>op x k. x), double_op = (\<lambda>op x k. x)\<rparr>"

definition plain_kit :: tools where
  "plain_kit = \<lparr>base_env = plain_env, alloc_ok = (\<lambda>n. True), depth = 0, regcomp_error = (\<lambda>p. None), mbrtowc = (\<lambda>b. None),
     isprint = (\<lambda>c. True), chksum_address = - 1, file_zmagic = (\<lambda>buf nb ms. Ret 0 ms), file_trycdf = (\<lambda>buf nb ms. Ret 0 ms),
     file_tryelf = (\<lambda>buf nb ms. Ret 0 ms)\<rparr>"

lemma plain_kit_plain: "plain_tools plain_kit"
proof -
  have "length (bytes ''%s'') = 2" by simp
  then have "ends_with (bytes ''%s'') (f @ bytes ''%s'')" for f by (simp add: ends_with_def)
  then have "plain_printf plain_env" by (simp add: plain_printf_def plain_env_def plain_vasprintf_def)
  then show ?thesis by (simp add: plain_tools_def plain_kit_def)
qed

lemma plain_kit_keeps: "tools_keep plain_kit"
  by (simp add: tools_keep_def plain_kit_def)

text \<open>A file system with one file, and a set without entries.\<close>

definition one_file :: "nat \<Rightarrow> byte list \<Rightarrow> files" where
  "one_file mode buf = \<lparr>stat_of = (\<lambda>n. Inr \<lparr>st_mode = mode, st_size = int (length buf)\<rparr>),
     lstat_of = (\<lambda>n. Inr \<lparr>st_mode = mode, st_size = int (length buf)\<rparr>), readlink_of = (\<lambda>n. Inl 22), fstat_of = (\<lambda>d. Inl 9),
     writable = (\<lambda>n. False), executable = (\<lambda>n. False), open_file = (\<lambda>n. 3), read_file = (\<lambda>d. Inr buf),
     read_pipe = (\<lambda>d. []), pipe_buf = 512\<rparr>"

definition empty_set :: "int \<Rightarrow> magic_set" where
  "empty_set flags = \<lparr>mlist0 = Some [], mlist1 = Some [], c_len = 0, li = [], o_buf = None, o_pbuf = None, ms_offset = 0,
     ms_error = - 1, ms_flags = flags, had_err = False, ms_line = 0, search_s = None, search_len = 0, search_offset = 0,
     rm_len = 0, ms_value = replicate MAXstring 0\<rparr>"

lemma one_file_plain: "buf \<noteq> [] \<Longrightarrow> plain_file (one_file 0x81a4 buf) name buf"
  by (simp add: plain_file_def one_file_def S_IFMT_def bit_iff_odd)

lemma hi_encoding: "file_encoding True True [72, 105, 10] = found ''ASCII'' ''us-ascii'' [72, 105, 10]"
  by (simp add: file_encoding_chain Let_def all_in_def in_classes_def text_chars_class)

lemma no_tar_kit: "is_tar (chksum_address plain_kit) buf nb ms = Ret 0 ms" if "nb < 512"
  using that by (simp add: is_tar_def RECORDSIZE_def)

section \<open>Properties\<close>



text \<open>
  C23. Nothing is added to the encoding exactly if the text has a line feed, no overlong line and
  none of NEL, escape, backspace and the letter \<open>r\<close>. The letter is counted as a carriage
  return, as the pair with a line feed behind it or alone; the character \<open>CR\<close> does not matter.
\<close>

theorem bare_report_iff:
  assumes "length u \<le> 2 ^ 63" "n < HOWMANY"
  shows "(text_details (text_summary n u) = [] \<longleftrightarrow> 10 \<in> set u \<and> set u \<inter> {114, 0x85, 27, 8} = {} \<and> \<not> long_line u) \<and>
    n_crlf (text_summary n u) = count_list (zip u (tl u)) (114, 10) \<and>
    n_lf (text_summary n u) + n_crlf (text_summary n u) = count_list u 10 \<and>
    n_cr (text_summary n u) + n_crlf (text_summary n u) = count_list u 114"
proof -
  let ?st = "text_summary n u"
  note c = stats_counts [of u]
  have f: "n_crlf ?st = n_crlf (stats u)" "n_lf ?st = n_lf (stats u)" "n_nel ?st = n_nel (stats u)"
    "n_cr ?st = n_cr (stats u) + of_bool (seen_cr (stats u))" "has_escapes ?st = has_escapes (stats u)"
    "has_backspace ?st = has_backspace (stats u)" "has_long_lines ?st = has_long_lines (stats u)"
    using assms(2) by (simp_all add: text_summary_def Let_def)
  have p: "n_lf ?st + n_crlf ?st = count_list u 10" "n_cr ?st + n_crlf ?st = count_list u 114"
    "n_crlf ?st = count_list (zip u (tl u)) (114, 10)" "n_nel ?st = count_list u 0x85" using c f by simp_all
  have l: "line_ends ?st = [] \<longleftrightarrow> n_lf ?st \<noteq> 0 \<and> n_crlf ?st = 0 \<and> n_cr ?st = 0 \<and> n_nel ?st = 0"
    by (auto simp: line_ends_def Let_def)
  also have "\<dots> \<longleftrightarrow> 10 \<in> set u \<and> 114 \<notin> set u \<and> 0x85 \<notin> set u"
    using p(1,2,4) count_list_0_iff [of u 10] count_list_0_iff [of u 114] count_list_0_iff [of u "0x85"] by auto
  finally have "text_details ?st = [] \<longleftrightarrow> 10 \<in> set u \<and> set u \<inter> {114, 0x85, 27, 8} = {} \<and> \<not> long_line u"
    using c(5,6) f stats_long [OF assms(1)] by (auto simp: text_details_def)
  with p show ?thesis by simp
qed

theorem bare_report_iff_witness:
  "text_details (text_summary 4 [104, 101, 114, 10]) \<noteq> [] \<and> n_crlf (text_summary 4 [104, 101, 114, 10]) = 1"
  using bare_report_iff [of "[104, 101, 114, 10]" 4] by simp

text \<open>
  C24. A tar archive with a correct header is never recognised: the loop that should count the
  checksum field as blanks takes the address of the field for its length. An address that is
  negative as an \<open>int\<close> leaves the field in the sum, a large one makes the loop read outside the
  buffer.
\<close>

theorem tar_never_recognised:
  assumes "512 \<le> nbytes" "nbytes \<le> length buf" "from_oct 8 (take 8 (drop 148 buf)) = header_sum buf"
    and "chksum_address T \<le> 0 \<or> int (length buf) \<le> chksum_address T"
  shows "file_is_tar T buf nbytes ms \<in> {Ret 0 ms, Fault ms}"
proof -
  have "is_tar (chksum_address T) buf nbytes ms \<in> {Ret 0 ms, Fault ms}" by (rule is_tar_valid [OF assms])
  then show ?thesis by (elim insertE emptyE) (simp_all add: file_is_tar_def)
qed

theorem tar_never_recognised_witness:
  "file_is_tar plain_kit (replicate 148 0 @ bytes ''0000400'' @ replicate 357 0) 512 (empty_set 0) \<in>
    {Ret 0 (empty_set 0), Fault (empty_set 0)}"
proof (rule tar_never_recognised)
  let ?buf = "replicate 148 0 @ bytes ''0000400'' @ replicate 357 0 :: byte list"
  have d: "drop 148 ?buf = bytes ''0000400'' @ replicate 357 0" "take 148 ?buf = replicate 148 0" by simp_all
  have e: "drop 156 ?buf = replicate 356 0" by simp
  have t: "take 8 (drop 148 ?buf) = bytes ''0000400'' @ [0]" unfolding d by (simp add: eval_nat_numeral)
  have "from_oct 8 (bytes ''0000400'' @ [0]) = 256" by code_simp
  moreover have "header_sum ?buf = 256" unfolding header_sum_def d e by (simp add: sum_list_replicate)
  ultimately show "from_oct 8 (take 8 (drop 148 ?buf)) = header_sum ?buf" unfolding t by simp
qed (simp_all add: plain_kit_def)

text \<open>
  C25. \<open>magic_file\<close> hands out a text only with \<open>MAGIC_RAW\<close>: otherwise the text is escaped into a
  buffer that is never allocated.
\<close>

theorem text_needs_raw:
  assumes "magic_file T w n name ms = Some (Ret (Some t) ms')" "tools_keep T" "\<not> MAGIC_SYMLINK (ms_flags ms)"
  shows "MAGIC_RAW (ms_flags ms)"
  using magic_file_only_raw [OF assms(2,3), of w n name] assms(1) by (simp add: only_raw_def)

theorem text_needs_raw_witness:
  "\<exists>t ms'. magic_file plain_kit (one_file 0x81a4 [72, 105, 10]) 0 (Some (bytes ''f'')) (empty_set 0x100) = Some (Ret (Some t) ms') \<and>
    MAGIC_RAW (ms_flags (empty_set 0x100))"
proof -
  have "\<exists>ms'. magic_file plain_kit (one_file 0x81a4 [72, 105, 10]) 0 (Some (bytes ''f'')) (empty_set 0x100) =
    Some (Ret (Some (bytes (''ASCII'' @ '' text'' @ concat (text_details (text_summary (length [72, 105, 10 :: byte]) [72, 105, 10]))))) ms')"
    by (rule magic_file_reports [OF plain_kit_plain one_file_plain _ _ _ _ _ hi_encoding no_tar_kit])
      (simp_all add: empty_set_def)
  then obtain t ms' where r: "magic_file plain_kit (one_file 0x81a4 [72, 105, 10]) 0 (Some (bytes ''f'')) (empty_set 0x100) = Some (Ret (Some t) ms')"
    by blast
  moreover have "\<not> MAGIC_SYMLINK (ms_flags (empty_set 0x100))" by (simp add: empty_set_def bit_iff_odd)
  ultimately show ?thesis using text_needs_raw [OF r plain_kit_keeps] by blast
qed

text \<open>
  C26. For a directory \<open>magic_file\<close> returns \<open>NULL\<close>, which means an error, although it has printed the
  answer and recorded no error: \<open>file_fsmagic\<close> leaves its result at \<open>-1\<close>.
\<close>

theorem directory_is_null:
  assumes "alloc_ok T (HOWMANY + SLOP)" "\<forall>f va. vasprintf (base_env T) f va \<noteq> None" "\<forall>b t. asprintf_ok (base_env T) b t"
    and "lstat_of w name = Inr sb" "S_IFMT (st_mode sb) = S_IFDIR" "mlist0 ms \<noteq> None"
    and "\<not> MAGIC_APPLE (ms_flags ms)" "\<not> MAGIC_MIME (ms_flags ms)" "\<not> MAGIC_SYMLINK (ms_flags ms)"
    and "\<not> bit (st_mode sb) 11" "\<not> bit (st_mode sb) 10" "\<not> bit (st_mode sb) 9"
  shows "\<exists>ms'. magic_file T w n (Some name) ms = Some (Ret None ms') \<and> magic_error (Some ms') = None \<and>
    o_buf ms' = Some (the (vasprintf (base_env T) (bytes ''%sdirectory'') [Arg_str []]) @ the (vasprintf (base_env T) (bytes '' '') []))"
proof -
  obtain call where c: "magic_file T w n (Some name) ms = file_or_fd_with T w call (Some name) 0 ms" using magic_file_with by blast
  let ?ms = "ms\<lparr>o_buf := None, o_pbuf := None, had_err := False, ms_error := - 1\<rparr>"
  have r: "file_reset (base_env T) ms = Ret 0 ?ms" using assms(6) by (auto simp: file_reset_def)
  obtain a b where ab: "vasprintf (base_env T) (bytes ''%sdirectory'') [Arg_str []] = Some a" "vasprintf (base_env T) (bytes '' '') [] = Some b"
    using assms(2) by blast
  have k: "fs_kind (base_env T) ''directory'' (bytes ''%sdirectory'') [] 0 ?ms = Ret (Inr 1) (?ms\<lparr>o_buf := Some a\<rparr>)"
    using ab assms(8) by (simp add: fs_kind_def COMMA_def file_printf_def append_text_def)
  have "fs_switch (base_env T) w call name sb 0 ?ms = Some (Ret (Inr (- 1, 1)) (?ms\<lparr>o_buf := Some a\<rparr>))"
    using k assms(5) by (simp add: fs_switch_def Let_def)
  moreover have "mode_bits_text sb = []" using assms(10-12) by (simp add: mode_bits_text_def)
  ultimately have "file_fsmagic (base_env T) w call (Some name) ?ms = Some (Ret (- 1, Some sb) (?ms\<lparr>o_buf := Some (a @ b)\<rparr>))"
    using ab(2) assms(3,4,7-9) by (simp add: file_fsmagic_def Let_def file_printf_def append_text_def)
  then show ?thesis unfolding c file_or_fd_with_def using assms(1) r ab by (simp add: answer_def magic_error_def)
qed

theorem directory_is_null_witness:
  "\<exists>ms'. magic_file plain_kit (one_file 0x41ed []) 0 (Some (bytes ''d'')) (empty_set 0) = Some (Ret None ms') \<and> magic_error (Some ms') = None"
proof -
  have v: "\<forall>f va. vasprintf (base_env plain_kit) f va \<noteq> None"
    by (auto simp: plain_kit_def plain_env_def plain_vasprintf_def split: list.split printf_arg.split)
  have d: "lstat_of (one_file 0x41ed []) (bytes ''d'') = Inr \<lparr>st_mode = 0x41ed, st_size = 0\<rparr>" by (simp add: one_file_def)
  have "\<exists>ms'. magic_file plain_kit (one_file 0x41ed []) 0 (Some (bytes ''d'')) (empty_set 0) = Some (Ret None ms') \<and>
    magic_error (Some ms') = None \<and> o_buf ms' = Some (the (vasprintf (base_env plain_kit) (bytes ''%sdirectory'') [Arg_str []]) @
      the (vasprintf (base_env plain_kit) (bytes '' '') []))"
    by (rule directory_is_null [OF _ v _ d])
      (simp_all add: plain_kit_def plain_env_def empty_set_def S_IFMT_def bit_iff_odd)
  then show ?thesis by blast
qed

end
