(* ===== verification/Spec2Isabelle.thy ===== *)
theory Spec2Isabelle
  imports TftpProps TftpRules TftpSession HashProps FileSet EncodingProps ModeProps SortProps HumanProps
    XstrtolProps RandProps Ring MagicProps FileProps
begin

text \<open>
  A verification library for the C programs of this repository, which collects exercises: a
  TFTP server and client (\<open>tftp-exercises\<close>), parts of the GNU core utilities and of the \<open>file\<close>
  command typed in again (\<open>coreutils\<close>, \<open>file\<close>), sorting programs (\<open>algorithms\<close>) and the
  beginnings of larger programs. All paths below are relative to \<open>src/\<close>.

  \<^bold>\<open>Conventions.\<close> A C function that may return, call \<open>exit\<close> or run into undefined behaviour (a
  store past an array, a \<open>NULL\<close> dereferenced, a conversion out of range) yields an \<open>outcome\<close> of
  theory \<open>Prelude\<close>: \<open>Ret\<close>, \<open>Exit\<close> or \<open>Fault\<close>, each with the state it is in; where there is no
  state, an option. Integers have the width the code gives them: bytes and modes are words,
  \<open>short\<close>, \<open>int\<close>, \<open>size_t\<close> and \<open>uintmax_t\<close> are integers with the truncation or wrap-around written
  out where the code can reach it. \<open>float\<close> and \<open>double\<close> are rationals with the rounding of IEEE 754
  after each operation (theory \<open>CFloat\<close>). The operating system and what it stores (files,
  sockets, the name service, the clock, whether \<open>malloc\<close> succeeds) are parameters or part of
  the state; nothing is assumed of them but what a theorem says. Loops are structural
  recursions or have a termination proof; the one recursion of the code without a bound of its
  own, \<open>match\<close> of the magic interpreter, takes the depth of calls granted, with a theorem that a
  depth computed from the entries is enough. Interfaces between
  components are locales, each interpreted on the definitions of the code.

  \<^bold>\<open>TFTP.\<close> The server forks a child per request; child and client then run the same kind of
  program, a table of handlers indexed by the last opcode sent and the opcode received
  (\<open>fsm.c\<close>, \<open>fsm_cli.c\<close>), driven by datagrams and by an alarm whose length the round-trip
  timer computes.
    \<^item> \<open>TftpRtt\<close>: \<open>server/rtt.c\<close>, \<open>client/rtt_cli.c\<close>. \<open>TftpDefs\<close>: \<open>defs.h\<close>, \<open>initvars.c\<close>; the record of all
      globals. \<open>TftpFile\<close>: \<open>file.c\<close>, \<open>file_cli.c\<close>, the local file with the netascii conversion.
    \<^item> \<open>TftpServer\<close>: \<open>sendrecv.c\<close>, \<open>net_udp.c\<close>, \<open>fsm.c\<close>, \<open>mainserver.c\<close>. \<open>TftpClient\<close>: \<open>sendrecv_cli.c\<close>,
      \<open>netudp_cli.c\<close>, \<open>fsm_cli.c\<close>, \<open>cmdgetput.c\<close>. A blocking \<open>recvfrom\<close> is an element of the list of
      events (a datagram, or an interruption by the alarm) that \<open>fsm_loop\<close> runs over.
    \<^item> \<open>TftpCommand\<close>: \<open>cmd.c\<close>, \<open>cmdsubr.c\<close>, \<open>mainclient.c\<close>, \<open>udp_open.c\<close>: lines, tokens, the command table.
      The lines that standard input delivers are a list, a transfer a list of events.
    \<^item> \<open>TftpLink\<close> is the specification: stop and wait over a network that may lose, duplicate
      and reorder, between a \<open>tftp_sender\<close> and a \<open>tftp_receiver\<close> (locales), with the invariant
      proved once. \<open>TftpEngine\<close>, \<open>TftpEnds\<close> show that both programs are both. \<open>TftpTransfer\<close>
      composes them into whole transfers; what the received file holds is a prefix of the
      file sent, and all of it when the receiver ends well.
    \<^item> \<open>TftpTimer\<close> bounds the estimators (for a clock within ten million seconds); \<open>TftpLive\<close>,
      \<open>TftpComplete\<close>, \<open>TftpStart\<close> prove that a transfer without losses completes (of fewer
      than 65535 blocks, so that the 16-bit block numbers do not repeat); \<open>TftpSilence\<close> that a program that
      hears nothing gives up at the fifth timeout; \<open>TftpRequest\<close>, \<open>TftpPackets\<close> treat requests
      and single packets. \<open>TftpProps\<close>, \<open>TftpRules\<close>, \<open>TftpSession\<close> hold the properties.

  \<^bold>\<open>Hash tables.\<close> \<open>HashTable\<close> is \<open>coreutils/lib/hash.c\<close>, every operation, with allocations that
  may fail and the tuning in \<open>float\<close>. \<open>HashFacts\<close> holds the invariant \<open>table_wf\<close>, the locale
  \<open>hash_user\<close> (what hasher and comparator must satisfy) and lookup, insertion and deletion as
  operations on the set of entries; \<open>HashRehash\<close> prime sizes and rebuilding; \<open>HashScenario\<close>
  what two slips in the code come to: \<open>hash_find_entry\<close> hands the
  comparator the \<open>NULL\<close> of an empty bucket, and \<open>transfer_entries\<close> moves the heads of empty buckets
  too. \<open>HashProps\<close> holds the
  properties. \<open>FileSet\<close> is a user of the table: \<open>file-set.c\<close>, \<open>hash-pjw.c\<close>, \<open>hash-triple.c\<close>, with
  \<open>hash_user\<close> interpreted for \<open>triple_hash\<close> and \<open>triple_compare_ino_str\<close>.

  \<^bold>\<open>Text encodings.\<close> \<open>Encoding\<close> is \<open>file/encoding.c\<close>; \<open>EncodingFacts\<close>, \<open>EncodingProps\<close> compare the
  decoders with encoders of UTF-8, UTF-16 and EBCDIC and show what text is reported as.

  \<^bold>\<open>The magic interpreter.\<close> \<open>file\<close> recognises a file by running arrays of magic entries over its
  first bytes. \<open>MagicData\<close> is \<open>file_.h\<close> and what \<open>softmagic.c\<close> calls in \<open>funcs.c\<close> (output, errors, the
  array of level infos) and \<open>apprentice.c\<close> (sign extension, Pascal strings, finding named
  entries); a \<open>union VALUETYPE\<close> is its 64 bytes. \<open>softmagic.c\<close> follows in the order of the code:
  \<open>MagicValue\<close> (\<open>mcopy\<close>, \<open>mconvert\<close>, indirect offsets), \<open>SoftMagic\<close> (comparing strings, \<open>moffset\<close>,
  \<open>mprint\<close>), \<open>MagicMatch\<close> (\<open>magiccheck\<close>, \<open>mget\<close>, \<open>match\<close>, \<open>file_softmagic\<close>). Formatting, regular
  expressions, dates, allocation and the arithmetic on floating-point numbers are the
  parameters of the record \<open>environ\<close>.
    \<^item> \<open>MagicTree\<close>: the specification. The levels of an array are the depths of a list of trees
      in preorder, and \<open>match\<close> with its loops and skips is a recursion over these trees; the
      test of one entry is the locale \<open>level_test\<close>, interpreted on \<open>cont_entry\<close>.
    \<^item> \<open>MagicCalls\<close>: more depth changes no result; \<open>depth_ok\<close> computes a sufficient depth from the
      \<open>use\<close> entries, and nothing that \<open>match\<close> runs changes the loaded entries.
    \<^item> \<open>MagicFacts\<close>: storing and loading the members of the union, the numbers that bytes
      stand for, searching. \<open>MagicProps\<close> holds the properties.

  \<^bold>\<open>The file command.\<close> Around the interpreter, \<open>magic_file\<close> looks at the inode, reads the first bytes,
  tries the tests in turn and hands out what they have printed. \<open>FileText\<close>: \<open>is_tar.c\<close>,
  \<open>ascmagic.c\<close>, and of \<open>funcs.c\<close> \<open>file_replace\<close> (a loop that may not end, as \<open>partial_function\<close>) and
  \<open>file_getbuffer\<close>. \<open>FileDriver\<close>: \<open>fsmagic.c\<close>, \<open>file_buffer\<close>, \<open>file_or_fd\<close>, over a file system given as
  the record \<open>files\<close>; it composes the encodings, the tests and the interpreter. \<open>FileFacts\<close> shows
  what the counters of a text count, that \<open>encode_utf8\<close> encodes what \<open>file_looks_utf8\<close> decodes and
  never lacks room, and the checksum of tar headers; \<open>FileRuns\<close> whole runs and what they leave
  alone; \<open>FileProps\<close> the properties.

  \<^bold>\<open>Numbers and modes.\<close> \<open>ModeChange\<close>, \<open>ModeProps\<close>: \<open>coreutils/lib/modechange.c\<close>; octal modes do what
  they say, symbolic ones are all refused. \<open>Human\<close>, \<open>HumanProps\<close>: \<open>human.c\<close> where integer
  arithmetic suffices (the result is bounded by \<open>2 ^ 64\<close>, and \<open>10 * (to div from)\<close> must be too);
  the specification is the exact quotient as a real number. \<open>Xstrtol\<close>, \<open>XstrtolProps\<close>:
  \<open>xstrtol.c\<close> in its three instances and \<open>inttostr.c\<close>, against the numerals of \<open>Decimal\<close>.
  \<open>Randint\<close>, \<open>RandProps\<close>: \<open>randint.c\<close> over an arbitrary list of random bytes, for ranges below
  \<open>2 ^ 56\<close> (the code shifts by a byte before it compares). \<open>Ring\<close>: \<open>i-ring.c\<close>, a refinement of
  the locale \<open>bounded_stack\<close>.

  \<^bold>\<open>Sorting.\<close> \<open>Sorting\<close>, \<open>SortProps\<close>: \<open>algorithms/quicksort.c\<close>, which permutes and leaves at most
  neighbours in the wrong order, and \<open>simple_quicksort.c\<close>, which sorts (arrays whose length
  keeps the sum of two indices in \<open>int\<close>).

  \<^bold>\<open>Not modelled.\<close> The parser of the \<open>file\<close> command's magic data base, its ELF and CDF readers, its
  decompression and its options (\<open>apprentice.c\<close>, \<open>readelf.c\<close>, \<open>cdf.c\<close>, \<open>compress.c\<close>, \<open>file.c\<close>): parsers and
  printers around file formats.
  The directory walks and removal of \<open>coreutils/lib\<close> (\<open>fts.c\<close>, \<open>remove.c\<close>, \<open>openat.c\<close>): sequences of
  system calls whose meaning is the kernel's. The programs in \<open>coreutils/src\<close>: option parsing
  and printing. The random generator (\<open>rand-isaac.c\<close>, \<open>randread.c\<close>). The \<open>long double\<close> path of
  \<open>human.c\<close>. \<open>binutils\<close>: declarations of a library whose bodies are mostly absent. The servers
  in \<open>Peotrix\<close> and \<open>Peotrix_nginx\<close>, \<open>SysVInit\<close>: process set-up, signals, terminals. What is only
  printed is left out everywhere.
\<close>

end
